(* ===== verification/Prelude.thy ===== *)
theory Prelude
  imports
    Main
    "HOL-Library.Word"
    "HOL-Library.Multiset"
    "HOL-Library.List_Lexorder"
    "HOL-Library.Product_Lexorder"
begin

text \<open>
  Shared vocabulary of the development: Rust strings as lists of Unicode scalar values, the
  functions of Rust's \<open>str\<close> that the sources call, \<open>Result\<close> as a sum type, and the checked and
  saturating integer operations of \<open>i64\<close> and \<open>u64\<close>. Nothing here models a file of the repository;
  these are the parts of the language and its standard library that the components use.
  The collections \<open>str_simps\<close>, \<open>result_simps\<close> and \<open>int_simps\<close> carry the generic facts into the
  component proofs.
\<close>

named_theorems str_simps
named_theorems result_simps
named_theorems int_simps

section \<open>Results\<close>

text \<open>A \<open>Result<A, E>\<close> is a value of type \<open>'e + 'a\<close>: \<open>Inl\<close> carries the error.\<close>

abbreviation Err :: "'e \<Rightarrow> 'e + 'a" where "Err \<equiv> Inl"
abbreviation Ok :: "'a \<Rightarrow> 'e + 'a" where "Ok \<equiv> Inr"

fun bindR :: "'e + 'a \<Rightarrow> ('a \<Rightarrow> 'e + 'b) \<Rightarrow> 'e + 'b" where
  "bindR (Inl e) f = Inl e"
| "bindR (Inr x) f = f x"

fun map_err :: "('e \<Rightarrow> 'f) \<Rightarrow> 'e + 'a \<Rightarrow> 'f + 'a" where
  "map_err g (Inl e) = Inl (g e)"
| "map_err g (Inr x) = Inr x"

fun is_ok :: "'e + 'a \<Rightarrow> bool" where
  "is_ok (Inl e) = False"
| "is_ok (Inr x) = True"

text \<open>\<open>Option::ok_or\<close>, and \<open>Option<Result>::transpose\<close> after a \<open>map\<close>.\<close>

definition ok_or :: "'e \<Rightarrow> 'a option \<Rightarrow> 'e + 'a" where
  "ok_or e x = (case x of None \<Rightarrow> Inl e | Some v \<Rightarrow> Inr v)"

definition transposeR :: "('a \<Rightarrow> 'e + 'b) \<Rightarrow> 'a option \<Rightarrow> 'e + 'b option" where
  "transposeR f x = (case x of None \<Rightarrow> Inr None
     | Some v \<Rightarrow> (case f v of Inl e \<Rightarrow> Inl e | Inr w \<Rightarrow> Inr (Some w)))"

text \<open>A loop that pushes \<open>f(row)?\<close> for every row.\<close>

fun collectR :: "('a \<Rightarrow> 'e + 'b) \<Rightarrow> 'a list \<Rightarrow> 'e + 'b list" where
  "collectR f [] = Inr []"
| "collectR f (x # xs) =
     (case f x of Inl e \<Rightarrow> Inl e
      | Inr y \<Rightarrow> (case collectR f xs of Inl e \<Rightarrow> Inl e | Inr ys \<Rightarrow> Inr (y # ys)))"

lemma bindR_Ok_iff [result_simps]: "bindR r f = Inr y \<longleftrightarrow> (\<exists>x. r = Inr x \<and> f x = Inr y)"
  by (cases r) auto

lemma bindR_Err_iff [result_simps]:
  "bindR r f = Inl e \<longleftrightarrow> r = Inl e \<or> (\<exists>x. r = Inr x \<and> f x = Inl e)"
  by (cases r) auto

lemma map_err_Ok_iff [result_simps]: "map_err g r = Inr x \<longleftrightarrow> r = Inr x"
  by (cases r) auto

lemma map_err_Err_iff [result_simps]: "map_err g r = Inl e \<longleftrightarrow> (\<exists>e'. r = Inl e' \<and> e = g e')"
  by (cases r) auto

lemma is_ok_iff [result_simps]: "is_ok r \<longleftrightarrow> (\<exists>x. r = Inr x)"
  by (cases r) auto

lemma ok_or_Ok_iff [result_simps]: "ok_or e x = Inr v \<longleftrightarrow> x = Some v"
  by (auto simp: ok_or_def split: option.splits)

lemma transposeR_all:
  "(\<And>v. x = Some v \<Longrightarrow> f v = Inr (g v)) \<Longrightarrow> transposeR f x = Inr (map_option g x)"
  by (auto simp: transposeR_def split: option.splits)

lemma collectR_all:
  "(\<And>x. x \<in> set xs \<Longrightarrow> f x = Inr (g x)) \<Longrightarrow> collectR f xs = Inr (map g xs)"
  by (induction xs) auto

lemma collectR_Ok_length: "collectR f xs = Inr ys \<Longrightarrow> length ys = length xs"
  by (induction xs arbitrary: ys) (auto split: sum.splits)

lemma collectR_Ok_nth: "collectR f xs = Inr ys \<Longrightarrow> i < length xs \<Longrightarrow> f (xs ! i) = Inr (ys ! i)"
proof (induction xs arbitrary: ys i)
  case (Cons x xs)
  then show ?case by (cases i) (auto split: sum.splits)
qed simp

section \<open>Strings\<close>

text \<open>
  A Rust \<open>str\<close> is the list of its Unicode scalar values. Its \<open>len\<close> counts UTF-8 bytes. Rust
  compares strings bytewise in UTF-8, which is the lexicographic order of the scalar values, the
  order \<open>List_Lexorder\<close> gives \<^typ>\<open>nat list\<close>. \<open>lit\<close> embeds an ASCII literal.
\<close>

type_synonym rstr = "nat list"
type_synonym u8 = "8 word"
type_synonym bytes = "u8 list"

definition lit :: "string \<Rightarrow> rstr" where
  "lit s = map of_char s"

definition utf8_len :: "nat \<Rightarrow> nat" where
  "utf8_len c = (if c < 0x80 then 1 else if c < 0x800 then 2 else if c < 0x10000 then 3 else 4)"

definition str_len :: "rstr \<Rightarrow> nat" where
  "str_len s = sum_list (map utf8_len s)"

definition is_ascii_alphanumeric :: "nat \<Rightarrow> bool" where
  "is_ascii_alphanumeric c \<longleftrightarrow> (48 \<le> c \<and> c \<le> 57) \<or> (65 \<le> c \<and> c \<le> 90) \<or> (97 \<le> c \<and> c \<le> 122)"

definition is_whitespace :: "nat \<Rightarrow> bool" where
  "is_whitespace c \<longleftrightarrow>
     (9 \<le> c \<and> c \<le> 13) \<or> c = 32 \<or> c = 0x85 \<or> c = 0xA0 \<or> c = 0x1680 \<or>
     (0x2000 \<le> c \<and> c \<le> 0x200A) \<or> c = 0x2028 \<or> c = 0x2029 \<or> c = 0x202F \<or> c = 0x205F \<or> c = 0x3000"

definition is_control :: "nat \<Rightarrow> bool" where
  "is_control c \<longleftrightarrow> c \<le> 0x1F \<or> (0x7F \<le> c \<and> c \<le> 0x9F)"

definition trim :: "rstr \<Rightarrow> rstr" where
  "trim s = rev (dropWhile is_whitespace (rev (dropWhile is_whitespace s)))"

definition strip_prefix :: "rstr \<Rightarrow> rstr \<Rightarrow> rstr option" where
  "strip_prefix p s = (if take (length p) s = p then Some (drop (length p) s) else None)"

fun split_on :: "nat \<Rightarrow> rstr \<Rightarrow> rstr list" where
  "split_on d [] = [[]]"
| "split_on d (c # cs) =
     (if c = d then [] # split_on d cs
      else (case split_on d cs of [] \<Rightarrow> [[c]] | p # ps \<Rightarrow> (c # p) # ps))"

text \<open>\<open>char_indices().find(p)\<close>: the byte offset and the character of the first match.\<close>

fun find_char :: "(nat \<Rightarrow> bool) \<Rightarrow> nat \<Rightarrow> rstr \<Rightarrow> (nat \<times> nat) option" where
  "find_char p i [] = None"
| "find_char p i (c # cs) = (if p c then Some (i, c) else find_char p (i + utf8_len c) cs)"

lemma utf8_len_bounds [str_simps]: "1 \<le> utf8_len c" "utf8_len c \<le> 4"
  by (simp_all add: utf8_len_def)

lemma str_len_Nil [simp]: "str_len [] = 0"
  by (simp add: str_len_def)

lemma str_len_Cons [simp]: "str_len (c # s) = utf8_len c + str_len s"
  by (simp add: str_len_def)

lemma str_len_append [simp]: "str_len (s @ t) = str_len s + str_len t"
  by (simp add: str_len_def)

lemma str_len_ge_length: "length s \<le> str_len s"
proof (induction s)
  case (Cons c s)
  then show ?case using utf8_len_bounds(1) [of c] by simp
qed simp

lemma str_len_ascii: "(\<And>c. c \<in> set s \<Longrightarrow> c < 128) \<Longrightarrow> str_len s = length s"
  by (induction s) (simp_all add: utf8_len_def)

lemma str_len_pos: "s \<noteq> [] \<Longrightarrow> 0 < str_len s"
  using str_len_ge_length [of s] by (cases s) auto

lemma lit_append [simp]: "lit (s @ t) = lit s @ lit t"
  by (simp add: lit_def)

lemma length_lit [simp]: "length (lit s) = length s"
  by (simp add: lit_def)

lemma lit_eq_iff [simp]: "lit s = lit t \<longleftrightarrow> s = t"
  by (simp add: lit_def inj_map_eq_map inj_of_char)

lemma lit_eq_Nil [simp]: "lit s = [] \<longleftrightarrow> s = []"
  by (simp add: lit_def)

lemma is_ascii_alphanumeric_ascii: "is_ascii_alphanumeric c \<Longrightarrow> c < 128"
  by (auto simp: is_ascii_alphanumeric_def)

lemma strip_prefix_Some_iff [str_simps]: "strip_prefix p s = Some r \<longleftrightarrow> s = p @ r"
  unfolding strip_prefix_def
  by (auto, metis append_take_drop_id)

lemma strip_prefix_append [simp]: "strip_prefix p (p @ r) = Some r"
  by (simp add: strip_prefix_def)

lemma split_on_nonempty [simp]: "split_on d s \<noteq> []"
  by (induction s) (auto split: list.splits)

lemma split_on_no_delim: "d \<notin> set s \<Longrightarrow> split_on d s = [s]"
  by (induction s) auto

lemma split_on_append: "d \<notin> set s \<Longrightarrow> split_on d (s @ d # t) = s # split_on d t"
  by (induction s) (auto split: list.splits)

lemma split_on_pieces: "p \<in> set (split_on d s) \<Longrightarrow> d \<notin> set p"
  by (induction s arbitrary: p) (auto split: list.splits if_splits)

fun join_on :: "nat \<Rightarrow> rstr list \<Rightarrow> rstr" where
  "join_on d [] = []"
| "join_on d [p] = p"
| "join_on d (p # q # ps) = p @ d # join_on d (q # ps)"

lemma join_on_split_on: "join_on d (split_on d s) = s"
proof (induction s)
  case (Cons c s)
  obtain p ps where sp: "split_on d s = p # ps"
    by (cases "split_on d s") auto
  with Cons show ?case by (cases ps) auto
qed simp

lemma find_char_None_iff [str_simps]: "find_char p i s = None \<longleftrightarrow> (\<forall>c\<in>set s. \<not> p c)"
  by (induction s arbitrary: i) auto

lemma find_char_Some:
  "find_char p i s = Some (j, c) \<Longrightarrow>
     \<exists>pre post. s = pre @ c # post \<and> p c \<and> (\<forall>x\<in>set pre. \<not> p x) \<and> j = i + str_len pre"
proof (induction s arbitrary: i)
  case (Cons x s)
  show ?case
  proof (cases "p x")
    case True
    with Cons.prems have "x # s = [] @ c # s \<and> p c \<and> j = i + str_len []" by simp
    then show ?thesis by (intro exI [of _ "[]"] exI [of _ s]) simp
  next
    case False
    with Cons.prems have "find_char p (i + utf8_len x) s = Some (j, c)" by simp
    from Cons.IH [OF this] obtain pre post
      where "s = pre @ c # post" "p c" "\<forall>x\<in>set pre. \<not> p x" "j = i + utf8_len x + str_len pre"
      by blast
    with False show ?thesis by (intro exI [of _ "x # pre"] exI [of _ post]) simp
  qed
qed simp

lemma hd_trim: "trim s \<noteq> [] \<Longrightarrow> \<not> is_whitespace (hd (trim s))"
proof -
  let ?t = "dropWhile is_whitespace s"
  assume ne: "trim s \<noteq> []"
  have "rev ?t = takeWhile is_whitespace (rev ?t) @ dropWhile is_whitespace (rev ?t)" by simp
  then have eq: "?t = trim s @ rev (takeWhile is_whitespace (rev ?t))"
    unfolding trim_def by (metis rev_append rev_rev_ident)
  with ne have "hd ?t = hd (trim s)" by (metis hd_append2)
  moreover have "?t \<noteq> []" using eq ne by (metis Nil_is_append_conv)
  ultimately show ?thesis using hd_dropWhile [of is_whitespace s] by simp
qed

lemma last_trim: "trim s \<noteq> [] \<Longrightarrow> \<not> is_whitespace (last (trim s))"
  unfolding trim_def by (simp add: last_rev hd_dropWhile)

lemma trim_id:
  "s \<noteq> [] \<Longrightarrow> \<not> is_whitespace (hd s) \<Longrightarrow> \<not> is_whitespace (last s) \<Longrightarrow> trim s = s"
proof -
  assume s: "s \<noteq> []" "\<not> is_whitespace (hd s)" "\<not> is_whitespace (last s)"
  then have "dropWhile is_whitespace s = s"
    by (cases s) auto
  moreover from s have "dropWhile is_whitespace (rev s) = rev s"
    by (cases s rule: rev_cases) auto
  ultimately show ?thesis by (simp add: trim_def)
qed

lemma trim_trim [simp]: "trim (trim s) = trim s"
proof (cases "trim s = []")
  case True
  then show ?thesis by (simp only: trim_def) simp
next
  case False
  then show ?thesis by (intro trim_id hd_trim last_trim)
qed

section \<open>Integers\<close>

text \<open>
  Values of \<open>i64\<close> are \<^typ>\<open>int\<close> with the range written out, values of \<open>u64\<close>, \<open>u32\<close>, \<open>u16\<close> and
  \<open>usize\<close> are \<^typ>\<open>nat\<close>; every operation that can leave the range is one of the following.
\<close>

definition i64_max :: int where "i64_max = 2 ^ 63 - 1"
definition i64_min :: int where "i64_min = - (2 ^ 63)"
definition u64_max :: nat where "u64_max = 2 ^ 64 - 1"
definition u32_max :: nat where "u32_max = 2 ^ 32 - 1"
definition u16_max :: nat where "u16_max = 2 ^ 16 - 1"

definition in_i64 :: "int \<Rightarrow> bool" where
  "in_i64 x \<longleftrightarrow> i64_min \<le> x \<and> x \<le> i64_max"

definition i64_try_from :: "int \<Rightarrow> int option" where
  "i64_try_from x = (if in_i64 x then Some x else None)"

definition checked_add_i64 :: "int \<Rightarrow> int \<Rightarrow> int option" where
  "checked_add_i64 x y = (if in_i64 (x + y) then Some (x + y) else None)"

definition checked_mul_i64 :: "int \<Rightarrow> int \<Rightarrow> int option" where
  "checked_mul_i64 x y = (if in_i64 (x * y) then Some (x * y) else None)"

definition saturating_add_i64 :: "int \<Rightarrow> int \<Rightarrow> int" where
  "saturating_add_i64 x y = max i64_min (min i64_max (x + y))"

definition saturating_sub_i64 :: "int \<Rightarrow> int \<Rightarrow> int" where
  "saturating_sub_i64 x y = max i64_min (min i64_max (x - y))"

definition u64_try_from :: "int \<Rightarrow> nat option" where
  "u64_try_from x = (if 0 \<le> x \<and> x \<le> int u64_max then Some (nat x) else None)"

definition u32_try_from :: "int \<Rightarrow> nat option" where
  "u32_try_from x = (if 0 \<le> x \<and> x \<le> int u32_max then Some (nat x) else None)"

definition u16_try_from :: "int \<Rightarrow> nat option" where
  "u16_try_from x = (if 0 \<le> x \<and> x \<le> int u16_max then Some (nat x) else None)"

definition saturating_add_u64 :: "nat \<Rightarrow> nat \<Rightarrow> nat" where
  "saturating_add_u64 x y = min u64_max (x + y)"

definition checked_add_u64 :: "nat \<Rightarrow> nat \<Rightarrow> nat option" where
  "checked_add_u64 x y = (if x + y \<le> u64_max then Some (x + y) else None)"

lemmas int_bounds [int_simps] = i64_max_def i64_min_def u64_max_def u32_max_def u16_max_def

lemma checked_add_i64_Some [int_simps]: "checked_add_i64 x y = Some z \<longleftrightarrow> z = x + y \<and> in_i64 z"
  by (auto simp: checked_add_i64_def)

lemma i64_try_from_Some [int_simps]: "i64_try_from x = Some y \<longleftrightarrow> y = x \<and> in_i64 x"
  by (auto simp: i64_try_from_def)

lemma saturating_add_in_i64 [simp]: "in_i64 (saturating_add_i64 x y)"
  by (simp add: saturating_add_i64_def in_i64_def i64_min_def i64_max_def)

lemma saturating_sub_in_i64 [simp]: "in_i64 (saturating_sub_i64 x y)"
  by (simp add: saturating_sub_i64_def in_i64_def i64_min_def i64_max_def)

section \<open>Keyed tables\<close>

text \<open>
  A table is a list of rows; \<open>tbl key rows\<close> is the map from keys to rows that a query by key sees
  (the first match). With distinct keys, insertion, update and deletion act on the map as expected.
\<close>

named_theorems tbl_simps

definition tbl :: "('r \<Rightarrow> 'k) \<Rightarrow> 'r list \<Rightarrow> 'k \<rightharpoonup> 'r" where
  "tbl key rows k = find (\<lambda>r. key r = k) rows"

definition keyed :: "('r \<Rightarrow> 'k) \<Rightarrow> 'r list \<Rightarrow> bool" where
  "keyed key rows \<longleftrightarrow> distinct (map key rows)"

definition update_rows :: "('r \<Rightarrow> bool) \<Rightarrow> ('r \<Rightarrow> 'r) \<Rightarrow> 'r list \<Rightarrow> 'r list" where
  "update_rows p f rows = map (\<lambda>r. if p r then f r else r) rows"

definition count_rows :: "('r \<Rightarrow> bool) \<Rightarrow> 'r list \<Rightarrow> nat" where
  "count_rows p rows = length (filter p rows)"

lemma tbl_Nil [simp]: "tbl key [] = Map.empty"
  by (simp add: tbl_def fun_eq_iff)

lemma tbl_Cons: "tbl key (r # rows) k = (if key r = k then Some r else tbl key rows k)"
  by (simp add: tbl_def)

lemma tbl_None_iff [tbl_simps]: "tbl key rows k = None \<longleftrightarrow> (\<forall>r\<in>set rows. key r \<noteq> k)"
  by (auto simp: tbl_def find_None_iff)

lemma tbl_SomeD: "tbl key rows k = Some r \<Longrightarrow> r \<in> set rows \<and> key r = k"
  by (auto simp: tbl_def find_Some_iff)

lemma tbl_Some_iff: "keyed key rows \<Longrightarrow> tbl key rows k = Some r \<longleftrightarrow> r \<in> set rows \<and> key r = k"
  by (induction rows) (auto simp: tbl_Cons keyed_def)

lemma tbl_append: "tbl key (xs @ ys) = tbl key ys ++ tbl key xs"
  by (induction xs) (auto simp: tbl_Cons map_add_def fun_eq_iff split: option.splits)

lemma tbl_snoc [tbl_simps]:
  "tbl key rows (key r) = None \<Longrightarrow> tbl key (rows @ [r]) = (tbl key rows)(key r \<mapsto> r)"
  by (auto simp: tbl_append tbl_Cons map_add_def fun_eq_iff split: option.splits)

lemma keyed_snoc: "keyed key rows \<Longrightarrow> tbl key rows (key r) = None \<Longrightarrow> keyed key (rows @ [r])"
  by (auto simp: keyed_def tbl_None_iff)

lemma tbl_update_rows:
  assumes "\<And>r. p r \<Longrightarrow> key (f r) = key r"
  shows "tbl key (update_rows p f rows) k = map_option (\<lambda>r. if p r then f r else r) (tbl key rows k)"
  using assms by (induction rows) (auto simp: tbl_Cons update_rows_def)

lemma keyed_update_rows:
  assumes "\<And>r. p r \<Longrightarrow> key (f r) = key r" and "keyed key rows"
  shows "keyed key (update_rows p f rows)"
proof -
  have "map key (update_rows p f rows) = map key rows"
    using assms(1) by (auto simp: update_rows_def)
  with assms(2) show ?thesis by (simp add: keyed_def)
qed

lemma tbl_filter:
  "keyed key rows \<Longrightarrow>
     tbl key (filter p rows) k = (case tbl key rows k of None \<Rightarrow> None
       | Some r \<Rightarrow> if p r then Some r else None)"
  by (induction rows)
    (auto simp: tbl_Cons keyed_def tbl_None_iff image_iff split: option.splits dest!: tbl_SomeD)

lemma keyed_filter: "keyed key rows \<Longrightarrow> keyed key (filter p rows)"
  by (simp add: keyed_def distinct_map_filter)

lemma keyed_distinct: "keyed key rows \<Longrightarrow> distinct rows"
  by (auto simp: keyed_def distinct_map)

lemma count_rows_key:
  assumes "keyed key rows"
  shows "count_rows (\<lambda>r. key r = k \<and> p r) rows =
           (case tbl key rows k of None \<Rightarrow> 0 | Some r \<Rightarrow> if p r then 1 else 0)"
  using assms
proof (induction rows)
  case (Cons x rows)
  then show ?case
  proof (cases "key x = k")
    case True
    with Cons.prems have "filter (\<lambda>r. key r = k \<and> p r) rows = []"
      by (auto simp: keyed_def filter_empty_conv image_iff)
    with True show ?thesis by (auto simp: count_rows_def tbl_Cons)
  next
    case False
    with Cons show ?thesis by (auto simp: count_rows_def tbl_Cons keyed_def)
  qed
qed (simp add: count_rows_def)

lemma length_update_rows [simp]: "length (update_rows p f rows) = length rows"
  by (simp add: update_rows_def)

lemma set_update_rows: "set (update_rows p f rows) = (\<lambda>r. if p r then f r else r) ` set rows"
  by (simp add: update_rows_def)

end
