(* ===== verification/Sql_Database.thy ===== *)
theory Sql_Database
  imports Prelude
begin

text \<open>
  The database of \<open>bondry-store-sqlcipher\<close>: the tables of schema version 8 (\<open>database.rs\<close>,
  \<open>usage.rs\<close>) as lists of rows, and the connection behind the store's mutex. Each SQL statement of
  the sources is modelled where it is executed, as the list operation it denotes together with the
  constraints of its table. SQLite itself may fail at any call: \<open>cn_plan\<close> says, call by call, which
  ones do (locking a poisoned mutex included), and \<open>attempt\<close> consumes one entry. A transaction that
  is dropped without a commit leaves the data as it was.
\<close>

section \<open>Rows\<close>

record client_row =
  cr_id :: rstr
  cr_name :: rstr
  cr_enabled :: int
  cr_created_at :: int

record token_row =
  kr_id :: rstr
  kr_client :: rstr
  kr_label :: "rstr option"
  kr_digest :: bytes
  kr_created_at :: int
  kr_expires_at :: "int option"
  kr_revoked_at :: "int option"

record audit_row =
  au_sequence :: int
  au_occurred_at_ms :: int
  au_invocation :: rstr
  au_principal :: rstr
  au_adapter :: rstr
  au_capability :: rstr
  au_outcome_kind :: rstr
  au_detail_code :: "rstr option"

record grant_row =
  gw_principal :: rstr
  gw_adapter :: rstr
  gw_capability :: rstr

record delivery_row =
  dl_sequence :: int
  dl_delivery :: rstr
  dl_route :: rstr
  dl_accepted_at_ms :: int
  dl_attempts :: int
  dl_state :: rstr
  dl_failure :: "rstr option"
  dl_updated_at_ms :: int
  dl_result_category :: "rstr option"
  dl_result_bytes :: "int option"
  dl_charged_bytes :: int

record dedup_row =
  dd_sequence :: int
  dd_route :: rstr
  dd_namespace :: rstr
  dd_hash :: bytes
  dd_state :: rstr
  dd_automatic_expiry :: int
  dd_updated_at_ms :: int
  dd_expires_at_ms :: "int option"
  dd_charged_bytes :: int

text \<open>A row of \<open>storage_usage\<close>: the record count and the charged bytes of one table.\<close>

record usage_row =
  us_records :: int
  us_charged_bytes :: int

text \<open>The \<open>db_seq\<close> fields are the \<open>AUTOINCREMENT\<close> counters: the largest sequence ever assigned.\<close>

record database =
  db_clients :: "client_row list"
  db_tokens :: "token_row list"
  db_audit :: "audit_row list"
  db_seq_audit :: int
  db_grants :: "grant_row list"
  db_delivery :: "delivery_row list"
  db_seq_delivery :: int
  db_dedup :: "dedup_row list"
  db_seq_dedup :: int
  db_usage_delivery :: usage_row
  db_usage_dedup :: usage_row

definition empty_database :: database where
  "empty_database =
     \<lparr>db_clients = [], db_tokens = [], db_audit = [], db_seq_audit = 0, db_grants = [],
      db_delivery = [], db_seq_delivery = 0, db_dedup = [], db_seq_dedup = 0,
      db_usage_delivery = \<lparr>us_records = 0, us_charged_bytes = 0\<rparr>,
      db_usage_dedup = \<lparr>us_records = 0, us_charged_bytes = 0\<rparr>\<rparr>"

section \<open>Connections\<close>

record conn =
  cn_data :: database
  cn_plan :: "bool list"

definition tick :: "conn \<Rightarrow> bool \<times> conn" where
  "tick c = (case cn_plan c of [] \<Rightarrow> (False, c) | b # bs \<Rightarrow> (b, c\<lparr>cn_plan := bs\<rparr>))"

definition attempt :: "'e \<Rightarrow> conn \<Rightarrow> (conn \<Rightarrow> ('e + 'a) \<times> conn) \<Rightarrow> ('e + 'a) \<times> conn" where
  "attempt e c k = (case tick c of (True, c') \<Rightarrow> (Err e, c') | (False, c') \<Rightarrow> k c')"

text \<open>
  Inside a transaction a step returns its result, whether it committed, and the connection.
  \<open>transaction\<close> begins one (which may fail) and rolls back what was not committed.
\<close>

definition attemptT ::
    "'e \<Rightarrow> conn \<Rightarrow> (conn \<Rightarrow> ('e + 'a) \<times> bool \<times> conn) \<Rightarrow> ('e + 'a) \<times> bool \<times> conn" where
  "attemptT e c k = (case tick c of (True, c') \<Rightarrow> (Err e, False, c') | (False, c') \<Rightarrow> k c')"

definition commit :: "'e \<Rightarrow> conn \<Rightarrow> 'e + 'a \<Rightarrow> ('e + 'a) \<times> bool \<times> conn" where
  "commit e c r = attemptT e c (\<lambda>c. (r, True, c))"

definition transaction ::
    "'e \<Rightarrow> conn \<Rightarrow> (conn \<Rightarrow> ('e + 'a) \<times> bool \<times> conn) \<Rightarrow> ('e + 'a) \<times> conn" where
  "transaction e c body =
     attempt e c (\<lambda>c. case body c of (r, committed, c') \<Rightarrow>
       (r, if committed then c' else c'\<lparr>cn_data := cn_data c\<rparr>))"

definition update_data :: "(database \<Rightarrow> database) \<Rightarrow> conn \<Rightarrow> conn" where
  "update_data f c = c\<lparr>cn_data := f (cn_data c)\<rparr>"

text \<open>A connection on which no further call fails.\<close>

definition healthy :: "conn \<Rightarrow> bool" where
  "healthy c \<longleftrightarrow> (\<forall>b\<in>set (cn_plan c). \<not> b)"

lemma cn_data_update [simp]: "cn_data (update_data f c) = f (cn_data c)"
  by (simp add: update_data_def)

lemma cn_plan_update [simp]: "cn_plan (update_data f c) = cn_plan c"
  by (simp add: update_data_def)

lemma healthy_update [simp]: "healthy (update_data f c) = healthy c"
  by (simp add: healthy_def)

lemma healthy_data [simp]: "healthy (c\<lparr>cn_data := d\<rparr>) = healthy c"
  by (simp add: healthy_def)

lemma tick_data [simp]: "cn_data (snd (tick c)) = cn_data c"
  by (simp add: tick_def split: list.splits)

lemma tick_healthy: "healthy c \<Longrightarrow> \<not> fst (tick c) \<and> healthy (snd (tick c))"
  by (auto simp: tick_def healthy_def split: list.splits)

text \<open>The two rules by which every operation below is analysed.\<close>

lemma attempt_cases:
  assumes "attempt e c k = (r, c')"
  obtains (failed) "r = Err e" "cn_data c' = cn_data c" "\<not> healthy c"
  | (passed) c1 where "cn_data c1 = cn_data c" "healthy c \<Longrightarrow> healthy c1" "k c1 = (r, c')"
proof -
  obtain b c1 where t: "tick c = (b, c1)" by (cases "tick c")
  with tick_data [of c] have d: "cn_data c1 = cn_data c" by simp
  show thesis
  proof (cases b)
    case True
    with t assms d tick_healthy [of c] show ?thesis by (intro failed) (auto simp: attempt_def)
  next
    case False
    with t assms d tick_healthy [of c] show ?thesis by (intro passed [of c1]) (auto simp: attempt_def)
  qed
qed

lemma attemptT_cases:
  assumes "attemptT e c k = (r, b, c')"
  obtains (failed) "r = Err e" "\<not> b" "cn_data c' = cn_data c" "\<not> healthy c"
  | (passed) c1 where "cn_data c1 = cn_data c" "healthy c \<Longrightarrow> healthy c1" "k c1 = (r, b, c')"
proof -
  obtain f c1 where t: "tick c = (f, c1)" by (cases "tick c")
  with tick_data [of c] have d: "cn_data c1 = cn_data c" by simp
  show thesis
  proof (cases f)
    case True
    with t assms d tick_healthy [of c] show ?thesis by (intro failed) (auto simp: attemptT_def)
  next
    case False
    with t assms d tick_healthy [of c] show ?thesis by (intro passed [of c1]) (auto simp: attemptT_def)
  qed
qed

lemma transaction_cases:
  assumes "transaction e c body = (r, c')"
  obtains (failed) "r = Err e" "cn_data c' = cn_data c" "\<not> healthy c"
  | (committed) c1 where "cn_data c1 = cn_data c" "healthy c \<Longrightarrow> healthy c1"
      "body c1 = (r, True, c')"
  | (rolled_back) c1 c2 where "cn_data c1 = cn_data c" "healthy c \<Longrightarrow> healthy c1"
      "body c1 = (r, False, c2)" "cn_data c' = cn_data c" "healthy c' = healthy c2"
  using assms unfolding transaction_def
proof (cases rule: attempt_cases)
  case failed
  with that(1) show ?thesis by blast
next
  case (passed c1)
  obtain r' b c2 where b: "body c1 = (r', b, c2)" by (cases "body c1") auto
  with passed that(2,3) show ?thesis by (cases b) auto
qed

lemma commit_cases:
  assumes "commit e c r = (r', b, c')"
  obtains (failed) "r' = Err e" "\<not> b" "\<not> healthy c" "cn_data c' = cn_data c"
  | (finished) "r' = r" "b" "cn_data c' = cn_data c" "healthy c \<Longrightarrow> healthy c'"
  using assms unfolding commit_def
  by (cases rule: attemptT_cases) (use that in auto)

text \<open>On a connection without pending faults every call goes through.\<close>

lemma attempt_clear [simp]: "cn_plan c = [] \<Longrightarrow> attempt e c k = k c"
  by (simp add: attempt_def tick_def)

lemma attemptT_clear [simp]: "cn_plan c = [] \<Longrightarrow> attemptT e c k = k c"
  by (simp add: attemptT_def tick_def)

lemma commit_clear [simp]: "cn_plan c = [] \<Longrightarrow> commit e c r = (r, True, c)"
  by (simp add: commit_def)

lemma transaction_clear [simp]:
  "cn_plan c = [] \<Longrightarrow> transaction e c body =
     (case body c of (r, committed, c') \<Rightarrow>
       (r, if committed then c' else c'\<lparr>cn_data := cn_data c\<rparr>))"
  by (simp add: transaction_def)

end
