(* ===== verification/Identifiers.thy ===== *)
theory Identifiers
  imports Prelude
begin

text \<open>
  The validated identifiers of \<open>bondry-core\<close> (\<open>identifier.rs\<close>: adapters, capabilities, handler
  error codes, invocations, principals) and of \<open>bondry-delivery-store\<close> (\<open>identifier.rs\<close>: routes,
  deliveries, verifier namespaces). Each Rust newtype wraps a string that passed \<open>validate\<close>; here
  it is that string, and \<open>valid_identifier\<close> states what validation guarantees.
\<close>

section \<open>Core identifiers\<close>

definition MAX_IDENTIFIER_LENGTH :: nat where
  "MAX_IDENTIFIER_LENGTH = 128"

datatype identifier_error =
    IdEmpty
  | IdTooLong
  | IdInvalidCharacter nat nat

definition is_allowed :: "nat \<Rightarrow> bool" where
  "is_allowed c \<longleftrightarrow> is_ascii_alphanumeric c \<or> c = 46 \<or> c = 58 \<or> c = 95 \<or> c = 45"

definition validate_identifier :: "rstr \<Rightarrow> identifier_error + unit" where
  "validate_identifier v =
     (if v = [] then Err IdEmpty
      else if str_len v > MAX_IDENTIFIER_LENGTH then Err IdTooLong
      else (case find_char (\<lambda>c. \<not> is_allowed c) 0 v of
              Some (index, character) \<Rightarrow> Err (IdInvalidCharacter index character)
            | None \<Rightarrow> Ok ()))"

type_synonym adapter_id = rstr
type_synonym capability_id = rstr
type_synonym handler_error_code = rstr
type_synonym invocation_id = rstr
type_synonym principal_id = rstr

definition identifier_new :: "rstr \<Rightarrow> identifier_error + rstr" where
  "identifier_new v = bindR (validate_identifier v) (\<lambda>_. Ok v)"

text \<open>\<open>FromStr\<close> and \<open>Deserialize\<close> both go through \<open>new\<close>; \<open>Serialize\<close> writes \<open>as_str\<close>.\<close>

definition identifier_from_str :: "rstr \<Rightarrow> identifier_error + rstr" where
  "identifier_from_str v = identifier_new v"

definition identifier_serialize :: "rstr \<Rightarrow> rstr" where
  "identifier_serialize v = v"

definition identifier_deserialize :: "rstr \<Rightarrow> identifier_error + rstr" where
  "identifier_deserialize v = identifier_new v"

section \<open>Persistence identifiers\<close>

definition MAX_ROUTE_ID_BYTES :: nat where "MAX_ROUTE_ID_BYTES = 128"
definition MAX_DELIVERY_ID_BYTES :: nat where "MAX_DELIVERY_ID_BYTES = 128"
definition MAX_VERIFIER_NAMESPACE_BYTES :: nat where "MAX_VERIFIER_NAMESPACE_BYTES = 128"

datatype persistence_identifier_error =
    PidEmpty
  | PidTooLong nat
  | PidInvalidCharacter nat nat

definition persistence_is_allowed :: "nat \<Rightarrow> bool" where
  "persistence_is_allowed c \<longleftrightarrow> is_ascii_alphanumeric c \<or> c = 46 \<or> c = 58 \<or> c = 95 \<or> c = 45"

definition validate_persistence :: "rstr \<Rightarrow> nat \<Rightarrow> persistence_identifier_error + unit" where
  "validate_persistence v maximum =
     (if v = [] then Err PidEmpty
      else if str_len v > maximum then Err (PidTooLong maximum)
      else (case find_char (\<lambda>c. \<not> persistence_is_allowed c) 0 v of
              Some (index, character) \<Rightarrow> Err (PidInvalidCharacter index character)
            | None \<Rightarrow> Ok ()))"

type_synonym route_id = rstr
type_synonym delivery_id = rstr
type_synonym verifier_namespace = rstr

definition persistence_identifier_new :: "nat \<Rightarrow> rstr \<Rightarrow> persistence_identifier_error + rstr" where
  "persistence_identifier_new maximum v = bindR (validate_persistence v maximum) (\<lambda>_. Ok v)"

definition RouteId_new :: "rstr \<Rightarrow> persistence_identifier_error + route_id" where
  "RouteId_new = persistence_identifier_new MAX_ROUTE_ID_BYTES"

definition DeliveryId_new :: "rstr \<Rightarrow> persistence_identifier_error + delivery_id" where
  "DeliveryId_new = persistence_identifier_new MAX_DELIVERY_ID_BYTES"

definition VerifierNamespace_new :: "rstr \<Rightarrow> persistence_identifier_error + verifier_namespace" where
  "VerifierNamespace_new = persistence_identifier_new MAX_VERIFIER_NAMESPACE_BYTES"

section \<open>What validation guarantees\<close>

definition valid_identifier :: "rstr \<Rightarrow> bool" where
  "valid_identifier v \<longleftrightarrow> v \<noteq> [] \<and> length v \<le> 128 \<and> (\<forall>c\<in>set v. is_allowed c)"

lemma is_allowed_ascii: "is_allowed c \<Longrightarrow> c < 128"
  by (auto simp: is_allowed_def dest: is_ascii_alphanumeric_ascii)

lemma persistence_is_allowed_eq [simp]: "persistence_is_allowed = is_allowed"
  by (simp add: persistence_is_allowed_def is_allowed_def fun_eq_iff)

lemma str_len_allowed: "\<forall>c\<in>set v. is_allowed c \<Longrightarrow> str_len v = length v"
  by (rule str_len_ascii) (auto dest: is_allowed_ascii)

lemma validate_identifier_Ok_iff: "validate_identifier v = Ok u \<longleftrightarrow> valid_identifier v"
  using str_len_allowed [of v]
  by (auto simp: validate_identifier_def valid_identifier_def MAX_IDENTIFIER_LENGTH_def str_simps
      split: option.splits)
     (metis find_char_None_iff option.distinct(1))+

lemma identifier_new_Ok_iff [result_simps]: "identifier_new v = Ok w \<longleftrightarrow> w = v \<and> valid_identifier v"
  by (auto simp: identifier_new_def bindR_Ok_iff validate_identifier_Ok_iff)

lemma identifier_new_valid [simp]: "valid_identifier v \<Longrightarrow> identifier_new v = Ok v"
  by (simp add: identifier_new_Ok_iff)

lemma validate_persistence_Ok_iff:
  "validate_persistence v 128 = Ok u \<longleftrightarrow> valid_identifier v"
  using str_len_allowed [of v]
  by (auto simp: validate_persistence_def valid_identifier_def str_simps split: option.splits)
     (metis find_char_None_iff option.distinct(1))+

lemma persistence_identifier_new_Ok_iff:
  "persistence_identifier_new 128 v = Ok w \<longleftrightarrow> w = v \<and> valid_identifier v"
  by (auto simp: persistence_identifier_new_def bindR_Ok_iff validate_persistence_Ok_iff)

lemma persistence_new_Ok_iff [result_simps]:
  "RouteId_new v = Ok w \<longleftrightarrow> w = v \<and> valid_identifier v"
  "DeliveryId_new v = Ok w \<longleftrightarrow> w = v \<and> valid_identifier v"
  "VerifierNamespace_new v = Ok w \<longleftrightarrow> w = v \<and> valid_identifier v"
  by (simp_all add: RouteId_new_def DeliveryId_new_def VerifierNamespace_new_def
      MAX_ROUTE_ID_BYTES_def MAX_DELIVERY_ID_BYTES_def MAX_VERIFIER_NAMESPACE_BYTES_def
      persistence_identifier_new_Ok_iff)

lemma persistence_new_valid [simp]:
  "valid_identifier v \<Longrightarrow> RouteId_new v = Ok v"
  "valid_identifier v \<Longrightarrow> DeliveryId_new v = Ok v"
  "valid_identifier v \<Longrightarrow> VerifierNamespace_new v = Ok v"
  by (simp_all add: persistence_new_Ok_iff)

lemma valid_identifier_str_len: "valid_identifier v \<Longrightarrow> 1 \<le> str_len v \<and> str_len v \<le> 128"
  using str_len_pos [of v] str_len_allowed [of v] by (simp add: valid_identifier_def Suc_le_eq)

lemma valid_identifier_append:
  "valid_identifier p \<Longrightarrow> \<forall>c\<in>set s. is_allowed c \<Longrightarrow> length p + length s \<le> 128 \<Longrightarrow>
     valid_identifier (p @ s)"
  by (auto simp: valid_identifier_def)

text \<open>The exact error for every input: the first offending character wins, at its byte offset.\<close>

lemma validate_identifier_error_char:
  assumes "validate_identifier v = Err (IdInvalidCharacter i c)"
  shows "\<exists>pre post. v = pre @ c # post \<and> \<not> is_allowed c \<and> (\<forall>x\<in>set pre. is_allowed x)
           \<and> i = length pre"
proof -
  from assms have "find_char (\<lambda>c. \<not> is_allowed c) 0 v = Some (i, c)"
    by (auto simp: validate_identifier_def split: if_splits option.splits)
  from find_char_Some [OF this] obtain pre post
    where "v = pre @ c # post" "\<not> is_allowed c" "\<forall>x\<in>set pre. is_allowed x" "i = str_len pre"
    by auto
  with str_len_allowed [of pre] show ?thesis by auto
qed

end
