(* ===== verification/Core_Model.thy ===== *)
theory Core_Model
  imports Identifiers
begin

text \<open>
  The protocol-neutral data of \<open>bondry-core\<close>: principals (\<open>identity.rs\<close>), invocations
  (\<open>invocation.rs\<close>, \<open>invocation_id.rs\<close>), audit events (\<open>audit.rs\<close>), capability descriptors
  (\<open>capability.rs\<close>) and the capability registry (\<open>registry.rs\<close>).
  JSON values are a type parameter \<open>'v\<close>; what the code asks of \<open>serde_json\<close> and \<open>jsonschema\<close> is
  the record \<open>schema_ops\<close>. A handler is a function from its context, its input and the host's state
  \<open>'w\<close> to a result and the host's next state.
\<close>

section \<open>Principals and invocations\<close>

datatype principal_kind = User | Application | System

record principal =
  pr_id :: principal_id
  pr_kind :: principal_kind

record 'v invocation =
  inv_id :: invocation_id
  inv_adapter :: adapter_id
  inv_principal :: principal
  inv_capability :: capability_id
  inv_input :: 'v

record invocation_context =
  ctx_id :: invocation_id
  ctx_adapter :: adapter_id
  ctx_principal :: principal
  ctx_capability :: capability_id

definition from_invocation :: "'v invocation \<Rightarrow> invocation_context" where
  "from_invocation i =
     \<lparr>ctx_id = inv_id i, ctx_adapter = inv_adapter i, ctx_principal = inv_principal i,
      ctx_capability = inv_capability i\<rparr>"

text \<open>
  \<open>SystemInvocationIdGenerator::generate\<close>: \<open>entropy\<close> is the outcome of \<open>getrandom::fill\<close> on a
  buffer of the given size, \<open>encode\<close> the URL-safe unpadded base64 encoder.
\<close>

datatype invocation_id_generation_error = InvocationIdGenerationError

definition RANDOM_BYTES :: nat where "RANDOM_BYTES = 16"

definition generate_invocation_id ::
    "(bytes \<Rightarrow> rstr) \<Rightarrow> (nat \<Rightarrow> bytes option) \<Rightarrow> invocation_id_generation_error + invocation_id" where
  "generate_invocation_id encode entropy =
     (case entropy RANDOM_BYTES of
        None \<Rightarrow> Err InvocationIdGenerationError
      | Some random \<Rightarrow>
          map_err (\<lambda>_. InvocationIdGenerationError)
            (identifier_new (lit ''request_'' @ encode random)))"

section \<open>Audit events\<close>

datatype denial_reason = NotGranted | PolicyUnavailable

datatype audit_outcome =
    AuditCapabilityNotFound
  | AuditDenied denial_reason
  | AuditStarted
  | AuditInvalidInput
  | AuditSucceeded
  | AuditHandlerFailed handler_error_code

text \<open>A \<open>SystemTime\<close> is a number of nanoseconds relative to the Unix epoch.\<close>

type_synonym system_time = int

record audit_event =
  ev_occurred_at :: system_time
  ev_invocation :: invocation_id
  ev_principal :: principal_id
  ev_adapter :: adapter_id
  ev_capability :: capability_id
  ev_outcome :: audit_outcome

definition audit_event_from_parts ::
    "system_time \<Rightarrow> invocation_id \<Rightarrow> principal_id \<Rightarrow> adapter_id \<Rightarrow> capability_id \<Rightarrow> audit_outcome
       \<Rightarrow> audit_event" where
  "audit_event_from_parts t i p a c r =
     \<lparr>ev_occurred_at = t, ev_invocation = i, ev_principal = p, ev_adapter = a, ev_capability = c,
      ev_outcome = r\<rparr>"

definition audit_event_new :: "system_time \<Rightarrow> invocation_context \<Rightarrow> audit_outcome \<Rightarrow> audit_event" where
  "audit_event_new now context outcome =
     audit_event_from_parts now (ctx_id context) (pr_id (ctx_principal context))
       (ctx_adapter context) (ctx_capability context) outcome"

datatype audit_error = AuditUnavailable

text \<open>An audit sink over a state \<open>'a\<close>: the outcome of \<open>record\<close> and the next state.\<close>

type_synonym 'a audit_sink = "'a \<Rightarrow> audit_event \<Rightarrow> (audit_error + unit) \<times> 'a"

definition noop_audit_record :: "'a audit_sink" where
  "noop_audit_record s event = (Ok (), s)"

section \<open>Capabilities\<close>

definition MAX_CAPABILITY_SUMMARY_LENGTH :: nat where "MAX_CAPABILITY_SUMMARY_LENGTH = 256"
definition MAX_CAPABILITY_SCHEMA_LENGTH :: nat where "MAX_CAPABILITY_SCHEMA_LENGTH = 65536"

datatype capability_effect = ReadOnly | Mutating

datatype capability_summary_error = SummaryEmpty | SummaryTooLong | SummaryControlCharacter

definition CapabilitySummary_new :: "rstr \<Rightarrow> capability_summary_error + rstr" where
  "CapabilitySummary_new v =
     (if trim v = [] then Err SummaryEmpty
      else if str_len v > MAX_CAPABILITY_SUMMARY_LENGTH then Err SummaryTooLong
      else if list_ex is_control v then Err SummaryControlCharacter
      else Ok v)"

datatype capability_schema_error = SchemaNotObject | SchemaTooLarge | SchemaInvalid

text \<open>
  The third-party operations on JSON documents: \<open>Value::is_object\<close>, the length of
  \<open>serde_json::to_vec\<close> (\<open>None\<close> when encoding fails), the 2020-12 meta-schema check, and the schema
  compiler, whose validator is the predicate \<open>is_valid\<close>.
\<close>

record 'v schema_ops =
  json_is_object :: "'v \<Rightarrow> bool"
  json_encoded_len :: "'v \<Rightarrow> nat option"
  meta_is_valid :: "'v \<Rightarrow> bool"
  schema_compile :: "'v \<Rightarrow> ('v \<Rightarrow> bool) option"
  permissive_schema :: 'v

record 'v input_schema =
  sch_document :: "'v option"
  sch_validator :: "('v \<Rightarrow> bool) option"

definition input_schema_default :: "'v input_schema" where
  "input_schema_default = \<lparr>sch_document = None, sch_validator = None\<rparr>"

definition CapabilityInputSchema_new ::
    "'v schema_ops \<Rightarrow> 'v \<Rightarrow> capability_schema_error + 'v input_schema" where
  "CapabilityInputSchema_new ops document =
     (if \<not> json_is_object ops document then Err SchemaNotObject
      else if (case json_encoded_len ops document of
                 None \<Rightarrow> True | Some n \<Rightarrow> n > MAX_CAPABILITY_SCHEMA_LENGTH)
      then Err SchemaTooLarge
      else if \<not> meta_is_valid ops document then Err SchemaInvalid
      else (case schema_compile ops document of
              None \<Rightarrow> Err SchemaInvalid
            | Some validator \<Rightarrow>
                Ok \<lparr>sch_document = Some document, sch_validator = Some validator\<rparr>))"

definition schema_document :: "'v schema_ops \<Rightarrow> 'v input_schema \<Rightarrow> 'v" where
  "schema_document ops s =
     (case sch_document s of None \<Rightarrow> permissive_schema ops | Some d \<Rightarrow> d)"

definition schema_accepts :: "'v input_schema \<Rightarrow> 'v \<Rightarrow> bool" where
  "schema_accepts s input = (case sch_validator s of None \<Rightarrow> True | Some valid \<Rightarrow> valid input)"

definition schema_eq :: "'v schema_ops \<Rightarrow> 'v input_schema \<Rightarrow> 'v input_schema \<Rightarrow> bool" where
  "schema_eq ops s t \<longleftrightarrow> schema_document ops s = schema_document ops t"

record 'v descriptor =
  cd_id :: capability_id
  cd_summary :: rstr
  cd_effect :: capability_effect
  cd_input_schema :: "'v input_schema"

definition CapabilityDescriptor_new ::
    "capability_id \<Rightarrow> rstr \<Rightarrow> capability_effect \<Rightarrow> capability_summary_error + 'v descriptor" where
  "CapabilityDescriptor_new i summary effect =
     bindR (CapabilitySummary_new summary)
       (\<lambda>s. Ok \<lparr>cd_id = i, cd_summary = s, cd_effect = effect,
                cd_input_schema = input_schema_default\<rparr>)"

definition with_input_schema ::
    "'v schema_ops \<Rightarrow> 'v descriptor \<Rightarrow> 'v \<Rightarrow> capability_schema_error + 'v descriptor" where
  "with_input_schema ops d schema =
     bindR (CapabilityInputSchema_new ops schema) (\<lambda>s. Ok (d\<lparr>cd_input_schema := s\<rparr>))"

definition accepts_input :: "'v descriptor \<Rightarrow> 'v \<Rightarrow> bool" where
  "accepts_input d input = schema_accepts (cd_input_schema d) input"

record handler_error =
  he_code :: handler_error_code

type_synonym ('v, 'w) handler =
  "invocation_context \<Rightarrow> 'v \<Rightarrow> 'w \<Rightarrow> (handler_error + 'v) \<times> 'w"

section \<open>The registry\<close>

text \<open>
  The \<open>HashMap\<close> from identifiers to capabilities is an association list in insertion order; no
  operation depends on that order.
\<close>

record ('v, 'w) registered_capability =
  rc_descriptor :: "'v descriptor"
  rc_handler :: "('v, 'w) handler"

type_synonym ('v, 'w) registry = "(capability_id \<times> ('v, 'w) registered_capability) list"

datatype registration_error = RegDuplicate capability_id

definition registry_new :: "('v, 'w) registry" where
  "registry_new = []"

definition register ::
    "('v, 'w) registry \<Rightarrow> 'v descriptor \<Rightarrow> ('v, 'w) handler
       \<Rightarrow> (registration_error + unit) \<times> ('v, 'w) registry" where
  "register reg d h =
     (case map_of reg (cd_id d) of
        Some _ \<Rightarrow> (Err (RegDuplicate (cd_id d)), reg)
      | None \<Rightarrow> (Ok (), reg @ [(cd_id d, \<lparr>rc_descriptor = d, rc_handler = h\<rparr>)]))"

definition registry_len :: "('v, 'w) registry \<Rightarrow> nat" where
  "registry_len reg = length reg"

definition registry_is_empty :: "('v, 'w) registry \<Rightarrow> bool" where
  "registry_is_empty reg \<longleftrightarrow> reg = []"

definition descriptors :: "('v, 'w) registry \<Rightarrow> 'v descriptor list" where
  "descriptors reg = sort_key cd_id (map (rc_descriptor \<circ> snd) reg)"

definition resolve ::
    "('v, 'w) registry \<Rightarrow> capability_id \<Rightarrow> ('v descriptor \<times> ('v, 'w) handler) option" where
  "resolve reg i = map_option (\<lambda>c. (rc_descriptor c, rc_handler c)) (map_of reg i)"

section \<open>Registry invariant\<close>

definition registry_wf :: "('v, 'w) registry \<Rightarrow> bool" where
  "registry_wf reg \<longleftrightarrow>
     distinct (map fst reg) \<and> (\<forall>(k, c)\<in>set reg. cd_id (rc_descriptor c) = k)"

lemma registry_wf_new [simp]: "registry_wf registry_new"
  by (simp add: registry_wf_def registry_new_def)

lemma register_wf: "registry_wf reg \<Longrightarrow> registry_wf (snd (register reg d h))"
  by (auto simp: registry_wf_def register_def map_of_eq_None_iff split: option.splits)

lemma resolve_id: "registry_wf reg \<Longrightarrow> resolve reg i = Some (d, h) \<Longrightarrow> cd_id d = i"
  by (auto simp: registry_wf_def resolve_def dest!: map_of_SomeD)

lemma resolve_register:
  assumes "fst (register reg d h) = Ok ()"
  shows "resolve (snd (register reg d h)) = (resolve reg)(cd_id d \<mapsto> (d, h))"
  using assms
  by (auto simp: resolve_def register_def fun_eq_iff map_add_def split: option.splits)

lemma register_duplicate:
  "fst (register reg d h) = Err e \<Longrightarrow>
     e = RegDuplicate (cd_id d) \<and> resolve reg (cd_id d) \<noteq> None \<and> snd (register reg d h) = reg"
  by (auto simp: register_def resolve_def split: option.splits)

lemma set_descriptors: "set (descriptors reg) = (rc_descriptor \<circ> snd) ` set reg"
  by (simp add: descriptors_def)

lemma map_id_descriptors:
  assumes "registry_wf reg"
  shows "map cd_id (descriptors reg) = sort (map fst reg)"
proof -
  have ids: "map cd_id (map (rc_descriptor \<circ> snd) reg) = map fst reg"
    using assms by (auto simp: registry_wf_def)
  have "map cd_id (sort_key cd_id xs) = sort (map cd_id xs)" for xs :: "'a descriptor list"
    by (rule sym, rule properties_for_sort) simp_all
  then show ?thesis by (simp only: descriptors_def ids)
qed

lemma descriptors_resolve:
  assumes "registry_wf reg"
  shows "d \<in> set (descriptors reg) \<longleftrightarrow> (\<exists>h. resolve reg (cd_id d) = Some (d, h))"
proof
  assume "d \<in> set (descriptors reg)"
  then obtain k c where kc: "(k, c) \<in> set reg" "d = rc_descriptor c"
    by (auto simp: set_descriptors)
  with assms have "map_of reg k = Some c" "k = cd_id d"
    by (auto simp: registry_wf_def)
  with kc show "\<exists>h. resolve reg (cd_id d) = Some (d, h)" by (auto simp: resolve_def)
next
  assume "\<exists>h. resolve reg (cd_id d) = Some (d, h)"
  then show "d \<in> set (descriptors reg)"
    by (force simp: resolve_def set_descriptors dest!: map_of_SomeD)
qed

end
