(* ===== verification/Core_Policy.thy ===== *)
theory Core_Policy
  imports Core_Model "HOL-Library.Finite_Map"
begin

text \<open>
  Authorization (\<open>bondry-core/src/policy.rs\<close>). A policy maps a request to a decision; grants are
  exact triples of a principal, an adapter and a capability. The locale \<open>grant_authority\<close> is the
  contract the dispatcher relies on: a policy allows exactly the triples of an abstract grant set,
  unless its state cannot be read. \<open>GrantPolicy\<close> and \<open>DenyAllPolicy\<close> are interpreted here, the
  persistent policy over SQLCipher where its store is modelled.
\<close>

section \<open>Requests, decisions, grants\<close>

datatype authorization_decision = Allow | Deny denial_reason

record 'v authorization_request =
  req_principal :: principal
  req_adapter :: adapter_id
  req_capability :: "'v descriptor"

record capability_grant =
  gr_principal :: principal_id
  gr_adapter :: adapter_id
  gr_capability :: capability_id

type_synonym grant_triple = "principal_id \<times> adapter_id \<times> capability_id"

definition request_triple :: "'v authorization_request \<Rightarrow> grant_triple" where
  "request_triple r = (pr_id (req_principal r), req_adapter r, cd_id (req_capability r))"

definition grant_of :: "capability_grant \<Rightarrow> grant_triple" where
  "grant_of g = (gr_principal g, gr_adapter g, gr_capability g)"

section \<open>Policies\<close>

datatype grant_store_error = GrantStoreUnavailable
datatype policy_update_error = PolicyUpdateUnavailable

text \<open>\<open>GrantStore\<close> as a table of operations over a store state \<open>'s\<close>.\<close>

record 's grant_store =
  gs_add_grant :: "'s \<Rightarrow> capability_grant \<Rightarrow> (grant_store_error + bool) \<times> 's"
  gs_remove_grant :: "'s \<Rightarrow> capability_grant \<Rightarrow> (grant_store_error + bool) \<times> 's"
  gs_contains_grant ::
    "'s \<Rightarrow> principal_id \<Rightarrow> adapter_id \<Rightarrow> capability_id \<Rightarrow> (grant_store_error + bool) \<times> 's"
  gs_grants_for_principal ::
    "'s \<Rightarrow> principal_id \<Rightarrow> (grant_store_error + capability_grant list) \<times> 's"

text \<open>A policy over a state \<open>'s\<close>; reading it may advance the state of a shared connection.\<close>

type_synonym ('s, 'v) policy = "'s \<Rightarrow> 'v authorization_request \<Rightarrow> authorization_decision \<times> 's"

definition stored_grant_evaluate :: "'s grant_store \<Rightarrow> ('s, 'v) policy" where
  "stored_grant_evaluate store s request =
     (case gs_contains_grant store s (pr_id (req_principal request)) (req_adapter request)
             (cd_id (req_capability request)) of
        (Inr True, s') \<Rightarrow> (Allow, s')
      | (Inr False, s') \<Rightarrow> (Deny NotGranted, s')
      | (Inl GrantStoreUnavailable, s') \<Rightarrow> (Deny PolicyUnavailable, s'))"

definition deny_all_evaluate :: "('s, 'v) policy" where
  "deny_all_evaluate s request = (Deny NotGranted, s)"

type_synonym grants = "(principal_id, (adapter_id, capability_id fset) fmap) fmap"

text \<open>The lock around the grants is poisoned once a writer has panicked.\<close>

record grant_policy =
  gp_poisoned :: bool
  gp_grants :: grants

definition GrantPolicy_new :: grant_policy where
  "GrantPolicy_new = \<lparr>gp_poisoned = False, gp_grants = fmempty\<rparr>"

definition or_default :: "'b \<Rightarrow> 'b option \<Rightarrow> 'b" where
  "or_default d x = (case x of None \<Rightarrow> d | Some v \<Rightarrow> v)"

definition grant_policy_grant ::
    "grant_policy \<Rightarrow> principal_id \<Rightarrow> adapter_id \<Rightarrow> capability_id
       \<Rightarrow> (policy_update_error + bool) \<times> grant_policy" where
  "grant_policy_grant gp prin adapter capability =
     (if gp_poisoned gp then (Err PolicyUpdateUnavailable, gp)
      else
        let adapters = or_default fmempty (fmlookup (gp_grants gp) prin);
            capabilities = or_default {||} (fmlookup adapters adapter);
            adapters' = fmupd adapter (finsert capability capabilities) adapters
        in (Ok (capability |\<notin>| capabilities),
            gp\<lparr>gp_grants := fmupd prin adapters' (gp_grants gp)\<rparr>))"

definition grant_policy_revoke ::
    "grant_policy \<Rightarrow> principal_id \<Rightarrow> adapter_id \<Rightarrow> capability_id
       \<Rightarrow> (policy_update_error + bool) \<times> grant_policy" where
  "grant_policy_revoke gp prin adapter capability =
     (if gp_poisoned gp then (Err PolicyUpdateUnavailable, gp)
      else
        (case fmlookup (gp_grants gp) prin of
           None \<Rightarrow> (Ok False, gp)
         | Some adapters \<Rightarrow>
             (case fmlookup adapters adapter of
                None \<Rightarrow> (Ok False, gp)
              | Some capabilities \<Rightarrow>
                  let capabilities' = capabilities |-| {|capability|};
                      adapters' = (if capabilities' = {||} then fmdrop adapter adapters
                                   else fmupd adapter capabilities' adapters);
                      grants' = (if adapters' = fmempty then fmdrop prin (gp_grants gp)
                                 else fmupd prin adapters' (gp_grants gp))
                  in (Ok (capability |\<in>| capabilities), gp\<lparr>gp_grants := grants'\<rparr>))))"

definition grant_policy_allowed :: "grants \<Rightarrow> principal_id \<Rightarrow> adapter_id \<Rightarrow> capability_id \<Rightarrow> bool" where
  "grant_policy_allowed g prin adapter capability =
     (case Option.bind (fmlookup g prin) (\<lambda>adapters. fmlookup adapters adapter) of
        None \<Rightarrow> False
      | Some capabilities \<Rightarrow> capability |\<in>| capabilities)"

definition grant_policy_evaluate :: "(grant_policy, 'v) policy" where
  "grant_policy_evaluate gp request =
     (if gp_poisoned gp then (Deny PolicyUnavailable, gp)
      else if grant_policy_allowed (gp_grants gp) (pr_id (req_principal request))
                (req_adapter request) (cd_id (req_capability request))
      then (Allow, gp)
      else (Deny NotGranted, gp))"

section \<open>The contract of a policy\<close>

locale grant_authority =
  fixes evaluate :: "('s, 'v) policy"
    and granted :: "'s \<Rightarrow> grant_triple set"
    and readable :: "'s \<Rightarrow> bool"
  assumes evaluate_allow: "fst (evaluate s r) = Allow \<Longrightarrow> request_triple r \<in> granted s"
    and evaluate_not_granted:
      "fst (evaluate s r) = Deny NotGranted \<Longrightarrow> request_triple r \<notin> granted s"
    and evaluate_readable: "readable s \<Longrightarrow> fst (evaluate s r) \<noteq> Deny PolicyUnavailable"
    and evaluate_granted: "granted (snd (evaluate s r)) = granted s"
    and evaluate_stays_readable: "readable s \<Longrightarrow> readable (snd (evaluate s r))"
begin

lemma decision_cases:
  obtains "fst (evaluate s r) = Allow" "request_triple r \<in> granted s"
  | "fst (evaluate s r) = Deny NotGranted" "request_triple r \<notin> granted s"
  | "fst (evaluate s r) = Deny PolicyUnavailable" "\<not> readable s"
proof (cases "fst (evaluate s r)")
  case Allow
  with evaluate_allow that show ?thesis by blast
next
  case (Deny reason)
  then show ?thesis
    using that evaluate_not_granted evaluate_readable by (cases reason) auto
qed

lemma readable_decision:
  "readable s \<Longrightarrow>
     fst (evaluate s r) = (if request_triple r \<in> granted s then Allow else Deny NotGranted)"
  by (cases rule: decision_cases [of s r]) auto

end

section \<open>The in-memory policy keeps an exact grant set\<close>

definition grant_policy_set :: "grant_policy \<Rightarrow> grant_triple set" where
  "grant_policy_set gp = {(p, a, c). grant_policy_allowed (gp_grants gp) p a c}"

definition grant_policy_wf :: "grant_policy \<Rightarrow> bool" where
  "grant_policy_wf gp \<longleftrightarrow>
     (\<forall>p adapters. fmlookup (gp_grants gp) p = Some adapters \<longrightarrow>
        adapters \<noteq> fmempty \<and> (\<forall>a cs. fmlookup adapters a = Some cs \<longrightarrow> cs \<noteq> {||}))"

lemma grant_policy_set_iff:
  "(p, a, c) \<in> grant_policy_set gp \<longleftrightarrow>
     (\<exists>adapters cs. fmlookup (gp_grants gp) p = Some adapters \<and> fmlookup adapters a = Some cs \<and>
        c |\<in>| cs)"
  by (auto simp: grant_policy_set_def grant_policy_allowed_def split: option.splits bind_splits)

lemma fmupd_neq_fmempty [simp]: "fmupd k v m \<noteq> fmempty"
  by (metis fmempty_lookup fmupd_lookup option.distinct(1))

lemma fmdrop_fmemptyD: "fmdrop k m = fmempty \<Longrightarrow> fmlookup m x = Some v \<Longrightarrow> x = k"
  by (metis fmlookup_drop fmempty_lookup option.distinct(1))

lemma grant_policy_set_new [simp]: "grant_policy_set GrantPolicy_new = {}"
  by (auto simp: grant_policy_set_iff GrantPolicy_new_def)

lemma grant_policy_wf_new [simp]: "grant_policy_wf GrantPolicy_new"
  by (simp add: grant_policy_wf_def GrantPolicy_new_def)

lemma grant_policy_grant_set:
  "\<not> gp_poisoned gp \<Longrightarrow>
     grant_policy_set (snd (grant_policy_grant gp p a c)) = insert (p, a, c) (grant_policy_set gp)"
  by (auto simp: grant_policy_grant_def Let_def or_default_def grant_policy_set_iff
      split: option.splits if_splits)

lemma grant_policy_grant_result:
  "\<not> gp_poisoned gp \<Longrightarrow>
     fst (grant_policy_grant gp p a c) = Ok ((p, a, c) \<notin> grant_policy_set gp)"
  by (auto simp: grant_policy_grant_def Let_def or_default_def grant_policy_set_iff
      split: option.splits)

lemma grant_policy_grant_wf:
  "grant_policy_wf gp \<Longrightarrow> grant_policy_wf (snd (grant_policy_grant gp p a c))"
  by (auto simp: grant_policy_grant_def Let_def or_default_def grant_policy_wf_def
      split: option.splits if_splits)

lemma grant_policy_revoke_set:
  "\<not> gp_poisoned gp \<Longrightarrow>
     grant_policy_set (snd (grant_policy_revoke gp p a c)) = grant_policy_set gp - {(p, a, c)}"
  by (auto simp: grant_policy_revoke_def Let_def grant_policy_set_iff
      split: option.splits if_splits dest: fmdrop_fmemptyD)
     (metis fmdrop_fmemptyD fsingletonD fsubsetD option.inject)+

lemma grant_policy_revoke_result:
  "\<not> gp_poisoned gp \<Longrightarrow>
     fst (grant_policy_revoke gp p a c) = Ok ((p, a, c) \<in> grant_policy_set gp)"
  by (auto simp: grant_policy_revoke_def Let_def grant_policy_set_iff split: option.splits)

lemma grant_policy_revoke_wf:
  "grant_policy_wf gp \<Longrightarrow> grant_policy_wf (snd (grant_policy_revoke gp p a c))"
  by (auto simp: grant_policy_revoke_def Let_def grant_policy_wf_def split: option.splits if_splits)

interpretation memory_policy: grant_authority
  grant_policy_evaluate grant_policy_set "\<lambda>gp. \<not> gp_poisoned gp"
  by unfold_locales
     (auto simp: grant_policy_evaluate_def grant_policy_set_def request_triple_def split: if_splits)

interpretation deny_all: grant_authority deny_all_evaluate "\<lambda>_. {}" "\<lambda>_. True"
  by unfold_locales (auto simp: deny_all_evaluate_def)

end
