(* ===== verification/Sql_Grants.thy ===== *)
theory Sql_Grants
  imports Sql_Database Core_Policy
begin

text \<open>
  \<open>GrantStore\<close> for \<open>SqlCipherStore\<close> (\<open>bondry-store-sqlcipher/src/grants.rs\<close>), over the table
  \<open>grants\<close>, whose primary key is the whole triple. The theory ends with the policy that the host
  runs, \<open>StoredGrantPolicy\<close> over this store, as an interpretation of \<open>grant_authority\<close>.
\<close>

section \<open>Operations\<close>

definition grant_row_key :: "grant_row \<Rightarrow> grant_triple" where
  "grant_row_key r = (gw_principal r, gw_adapter r, gw_capability r)"

definition sql_add_grant :: "conn \<Rightarrow> capability_grant \<Rightarrow> (grant_store_error + bool) \<times> conn" where
  "sql_add_grant c g =
     attempt GrantStoreUnavailable c (\<lambda>c. attempt GrantStoreUnavailable c (\<lambda>c.
       if tbl grant_row_key (db_grants (cn_data c)) (grant_of g) \<noteq> None then (Ok False, c)
       else (Ok True, update_data (\<lambda>d. d\<lparr>db_grants := db_grants d @
         [\<lparr>gw_principal = gr_principal g, gw_adapter = gr_adapter g,
           gw_capability = gr_capability g\<rparr>]\<rparr>) c)))"

definition sql_remove_grant :: "conn \<Rightarrow> capability_grant \<Rightarrow> (grant_store_error + bool) \<times> conn" where
  "sql_remove_grant c g =
     attempt GrantStoreUnavailable c (\<lambda>c. attempt GrantStoreUnavailable c (\<lambda>c.
       (Ok (count_rows (\<lambda>r. grant_row_key r = grant_of g) (db_grants (cn_data c)) = 1),
        update_data (\<lambda>d. d\<lparr>db_grants :=
          filter (\<lambda>r. grant_row_key r \<noteq> grant_of g) (db_grants d)\<rparr>) c)))"

definition sql_contains_grant ::
    "conn \<Rightarrow> principal_id \<Rightarrow> adapter_id \<Rightarrow> capability_id \<Rightarrow> (grant_store_error + bool) \<times> conn" where
  "sql_contains_grant c prin adapter capability =
     attempt GrantStoreUnavailable c (\<lambda>c. attempt GrantStoreUnavailable c (\<lambda>c.
       attempt GrantStoreUnavailable c (\<lambda>c.
         (Ok (list_ex (\<lambda>r. gw_principal r = prin \<and> gw_adapter r = adapter \<and>
            gw_capability r = capability) (db_grants (cn_data c))), c))))"

definition decode_grant :: "principal_id \<Rightarrow> grant_row \<Rightarrow> grant_store_error + capability_grant" where
  "decode_grant prin r =
     bindR (map_err (\<lambda>_. GrantStoreUnavailable) (identifier_new (gw_adapter r))) (\<lambda>a.
     bindR (map_err (\<lambda>_. GrantStoreUnavailable) (identifier_new (gw_capability r))) (\<lambda>cap.
       Ok \<lparr>gr_principal = prin, gr_adapter = a, gr_capability = cap\<rparr>))"

definition sql_grants_for_principal ::
    "conn \<Rightarrow> principal_id \<Rightarrow> (grant_store_error + capability_grant list) \<times> conn" where
  "sql_grants_for_principal c prin =
     attempt GrantStoreUnavailable c (\<lambda>c. attempt GrantStoreUnavailable c (\<lambda>c.
       attempt GrantStoreUnavailable c (\<lambda>c.
         (collectR (decode_grant prin) (sort_key (\<lambda>r. (gw_adapter r, gw_capability r))
            (filter (\<lambda>r. gw_principal r = prin) (db_grants (cn_data c)))), c))))"

definition sql_grant_store :: "conn grant_store" where
  "sql_grant_store =
     \<lparr>gs_add_grant = sql_add_grant, gs_remove_grant = sql_remove_grant,
      gs_contains_grant = sql_contains_grant,
      gs_grants_for_principal = sql_grants_for_principal\<rparr>"

section \<open>The grant set\<close>

definition sql_grants :: "conn \<Rightarrow> grant_triple set" where
  "sql_grants c = grant_row_key ` set (db_grants (cn_data c))"

definition sql_grants_wf :: "conn \<Rightarrow> bool" where
  "sql_grants_wf c \<longleftrightarrow>
     keyed grant_row_key (db_grants (cn_data c)) \<and>
     (\<forall>r\<in>set (db_grants (cn_data c)). valid_identifier (gw_adapter r) \<and>
        valid_identifier (gw_capability r))"

definition valid_grant :: "capability_grant \<Rightarrow> bool" where
  "valid_grant g \<longleftrightarrow> valid_identifier (gr_adapter g) \<and> valid_identifier (gr_capability g)"

lemma sql_grants_tbl: "t \<in> sql_grants c \<longleftrightarrow> tbl grant_row_key (db_grants (cn_data c)) t \<noteq> None"
  by (auto simp: sql_grants_def tbl_None_iff)

lemma sql_add_grant_result:
  assumes "sql_add_grant c g = (r, c')"
  shows "(\<exists>e. r = Err e \<and> \<not> healthy c \<and> cn_data c' = cn_data c) \<or>
    r = Ok (grant_of g \<notin> sql_grants c) \<and> sql_grants c' = insert (grant_of g) (sql_grants c) \<and>
    (sql_grants_wf c \<longrightarrow> valid_grant g \<longrightarrow> sql_grants_wf c')"
proof -
  let ?row = "\<lparr>gw_principal = gr_principal g, gw_adapter = gr_adapter g,
           gw_capability = gr_capability g\<rparr>"
  have key: "grant_row_key ?row = grant_of g" by (simp add: grant_row_key_def grant_of_def)
  have "(\<exists>e. r = Err e \<and> \<not> healthy c \<and> cn_data c' = cn_data c) \<or>
    (r = Ok False \<and> grant_of g \<in> sql_grants c \<and> cn_data c' = cn_data c) \<or>
    (r = Ok True \<and> tbl grant_row_key (db_grants (cn_data c)) (grant_row_key ?row) = None \<and>
     cn_data c' = (cn_data c)\<lparr>db_grants := db_grants (cn_data c) @ [?row]\<rparr>)"
    using assms unfolding sql_add_grant_def sql_grants_tbl key
    by (auto elim!: attempt_cases split: if_splits)
  then show ?thesis
  proof (elim disjE conjE)
    assume "grant_of g \<in> sql_grants c" "cn_data c' = cn_data c" "r = Ok False"
    then show ?thesis by (auto simp: sql_grants_def sql_grants_wf_def)
  next
    assume r: "r = Ok True" and new: "tbl grant_row_key (db_grants (cn_data c)) (grant_row_key ?row) = None"
      and d: "cn_data c' = (cn_data c)\<lparr>db_grants := db_grants (cn_data c) @ [?row]\<rparr>"
    from new have "grant_of g \<notin> sql_grants c" by (simp add: sql_grants_tbl key)
    with r d keyed_snoc [OF _ new] show ?thesis
      by (auto simp: sql_grants_def sql_grants_wf_def valid_grant_def grant_row_key_def grant_of_def)
  qed simp
qed

lemma sql_remove_grant_result:
  assumes "sql_remove_grant c g = (r, c')" and "sql_grants_wf c"
  shows "(\<exists>e. r = Err e \<and> \<not> healthy c \<and> cn_data c' = cn_data c) \<or>
    r = Ok (grant_of g \<in> sql_grants c) \<and> sql_grants c' = sql_grants c - {grant_of g} \<and>
    sql_grants_wf c'"
proof -
  have "(count_rows (\<lambda>r. grant_row_key r = grant_of g) (db_grants (cn_data c)) = 1) =
      (grant_of g \<in> sql_grants c)"
    using assms(2) count_rows_key [of grant_row_key "db_grants (cn_data c)" "grant_of g" "\<lambda>_. True"]
    by (simp add: sql_grants_tbl sql_grants_wf_def split: option.splits)
  then have "(\<exists>e. r = Err e \<and> \<not> healthy c \<and> cn_data c' = cn_data c) \<or>
    (r = Ok (grant_of g \<in> sql_grants c) \<and>
     cn_data c' = (cn_data c)\<lparr>db_grants :=
       filter (\<lambda>r. grant_row_key r \<noteq> grant_of g) (db_grants (cn_data c))\<rparr>)"
    using assms(1) unfolding sql_remove_grant_def by (auto elim!: attempt_cases)
  then show ?thesis
    using assms(2) keyed_filter [of grant_row_key "db_grants (cn_data c)"]
    by (auto simp: sql_grants_def sql_grants_wf_def)
qed

lemma sql_contains_grant_result:
  assumes "sql_contains_grant c p a cap = (r, c')"
  shows "cn_data c' = cn_data c" "healthy c \<Longrightarrow> healthy c'"
    "(r = Err GrantStoreUnavailable \<and> \<not> healthy c) \<or> r = Ok ((p, a, cap) \<in> sql_grants c)"
  using assms unfolding sql_contains_grant_def sql_grants_def
  by (auto elim!: attempt_cases simp: list_ex_iff grant_row_key_def image_iff)

lemma sql_grants_for_principal_ok:
  assumes "sql_grants_wf c" and "sql_grants_for_principal c p = (Ok gs, c')"
  shows "distinct gs \<and> grant_of ` set gs = {t \<in> sql_grants c. fst t = p} \<and>
    sorted (map (\<lambda>g. (gr_adapter g, gr_capability g)) gs)"
proof -
  let ?rows = "sort_key (\<lambda>r. (gw_adapter r, gw_capability r))
    (filter (\<lambda>r. gw_principal r = p) (db_grants (cn_data c)))"
  let ?g = "\<lambda>r. \<lparr>gr_principal = p, gr_adapter = gw_adapter r, gr_capability = gw_capability r\<rparr>"
  have dec: "decode_grant p r = Ok (?g r)" if "r \<in> set ?rows" for r
    using that assms(1) by (simp add: decode_grant_def sql_grants_wf_def identifier_new_Ok_iff)
  then have "collectR (decode_grant p) ?rows = Ok (map ?g ?rows)"
    by (intro collectR_all) blast
  then have gs: "gs = map ?g ?rows"
    using assms(2) unfolding sql_grants_for_principal_def by (auto elim!: attempt_cases)
  have "distinct (db_grants (cn_data c))"
    using assms(1) keyed_distinct by (auto simp: sql_grants_wf_def)
  then have "distinct gs"
    using assms(1)
    by (auto simp: gs distinct_map inj_on_def sql_grants_wf_def keyed_def grant_row_key_def)
  moreover have "grant_of ` set gs = {t \<in> sql_grants c. fst t = p}"
    by (force simp: gs sql_grants_def grant_of_def grant_row_key_def)
  moreover have "sorted (map (\<lambda>r. (gw_adapter r, gw_capability r)) ?rows)"
    by simp
  ultimately show ?thesis by (simp add: gs o_def)
qed

text \<open>The policy of the host: exact, and failing closed when the database does not answer.\<close>

definition sql_policy :: "(conn, 'v) policy" where
  "sql_policy = stored_grant_evaluate sql_grant_store"

lemma sql_policy_result:
  assumes "sql_policy c r = (d, c')"
  shows "cn_data c' = cn_data c" "healthy c \<Longrightarrow> healthy c'"
    "d = Deny PolicyUnavailable \<and> \<not> healthy c \<or>
     d = (if request_triple r \<in> sql_grants c then Allow else Deny NotGranted)"
proof -
  obtain x c1 where x: "sql_contains_grant c (pr_id (req_principal r)) (req_adapter r)
      (cd_id (req_capability r)) = (x, c1)" by (cases "sql_contains_grant c (pr_id (req_principal r))
      (req_adapter r) (cd_id (req_capability r))")
  note res = sql_contains_grant_result [OF x]
  from res assms x show "cn_data c' = cn_data c" "healthy c \<Longrightarrow> healthy c'"
    "d = Deny PolicyUnavailable \<and> \<not> healthy c \<or>
     d = (if request_triple r \<in> sql_grants c then Allow else Deny NotGranted)"
    by (auto simp: sql_policy_def stored_grant_evaluate_def sql_grant_store_def request_triple_def
        split: bool.splits grant_store_error.splits)
qed

interpretation sql_policy: grant_authority sql_policy sql_grants healthy
proof (unfold_locales, goal_cases)
  case (1 s r) then show ?case using sql_policy_result(3) [of s r] by (cases "sql_policy s r") (auto split: if_splits)
next
  case (2 s r) then show ?case using sql_policy_result(3) [of s r] by (cases "sql_policy s r") (auto split: if_splits)
next
  case (3 s r) then show ?case using sql_policy_result(3) [of s r] by (cases "sql_policy s r") auto
next
  case (4 s r) then show ?case
    using sql_policy_result(1) [of s r] by (cases "sql_policy s r") (simp add: sql_grants_def)
next
  case (5 s r) then show ?case using sql_policy_result(2) [of s r] by (cases "sql_policy s r") simp
qed

end
