(* ===== verification/Core_Dispatch.thy ===== *)
theory Core_Dispatch
  imports Core_Policy
begin

text \<open>
  The dispatcher (\<open>bondry-core/src/dispatch.rs\<close>). The policy and the audit sink of a dispatcher
  may share one store (the runtime hands both the same SQLCipher connection), so both work on one
  state \<open>'s\<close>; handlers change the host state \<open>'w\<close>. The asynchronous \<open>dispatch\<close> suspends only while
  it awaits the handler; \<open>dispatch_begin\<close> is the part before that point and \<open>dispatch_finish\<close> the
  part after it, and \<open>dispatch\<close> is their composition. The step relation \<open>sys_step\<close> interleaves any
  number of invocations, cancellations and grant changes at that suspension point.
\<close>

section \<open>Dispatching one invocation\<close>

datatype dispatch_error =
    DispatchAudit audit_error
  | DispatchCapabilityNotFound capability_id
  | DispatchAccessDenied denial_reason
  | DispatchInvalidInput
  | DispatchHandler handler_error

record ('v, 'w, 's) dispatcher =
  dp_registry :: "('v, 'w) registry"
  dp_policy :: "('s, 'v) policy"
  dp_audit :: "'s audit_sink"

text \<open>\<open>self.audit.record(..)?\<close> followed by \<open>return Err(e)\<close>: an audit failure replaces \<open>e\<close>.\<close>

definition audit_then_fail ::
    "'s audit_sink \<Rightarrow> 's \<Rightarrow> audit_event \<Rightarrow> dispatch_error \<Rightarrow> dispatch_error \<times> 's" where
  "audit_then_fail sink s event e =
     (case sink s event of
        (Inl ae, s') \<Rightarrow> (DispatchAudit ae, s')
      | (Inr _, s') \<Rightarrow> (e, s'))"

datatype ('v, 'w) dispatch_progress =
    Finished "dispatch_error + 'v"
  | AwaitHandler invocation_context "('v, 'w) handler" 'v

definition dispatch_begin ::
    "('v, 'w, 's) dispatcher \<Rightarrow> system_time \<Rightarrow> 's \<Rightarrow> 'v invocation
       \<Rightarrow> ('v, 'w) dispatch_progress \<times> 's" where
  "dispatch_begin dp now s i =
     (let context = from_invocation i in
      case resolve (dp_registry dp) (inv_capability i) of
        None \<Rightarrow>
          let (e, s') = audit_then_fail (dp_audit dp) s
                (audit_event_new now context AuditCapabilityNotFound)
                (DispatchCapabilityNotFound (inv_capability i))
          in (Finished (Err e), s')
      | Some (d, handler) \<Rightarrow>
          let (decision, s1) = dp_policy dp s
                \<lparr>req_principal = inv_principal i, req_adapter = inv_adapter i, req_capability = d\<rparr>
          in case decision of
               Deny reason \<Rightarrow>
                 let (e, s') = audit_then_fail (dp_audit dp) s1
                       (audit_event_new now context (AuditDenied reason))
                       (DispatchAccessDenied reason)
                 in (Finished (Err e), s')
             | Allow \<Rightarrow>
                 if \<not> accepts_input d (inv_input i)
                 then let (e, s') = audit_then_fail (dp_audit dp) s1
                            (audit_event_new now context AuditInvalidInput) DispatchInvalidInput
                      in (Finished (Err e), s')
                 else
                   (case dp_audit dp s1 (audit_event_new now context AuditStarted) of
                      (Inl ae, s') \<Rightarrow> (Finished (Err (DispatchAudit ae)), s')
                    | (Inr _, s') \<Rightarrow> (AwaitHandler context handler (inv_input i), s')))"

definition dispatch_finish ::
    "('v, 'w, 's) dispatcher \<Rightarrow> system_time \<Rightarrow> 's \<Rightarrow> invocation_context
       \<Rightarrow> handler_error + 'v \<Rightarrow> (dispatch_error + 'v) \<times> 's" where
  "dispatch_finish dp now s context outcome =
     (case outcome of
        Inr output \<Rightarrow>
          (case dp_audit dp s (audit_event_new now context AuditSucceeded) of
             (Inl ae, s') \<Rightarrow> (Err (DispatchAudit ae), s')
           | (Inr _, s') \<Rightarrow> (Ok output, s'))
      | Inl e \<Rightarrow>
          let (e', s') = audit_then_fail (dp_audit dp) s
                (audit_event_new now context (AuditHandlerFailed (he_code e))) (DispatchHandler e)
          in (Err e', s'))"

text \<open>
  One dispatch with nothing interleaved. \<open>clock 0\<close> and \<open>clock 1\<close> are the times of its two possible
  audit events.
\<close>

definition dispatch ::
    "('v, 'w, 's) dispatcher \<Rightarrow> (nat \<Rightarrow> system_time) \<Rightarrow> 's \<Rightarrow> 'w \<Rightarrow> 'v invocation
       \<Rightarrow> (dispatch_error + 'v) \<times> 's \<times> 'w" where
  "dispatch dp clock s w i =
     (case dispatch_begin dp (clock 0) s i of
        (Finished r, s') \<Rightarrow> (r, s', w)
      | (AwaitHandler context handler input, s') \<Rightarrow>
          let (outcome, w') = handler context input w;
              (r, s'') = dispatch_finish dp (clock 1) s' context outcome
          in (r, s'', w'))"

section \<open>Discovering capabilities\<close>

datatype capability_discovery_error = DiscoveryPolicyUnavailable

fun collect_allowed ::
    "('s, 'v) policy \<Rightarrow> principal \<Rightarrow> adapter_id \<Rightarrow> 's \<Rightarrow> 'v descriptor list \<Rightarrow> 'v descriptor list
       \<Rightarrow> (capability_discovery_error + 'v descriptor list) \<times> 's" where
  "collect_allowed policy prin adapter s allowed [] = (Ok allowed, s)"
| "collect_allowed policy prin adapter s allowed (d # ds) =
     (case policy s \<lparr>req_principal = prin, req_adapter = adapter, req_capability = d\<rparr> of
        (Allow, s') \<Rightarrow> collect_allowed policy prin adapter s' (allowed @ [d]) ds
      | (Deny NotGranted, s') \<Rightarrow> collect_allowed policy prin adapter s' allowed ds
      | (Deny PolicyUnavailable, s') \<Rightarrow> (Err DiscoveryPolicyUnavailable, s'))"

definition capabilities ::
    "('v, 'w, 's) dispatcher \<Rightarrow> 's \<Rightarrow> principal \<Rightarrow> adapter_id
       \<Rightarrow> (capability_discovery_error + 'v descriptor list) \<times> 's" where
  "capabilities dp s prin adapter =
     collect_allowed (dp_policy dp) prin adapter s [] (descriptors (dp_registry dp))"

section \<open>Interleaved invocations\<close>

record ('v, 'w, 's) system =
  sys_state :: 's
  sys_host :: 'w
  sys_tasks :: "(invocation_context \<times> ('v, 'w) handler \<times> 'v) list"

definition remove_nth :: "nat \<Rightarrow> 'a list \<Rightarrow> 'a list" where
  "remove_nth n xs = take n xs @ drop (Suc n) xs"

text \<open>
  \<open>admin\<close> is the set of state changes an administrator may make to the policy between the steps of
  dispatches. A future that is dropped while it awaits its handler leaves without a completion.
\<close>

inductive sys_step ::
    "('v, 'w, 's) dispatcher \<Rightarrow> ('s \<Rightarrow> 's \<Rightarrow> bool) \<Rightarrow> ('v, 'w, 's) system \<Rightarrow> ('v, 'w, 's) system
       \<Rightarrow> bool"
  for dp admin where
  step_reject: "dispatch_begin dp now (sys_state c) i = (Finished r, s') \<Longrightarrow>
     sys_step dp admin c (c\<lparr>sys_state := s'\<rparr>)"
| step_start: "dispatch_begin dp now (sys_state c) i = (AwaitHandler ctx h inp, s') \<Longrightarrow>
     sys_step dp admin c (c\<lparr>sys_state := s', sys_tasks := sys_tasks c @ [(ctx, h, inp)]\<rparr>)"
| step_complete: "n < length (sys_tasks c) \<Longrightarrow> sys_tasks c ! n = (ctx, h, inp) \<Longrightarrow>
     h ctx inp (sys_host c) = (out, w') \<Longrightarrow>
     dispatch_finish dp now (sys_state c) ctx out = (r, s') \<Longrightarrow>
     sys_step dp admin c
       (c\<lparr>sys_state := s', sys_host := w', sys_tasks := remove_nth n (sys_tasks c)\<rparr>)"
| step_cancel: "n < length (sys_tasks c) \<Longrightarrow>
     sys_step dp admin c (c\<lparr>sys_tasks := remove_nth n (sys_tasks c)\<rparr>)"
| step_admin: "admin (sys_state c) s' \<Longrightarrow> sys_step dp admin c (c\<lparr>sys_state := s'\<rparr>)"

inductive sys_reachable ::
    "('v, 'w, 's) dispatcher \<Rightarrow> ('s \<Rightarrow> 's \<Rightarrow> bool) \<Rightarrow> ('v, 'w, 's) system \<Rightarrow> ('v, 'w, 's) system
       \<Rightarrow> bool"
  for dp admin c0 where
  reach_refl: "sys_reachable dp admin c0 c0"
| reach_step: "sys_reachable dp admin c0 c \<Longrightarrow> sys_step dp admin c c' \<Longrightarrow>
     sys_reachable dp admin c0 c'"

section \<open>What an audit trail says\<close>

datatype trail_key = TrailKey invocation_id principal_id adapter_id capability_id

definition event_key :: "audit_event \<Rightarrow> trail_key" where
  "event_key e = TrailKey (ev_invocation e) (ev_principal e) (ev_adapter e) (ev_capability e)"

definition context_key :: "invocation_context \<Rightarrow> trail_key" where
  "context_key c =
     TrailKey (ctx_id c) (pr_id (ctx_principal c)) (ctx_adapter c) (ctx_capability c)"

definition invocation_key :: "'v invocation \<Rightarrow> trail_key" where
  "invocation_key i =
     TrailKey (inv_id i) (pr_id (inv_principal i)) (inv_adapter i) (inv_capability i)"

fun is_completion :: "audit_outcome \<Rightarrow> bool" where
  "is_completion AuditSucceeded = True"
| "is_completion (AuditHandlerFailed c) = True"
| "is_completion _ = False"

text \<open>The outcomes a dispatch records, in order, for each of its results.\<close>

fun outcomes_for :: "dispatch_error + 'v \<Rightarrow> audit_outcome list set" where
  "outcomes_for (Inr v) = {[AuditStarted, AuditSucceeded]}"
| "outcomes_for (Inl (DispatchCapabilityNotFound c)) = {[AuditCapabilityNotFound]}"
| "outcomes_for (Inl (DispatchAccessDenied r)) = {[AuditDenied r]}"
| "outcomes_for (Inl DispatchInvalidInput) = {[AuditInvalidInput]}"
| "outcomes_for (Inl (DispatchHandler e)) = {[AuditStarted, AuditHandlerFailed (he_code e)]}"
| "outcomes_for (Inl (DispatchAudit e)) = {[], [AuditStarted]}"

definition starts :: "trail_key \<Rightarrow> audit_event list \<Rightarrow> nat" where
  "starts k es = length (filter (\<lambda>e. event_key e = k \<and> ev_outcome e = AuditStarted) es)"

definition completions :: "trail_key \<Rightarrow> audit_event list \<Rightarrow> nat" where
  "completions k es = length (filter (\<lambda>e. event_key e = k \<and> is_completion (ev_outcome e)) es)"

text \<open>Every completion is preceded by a start of its own.\<close>

definition well_bracketed :: "audit_event list \<Rightarrow> bool" where
  "well_bracketed es \<longleftrightarrow> (\<forall>n k. completions k (take n es) \<le> starts k (take n es))"

definition in_flight :: "trail_key \<Rightarrow> ('v, 'w, 's) system \<Rightarrow> nat" where
  "in_flight k c = length (filter (\<lambda>(ctx, _). context_key ctx = k) (sys_tasks c))"

lemma starts_append [simp]: "starts k (xs @ ys) = starts k xs + starts k ys"
  by (simp add: starts_def)

lemma completions_append [simp]: "completions k (xs @ ys) = completions k xs + completions k ys"
  by (simp add: completions_def)

lemma completions_take_le: "completions k (take n es) \<le> completions k es"
  by (metis append_take_drop_id completions_append le_add1)

lemma well_bracketed_Nil [simp]: "well_bracketed []"
  by (simp add: well_bracketed_def completions_def)

lemma well_bracketed_snoc:
  assumes "well_bracketed es" and "completions (event_key e) (es @ [e]) \<le> starts (event_key e) (es @ [e])"
  shows "well_bracketed (es @ [e])"
  unfolding well_bracketed_def
proof (intro allI)
  fix n k
  show "completions k (take n (es @ [e])) \<le> starts k (take n (es @ [e]))"
  proof (cases "n \<le> length es")
    case True
    with assms(1) show ?thesis by (simp add: well_bracketed_def)
  next
    case False
    have "completions k es \<le> starts k es"
      using assms(1) by (metis le_refl take_all well_bracketed_def)
    with False assms(2) show ?thesis
      by (cases "k = event_key e") (auto simp: completions_def starts_def)
  qed
qed

lemma event_key_new [simp]: "event_key (audit_event_new t ctx out) = context_key ctx"
  by (simp add: event_key_def audit_event_new_def audit_event_from_parts_def context_key_def)

lemma outcome_new [simp]: "ev_outcome (audit_event_new t ctx out) = out"
  by (simp add: audit_event_new_def audit_event_from_parts_def)

lemma context_key_from_invocation [simp]: "context_key (from_invocation i) = invocation_key i"
  by (simp add: context_key_def from_invocation_def invocation_key_def)

lemma filter_remove_nth:
  "n < length xs \<Longrightarrow>
     length (filter P xs) = length (filter P (remove_nth n xs)) + (if P (xs ! n) then 1 else 0)"
proof -
  assume "n < length xs"
  then have "xs = take n xs @ xs ! n # drop (Suc n) xs" by (rule id_take_nth_drop)
  then have "filter P xs = filter P (take n xs) @ filter P (xs ! n # drop (Suc n) xs)"
    by (metis filter_append)
  then show ?thesis by (simp add: remove_nth_def)
qed

section \<open>The dispatcher over an audited policy\<close>

text \<open>
  What the dispatcher relies on: a policy that decides by an exact grant set, and a sink that
  appends what it accepts (\<open>stored\<close> is the stored form of an event, which may keep less of the
  time) and appends nothing when it fails.
\<close>

locale audited_authority = grant_authority evaluate granted readable
  for evaluate :: "('s, 'v) policy"
    and granted :: "'s \<Rightarrow> grant_triple set"
    and readable :: "'s \<Rightarrow> bool" +
  fixes sink :: "'s audit_sink"
    and events :: "'s \<Rightarrow> audit_event list"
    and stored :: "audit_event \<Rightarrow> audit_event"
  assumes sink_ok: "sink s e = (Ok u, s') \<Longrightarrow> events s' = events s @ [stored e]"
    and sink_err: "sink s e = (Err x, s') \<Longrightarrow> events s' = events s"
    and sink_granted: "granted (snd (sink s e)) = granted s"
    and evaluate_events: "events (snd (evaluate s r)) = events s"
    and stored_outcome: "ev_outcome (stored e) = ev_outcome e"
    and stored_key: "event_key (stored e) = event_key e"
begin

abbreviation dsp :: "('v, 'w) registry \<Rightarrow> ('v, 'w, 's) dispatcher" where
  "dsp reg \<equiv> \<lparr>dp_registry = reg, dp_policy = evaluate, dp_audit = sink\<rparr>"

text \<open>\<open>records s s' k os\<close>: the trail grew by events of key \<open>k\<close> with outcomes \<open>os\<close>.\<close>

definition records :: "'s \<Rightarrow> 's \<Rightarrow> trail_key \<Rightarrow> audit_outcome list \<Rightarrow> bool" where
  "records s s' k os \<longleftrightarrow>
     (\<exists>es. events s' = events s @ es \<and> map ev_outcome es = os \<and> (\<forall>e\<in>set es. event_key e = k))"

lemma records_refl: "events s' = events s \<Longrightarrow> records s s' k []"
  by (simp add: records_def)

lemma records_trans: "records s s' k os \<Longrightarrow> records s' s'' k os' \<Longrightarrow> records s s'' k (os @ os')"
  unfolding records_def by (elim exE conjE) (rule exI, auto)

lemma sink_records:
  "sink s e = (Ok u, s') \<Longrightarrow> records s s' (event_key e) [ev_outcome e]"
  using sink_ok [of s e u s'] by (auto simp: records_def stored_outcome stored_key)

lemma sink_records_err: "sink s e = (Err x, s') \<Longrightarrow> records s s' k []"
  by (rule records_refl) (rule sink_err)

lemma records_evaluate: "records (snd (evaluate s r)) s' k os \<longleftrightarrow> records s s' k os"
  by (simp add: records_def evaluate_events)

lemma audit_then_fail_cases:
  assumes "audit_then_fail sink s e err = (r, s')"
  shows "(r = err \<and> records s s' (event_key e) [ev_outcome e]) \<or>
         (\<exists>x. r = DispatchAudit x \<and> records s s' (event_key e) [])"
  using assms sink_records [of s e _ s'] sink_records_err [of s e _ s']
  by (auto simp: audit_then_fail_def split: prod.splits sum.splits)

lemma audit_then_fail_granted:
  "granted (snd (audit_then_fail sink s e err)) = granted s"
proof (cases "sink s e")
  case (Pair x s')
  with sink_granted [of s e] have "granted s' = granted s" by simp
  with Pair show ?thesis by (cases x) (simp_all add: audit_then_fail_def)
qed

lemma begin_granted: "granted (snd (dispatch_begin (dsp reg) now s i)) = granted s"
proof -
  have sk: "sink t e = (x, t') \<Longrightarrow> granted t' = granted t" for t e x t'
    using sink_granted [of t e] by simp
  have fl: "audit_then_fail sink t e err = (x, t') \<Longrightarrow> granted t' = granted t" for t e err x t'
    using audit_then_fail_granted [of t e err] by simp
  have ev: "evaluate t r = (x, t') \<Longrightarrow> granted t' = granted t" for t r x t'
    using evaluate_granted [of t r] by simp
  show ?thesis
    by (auto simp: dispatch_begin_def Let_def dest!: sk fl ev
        split: option.splits prod.splits authorization_decision.splits sum.splits)
qed

text \<open>The only way to the handler.\<close>

lemma begin_await:
  assumes "dispatch_begin (dsp reg) now s i = (AwaitHandler ctx h inp, s')"
  obtains d where "resolve reg (inv_capability i) = Some (d, h)"
    and "(pr_id (inv_principal i), inv_adapter i, cd_id d) \<in> granted s"
    and "accepts_input d (inv_input i)" and "inp = inv_input i" and "ctx = from_invocation i"
    and "records s s' (invocation_key i) [AuditStarted]"
proof -
  obtain d h' where res: "resolve reg (inv_capability i) = Some (d, h')"
    using assms by (auto simp: dispatch_begin_def Let_def split: option.splits prod.splits)
  let ?r = "\<lparr>req_principal = inv_principal i, req_adapter = inv_adapter i, req_capability = d\<rparr>"
  obtain dec s1 where ev: "evaluate s ?r = (dec, s1)" by (cases "evaluate s ?r")
  with res assms have dec: "dec = Allow" and acc: "accepts_input d (inv_input i)"
    and sk: "\<exists>u. sink s1 (audit_event_new now (from_invocation i) AuditStarted) = (Ok u, s')"
    and eqs: "h' = h" "inp = inv_input i" "ctx = from_invocation i"
    by (auto simp: dispatch_begin_def Let_def
        split: authorization_decision.splits prod.splits if_splits sum.splits)
  from evaluate_allow [of s ?r] ev dec
  have "(pr_id (inv_principal i), inv_adapter i, cd_id d) \<in> granted s"
    by (simp add: request_triple_def)
  moreover from sk obtain u
    where "sink s1 (audit_event_new now (from_invocation i) AuditStarted) = (Ok u, s')" ..
  then have "records s1 s' (invocation_key i) [AuditStarted]"
    by (metis sink_records event_key_new outcome_new context_key_from_invocation)
  then have "records s s' (invocation_key i) [AuditStarted]"
    using records_evaluate [of s ?r] ev by simp
  ultimately show thesis using that res acc eqs by blast
qed

lemma begin_finished:
  assumes "dispatch_begin (dsp reg) now s i = (Finished r, s')"
  shows "\<exists>e os. r = Err e \<and> os \<in> outcomes_for r \<and> AuditStarted \<notin> set os \<and>
           records s s' (invocation_key i) os"
proof (cases "resolve reg (inv_capability i)")
  case None
  then obtain e where "audit_then_fail sink s
      (audit_event_new now (from_invocation i) AuditCapabilityNotFound)
      (DispatchCapabilityNotFound (inv_capability i)) = (e, s')" "r = Err e"
    using assms by (auto simp: dispatch_begin_def Let_def split: prod.splits)
  with audit_then_fail_cases [OF this(1)] show ?thesis by auto
next
  case (Some dh)
  then obtain d h where res: "resolve reg (inv_capability i) = Some (d, h)" by (cases dh) auto
  let ?r = "\<lparr>req_principal = inv_principal i, req_adapter = inv_adapter i, req_capability = d\<rparr>"
  obtain dec s1 where ev: "evaluate s ?r = (dec, s1)" by (cases "evaluate s ?r")
  have rec: "records s1 s' k os = records s s' k os" for k os
    using records_evaluate [of s ?r] ev by simp
  show ?thesis
  proof (cases dec)
    case (Deny reason)
    with res ev assms obtain e where "audit_then_fail sink s1
        (audit_event_new now (from_invocation i) (AuditDenied reason))
        (DispatchAccessDenied reason) = (e, s')" "r = Err e"
      by (auto simp: dispatch_begin_def Let_def split: prod.splits)
    with audit_then_fail_cases [OF this(1)] show ?thesis by (auto simp: rec)
  next
    case Allow
    show ?thesis
    proof (cases "accepts_input d (inv_input i)")
      case False
      with Allow res ev assms obtain e where "audit_then_fail sink s1
          (audit_event_new now (from_invocation i) AuditInvalidInput) DispatchInvalidInput
          = (e, s')" "r = Err e"
        by (auto simp: dispatch_begin_def Let_def split: prod.splits)
      with audit_then_fail_cases [OF this(1)] show ?thesis by (auto simp: rec)
    next
      case True
      with Allow res ev assms obtain x
        where "sink s1 (audit_event_new now (from_invocation i) AuditStarted) = (Err x, s')"
          and "r = Err (DispatchAudit x)"
        by (auto simp: dispatch_begin_def Let_def split: prod.splits sum.splits)
      with sink_records_err [OF this(1)] show ?thesis by (auto simp: rec)
    qed
  qed
qed

lemma finish_cases:
  assumes "dispatch_finish (dsp reg) now s ctx out = (r, s')"
  shows "\<exists>os. AuditStarted # os \<in> outcomes_for r \<and> records s s' (context_key ctx) os \<and>
           list_all is_completion os \<and> length os \<le> 1"
proof (cases out)
  case (Inl e)
  with assms obtain e' where "audit_then_fail sink s
      (audit_event_new now ctx (AuditHandlerFailed (he_code e))) (DispatchHandler e) = (e', s')"
    "r = Err e'"
    by (auto simp: dispatch_finish_def Let_def split: prod.splits)
  with audit_then_fail_cases [OF this(1)] show ?thesis by auto
next
  case (Inr v)
  obtain x s1 where sk: "sink s (audit_event_new now ctx AuditSucceeded) = (x, s1)"
    by (cases "sink s (audit_event_new now ctx AuditSucceeded)")
  show ?thesis
  proof (cases x)
    case (Inl ae)
    with sk Inr assms have "r = Err (DispatchAudit ae)" "s1 = s'"
      by (auto simp: dispatch_finish_def)
    with sink_records_err sk Inl show ?thesis by auto
  next
    case (Inr u)
    with sk \<open>out = Inr v\<close> assms have "r = Ok v" "s1 = s'" by (auto simp: dispatch_finish_def)
    moreover from sk Inr have "records s s1 (context_key ctx) [AuditSucceeded]"
      using sink_records [of s _ u s1] by (metis event_key_new outcome_new)
    ultimately show ?thesis by auto
  qed
qed

text \<open>A whole dispatch: its result and the events it records determine each other.\<close>

lemma dispatch_records:
  assumes "dispatch (dsp reg) clock s w i = (r, s', w')"
  shows "\<exists>os\<in>outcomes_for r. records s s' (invocation_key i) os"
proof (cases "dispatch_begin (dsp reg) (clock 0) s i")
  case (Pair p s1)
  show ?thesis
  proof (cases p)
    case (Finished r')
    with Pair assms have "r' = r" "s1 = s'" by (auto simp: dispatch_def)
    with begin_finished [of reg "clock 0" s i r s'] Pair Finished show ?thesis by blast
  next
    case (AwaitHandler ctx h inp)
    with Pair assms obtain out where
      "dispatch_finish (dsp reg) (clock 1) s1 ctx out = (r, s')"
      by (auto simp: dispatch_def Let_def split: prod.splits)
    from finish_cases [OF this] obtain os where os: "AuditStarted # os \<in> outcomes_for r"
      "records s1 s' (context_key ctx) os" by blast
    from Pair AwaitHandler have "dispatch_begin (dsp reg) (clock 0) s i = (AwaitHandler ctx h inp, s1)"
      by simp
    then have "records s s1 (invocation_key i) [AuditStarted]" "ctx = from_invocation i"
      by (auto elim: begin_await)
    with os records_trans [of s s1 "invocation_key i" "[AuditStarted]" s' os] show ?thesis by auto
  qed
qed

lemma dispatch_host_gate:
  assumes "dispatch (dsp reg) clock s w i = (r, s', w')" and "registry_wf reg"
    and "w' \<noteq> w \<or> (\<exists>v. r = Ok v) \<or> (\<exists>e. r = Err (DispatchHandler e))"
  shows "\<exists>d h. resolve reg (inv_capability i) = Some (d, h) \<and>
           (pr_id (inv_principal i), inv_adapter i, inv_capability i) \<in> granted s \<and>
           accepts_input d (inv_input i) \<and>
           w' = snd (h (from_invocation i) (inv_input i) w) \<and>
           (\<exists>e es. events s' = events s @ e # es \<and> ev_outcome e = AuditStarted \<and>
              event_key e = invocation_key i)"
proof (cases "dispatch_begin (dsp reg) (clock 0) s i")
  case (Pair p s1)
  show ?thesis
  proof (cases p)
    case (Finished r')
    with Pair assms(1) have "r' = r" "w' = w" by (auto simp: dispatch_def)
    with begin_finished [of reg "clock 0" s i r s1] Pair Finished
    obtain e os where "r = Err e" "os \<in> outcomes_for r" "AuditStarted \<notin> set os"
      "records s s1 (invocation_key i) os" by blast
    with assms(3) \<open>w' = w\<close> show ?thesis by auto
  next
    case (AwaitHandler ctx h inp)
    with Pair assms(1) obtain out where
      fin: "dispatch_finish (dsp reg) (clock 1) s1 ctx out = (r, s')"
      and w': "w' = snd (h ctx inp w)"
      by (auto simp: dispatch_def Let_def split: prod.splits)
    from Pair AwaitHandler have "dispatch_begin (dsp reg) (clock 0) s i = (AwaitHandler ctx h inp, s1)"
      by simp
    then obtain d where d: "resolve reg (inv_capability i) = Some (d, h)"
      "(pr_id (inv_principal i), inv_adapter i, cd_id d) \<in> granted s"
      "accepts_input d (inv_input i)" "inp = inv_input i" "ctx = from_invocation i"
      "records s s1 (invocation_key i) [AuditStarted]" by (rule begin_await)
    from finish_cases [OF fin] obtain es where "events s' = events s1 @ es"
      by (auto simp: records_def)
    moreover from d(6) obtain e where "events s1 = events s @ [e]" "ev_outcome e = AuditStarted"
      "event_key e = invocation_key i" by (auto simp: records_def map_eq_Cons_conv)
    ultimately show ?thesis using d w' resolve_id [OF assms(2) d(1)] by auto
  qed
qed

text \<open>Discovery returns exactly the registered capabilities the policy grants.\<close>

lemma collect_allowed_granted:
  "fst (collect_allowed evaluate prin adapter s acc ds) \<in>
     {Ok (acc @ filter (\<lambda>d. (pr_id prin, adapter, cd_id d) \<in> granted s) ds),
      Err DiscoveryPolicyUnavailable}
   \<and> (readable s \<longrightarrow> is_ok (fst (collect_allowed evaluate prin adapter s acc ds)))"
proof (induction ds arbitrary: s acc)
  case (Cons d ds)
  let ?r = "\<lparr>req_principal = prin, req_adapter = adapter, req_capability = d\<rparr>"
  obtain dec s1 where ev: "evaluate s ?r = (dec, s1)" by (cases "evaluate s ?r")
  with evaluate_granted [of s ?r] evaluate_stays_readable [of s ?r]
  have s1: "granted s1 = granted s" "readable s \<Longrightarrow> readable s1" by auto
  show ?case
    using Cons.IH [of s1 acc] Cons.IH [of s1 "acc @ [d]"] ev s1
    by (cases rule: decision_cases [of s ?r]) (auto simp: request_triple_def)
qed simp

lemma capabilities_exact:
  "fst (capabilities (dsp reg) s prin adapter) \<in>
     {Ok (filter (\<lambda>d. (pr_id prin, adapter, cd_id d) \<in> granted s) (descriptors reg)),
      Err DiscoveryPolicyUnavailable}"
  "readable s \<Longrightarrow> is_ok (fst (capabilities (dsp reg) s prin adapter))"
  using collect_allowed_granted [of prin adapter s "[]" "descriptors reg"]
  by (simp_all add: capabilities_def)

end

section \<open>Interleaved dispatches keep the trail well bracketed\<close>

definition count_starts :: "audit_outcome list \<Rightarrow> nat" where
  "count_starts os = length (filter (\<lambda>out. out = AuditStarted) os)"

definition count_completions :: "audit_outcome list \<Rightarrow> nat" where
  "count_completions os = length (filter is_completion os)"

lemma keyed_events_count:
  assumes "\<forall>e\<in>set es. event_key e = k"
  shows "starts k' es = (if k' = k then count_starts (map ev_outcome es) else 0)"
    and "completions k' es = (if k' = k then count_completions (map ev_outcome es) else 0)"
  using assms
  by (induction es)
     (auto simp: starts_def completions_def count_starts_def count_completions_def)

lemma well_bracketed_append_quiet:
  assumes "well_bracketed es" and "\<forall>e\<in>set fs. \<not> is_completion (ev_outcome e)"
  shows "well_bracketed (es @ fs)"
  using assms(2)
proof (induction fs rule: rev_induct)
  case (snoc e fs)
  then have wb: "well_bracketed (es @ fs)" by simp
  from snoc.prems have "completions (event_key e) (es @ fs @ [e]) = completions (event_key e) (es @ fs)"
    by (simp add: completions_def)
  also have "\<dots> \<le> starts (event_key e) (es @ fs)"
    using wb by (metis le_refl take_all well_bracketed_def)
  finally have "completions (event_key e) ((es @ fs) @ [e]) \<le> starts (event_key e) ((es @ fs) @ [e])"
    by simp
  from well_bracketed_snoc [OF wb this] show ?case by simp
qed (simp add: assms(1))

context audited_authority
begin

definition trail_inv :: "('v, 'w, 's) system \<Rightarrow> bool" where
  "trail_inv c \<longleftrightarrow> well_bracketed (events (sys_state c)) \<and>
     (\<forall>k. completions k (events (sys_state c)) + in_flight k c \<le> starts k (events (sys_state c)))"

lemma records_counts:
  assumes "records s s' k os"
  shows "starts k' (events s') = starts k' (events s) + (if k' = k then count_starts os else 0)"
    and "completions k' (events s') =
           completions k' (events s) + (if k' = k then count_completions os else 0)"
  using assms keyed_events_count [where k = k] by (auto simp: records_def)

lemma records_quiet:
  assumes "records s s' k os" and "\<forall>out\<in>set os. \<not> is_completion out" and "well_bracketed (events s)"
  shows "well_bracketed (events s')"
  using assms well_bracketed_append_quiet by (auto simp: records_def)

lemma records_completion:
  assumes "records s s' k os" and "length os \<le> 1" and "well_bracketed (events s)"
    and "completions k (events s) < starts k (events s)"
  shows "well_bracketed (events s')"
proof (cases os)
  case Nil
  with assms show ?thesis by (simp add: records_def)
next
  case (Cons out os')
  with assms(2) have "os = [out]" by simp
  with assms(1) obtain e where e: "events s' = events s @ [e]" "event_key e = k"
    by (auto simp: records_def map_eq_Cons_conv)
  with assms(4) have "completions (event_key e) (events s @ [e]) \<le> starts (event_key e) (events s @ [e])"
    by (simp add: completions_def starts_def)
  with well_bracketed_snoc [OF assms(3)] e show ?thesis by simp
qed

lemma trail_inv_update:
  assumes "trail_inv c" and "records (sys_state c) (sys_state c') k os"
    and "well_bracketed (events (sys_state c'))"
    and "\<And>k'. in_flight k' c' + (if k' = k then count_completions os else 0)
              \<le> in_flight k' c + (if k' = k then count_starts os else 0)"
  shows "trail_inv c'"
  unfolding trail_inv_def
proof (intro conjI allI)
  fix k'
  have "completions k' (events (sys_state c)) + in_flight k' c \<le> starts k' (events (sys_state c))"
    using assms(1) unfolding trail_inv_def by blast
  with assms(4) [of k'] records_counts [OF assms(2), of k']
  show "completions k' (events (sys_state c')) + in_flight k' c' \<le> starts k' (events (sys_state c'))"
    by linarith
qed (rule assms(3))

lemma trail_inv_bracketed: "trail_inv c \<Longrightarrow> well_bracketed (events (sys_state c))"
  by (simp add: trail_inv_def)

lemma in_flight_remove:
  assumes "n < length (sys_tasks c)" and "sys_tasks c ! n = (ctx, h, inp)"
  shows "in_flight k c = in_flight k (c\<lparr>sys_state := s', sys_host := w', sys_tasks := remove_nth n (sys_tasks c)\<rparr>)
           + (if k = context_key ctx then 1 else 0)"
  using filter_remove_nth [OF assms(1), of "\<lambda>(ctx, _). context_key ctx = k"] assms(2)
  by (simp add: in_flight_def)

lemma in_flight_cancel:
  "n < length (sys_tasks c) \<Longrightarrow> in_flight k (c\<lparr>sys_tasks := remove_nth n (sys_tasks c)\<rparr>) \<le> in_flight k c"
  using filter_remove_nth [of n "sys_tasks c" "\<lambda>(ctx, _). context_key ctx = k"]
  by (simp add: in_flight_def)

lemma sys_step_inv:
  assumes "sys_step (dsp reg) admin c c'" and "\<And>s s'. admin s s' \<Longrightarrow> events s' = events s"
    and "trail_inv c"
  shows "trail_inv c'"
  using assms(1)
proof cases
  case (step_reject now i r s')
  from begin_finished [OF step_reject(2)] obtain e os where os: "r = Err e" "os \<in> outcomes_for r"
    "AuditStarted \<notin> set os" "records (sys_state c) s' (invocation_key i) os" by blast
  then have quiet: "\<forall>out\<in>set os. \<not> is_completion out" by (cases e) auto
  then have "count_completions os = 0" by (simp add: count_completions_def)
  with step_reject(1) os(4) records_quiet [OF os(4) quiet trail_inv_bracketed [OF assms(3)]]
  show ?thesis
    by (intro trail_inv_update [OF assms(3), of _ "invocation_key i" os]) (simp_all add: in_flight_def)
next
  case (step_start now i ctx h inp s')
  from step_start(2) have r: "records (sys_state c) s' (context_key ctx) [AuditStarted]"
    by (rule begin_await) simp
  from records_quiet [OF r _ trail_inv_bracketed [OF assms(3)]]
  have "well_bracketed (events s')" by simp
  with step_start(1) r show ?thesis
    by (intro trail_inv_update [OF assms(3), of _ "context_key ctx" "[AuditStarted]"])
       (simp_all add: in_flight_def count_starts_def count_completions_def)
next
  case (step_complete n ctx h inp out w' now r s')
  from finish_cases [OF step_complete(5)] obtain os where os:
    "records (sys_state c) s' (context_key ctx) os" "length os \<le> 1" by blast
  let ?c' = "c\<lparr>sys_state := s', sys_host := w', sys_tasks := remove_nth n (sys_tasks c)\<rparr>"
  note fl = in_flight_remove [OF step_complete(2,3), where s' = s' and w' = w']
  have "completions (context_key ctx) (events (sys_state c)) + in_flight (context_key ctx) c
          \<le> starts (context_key ctx) (events (sys_state c))"
    using assms(3) unfolding trail_inv_def by blast
  with fl [of "context_key ctx"]
  have "completions (context_key ctx) (events (sys_state c)) < starts (context_key ctx) (events (sys_state c))"
    by simp
  from records_completion [OF os trail_inv_bracketed [OF assms(3)] this]
  have wb: "well_bracketed (events s')" .
  have "count_completions os \<le> 1"
    using os(2) unfolding count_completions_def by (meson le_trans length_filter_le)
  then have "in_flight k' ?c' + (if k' = context_key ctx then count_completions os else 0)
      \<le> in_flight k' c + (if k' = context_key ctx then count_starts os else 0)" for k'
    using fl [of k'] by simp
  with step_complete(1) os(1) wb show ?thesis
    by (intro trail_inv_update [OF assms(3), of _ "context_key ctx" os]) simp_all
next
  case (step_cancel n)
  have "completions k (events (sys_state c)) + in_flight k c' \<le> starts k (events (sys_state c))" for k
    using assms(3) in_flight_cancel [OF step_cancel(2), of k] step_cancel(1)
    unfolding trail_inv_def by (meson add_left_mono le_trans)
  with assms(3) step_cancel(1) show ?thesis by (simp add: trail_inv_def)
next
  case (step_admin s')
  with assms(2,3) show ?thesis by (simp add: trail_inv_def in_flight_def)
qed

lemma sys_reachable_inv:
  assumes "sys_reachable (dsp reg) admin c0 c" and "\<And>s s'. admin s s' \<Longrightarrow> events s' = events s"
    and "trail_inv c0"
  shows "trail_inv c"
  using assms(1,3) by (induction rule: sys_reachable.induct) (auto intro: sys_step_inv assms(2))

lemma trail_inv_start:
  assumes "well_bracketed (events (sys_state c))" and "sys_tasks c = []"
  shows "trail_inv c"
  using assms unfolding trail_inv_def
  by (metis (no_types, lifting) add.right_neutral filter.simps(1) in_flight_def le_refl list.size(3)
      take_all well_bracketed_def)

end

end
