(* ===== verification/Sql_Audit.thy ===== *)
theory Sql_Audit
  imports Sql_Grants Core_Dispatch
begin

text \<open>
  The audit log of \<open>SqlCipherStore\<close> (\<open>bondry-store-sqlcipher/src/audit.rs\<close>), over the table
  \<open>audit_events\<close>. Times are kept in milliseconds, outcomes as a kind and a detail code. The theory
  ends with the interpretation of \<open>audited_authority\<close>: the dispatcher over the stored grants and
  this log, sharing one connection as the host wires them.
\<close>

section \<open>Encoding\<close>

datatype sql_error =
    SqlFileSystem | SqlDatabase | SqlUnsupportedSchema int | SqlInvalidKey | SqlInvalidData
  | SqlUnavailable

definition MAX_AUDIT_QUERY_LIMIT :: nat where "MAX_AUDIT_QUERY_LIMIT = 1000"

definition AuditQueryLimit_new :: "nat \<Rightarrow> unit + nat" where
  "AuditQueryLimit_new v = (if v = 0 \<or> v > MAX_AUDIT_QUERY_LIMIT then Err () else Ok v)"

fun encode_outcome :: "audit_outcome \<Rightarrow> rstr \<times> rstr option" where
  "encode_outcome AuditCapabilityNotFound = (lit ''capability_not_found'', None)"
| "encode_outcome (AuditDenied NotGranted) = (lit ''denied'', Some (lit ''not_granted''))"
| "encode_outcome (AuditDenied PolicyUnavailable) =
     (lit ''denied'', Some (lit ''policy_unavailable''))"
| "encode_outcome AuditStarted = (lit ''started'', None)"
| "encode_outcome AuditInvalidInput = (lit ''invalid_input'', None)"
| "encode_outcome AuditSucceeded = (lit ''succeeded'', None)"
| "encode_outcome (AuditHandlerFailed code) = (lit ''handler_failed'', Some code)"

definition decode_outcome :: "rstr \<Rightarrow> rstr option \<Rightarrow> sql_error + audit_outcome" where
  "decode_outcome kind detail =
     (if kind = lit ''capability_not_found'' \<and> detail = None then Ok AuditCapabilityNotFound
      else if kind = lit ''denied'' \<and> detail = Some (lit ''not_granted'')
      then Ok (AuditDenied NotGranted)
      else if kind = lit ''denied'' \<and> detail = Some (lit ''policy_unavailable'')
      then Ok (AuditDenied PolicyUnavailable)
      else if kind = lit ''started'' \<and> detail = None then Ok AuditStarted
      else if kind = lit ''invalid_input'' \<and> detail = None then Ok AuditInvalidInput
      else if kind = lit ''succeeded'' \<and> detail = None then Ok AuditSucceeded
      else
        (case detail of
           Some code \<Rightarrow>
             if kind = lit ''handler_failed''
             then bindR (map_err (\<lambda>_. SqlInvalidData) (identifier_new code))
                    (\<lambda>code. Ok (AuditHandlerFailed code))
             else Err SqlInvalidData
         | None \<Rightarrow> Err SqlInvalidData))"

text \<open>The \<open>CHECK\<close> constraints of the table.\<close>

definition audit_kinds :: "rstr list" where
  "audit_kinds =
     [lit ''capability_not_found'', lit ''denied'', lit ''started'', lit ''invalid_input'',
      lit ''succeeded'', lit ''handler_failed'']"

definition audit_row_check :: "rstr \<Rightarrow> rstr option \<Rightarrow> bool" where
  "audit_row_check kind detail \<longleftrightarrow>
     kind \<in> set audit_kinds \<and>
     (if kind \<in> {lit ''denied'', lit ''handler_failed''} then detail \<noteq> None else detail = None)"

section \<open>Operations\<close>

definition duration_since_epoch_millis :: "system_time \<Rightarrow> int option" where
  "duration_since_epoch_millis t = (if t < 0 then None else Some (t div 1000000))"

definition sql_audit_record :: "conn audit_sink" where
  "sql_audit_record c event =
     (case Option.bind (duration_since_epoch_millis (ev_occurred_at event)) i64_try_from of
        None \<Rightarrow> (Err AuditUnavailable, c)
      | Some occurred_at_ms \<Rightarrow>
          (case encode_outcome (ev_outcome event) of
             (kind, detail) \<Rightarrow>
               attempt AuditUnavailable c (\<lambda>c. attempt AuditUnavailable c (\<lambda>c.
                 attempt AuditUnavailable c (\<lambda>c.
                   if \<not> audit_row_check kind detail \<or> db_seq_audit (cn_data c) \<ge> i64_max
                   then (Err AuditUnavailable, c)
                   else
                     (Ok (), update_data (\<lambda>d. d\<lparr>
                        db_seq_audit := db_seq_audit d + 1,
                        db_audit := db_audit d @
                          [\<lparr>au_sequence = db_seq_audit d + 1, au_occurred_at_ms = occurred_at_ms,
                            au_invocation = ev_invocation event, au_principal = ev_principal event,
                            au_adapter = ev_adapter event, au_capability = ev_capability event,
                            au_outcome_kind = kind, au_detail_code = detail\<rparr>]\<rparr>) c))))))"

record stored_audit_event =
  se_sequence :: int
  se_event :: audit_event

definition RawAuditEvent_validate :: "audit_row \<Rightarrow> sql_error + stored_audit_event" where
  "RawAuditEvent_validate r =
     bindR (ok_or SqlInvalidData (u64_try_from (au_occurred_at_ms r))) (\<lambda>milliseconds.
     bindR (decode_outcome (au_outcome_kind r) (au_detail_code r)) (\<lambda>outcome.
     bindR (map_err (\<lambda>_. SqlInvalidData) (identifier_new (au_invocation r))) (\<lambda>i.
     bindR (map_err (\<lambda>_. SqlInvalidData) (identifier_new (au_principal r))) (\<lambda>p.
     bindR (map_err (\<lambda>_. SqlInvalidData) (identifier_new (au_adapter r))) (\<lambda>a.
     bindR (map_err (\<lambda>_. SqlInvalidData) (identifier_new (au_capability r))) (\<lambda>cap.
       Ok \<lparr>se_sequence = au_sequence r,
           se_event = audit_event_from_parts (int milliseconds * 1000000) i p a cap outcome\<rparr>))))))"

definition query_audit_events ::
    "conn \<Rightarrow> (audit_row \<Rightarrow> bool) \<Rightarrow> nat \<Rightarrow> (sql_error + stored_audit_event list) \<times> conn" where
  "query_audit_events c p limit =
     attempt SqlUnavailable c (\<lambda>c. attempt SqlDatabase c (\<lambda>c. attempt SqlDatabase c (\<lambda>c.
       (collectR RawAuditEvent_validate
          (take limit (sort_key (\<lambda>r. - au_sequence r) (filter p (db_audit (cn_data c))))), c))))"

definition recent_audit_events ::
    "conn \<Rightarrow> nat \<Rightarrow> (sql_error + stored_audit_event list) \<times> conn" where
  "recent_audit_events c limit = query_audit_events c (\<lambda>_. True) limit"

definition audit_events_for_principal ::
    "conn \<Rightarrow> principal_id \<Rightarrow> nat \<Rightarrow> (sql_error + stored_audit_event list) \<times> conn" where
  "audit_events_for_principal c prin limit =
     query_audit_events c (\<lambda>r. au_principal r = prin) limit"

section \<open>Round trip of outcomes\<close>

definition valid_outcome :: "audit_outcome \<Rightarrow> bool" where
  "valid_outcome o' \<longleftrightarrow> (\<forall>code. o' = AuditHandlerFailed code \<longrightarrow> valid_identifier code)"

lemma encode_outcome_check: "audit_row_check (fst (encode_outcome o')) (snd (encode_outcome o'))"
  by (cases o' rule: encode_outcome.cases) (simp_all add: audit_row_check_def audit_kinds_def)

lemma decode_encode_outcome:
  "valid_outcome o' \<Longrightarrow>
     decode_outcome (fst (encode_outcome o')) (snd (encode_outcome o')) = Ok o'"
  by (cases o' rule: encode_outcome.cases)
    (simp_all add: decode_outcome_def valid_outcome_def identifier_new_Ok_iff)

lemma encode_decode_outcome:
  "decode_outcome kind detail = Ok o' \<Longrightarrow> encode_outcome o' = (kind, detail)"
  by (auto simp: decode_outcome_def result_simps identifier_new_Ok_iff
      split: if_splits option.splits)

section \<open>The trail\<close>

text \<open>
  The trail of a database: the events of its rows, read without the validation that a query adds.
\<close>

definition raw_outcome :: "rstr \<Rightarrow> rstr option \<Rightarrow> audit_outcome" where
  "raw_outcome kind detail =
     (case (kind = lit ''handler_failed'', detail) of
        (True, Some code) \<Rightarrow> AuditHandlerFailed code
      | _ \<Rightarrow> (case decode_outcome kind detail of Inr o' \<Rightarrow> o' | Inl _ \<Rightarrow> AuditCapabilityNotFound))"

definition event_of_row :: "audit_row \<Rightarrow> audit_event" where
  "event_of_row r =
     audit_event_from_parts (au_occurred_at_ms r * 1000000) (au_invocation r) (au_principal r)
       (au_adapter r) (au_capability r) (raw_outcome (au_outcome_kind r) (au_detail_code r))"

definition audit_trail :: "conn \<Rightarrow> audit_event list" where
  "audit_trail c = map event_of_row (db_audit (cn_data c))"

text \<open>What is kept of an event: its time is truncated to milliseconds.\<close>

definition stored_event :: "audit_event \<Rightarrow> audit_event" where
  "stored_event e = e\<lparr>ev_occurred_at := ev_occurred_at e div 1000000 * 1000000\<rparr>"

definition sql_audit_wf :: "conn \<Rightarrow> bool" where
  "sql_audit_wf c \<longleftrightarrow>
     sorted_wrt (<) (map au_sequence (db_audit (cn_data c))) \<and>
     (\<forall>r\<in>set (db_audit (cn_data c)). 0 \<le> au_occurred_at_ms r \<and> au_occurred_at_ms r \<le> i64_max \<and>
        au_sequence r \<le> db_seq_audit (cn_data c) \<and>
        (\<exists>o'. (au_outcome_kind r, au_detail_code r) = encode_outcome o' \<and> valid_outcome o') \<and>
        valid_identifier (au_invocation r) \<and> valid_identifier (au_principal r) \<and>
        valid_identifier (au_adapter r) \<and> valid_identifier (au_capability r))"

definition valid_event :: "audit_event \<Rightarrow> bool" where
  "valid_event e \<longleftrightarrow>
     valid_identifier (ev_invocation e) \<and> valid_identifier (ev_principal e) \<and>
     valid_identifier (ev_adapter e) \<and> valid_identifier (ev_capability e) \<and>
     valid_outcome (ev_outcome e)"

lemma raw_encode_outcome:
  "(kind, detail) = encode_outcome o' \<Longrightarrow> raw_outcome kind detail = o'"
  by (cases o' rule: encode_outcome.cases) (simp_all add: raw_outcome_def decode_outcome_def)

lemma sql_audit_record_result:
  assumes "sql_audit_record c e = (r, c')"
  obtains (err) "r = Err AuditUnavailable" "cn_data c' = cn_data c"
  | (ok) row where "r = Ok ()" "event_of_row row = stored_event e"
      "au_sequence row = db_seq_audit (cn_data c) + 1"
      "0 \<le> au_occurred_at_ms row" "au_occurred_at_ms row \<le> i64_max"
      "(au_outcome_kind row, au_detail_code row) = encode_outcome (ev_outcome e)"
      "cn_data c' = (cn_data c)\<lparr>db_seq_audit := db_seq_audit (cn_data c) + 1,
         db_audit := db_audit (cn_data c) @ [row]\<rparr>"
proof (cases "Option.bind (duration_since_epoch_millis (ev_occurred_at e)) i64_try_from")
  case None
  with assms err show ?thesis by (simp add: sql_audit_record_def)
next
  case (Some ms)
  then have ms: "ms = ev_occurred_at e div 1000000" "0 \<le> ms" "ms \<le> i64_max"
    by (auto simp: duration_since_epoch_millis_def int_simps in_i64_def pos_imp_zdiv_nonneg_iff
        split: if_splits)
  obtain kind detail where enc: "encode_outcome (ev_outcome e) = (kind, detail)"
    by (cases "encode_outcome (ev_outcome e)")
  let ?row = "\<lparr>au_sequence = db_seq_audit (cn_data c) + 1, au_occurred_at_ms = ms,
      au_invocation = ev_invocation e, au_principal = ev_principal e, au_adapter = ev_adapter e,
      au_capability = ev_capability e, au_outcome_kind = kind, au_detail_code = detail\<rparr>"
  have row: "event_of_row ?row = stored_event e"
    using ms(1) enc raw_encode_outcome [of kind detail "ev_outcome e"]
    by (simp add: event_of_row_def stored_event_def audit_event_from_parts_def)
  have "r = Err AuditUnavailable \<and> cn_data c' = cn_data c \<or>
    r = Ok () \<and> cn_data c' = (cn_data c)\<lparr>db_seq_audit := db_seq_audit (cn_data c) + 1,
         db_audit := db_audit (cn_data c) @ [?row]\<rparr>"
    using assms unfolding sql_audit_record_def
    by (auto simp: Some enc elim!: attempt_cases split: if_splits)
  then show ?thesis
  proof (elim disjE conjE)
    assume "r = Err AuditUnavailable" "cn_data c' = cn_data c"
    then show ?thesis by (rule err)
  next
    assume "r = Ok ()" "cn_data c' = (cn_data c)\<lparr>db_seq_audit := db_seq_audit (cn_data c) + 1,
         db_audit := db_audit (cn_data c) @ [?row]\<rparr>"
    with row ms enc show ?thesis by (intro ok [of ?row]) simp_all
  qed
qed

lemma sql_audit_record_wf:
  assumes "sql_audit_record c e = (r, c')" and "sql_audit_wf c" and "valid_event e"
  shows "sql_audit_wf c'"
  using assms(1)
proof (cases rule: sql_audit_record_result)
  case err
  with assms(2) show ?thesis by (simp add: sql_audit_wf_def)
next
  case (ok row)
  have ids: "au_invocation row = ev_invocation e" "au_principal row = ev_principal e"
    "au_adapter row = ev_adapter e" "au_capability row = ev_capability e"
    using arg_cong [OF ok(2), of ev_invocation] arg_cong [OF ok(2), of ev_principal]
      arg_cong [OF ok(2), of ev_adapter] arg_cong [OF ok(2), of ev_capability]
    by (simp_all add: event_of_row_def stored_event_def audit_event_from_parts_def)
  have outcome: "\<exists>o'. (au_outcome_kind row, au_detail_code row) = encode_outcome o' \<and> valid_outcome o'"
    using ok(6) assms(3) by (auto simp: valid_event_def)
  have old: "au_sequence r < db_seq_audit (cn_data c) + 1" "au_sequence r \<le> db_seq_audit (cn_data c) + 1"
    if "r \<in> set (db_audit (cn_data c))" for r
    using that assms(2) by (force simp: sql_audit_wf_def)+
  have "sorted_wrt (<) (map au_sequence (db_audit (cn_data c')))"
    using assms(2) ok(3,7) old by (simp add: sql_audit_wf_def sorted_wrt_append)
  moreover have "0 \<le> au_occurred_at_ms r \<and> au_occurred_at_ms r \<le> i64_max \<and>
        au_sequence r \<le> db_seq_audit (cn_data c') \<and>
        (\<exists>o'. (au_outcome_kind r, au_detail_code r) = encode_outcome o' \<and> valid_outcome o') \<and>
        valid_identifier (au_invocation r) \<and> valid_identifier (au_principal r) \<and>
        valid_identifier (au_adapter r) \<and> valid_identifier (au_capability r)"
    if "r \<in> set (db_audit (cn_data c'))" for r
  proof (cases "r = row")
    case True
    with ids outcome ok(3,4,5,7) assms(3) show ?thesis by (simp add: valid_event_def)
  next
    case False
    with that ok(7) have "r \<in> set (db_audit (cn_data c))" by simp
    with assms(2) old(2) ok(7) show ?thesis by (simp add: sql_audit_wf_def)
  qed
  ultimately show ?thesis unfolding sql_audit_wf_def by blast
qed

section \<open>The dispatcher over the database\<close>

lemma sql_audit_policy_trail: "audit_trail (snd (sql_policy c r)) = audit_trail c"
  using sql_policy_result(1) [of c r] by (cases "sql_policy c r") (simp add: audit_trail_def)

lemma sql_audit_record_grants: "sql_grants (snd (sql_audit_record c e)) = sql_grants c"
proof -
  obtain r c' where run: "sql_audit_record c e = (r, c')" by (cases "sql_audit_record c e")
  then have "sql_grants c' = sql_grants c"
    by (cases rule: sql_audit_record_result) (simp_all add: sql_grants_def)
  with run show ?thesis by simp
qed

lemma sql_audit_record_trail:
  assumes "sql_audit_record c e = (r, c')"
  shows "audit_trail c' = audit_trail c @ (if is_ok r then [stored_event e] else [])"
  using assms by (cases rule: sql_audit_record_result) (simp_all add: audit_trail_def)

lemma stored_event_simps [simp]:
  "ev_outcome (stored_event e) = ev_outcome e" "event_key (stored_event e) = event_key e"
  by (simp_all add: stored_event_def event_key_def)

interpretation sql_dispatch: audited_authority sql_policy sql_grants healthy sql_audit_record
  audit_trail stored_event
proof (unfold_locales, goal_cases)
  case 1
  then show ?case by (simp add: sql_audit_record_trail)
next
  case 2
  then show ?case by (simp add: sql_audit_record_trail)
qed (simp_all add: sql_audit_record_grants sql_audit_policy_trail)

section \<open>Queries\<close>

lemma RawAuditEvent_validate_row:
  assumes "sql_audit_wf c" and "r \<in> set (db_audit (cn_data c))"
  shows "RawAuditEvent_validate r = Ok \<lparr>se_sequence = au_sequence r, se_event = event_of_row r\<rparr>"
proof -
  obtain o' where o': "(au_outcome_kind r, au_detail_code r) = encode_outcome o'" "valid_outcome o'"
    using assms by (auto simp: sql_audit_wf_def)
  then have "decode_outcome (au_outcome_kind r) (au_detail_code r) = Ok o'"
    using decode_encode_outcome [of o'] by (metis fst_conv snd_conv)
  moreover have "raw_outcome (au_outcome_kind r) (au_detail_code r) = o'"
    using o'(1) by (rule raw_encode_outcome)
  moreover have "u64_try_from (au_occurred_at_ms r) = Some (nat (au_occurred_at_ms r))"
      "0 \<le> au_occurred_at_ms r"
    using assms by (auto simp: sql_audit_wf_def u64_try_from_def i64_max_def u64_max_def)
  moreover have "valid_identifier (au_invocation r)" "valid_identifier (au_principal r)"
      "valid_identifier (au_adapter r)" "valid_identifier (au_capability r)"
    using assms by (auto simp: sql_audit_wf_def)
  ultimately show ?thesis
    by (simp add: RawAuditEvent_validate_def ok_or_def identifier_new_Ok_iff event_of_row_def)
qed

lemma sort_descending:
  fixes f :: "'a \<Rightarrow> int"
  assumes "sorted_wrt (<) (map f xs)"
  shows "sort_key (\<lambda>x. - f x) xs = rev xs"
proof (rule properties_for_sort_key)
  show "mset (rev xs) = mset xs" by simp
  show "sorted (map (\<lambda>x. - f x) (rev xs))"
    using assms by (induction xs) (simp_all add: sorted_append less_imp_le)
  fix k
  let ?ys = "filter (\<lambda>y. - f k = - f y) xs"
  have s: "sorted_wrt (<) (map f ?ys)"
    using assms by (simp add: sorted_wrt_map sorted_wrt_filter)
  have eq: "f y = f k" if "y \<in> set ?ys" for y using that by simp
  have "rev ?ys = ?ys"
  proof (cases ?ys)
    case (Cons a as)
    note ys = Cons
    show ?thesis
    proof (cases as)
      case Nil
      with ys show ?thesis by (simp only: rev.simps append_Nil)
    next
      case (Cons b bs)
      with \<open>?ys = a # as\<close> s have "f a < f b" by simp
      moreover have "f a = f k" "f b = f k"
        by (rule eq, simp only: \<open>?ys = a # as\<close> Cons, simp)+
      ultimately show ?thesis by simp
    qed
  next
    case Nil
    then show ?thesis by (simp only: rev.simps)
  qed
  then show "filter (\<lambda>y. - f k = - f y) (rev xs) = ?ys" by (simp add: rev_filter)
qed

lemma query_audit_events_result:
  assumes "sql_audit_wf c" and "query_audit_events c p n = (r, c')"
  shows "cn_data c' = cn_data c"
    and "\<not> healthy c \<and> r \<in> {Err SqlUnavailable, Err SqlDatabase} \<or>
      r = Ok (map (\<lambda>r. \<lparr>se_sequence = au_sequence r, se_event = event_of_row r\<rparr>)
        (take n (rev (filter p (db_audit (cn_data c))))))"
proof -
  let ?rows = "take n (rev (filter p (db_audit (cn_data c))))"
  have "sorted_wrt (<) (map au_sequence (filter p (db_audit (cn_data c))))"
    using assms(1) by (simp add: sql_audit_wf_def sorted_wrt_map sorted_wrt_filter)
  then have sort: "sort_key (\<lambda>r. - au_sequence r) (filter p (db_audit (cn_data c))) =
      rev (filter p (db_audit (cn_data c)))"
    by (rule sort_descending)
  have "collectR RawAuditEvent_validate ?rows =
      Ok (map (\<lambda>r. \<lparr>se_sequence = au_sequence r, se_event = event_of_row r\<rparr>) ?rows)"
    by (rule collectR_all, rule RawAuditEvent_validate_row [OF assms(1)]) (auto dest: in_set_takeD)
  then show "cn_data c' = cn_data c"
    and "\<not> healthy c \<and> r \<in> {Err SqlUnavailable, Err SqlDatabase} \<or>
      r = Ok (map (\<lambda>r. \<lparr>se_sequence = au_sequence r, se_event = event_of_row r\<rparr>) ?rows)"
    using assms(2) unfolding query_audit_events_def
    by (auto simp: sort elim!: attempt_cases)
qed

end
