(* ===== verification/Host_Dispatch.thy ===== *)
theory Host_Dispatch
  imports Sql_Audit
begin

text \<open>
  The dispatcher as a host runs it: registered capabilities, the grants of the encrypted database as
  its policy and the audit log of the same database as its sink. The properties of
  \<open>audited_authority\<close> are stated here for that configuration.
\<close>

definition from_shared ::
    "('v, 'w) registry \<Rightarrow> ('s, 'v) policy \<Rightarrow> 's audit_sink \<Rightarrow> ('v, 'w, 's) dispatcher" where
  "from_shared reg policy audit = \<lparr>dp_registry = reg, dp_policy = policy, dp_audit = audit\<rparr>"

abbreviation sql_host :: "('v, 'w) registry \<Rightarrow> ('v, 'w, conn) dispatcher" where
  "sql_host reg \<equiv> from_shared reg sql_policy sql_audit_record"

text \<open>What an administrator may do between two steps: add and remove grants.\<close>

definition sql_admin :: "conn \<Rightarrow> conn \<Rightarrow> bool" where
  "sql_admin c c' \<longleftrightarrow> (\<exists>g. c' = snd (sql_add_grant c g) \<or> c' = snd (sql_remove_grant c g))"

lemma sql_admin_trail: "sql_admin c c' \<Longrightarrow> audit_trail c' = audit_trail c"
proof -
  have "audit_trail (snd (sql_add_grant c g)) = audit_trail c" for g
    by (cases "sql_add_grant c g")
      (auto simp: sql_add_grant_def audit_trail_def elim!: attempt_cases split: if_splits)
  moreover have "audit_trail (snd (sql_remove_grant c g)) = audit_trail c" for g
    by (cases "sql_remove_grant c g")
      (auto simp: sql_remove_grant_def audit_trail_def elim!: attempt_cases)
  ultimately show "sql_admin c c' \<Longrightarrow> audit_trail c' = audit_trail c"
    by (auto simp: sql_admin_def)
qed

section \<open>Registering and recording\<close>

text \<open>A registry after a host offered it some capabilities; a repeated identifier is refused.\<close>

definition registry_of :: "('v descriptor \<times> ('v, 'w) handler) list \<Rightarrow> ('v, 'w) registry" where
  "registry_of regs = foldl (\<lambda>reg (d, h). snd (register reg d h)) registry_new regs"

lemma registry_of_snoc: "registry_of (regs @ [(d, h)]) = snd (register (registry_of regs) d h)"
  by (simp add: registry_of_def)

lemma registry_of_wf: "registry_wf (registry_of regs)"
  by (induction regs rule: rev_induct)
    (simp add: registry_of_def, clarsimp simp: registry_of_snoc register_wf)

lemma find_append: "find P (xs @ ys) = (case find P xs of None \<Rightarrow> find P ys | Some x \<Rightarrow> Some x)"
  by (induction xs) simp_all

lemma resolve_registry_of: "resolve (registry_of regs) i = find (\<lambda>x. cd_id (fst x) = i) regs"
proof (induction regs rule: rev_induct)
  case Nil
  then show ?case by (simp add: registry_of_def registry_new_def resolve_def)
next
  case (snoc x regs)
  obtain d h where x: "x = (d, h)" by fastforce
  show ?case
  proof (cases "fst (register (registry_of regs) d h)")
    case (Inl e)
    note dup = register_duplicate [OF this]
    show ?thesis
    proof (cases "i = cd_id d")
      case True
      then obtain y where "find (\<lambda>x. cd_id (fst x) = i) regs = Some y" using dup snoc by auto
      with dup snoc x show ?thesis by (simp add: registry_of_snoc find_append)
    qed (use dup snoc x in \<open>simp add: registry_of_snoc find_append split: option.split\<close>)
  next
    case (Inr u)
    then have "resolve (registry_of regs) (cd_id d) = None"
      by (auto simp: register_def resolve_def split: option.splits)
    with resolve_register [of "registry_of regs" d h] Inr snoc x show ?thesis
      by (auto simp: registry_of_snoc find_append split: option.split)
  qed
qed

lemma descriptors_increasing:
  assumes "registry_wf reg"
  shows "sorted_wrt (<) (map cd_id (descriptors reg))"
proof -
  have "distinct (map cd_id (descriptors reg))"
    using assms by (simp add: map_id_descriptors registry_wf_def)
  moreover have "sorted (map cd_id (descriptors reg))" by (simp add: map_id_descriptors [OF assms])
  ultimately show ?thesis by (simp add: strict_sorted_iff)
qed

text \<open>Events offered to the audit log in turn, and those it accepted.\<close>

fun record_all :: "audit_event list \<Rightarrow> conn \<Rightarrow> audit_event list \<times> conn" where
  "record_all [] c = ([], c)"
| "record_all (e # es) c =
     (case sql_audit_record c e of (r, c') \<Rightarrow>
        (case record_all es c' of (kept, c'') \<Rightarrow> (if is_ok r then e # kept else kept, c'')))"

text \<open>The event with its time rounded down to milliseconds, the rest as it is.\<close>

definition to_millis :: "audit_event \<Rightarrow> audit_event" where
  "to_millis e = e\<lparr>ev_occurred_at := 1000000 * (ev_occurred_at e div 1000000)\<rparr>"

lemma stored_to_millis: "stored_event e = to_millis e"
  by (simp add: stored_event_def to_millis_def)

lemma record_all_result:
  assumes "record_all evs c = (kept, c')" and "list_all valid_event evs" and "sql_audit_wf c"
  shows "sql_audit_wf c' \<and> audit_trail c' = audit_trail c @ map to_millis kept"
  using assms
proof (induction evs arbitrary: c kept)
  case (Cons e evs)
  obtain r c1 kept1 where run: "sql_audit_record c e = (r, c1)" "record_all evs c1 = (kept1, c')"
    "kept = (if is_ok r then e # kept1 else kept1)"
    using Cons.prems(1) by (auto split: prod.splits)
  have "sql_audit_wf c1" using sql_audit_record_wf [OF run(1) Cons.prems(3)] Cons.prems(2) by simp
  with Cons.IH [OF run(2)] Cons.prems(2) sql_audit_record_trail [OF run(1)] run(3) show ?case
    by (simp add: stored_to_millis)
qed simp

lemma filter_map_eq:
  assumes "map f xs = map g ys" and "\<And>x y. f x = g y \<Longrightarrow> P y \<longleftrightarrow> Q x"
  shows "map f (filter Q xs) = map g (filter P ys)"
  using assms(1)
proof (induction xs arbitrary: ys)
  case (Cons x xs)
  then obtain y zs where "ys = y # zs" "f x = g y" "map f xs = map g zs" by (cases ys) auto
  with Cons.IH assms(2) show ?case by simp
qed simp

lemma query_audit_trail:
  assumes "sql_audit_wf c" and "healthy c"
  shows "\<exists>es. fst (query_audit_events c p n) = Ok es \<and>
    map se_event es = take n (rev (map event_of_row (filter p (db_audit (cn_data c))))) \<and>
    sorted_wrt (>) (map se_sequence es)"
proof -
  obtain r c' where run: "query_audit_events c p n = (r, c')" by (cases "query_audit_events c p n")
  let ?rows = "take n (rev (filter p (db_audit (cn_data c))))"
  let ?es = "map (\<lambda>r. \<lparr>se_sequence = au_sequence r, se_event = event_of_row r\<rparr>) ?rows"
  have "r = Ok ?es" using query_audit_events_result(2) [OF assms(1) run] assms(2) by simp
  moreover have "map se_event ?es = take n (rev (map event_of_row (filter p (db_audit (cn_data c)))))"
    by (simp add: o_def take_map rev_map)
  moreover have "sorted_wrt (>) (rev (map au_sequence (filter p (db_audit (cn_data c)))))"
    using assms(1) by (simp add: sql_audit_wf_def sorted_wrt_rev sorted_wrt_map sorted_wrt_filter)
  then have "sorted_wrt (>) (map se_sequence ?es)"
    by (simp add: o_def take_map [symmetric] rev_map sorted_wrt_take)
  ultimately show ?thesis using run by auto
qed

section \<open>A small host\<close>

text \<open>One capability that counts its calls, one grant, and a database that answers.\<close>

definition counter_descriptor :: "nat descriptor" where
  "counter_descriptor =
     \<lparr>cd_id = lit ''notes.count'', cd_summary = lit ''Count'', cd_effect = Mutating,
      cd_input_schema = \<lparr>sch_document = Some 0, sch_validator = Some (\<lambda>n. n < 10)\<rparr>\<rparr>"

definition counter_handler :: "(nat, nat) handler" where
  "counter_handler ctx inp w = (Ok (w + inp), w + inp)"

definition counter_registry :: "(nat, nat) registry" where
  "counter_registry = snd (register registry_new counter_descriptor counter_handler)"

definition counter_invocation :: "nat invocation" where
  "counter_invocation =
     \<lparr>inv_id = lit ''r1'', inv_adapter = lit ''mcp'',
      inv_principal = \<lparr>pr_id = lit ''alice'', pr_kind = Application\<rparr>,
      inv_capability = lit ''notes.count'', inv_input = 3\<rparr>"

definition counter_conn :: conn where
  "counter_conn =
     \<lparr>cn_data = empty_database\<lparr>db_grants := [\<lparr>gw_principal = lit ''alice'', gw_adapter = lit ''mcp'',
        gw_capability = lit ''notes.count''\<rparr>]\<rparr>, cn_plan = []\<rparr>"

lemmas counter_simps =
  counter_descriptor_def counter_handler_def counter_registry_def counter_invocation_def
  counter_conn_def register_def registry_new_def empty_database_def

lemma counter_registry_wf: "registry_wf counter_registry"
  unfolding counter_registry_def by (rule register_wf) simp

lemma counter_resolve:
  "resolve counter_registry (inv_capability counter_invocation) =
     Some (counter_descriptor, counter_handler)"
  by (simp add: counter_simps resolve_def)

lemma counter_policy:
  "sql_policy counter_conn \<lparr>req_principal = inv_principal counter_invocation,
     req_adapter = inv_adapter counter_invocation, req_capability = counter_descriptor\<rparr> =
     (Allow, counter_conn)"
  by (simp add: sql_policy_def stored_grant_evaluate_def sql_grant_store_def sql_contains_grant_def
      counter_simps)

lemma sql_audit_record_clear:
  assumes "cn_plan c = []" and "0 \<le> ev_occurred_at e" and "ev_occurred_at e < 1000000000000"
    and "db_seq_audit (cn_data c) < 100"
  shows "fst (sql_audit_record c e) = Ok ()" "cn_plan (snd (sql_audit_record c e)) = []"
    "db_seq_audit (cn_data (snd (sql_audit_record c e))) = db_seq_audit (cn_data c) + 1"
proof -
  have "ev_occurred_at e div 1000000 \<le> 1000000" "0 \<le> ev_occurred_at e div 1000000"
    using assms(2,3) by (simp_all add: pos_imp_zdiv_nonneg_iff)
  then have "Option.bind (duration_since_epoch_millis (ev_occurred_at e)) i64_try_from =
      Some (ev_occurred_at e div 1000000)"
    using assms(2) by (simp add: duration_since_epoch_millis_def i64_try_from_def in_i64_def
        i64_min_def i64_max_def)
  moreover obtain k d where "encode_outcome (ev_outcome e) = (k, d)" by fastforce
  moreover have "audit_row_check k d"
    using encode_outcome_check [of "ev_outcome e"] calculation(2) by simp
  moreover have "db_seq_audit (cn_data c) < i64_max" using assms(4) by (simp add: i64_max_def)
  ultimately show "fst (sql_audit_record c e) = Ok ()" "cn_plan (snd (sql_audit_record c e)) = []"
    "db_seq_audit (cn_data (snd (sql_audit_record c e))) = db_seq_audit (cn_data c) + 1"
    using assms(1) by (simp_all add: sql_audit_record_def)
qed

lemma counter_begin:
  "\<exists>c. dispatch_begin (sql_host counter_registry) 0 counter_conn counter_invocation =
     (AwaitHandler (from_invocation counter_invocation) counter_handler 3, c) \<and>
     cn_plan c = [] \<and> db_seq_audit (cn_data c) = 1"
proof -
  let ?e = "audit_event_new 0 (from_invocation counter_invocation) AuditStarted"
  have acc: "accepts_input counter_descriptor (inv_input counter_invocation)"
    by (simp add: accepts_input_def schema_accepts_def counter_simps)
  have seq: "cn_plan counter_conn = []" "db_seq_audit (cn_data counter_conn) = 0"
    by (simp_all add: counter_simps)
  have t: "ev_occurred_at ?e = 0" by (simp add: audit_event_new_def audit_event_from_parts_def)
  obtain r c where rc: "sql_audit_record counter_conn ?e = (r, c)"
    by (cases "sql_audit_record counter_conn ?e")
  with sql_audit_record_clear [of counter_conn ?e] seq t
  have "r = Ok ()" "cn_plan c = []" "db_seq_audit (cn_data c) = 1" by simp_all
  moreover have "inv_input counter_invocation = 3" by (simp add: counter_invocation_def)
  ultimately show ?thesis
    using rc acc by (simp add: dispatch_begin_def from_shared_def counter_resolve counter_policy)
qed

lemma counter_dispatch:
  "\<exists>c. dispatch (sql_host counter_registry) (\<lambda>_. 0) counter_conn 4 counter_invocation =
     (Ok 7, c, 7)"
proof -
  obtain c where c: "dispatch_begin (sql_host counter_registry) 0 counter_conn counter_invocation =
     (AwaitHandler (from_invocation counter_invocation) counter_handler 3, c)"
    "cn_plan c = []" "db_seq_audit (cn_data c) = 1" using counter_begin by blast
  let ?e = "audit_event_new 0 (from_invocation counter_invocation) AuditSucceeded"
  have t: "ev_occurred_at ?e = 0" by (simp add: audit_event_new_def audit_event_from_parts_def)
  obtain r c' where rc: "sql_audit_record c ?e = (r, c')" by (cases "sql_audit_record c ?e")
  with sql_audit_record_clear(1) [of c ?e] c t have "r = Ok ()" by simp
  with rc c show ?thesis
    by (simp add: dispatch_def dispatch_finish_def from_shared_def counter_handler_def)
qed

section \<open>Properties\<close>

text \<open>C1 (safety): a dispatch touches the host, returns a handler's output or reports a handler's
  failure only if the capability is registered, the caller's triple is a stored grant, the input is
  accepted by the capability's schema, and a start event for this very invocation was written to the
  audit log first; what it did to the host is exactly what that one handler does.\<close>

theorem host_gate:
  assumes "dispatch (sql_host reg) clock c w i = (r, c', w')" and "registry_wf reg"
    and "w' \<noteq> w \<or> (\<exists>v. r = Ok v) \<or> (\<exists>e. r = Err (DispatchHandler e))"
  shows "\<exists>d h. resolve reg (inv_capability i) = Some (d, h) \<and>
           (pr_id (inv_principal i), inv_adapter i, inv_capability i) \<in> sql_grants c \<and>
           accepts_input d (inv_input i) \<and>
           w' = snd (h (from_invocation i) (inv_input i) w) \<and>
           (\<exists>e es. audit_trail c' = audit_trail c @ e # es \<and> ev_outcome e = AuditStarted \<and>
              event_key e = invocation_key i)"
  using sql_dispatch.dispatch_host_gate [of reg clock c w i r c' w'] assms
  by (simp add: from_shared_def)

theorem host_gate_witness:
  "\<exists>c'. dispatch (sql_host counter_registry) (\<lambda>_. 0) counter_conn 4 counter_invocation = (Ok 7, c', 7)
     \<and> (lit ''alice'', lit ''mcp'', lit ''notes.count'') \<in> sql_grants counter_conn"
proof -
  obtain c' where run: "dispatch (sql_host counter_registry) (\<lambda>_. 0) counter_conn 4
      counter_invocation = (Ok 7, c', 7)" using counter_dispatch by blast
  from host_gate [OF run counter_registry_wf] run show ?thesis
    by (auto simp: counter_invocation_def)
qed

text \<open>C9 (functional): the events one dispatch appends to the audit log are, in order, exactly those
  its result calls for, all of them keyed by this invocation; only an audit failure leaves the trail
  short, and then the result says so.\<close>

theorem dispatch_trail:
  assumes "dispatch (sql_host reg) clock c w i = (r, c', w')"
  shows "\<exists>es. audit_trail c' = audit_trail c @ es \<and> map ev_outcome es \<in> outcomes_for r \<and>
           (\<forall>e\<in>set es. event_key e = invocation_key i)"
  using sql_dispatch.dispatch_records [of reg clock c w i r c' w'] assms
  by (auto simp: from_shared_def sql_dispatch.records_def)

theorem dispatch_trail_witness:
  "\<exists>c' es. dispatch (sql_host counter_registry) (\<lambda>_. 0) counter_conn 4 counter_invocation = (Ok 7, c', 7)
     \<and> audit_trail c' = audit_trail counter_conn @ es
     \<and> map ev_outcome es = [AuditStarted, AuditSucceeded]"
proof -
  obtain c' where run: "dispatch (sql_host counter_registry) (\<lambda>_. 0) counter_conn 4
      counter_invocation = (Ok 7, c', 7)" using counter_dispatch by blast
  from dispatch_trail [OF run] run show ?thesis by auto
qed

text \<open>C6 (invariant): however many invocations are interleaved at their handlers, cancelled there,
  or run beside changes of the grants, the audit log stays well bracketed: at every prefix, and for
  every invocation, completions never exceed starts, and an invocation still in flight has a start
  that no completion has used.\<close>

theorem interleaved_trail:
  assumes "sys_reachable (sql_host reg) sql_admin
             \<lparr>sys_state = c, sys_host = w, sys_tasks = []\<rparr> sys"
    and "well_bracketed (audit_trail c)"
  shows "well_bracketed (audit_trail (sys_state sys)) \<and>
         completions k (audit_trail (sys_state sys)) + in_flight k sys
           \<le> starts k (audit_trail (sys_state sys))"
proof -
  have "sql_dispatch.trail_inv \<lparr>sys_state = c, sys_host = w, sys_tasks = []\<rparr>"
    by (rule sql_dispatch.trail_inv_start) (simp_all add: assms(2))
  from sql_dispatch.sys_reachable_inv [OF assms(1) [unfolded from_shared_def] sql_admin_trail this]
  show ?thesis by (simp add: sql_dispatch.trail_inv_def)
qed

theorem interleaved_trail_witness:
  "\<exists>c. sys_reachable (sql_host counter_registry) sql_admin
       \<lparr>sys_state = counter_conn, sys_host = (4 :: nat), sys_tasks = []\<rparr>
       \<lparr>sys_state = c, sys_host = 4,
        sys_tasks = [(from_invocation counter_invocation, counter_handler, 3)]\<rparr> \<and>
     1 \<le> starts (invocation_key counter_invocation) (audit_trail c)"
proof -
  let ?c0 = "\<lparr>sys_state = counter_conn, sys_host = 4, sys_tasks = []\<rparr> :: (nat, nat, conn) system"
  obtain c where run: "dispatch_begin (sql_host counter_registry) 0 (sys_state ?c0) counter_invocation =
     (AwaitHandler (from_invocation counter_invocation) counter_handler 3, c)"
    using counter_begin by auto
  have reach: "sys_reachable (sql_host counter_registry) sql_admin ?c0
      \<lparr>sys_state = c, sys_host = 4,
        sys_tasks = [(from_invocation counter_invocation, counter_handler, 3)]\<rparr>"
    using reach_step [OF reach_refl step_start [OF run]] by simp
  have "well_bracketed (audit_trail counter_conn)"
    by (simp add: audit_trail_def counter_conn_def empty_database_def)
  from interleaved_trail [OF reach this, of "invocation_key counter_invocation"] reach
  show ?thesis by (auto simp: in_flight_def)
qed

text \<open>C13 (functional): discovery over the capabilities a host registered, one after another. It lists in
  strictly increasing order of their identifiers exactly the descriptors whose identifier the caller's
  stored grants allow, of several registrations of one identifier the first; or it fails because the
  policy cannot be read, which does not happen on a database that answers.\<close>

theorem discovery_exact:
  "(\<exists>ds. fst (capabilities (sql_host (registry_of regs)) c prin adapter) = Ok ds \<and>
      sorted_wrt (<) (map cd_id ds) \<and>
      (\<forall>d. d \<in> set ds \<longleftrightarrow> (\<exists>h. find (\<lambda>x. cd_id (fst x) = cd_id d) regs = Some (d, h)) \<and>
         (pr_id prin, adapter, cd_id d) \<in> sql_grants c)) \<or>
   fst (capabilities (sql_host (registry_of regs)) c prin adapter) = Err DiscoveryPolicyUnavailable \<and> \<not> healthy c"
proof -
  let ?reg = "registry_of regs"
  let ?ds = "filter (\<lambda>d. (pr_id prin, adapter, cd_id d) \<in> sql_grants c) (descriptors ?reg)"
  have "sorted_wrt (<) (map cd_id ?ds)"
    using descriptors_increasing [OF registry_of_wf [of regs]] by (simp add: sorted_wrt_map sorted_wrt_filter)
  moreover have "d \<in> set ?ds \<longleftrightarrow> (\<exists>h. find (\<lambda>x. cd_id (fst x) = cd_id d) regs = Some (d, h)) \<and>
      (pr_id prin, adapter, cd_id d) \<in> sql_grants c" for d
    using descriptors_resolve [OF registry_of_wf [of regs], of d] by (auto simp: resolve_registry_of)
  ultimately show ?thesis
    using sql_dispatch.capabilities_exact [where reg = ?reg and s = c and prin = prin and adapter = adapter]
    by (auto simp: from_shared_def simp del: set_filter)
qed

text \<open>C12 (round trip): what is recorded is what is read. After any events were offered to an empty audit
  log, some of them accepted and some refused, the newest-first queries of a database that answers return
  the last \<open>n\<close> accepted events, or the last \<open>n\<close> of one principal, in reverse order of recording: the
  invocation, principal, adapter, capability and outcome of each as recorded and its time rounded down to
  milliseconds, with strictly falling sequence numbers.\<close>

theorem audit_query_exact:
  assumes "record_all evs c = (kept, c')" and "db_audit (cn_data c) = []" and "list_all valid_event evs"
    and "healthy c'"
  shows "(\<exists>es. fst (recent_audit_events c' n) = Ok es \<and>
            map se_event es = take n (rev (map to_millis kept)) \<and> sorted_wrt (>) (map se_sequence es)) \<and>
         (\<exists>es. fst (audit_events_for_principal c' prin n) = Ok es \<and>
            map se_event es = take n (rev (map to_millis (filter (\<lambda>e. ev_principal e = prin) kept))) \<and>
            sorted_wrt (>) (map se_sequence es))"
proof -
  have wf: "sql_audit_wf c'" and trail: "audit_trail c' = map to_millis kept"
    using record_all_result [OF assms(1,3)] assms(2) by (simp_all add: sql_audit_wf_def [of c] audit_trail_def)
  have kept: "map event_of_row (filter (\<lambda>r. au_principal r = prin) (db_audit (cn_data c'))) =
      map to_millis (filter (\<lambda>e. ev_principal e = prin) kept)"
  proof (rule filter_map_eq)
    show "map event_of_row (db_audit (cn_data c')) = map to_millis kept" using trail by (simp add: audit_trail_def)
    fix r e
    assume "event_of_row r = to_millis e"
    from arg_cong [OF this, of ev_principal] show "ev_principal e = prin \<longleftrightarrow> au_principal r = prin"
      by (simp add: event_of_row_def audit_event_from_parts_def to_millis_def)
  qed
  show ?thesis
    using query_audit_trail [OF wf assms(4), of "\<lambda>_. True" n]
      query_audit_trail [OF wf assms(4), of "\<lambda>r. au_principal r = prin" n] trail kept
    by (simp add: recent_audit_events_def audit_events_for_principal_def audit_trail_def)
qed

definition noted_event :: audit_event where
  "noted_event = audit_event_from_parts 1234567890 (lit ''r1'') (lit ''alice'') (lit ''mcp'')
     (lit ''notes.count'') (AuditHandlerFailed (lit ''busy''))"

definition noted_conn :: conn where
  "noted_conn = snd (sql_audit_record \<lparr>cn_data = empty_database, cn_plan = []\<rparr> noted_event)"

lemma valid_identifier_lit_simps:
  "valid_identifier (lit ''r1'')" "valid_identifier (lit ''alice'')" "valid_identifier (lit ''mcp'')"
  "valid_identifier (lit ''notes.count'')" "valid_identifier (lit ''busy'')"
  by (simp_all add: valid_identifier_def lit_def of_char_def is_allowed_def
      is_ascii_alphanumeric_def)

lemma noted_conn_run:
  "sql_audit_record \<lparr>cn_data = empty_database, cn_plan = []\<rparr> noted_event = (Ok (), noted_conn)"
  "cn_plan noted_conn = []"
proof -
  have t: "ev_occurred_at noted_event = 1234567890"
    by (simp add: noted_event_def audit_event_from_parts_def)
  from t sql_audit_record_clear [of "\<lparr>cn_data = empty_database, cn_plan = []\<rparr>" noted_event]
  show "sql_audit_record \<lparr>cn_data = empty_database, cn_plan = []\<rparr> noted_event = (Ok (), noted_conn)"
    "cn_plan noted_conn = []"
    by (simp_all add: noted_conn_def prod_eq_iff empty_database_def)
qed

lemma noted_event_valid: "valid_event noted_event"
  by (simp add: valid_event_def noted_event_def audit_event_from_parts_def valid_outcome_def
      valid_identifier_lit_simps)

lemma noted_conn_wf: "healthy noted_conn"
  by (simp add: noted_conn_run(2) healthy_def)

theorem audit_query_exact_witness:
  "\<exists>e. fst (recent_audit_events noted_conn 5) = Ok [e] \<and>
     ev_occurred_at (se_event e) = 1234000000 \<and>
     ev_outcome (se_event e) = AuditHandlerFailed (lit ''busy'')"
proof -
  have run: "record_all [noted_event] \<lparr>cn_data = empty_database, cn_plan = []\<rparr> = ([noted_event], noted_conn)"
    by (simp add: noted_conn_run)
  obtain es where es: "fst (recent_audit_events noted_conn 5) = Ok es"
    "map se_event es = take 5 (rev (map to_millis [noted_event]))"
    using audit_query_exact [OF run, where n = 5, THEN conjunct1] noted_conn_wf noted_event_valid
    by (auto simp: empty_database_def)
  then obtain e where "es = [e]" "se_event e = to_millis noted_event" by auto
  with es show ?thesis by (simp add: to_millis_def noted_event_def audit_event_from_parts_def)
qed

end
