(* ===== verification/Auth_Model.thy ===== *)
theory Auth_Model
  imports Core_Model
begin

text \<open>
  The data of \<open>bondry-auth\<close>: clients (\<open>client.rs\<close>), tokens, their generation and parsing
  (\<open>token.rs\<close>). Base64, SHA-256 and the constant-time comparison are third-party code: they are the
  fields of a record \<open>crypto\<close>, and \<open>crypto_ok\<close> names what their documentation promises and the code
  relies on. The operating system's entropy is a source that may fail at any call.
\<close>

section \<open>Third-party operations\<close>

record crypto =
  b64_encode :: "bytes \<Rightarrow> rstr"
  b64_decode :: "rstr \<Rightarrow> bytes option"
  sha256 :: "bytes \<Rightarrow> bytes"
  ct_eq :: "bytes \<Rightarrow> bytes \<Rightarrow> bool"

definition url_safe_char :: "nat \<Rightarrow> bool" where
  "url_safe_char c \<longleftrightarrow> is_ascii_alphanumeric c \<or> c = 45 \<or> c = 95"

text \<open>
  \<open>URL_SAFE_NO_PAD\<close> decodes what it encodes, uses the URL-safe alphabet without padding and needs
  four characters for three bytes; SHA-256 yields 32 bytes; \<open>ct_eq\<close> decides equality.
\<close>

definition crypto_ok :: "crypto \<Rightarrow> bool" where
  "crypto_ok cr \<longleftrightarrow>
     (\<forall>bs. b64_decode cr (b64_encode cr bs) = Some bs) \<and>
     (\<forall>bs. list_all url_safe_char (b64_encode cr bs)) \<and>
     (\<forall>bs. length (b64_encode cr bs) = (4 * length bs + 2) div 3) \<and>
     (\<forall>bs. length (sha256 cr bs) = 32) \<and>
     (\<forall>a b. ct_eq cr a b = (a = b))"

section \<open>Clients\<close>

definition MAX_CLIENT_NAME_LENGTH :: nat where "MAX_CLIENT_NAME_LENGTH = 128"

datatype client_name_error = NameEmpty | NameTooLong

type_synonym client_name = rstr

definition ClientName_new :: "rstr \<Rightarrow> client_name_error + client_name" where
  "ClientName_new v =
     (let v = trim v in
      if v = [] then Err NameEmpty
      else if str_len v > MAX_CLIENT_NAME_LENGTH then Err NameTooLong
      else Ok v)"

record client =
  cl_id :: principal_id
  cl_name :: client_name
  cl_enabled :: bool
  cl_created_at :: int

definition Client_from_stored_parts :: "principal_id \<Rightarrow> client_name \<Rightarrow> bool \<Rightarrow> int \<Rightarrow> client" where
  "Client_from_stored_parts i name enabled created_at =
     \<lparr>cl_id = i, cl_name = name, cl_enabled = enabled, cl_created_at = created_at\<rparr>"

section \<open>Tokens\<close>

definition TOKEN_FORMAT :: rstr where "TOKEN_FORMAT = lit ''bondry_v1''"
definition TOKEN_ID_PREFIX :: rstr where "TOKEN_ID_PREFIX = lit ''token_''"
definition TOKEN_ID_RANDOM_BYTES :: nat where "TOKEN_ID_RANDOM_BYTES = 16"
definition TOKEN_SECRET_BYTES :: nat where "TOKEN_SECRET_BYTES = 32"
definition MAX_TOKEN_LABEL_LENGTH :: nat where "MAX_TOKEN_LABEL_LENGTH = 128"

datatype token_id_error = TokenIdInvalid

type_synonym token_id = rstr

definition TokenId_new :: "crypto \<Rightarrow> rstr \<Rightarrow> token_id_error + token_id" where
  "TokenId_new cr v =
     (case strip_prefix TOKEN_ID_PREFIX v of
        None \<Rightarrow> Err TokenIdInvalid
      | Some encoded \<Rightarrow>
          (case b64_decode cr encoded of
             None \<Rightarrow> Err TokenIdInvalid
           | Some bs \<Rightarrow>
               if length bs \<noteq> TOKEN_ID_RANDOM_BYTES then Err TokenIdInvalid else Ok v))"

definition TokenId_from_random_bytes :: "crypto \<Rightarrow> bytes \<Rightarrow> token_id_error + token_id" where
  "TokenId_from_random_bytes cr bs = TokenId_new cr (TOKEN_ID_PREFIX @ b64_encode cr bs)"

datatype token_label_error = LabelEmpty | LabelTooLong

type_synonym token_label = rstr

definition TokenLabel_new :: "rstr \<Rightarrow> token_label_error + token_label" where
  "TokenLabel_new v =
     (let v = trim v in
      if v = [] then Err LabelEmpty
      else if str_len v > MAX_TOKEN_LABEL_LENGTH then Err LabelTooLong
      else Ok v)"

type_synonym token_digest = bytes

definition TokenDigest_from_secret :: "crypto \<Rightarrow> bytes \<Rightarrow> token_digest" where
  "TokenDigest_from_secret cr secret = sha256 cr secret"

definition TokenDigest_matches :: "crypto \<Rightarrow> token_digest \<Rightarrow> token_digest \<Rightarrow> bool" where
  "TokenDigest_matches cr d candidate = ct_eq cr d candidate"

record token_record =
  tr_id :: token_id
  tr_client :: principal_id
  tr_label :: "token_label option"
  tr_digest :: token_digest
  tr_created_at :: int
  tr_expires_at :: "int option"
  tr_revoked_at :: "int option"

record token_metadata =
  tm_id :: token_id
  tm_client :: principal_id
  tm_label :: "token_label option"
  tm_created_at :: int
  tm_expires_at :: "int option"
  tm_revoked_at :: "int option"

definition TokenRecord_from_stored_parts ::
    "token_id \<Rightarrow> principal_id \<Rightarrow> token_label option \<Rightarrow> token_digest \<Rightarrow> int \<Rightarrow> int option \<Rightarrow> int option
       \<Rightarrow> token_record" where
  "TokenRecord_from_stored_parts i c l d cre e r =
     \<lparr>tr_id = i, tr_client = c, tr_label = l, tr_digest = d, tr_created_at = cre,
      tr_expires_at = e, tr_revoked_at = r\<rparr>"

definition mark_revoked :: "token_record \<Rightarrow> int \<Rightarrow> token_record" where
  "mark_revoked t revoked_at = t\<lparr>tr_revoked_at := Some revoked_at\<rparr>"

definition is_active_at :: "token_record \<Rightarrow> int \<Rightarrow> bool" where
  "is_active_at t now \<longleftrightarrow>
     tr_revoked_at t = None \<and>
     (case tr_expires_at t of None \<Rightarrow> True | Some expires_at \<Rightarrow> now < expires_at)"

definition metadata :: "token_record \<Rightarrow> token_metadata" where
  "metadata t =
     \<lparr>tm_id = tr_id t, tm_client = tr_client t, tm_label = tr_label t,
      tm_created_at = tr_created_at t, tm_expires_at = tr_expires_at t,
      tm_revoked_at = tr_revoked_at t\<rparr>"

definition TokenMetadata_from_stored_parts ::
    "token_id \<Rightarrow> principal_id \<Rightarrow> token_label option \<Rightarrow> int \<Rightarrow> int option \<Rightarrow> int option
       \<Rightarrow> token_metadata" where
  "TokenMetadata_from_stored_parts i c l cre e r =
     \<lparr>tm_id = i, tm_client = c, tm_label = l, tm_created_at = cre, tm_expires_at = e,
      tm_revoked_at = r\<rparr>"

type_synonym secret_token = rstr

record issued_token =
  it_metadata :: token_metadata
  it_secret :: secret_token

section \<open>Randomness\<close>

text \<open>
  \<open>RandomSource::fill\<close>: the \<open>n\<close>-th call fails, or fills the whole buffer from a byte sequence.
\<close>

record random_source =
  rs_calls :: nat
  rs_draw :: "nat \<Rightarrow> (nat \<Rightarrow> u8) option"

datatype random_error = RandomError

definition fill :: "random_source \<Rightarrow> nat \<Rightarrow> (random_error + bytes) \<times> random_source" where
  "fill rs n =
     ((case rs_draw rs (rs_calls rs) of
         None \<Rightarrow> Err RandomError
       | Some g \<Rightarrow> Ok (map g [0..<n])), rs\<lparr>rs_calls := Suc (rs_calls rs)\<rparr>)"

record generated_token =
  gt_id :: token_id
  gt_digest :: token_digest
  gt_secret :: secret_token

definition generate :: "crypto \<Rightarrow> random_source \<Rightarrow> (random_error + generated_token) \<times> random_source" where
  "generate cr rs =
     (case fill rs TOKEN_ID_RANDOM_BYTES of
        (Inl e, rs') \<Rightarrow> (Err e, rs')
      | (Inr id_bytes, rs') \<Rightarrow>
          (case fill rs' TOKEN_SECRET_BYTES of
             (Inl e, rs'') \<Rightarrow> (Err e, rs'')
           | (Inr secret_bytes, rs'') \<Rightarrow>
               (case TokenId_from_random_bytes cr id_bytes of
                  Inl _ \<Rightarrow> (Err RandomError, rs'')
                | Inr i \<Rightarrow>
                    (Ok \<lparr>gt_id = i,
                         gt_digest = TokenDigest_from_secret cr secret_bytes,
                         gt_secret = TOKEN_FORMAT @ lit ''.'' @ i @ lit ''.'' @
                           b64_encode cr secret_bytes\<rparr>, rs''))))"

record presented_token =
  pt_id :: token_id
  pt_digest :: token_digest

definition parse_presented :: "crypto \<Rightarrow> rstr \<Rightarrow> unit + presented_token" where
  "parse_presented cr v =
     (case split_on 46 v of
        [format, i, encoded_secret] \<Rightarrow>
          if format \<noteq> TOKEN_FORMAT then Err ()
          else
            (case TokenId_new cr i of
               Inl _ \<Rightarrow> Err ()
             | Inr i \<Rightarrow>
                 (case b64_decode cr encoded_secret of
                    None \<Rightarrow> Err ()
                  | Some secret \<Rightarrow>
                      if length secret \<noteq> TOKEN_SECRET_BYTES then Err ()
                      else Ok \<lparr>pt_id = i, pt_digest = TokenDigest_from_secret cr secret\<rparr>))
      | _ \<Rightarrow> Err ())"

definition presented_matches :: "crypto \<Rightarrow> presented_token \<Rightarrow> token_digest \<Rightarrow> bool" where
  "presented_matches cr p stored = TokenDigest_matches cr stored (pt_digest p)"

section \<open>Validity and round trips\<close>

definition valid_name :: "rstr \<Rightarrow> bool" where
  "valid_name v \<longleftrightarrow> ClientName_new v = Ok v"

definition valid_label :: "rstr \<Rightarrow> bool" where
  "valid_label v \<longleftrightarrow> TokenLabel_new v = Ok v"

definition valid_token_id :: "crypto \<Rightarrow> rstr \<Rightarrow> bool" where
  "valid_token_id cr v \<longleftrightarrow> TokenId_new cr v = Ok v"

lemma ClientName_new_valid: "ClientName_new v = Ok w \<Longrightarrow> valid_name w \<and> w = trim v"
  by (auto simp: ClientName_new_def valid_name_def Let_def split: if_splits)

lemma TokenLabel_new_valid: "TokenLabel_new v = Ok w \<Longrightarrow> valid_label w \<and> w = trim v"
  by (auto simp: TokenLabel_new_def valid_label_def Let_def split: if_splits)

lemma TokenId_new_Ok: "TokenId_new cr v = Ok w \<Longrightarrow> w = v"
  by (auto simp: TokenId_new_def split: option.splits if_splits)

lemma TokenId_new_Ok_iff:
  "TokenId_new cr v = Ok w \<longleftrightarrow>
     w = v \<and> (\<exists>e bs. v = TOKEN_ID_PREFIX @ e \<and> b64_decode cr e = Some bs \<and> length bs = 16)"
  by (auto simp: TokenId_new_def TOKEN_ID_RANDOM_BYTES_def str_simps
      split: option.splits if_splits)

lemma fill_length: "fill rs n = (Ok bs, rs') \<Longrightarrow> length bs = n"
  by (auto simp: fill_def split: option.splits)

lemma dot_not_url_safe: "list_all url_safe_char s \<Longrightarrow> 46 \<notin> set s"
  by (auto simp: list_all_iff url_safe_char_def is_ascii_alphanumeric_def)

lemma url_safe_allowed: "url_safe_char c \<Longrightarrow> is_allowed c"
  by (auto simp: url_safe_char_def is_allowed_def)

lemma TOKEN_no_dot [simp]: "46 \<notin> set TOKEN_FORMAT" "46 \<notin> set TOKEN_ID_PREFIX"
  by (simp_all add: TOKEN_FORMAT_def TOKEN_ID_PREFIX_def lit_def of_char_def)

lemma generate_Ok:
  assumes "crypto_ok cr" and "generate cr rs = (Ok g, rs')"
  obtains id_bytes secret where "length id_bytes = 16" and "length secret = 32"
    and "gt_id g = TOKEN_ID_PREFIX @ b64_encode cr id_bytes"
    and "gt_digest g = sha256 cr secret"
    and "gt_secret g = TOKEN_FORMAT @ 46 # gt_id g @ 46 # b64_encode cr secret"
proof -
  from assms(2) obtain ib rs1 sb i where f: "fill rs 16 = (Ok ib, rs1)" "fill rs1 32 = (Ok sb, rs')"
    and i: "TokenId_from_random_bytes cr ib = Ok i"
    and g: "g = \<lparr>gt_id = i, gt_digest = TokenDigest_from_secret cr sb,
                 gt_secret = TOKEN_FORMAT @ lit ''.'' @ i @ lit ''.'' @ b64_encode cr sb\<rparr>"
    by (auto simp: generate_def TOKEN_ID_RANDOM_BYTES_def TOKEN_SECRET_BYTES_def
        split: prod.splits sum.splits)
  have "lit ''.'' = [46]" by (simp add: lit_def of_char_def)
  with g i TokenId_new_Ok [of cr _ i] fill_length [OF f(1)] fill_length [OF f(2)] that show ?thesis
    by (auto simp: TokenId_from_random_bytes_def TokenDigest_from_secret_def)
qed

lemma TokenId_encode [simp]:
  "crypto_ok cr \<Longrightarrow> length bs = 16 \<Longrightarrow>
     TokenId_new cr (TOKEN_ID_PREFIX @ b64_encode cr bs) = Ok (TOKEN_ID_PREFIX @ b64_encode cr bs)"
  by (auto simp: TokenId_new_Ok_iff crypto_ok_def)

text \<open>A generated token parses back to its identifier and the digest that is stored for it.\<close>

lemma generate_parse:
  assumes "crypto_ok cr" and "generate cr rs = (Ok g, rs')"
  shows "parse_presented cr (gt_secret g) = Ok \<lparr>pt_id = gt_id g, pt_digest = gt_digest g\<rparr>"
    and "valid_token_id cr (gt_id g)" and "length (gt_digest g) = 32"
proof -
  obtain ib sb where g: "length ib = 16" "length sb = 32"
    "gt_id g = TOKEN_ID_PREFIX @ b64_encode cr ib" "gt_digest g = sha256 cr sb"
    "gt_secret g = TOKEN_FORMAT @ 46 # gt_id g @ 46 # b64_encode cr sb"
    using assms by (rule generate_Ok)
  have nodot: "46 \<notin> set (b64_encode cr bs)" for bs
    using assms(1) dot_not_url_safe by (auto simp: crypto_ok_def)
  then have "46 \<notin> set (gt_id g)" by (simp add: g)
  with nodot have "split_on 46 (gt_secret g) = [TOKEN_FORMAT, gt_id g, b64_encode cr sb]"
    by (simp only: g(5) split_on_append TOKEN_no_dot not_False_eq_True split_on_no_delim)
  moreover have "b64_decode cr (b64_encode cr sb) = Some sb"
    using assms(1) by (simp add: crypto_ok_def)
  ultimately show "parse_presented cr (gt_secret g) = Ok \<lparr>pt_id = gt_id g, pt_digest = gt_digest g\<rparr>"
    using assms(1) g
    by (simp add: parse_presented_def TokenDigest_from_secret_def TOKEN_SECRET_BYTES_def)
  show "valid_token_id cr (gt_id g)" using assms(1) g by (simp add: valid_token_id_def)
  show "length (gt_digest g) = 32" using assms(1) g by (simp add: crypto_ok_def)
qed

lemma parse_presented_valid: "parse_presented cr v = Ok p \<Longrightarrow> valid_token_id cr (pt_id p)"
  by (auto simp: parse_presented_def valid_token_id_def TokenId_new_Ok_iff
      split: list.splits if_splits sum.splits option.splits)

lemma mark_revoked_simps [simp]:
  "tr_id (mark_revoked t r) = tr_id t" "tr_client (mark_revoked t r) = tr_client t"
  "tr_digest (mark_revoked t r) = tr_digest t" "\<not> is_active_at (mark_revoked t r) now"
  by (simp_all add: mark_revoked_def is_active_at_def)

end
