(* ===== verification/Auth_Store.thy ===== *)
theory Auth_Store
  imports Auth_Model
begin

text \<open>
  The storage contract of authentication (\<open>bondry-auth/src/store.rs\<close>). \<open>AuthStore\<close> is a trait: here
  a record of operations over a store state \<open>'s\<close>, each returning its result and the next state.
  The locale \<open>auth_store_contract\<close> states what the trait's documentation promises, in terms of two
  abstract maps: the clients by identifier and the tokens by identifier.
\<close>

section \<open>Operations\<close>

record authentication_record =
  ar_token :: token_record
  ar_client_enabled :: bool

record token_replacement =
  rp_id :: token_id
  rp_label :: "token_label option"
  rp_digest :: token_digest
  rp_created_at :: int
  rp_expires_at :: "int option"

definition into_record :: "token_replacement \<Rightarrow> principal_id \<Rightarrow> token_record" where
  "into_record r c =
     TokenRecord_from_stored_parts (rp_id r) c (rp_label r) (rp_digest r) (rp_created_at r)
       (rp_expires_at r) None"

datatype rotation_outcome =
    Rotated principal_id
  | RotationNotFound
  | RotationInactive
  | RotationClientDisabled

datatype store_error = StoreConflict | StoreUnavailable

record 's auth_store =
  as_insert_client :: "'s \<Rightarrow> client \<Rightarrow> (store_error + unit) \<times> 's"
  as_client :: "'s \<Rightarrow> principal_id \<Rightarrow> (store_error + client option) \<times> 's"
  as_clients :: "'s \<Rightarrow> (store_error + client list) \<times> 's"
  as_set_client_enabled :: "'s \<Rightarrow> principal_id \<Rightarrow> bool \<Rightarrow> (store_error + bool) \<times> 's"
  as_insert_token :: "'s \<Rightarrow> token_record \<Rightarrow> (store_error + unit) \<times> 's"
  as_authentication_record ::
    "'s \<Rightarrow> token_id \<Rightarrow> (store_error + authentication_record option) \<times> 's"
  as_revoke_token :: "'s \<Rightarrow> token_id \<Rightarrow> int \<Rightarrow> (store_error + bool) \<times> 's"
  as_rotate_token ::
    "'s \<Rightarrow> token_id \<Rightarrow> token_replacement \<Rightarrow> int \<Rightarrow> (store_error + rotation_outcome) \<times> 's"
  as_tokens_for_client :: "'s \<Rightarrow> principal_id \<Rightarrow> (store_error + token_record list) \<times> 's"

section \<open>The contract\<close>

text \<open>Records the constructors of \<open>bondry-auth\<close> can build.\<close>

definition valid_client :: "client \<Rightarrow> bool" where
  "valid_client c \<longleftrightarrow> valid_identifier (cl_id c) \<and> valid_name (cl_name c)"

definition valid_token :: "crypto \<Rightarrow> token_record \<Rightarrow> bool" where
  "valid_token cr t \<longleftrightarrow>
     valid_token_id cr (tr_id t) \<and> valid_identifier (tr_client t) \<and>
     (\<forall>l. tr_label t = Some l \<longrightarrow> valid_label l) \<and> length (tr_digest t) = 32"

definition valid_replacement :: "crypto \<Rightarrow> token_replacement \<Rightarrow> bool" where
  "valid_replacement cr r \<longleftrightarrow>
     valid_token_id cr (rp_id r) \<and> (\<forall>l. rp_label r = Some l \<longrightarrow> valid_label l) \<and>
     length (rp_digest r) = 32"

lemma valid_into_record:
  "valid_replacement cr r \<Longrightarrow> valid_identifier c \<Longrightarrow> valid_token cr (into_record r c)"
  by (auto simp: valid_replacement_def valid_token_def into_record_def
      TokenRecord_from_stored_parts_def)

lemma into_record_simps [simp]:
  "tr_id (into_record r c) = rp_id r" "tr_client (into_record r c) = c"
  "tr_digest (into_record r c) = rp_digest r" "tr_revoked_at (into_record r c) = None"
  "tr_expires_at (into_record r c) = rp_expires_at r"
  "tr_label (into_record r c) = rp_label r" "tr_created_at (into_record r c) = rp_created_at r"
  by (simp_all add: into_record_def TokenRecord_from_stored_parts_def)

text \<open>
  \<open>usable s\<close> says that the storage behind \<open>s\<close> answers; every other law holds whether or not it
  does. An operation that reports an error leaves both maps as they were.
\<close>

locale auth_store_contract =
  fixes cr :: crypto
    and st :: "'s auth_store"
    and inv :: "'s \<Rightarrow> bool"
    and usable :: "'s \<Rightarrow> bool"
    and cls :: "'s \<Rightarrow> principal_id \<rightharpoonup> client"
    and tks :: "'s \<Rightarrow> token_id \<rightharpoonup> token_record"
  assumes insert_client_inv: "inv s \<Longrightarrow> valid_client c \<Longrightarrow> inv (snd (as_insert_client st s c))"
    and insert_client_ok: "inv s \<Longrightarrow> as_insert_client st s c = (Ok u, s') \<Longrightarrow>
      cls s (cl_id c) = None \<and> cls s' = (cls s)(cl_id c \<mapsto> c) \<and> tks s' = tks s"
    and insert_client_err: "inv s \<Longrightarrow> as_insert_client st s c = (Err e, s') \<Longrightarrow>
      cls s' = cls s \<and> tks s' = tks s"
    and client_frame: "inv s \<Longrightarrow> as_client st s i = (rc, s') \<Longrightarrow>
      inv s' \<and> cls s' = cls s \<and> tks s' = tks s"
    and client_ok: "inv s \<Longrightarrow> as_client st s i = (Ok oc, s') \<Longrightarrow> oc = cls s i"
    and set_enabled_inv: "inv s \<Longrightarrow> inv (snd (as_set_client_enabled st s i b))"
    and set_enabled_ok: "inv s \<Longrightarrow> as_set_client_enabled st s i b = (Ok changed, s') \<Longrightarrow>
      tks s' = tks s \<and> changed = (cls s i \<noteq> None) \<and>
      cls s' = (case cls s i of None \<Rightarrow> cls s | Some c \<Rightarrow> (cls s)(i \<mapsto> c\<lparr>cl_enabled := b\<rparr>))"
    and set_enabled_err: "inv s \<Longrightarrow> as_set_client_enabled st s i b = (Err e, s') \<Longrightarrow>
      cls s' = cls s \<and> tks s' = tks s"
    and insert_token_inv: "inv s \<Longrightarrow> valid_token cr t \<Longrightarrow> inv (snd (as_insert_token st s t))"
    and insert_token_ok: "inv s \<Longrightarrow> as_insert_token st s t = (Ok u, s') \<Longrightarrow>
      tks s (tr_id t) = None \<and> cls s (tr_client t) \<noteq> None \<and>
      tks s' = (tks s)(tr_id t \<mapsto> t) \<and> cls s' = cls s"
    and insert_token_err: "inv s \<Longrightarrow> as_insert_token st s t = (Err e, s') \<Longrightarrow>
      cls s' = cls s \<and> tks s' = tks s"
    and auth_frame: "inv s \<Longrightarrow> as_authentication_record st s i = (ra, s') \<Longrightarrow>
      inv s' \<and> cls s' = cls s \<and> tks s' = tks s"
    and auth_ok: "inv s \<Longrightarrow> as_authentication_record st s i = (Ok oa, s') \<Longrightarrow>
      oa = (case tks s i of None \<Rightarrow> None
           | Some t \<Rightarrow> map_option (\<lambda>c. \<lparr>ar_token = t, ar_client_enabled = cl_enabled c\<rparr>)
                         (cls s (tr_client t)))"
    and auth_usable: "inv s \<Longrightarrow> usable s \<Longrightarrow> is_ok (fst (as_authentication_record st s i))"
    and client_key: "inv s \<Longrightarrow> cls s i = Some c \<Longrightarrow> cl_id c = i \<and> valid_identifier i"
    and token_client: "inv s \<Longrightarrow> tks s i = Some t \<Longrightarrow> cls s (tr_client t) \<noteq> None"
    and token_key: "inv s \<Longrightarrow> tks s i = Some t \<Longrightarrow> tr_id t = i"
    and revoke_inv: "inv s \<Longrightarrow> inv (snd (as_revoke_token st s i now))"
    and revoke_ok: "inv s \<Longrightarrow> as_revoke_token st s i now = (Ok changed, s') \<Longrightarrow>
      cls s' = cls s \<and> changed = (\<exists>t. tks s i = Some t \<and> is_active_at t now) \<and>
      tks s' = (case tks s i of None \<Rightarrow> tks s
                | Some t \<Rightarrow> if is_active_at t now then (tks s)(i \<mapsto> mark_revoked t now) else tks s)"
    and revoke_err: "inv s \<Longrightarrow> as_revoke_token st s i now = (Err e, s') \<Longrightarrow>
      cls s' = cls s \<and> tks s' = tks s"
    and rotate_inv: "inv s \<Longrightarrow> valid_replacement cr rp \<Longrightarrow> inv (snd (as_rotate_token st s i rp now))"
    and rotate_ok: "inv s \<Longrightarrow> valid_replacement cr rp \<Longrightarrow>
      as_rotate_token st s i rp now = (Ok (Rotated p), s') \<Longrightarrow>
      \<exists>t c. tks s i = Some t \<and> is_active_at t now \<and> cls s (tr_client t) = Some c \<and> cl_enabled c \<and>
        p = tr_client t \<and> tks s (rp_id rp) = None \<and> cls s' = cls s \<and>
        tks s' = (tks s)(rp_id rp \<mapsto> into_record rp p, i \<mapsto> mark_revoked t now)"
    and rotate_refused: "inv s \<Longrightarrow> as_rotate_token st s i rp now = (ro, s') \<Longrightarrow>
      (\<forall>p. ro \<noteq> Ok (Rotated p)) \<Longrightarrow> cls s' = cls s \<and> tks s' = tks s"
    and rotate_outcomes: "inv s \<Longrightarrow> as_rotate_token st s i rp now = (Ok out, s') \<Longrightarrow>
      (case out of
         RotationNotFound \<Rightarrow> tks s i = None
       | RotationClientDisabled \<Rightarrow>
           (\<exists>t c. tks s i = Some t \<and> cls s (tr_client t) = Some c \<and> \<not> cl_enabled c)
       | RotationInactive \<Rightarrow> (\<exists>t. tks s i = Some t \<and> \<not> is_active_at t now)
       | Rotated p \<Rightarrow> True)"
    and tokens_frame: "inv s \<Longrightarrow> as_tokens_for_client st s i = (rt, s') \<Longrightarrow>
      inv s' \<and> cls s' = cls s \<and> tks s' = tks s"
    and tokens_ok: "inv s \<Longrightarrow> as_tokens_for_client st s i = (Ok ts, s') \<Longrightarrow>
      distinct ts \<and> set ts = {t. tks s (tr_id t) = Some t \<and> tr_client t = i} \<and>
      sorted (map (\<lambda>t. (- tr_created_at t, tr_id t)) ts)"
    and clients_frame: "inv s \<Longrightarrow> as_clients st s = (rcs, s') \<Longrightarrow>
      inv s' \<and> cls s' = cls s \<and> tks s' = tks s"
    and clients_ok: "inv s \<Longrightarrow> as_clients st s = (Ok cs, s') \<Longrightarrow>
      distinct (map cl_id cs) \<and> set cs = {c. cls s (cl_id c) = Some c} \<and> sorted (map cl_id cs)"

end
