(* ===== verification/Auth_Manager.thy ===== *)
theory Auth_Manager
  imports Auth_Store
begin

text \<open>
  \<open>AuthManager\<close> (\<open>bondry-auth/src/manager.rs\<close>): client registration and the token lifecycle over
  any \<open>AuthStore\<close>. Each operation reads the clock at most once; \<open>now\<close> is what
  \<open>Clock::now_unix_seconds\<close> answers (\<open>None\<close> for \<open>TimeError\<close>). The generation loops make at most
  \<open>GENERATION_ATTEMPTS\<close> attempts, counted down by their first argument.
\<close>

section \<open>Errors and time\<close>

definition CLIENT_ID_RANDOM_BYTES :: nat where "CLIENT_ID_RANDOM_BYTES = 16"
definition GENERATION_ATTEMPTS :: nat where "GENERATION_ATTEMPTS = 8"

datatype client_management_error =
    CmNotFound
  | CmEntropyUnavailable
  | CmGenerationExhausted
  | CmTimeUnavailable
  | CmStorageUnavailable

datatype token_lifecycle_error =
    TlClientNotFound
  | TlClientDisabled
  | TlNotFound
  | TlInactive
  | TlInvalidLifetime
  | TlEntropyUnavailable
  | TlGenerationExhausted
  | TlTimeUnavailable
  | TlStorageUnavailable

datatype authentication_error = AuthRejected | AuthStorageUnavailable

text \<open>
  \<open>SystemClock\<close>: \<open>SystemTime::now\<close> in nanoseconds relative to the Unix epoch; a time before the
  epoch or past the range of \<open>i64\<close> is a \<open>TimeError\<close>.
\<close>

definition now_unix_seconds :: "system_time \<Rightarrow> int option" where
  "now_unix_seconds t = (if t < 0 then None else i64_try_from (t div 1000000000))"

text \<open>A \<open>Duration\<close>'s whole seconds are a \<open>u64\<close>.\<close>

definition expiration :: "int \<Rightarrow> nat option \<Rightarrow> token_lifecycle_error + int option" where
  "expiration now lifetime =
     (case lifetime of
        None \<Rightarrow> Ok None
      | Some secs \<Rightarrow>
          (case i64_try_from (int secs) of
             None \<Rightarrow> Err TlInvalidLifetime
           | Some seconds \<Rightarrow>
               if seconds = 0 then Err TlInvalidLifetime
               else (case checked_add_i64 now seconds of
                       None \<Rightarrow> Err TlInvalidLifetime
                     | Some at \<Rightarrow> Ok (Some at))))"

section \<open>Clients\<close>

definition generate_client_id ::
    "crypto \<Rightarrow> random_source \<Rightarrow> (random_error + principal_id) \<times> random_source" where
  "generate_client_id cr rs =
     (case fill rs CLIENT_ID_RANDOM_BYTES of
        (Inl e, rs') \<Rightarrow> (Err e, rs')
      | (Inr bs, rs') \<Rightarrow>
          (map_err (\<lambda>_. RandomError) (identifier_new (lit ''client_'' @ b64_encode cr bs)), rs'))"

fun create_client_loop ::
    "nat \<Rightarrow> crypto \<Rightarrow> 's auth_store \<Rightarrow> client_name \<Rightarrow> int \<Rightarrow> 's \<Rightarrow> random_source
       \<Rightarrow> (client_management_error + client) \<times> 's \<times> random_source" where
  "create_client_loop 0 cr st name created_at s rs = (Err CmGenerationExhausted, s, rs)"
| "create_client_loop (Suc n) cr st name created_at s rs =
     (case generate_client_id cr rs of
        (Inl _, rs') \<Rightarrow> (Err CmEntropyUnavailable, s, rs')
      | (Inr i, rs') \<Rightarrow>
          let c = Client_from_stored_parts i name True created_at in
          (case as_insert_client st s c of
             (Inr _, s') \<Rightarrow> (Ok c, s', rs')
           | (Inl StoreConflict, s') \<Rightarrow> create_client_loop n cr st name created_at s' rs'
           | (Inl StoreUnavailable, s') \<Rightarrow> (Err CmStorageUnavailable, s', rs')))"

definition create_client ::
    "crypto \<Rightarrow> 's auth_store \<Rightarrow> int option \<Rightarrow> client_name \<Rightarrow> 's \<Rightarrow> random_source
       \<Rightarrow> (client_management_error + client) \<times> 's \<times> random_source" where
  "create_client cr st now name s rs =
     (case now of
        None \<Rightarrow> (Err CmTimeUnavailable, s, rs)
      | Some created_at \<Rightarrow>
          create_client_loop GENERATION_ATTEMPTS cr st name created_at s rs)"

definition set_client_enabled ::
    "'s auth_store \<Rightarrow> principal_id \<Rightarrow> bool \<Rightarrow> 's \<Rightarrow> (client_management_error + unit) \<times> 's" where
  "set_client_enabled st i enabled s =
     (case as_set_client_enabled st s i enabled of
        (Inr True, s') \<Rightarrow> (Ok (), s')
      | (Inr False, s') \<Rightarrow> (Err CmNotFound, s')
      | (Inl _, s') \<Rightarrow> (Err CmStorageUnavailable, s'))"

definition clients :: "'s auth_store \<Rightarrow> 's \<Rightarrow> (client_management_error + client list) \<times> 's" where
  "clients st s =
     (let (r, s') = as_clients st s in (map_err (\<lambda>_. CmStorageUnavailable) r, s'))"

section \<open>Tokens\<close>

definition load_enabled_client ::
    "'s auth_store \<Rightarrow> principal_id \<Rightarrow> 's \<Rightarrow> (token_lifecycle_error + client) \<times> 's" where
  "load_enabled_client st i s =
     (case as_client st s i of
        (Inl _, s') \<Rightarrow> (Err TlStorageUnavailable, s')
      | (Inr None, s') \<Rightarrow> (Err TlClientNotFound, s')
      | (Inr (Some c), s') \<Rightarrow>
          if \<not> cl_enabled c then (Err TlClientDisabled, s') else (Ok c, s'))"

definition now_for_token :: "int option \<Rightarrow> token_lifecycle_error + int" where
  "now_for_token now = ok_or TlTimeUnavailable now"

fun issue_token_loop ::
    "nat \<Rightarrow> crypto \<Rightarrow> 's auth_store \<Rightarrow> principal_id \<Rightarrow> token_label option \<Rightarrow> int \<Rightarrow> int option \<Rightarrow> 's
       \<Rightarrow> random_source \<Rightarrow> (token_lifecycle_error + issued_token) \<times> 's \<times> random_source" where
  "issue_token_loop 0 cr st own lbl created_at expires_at s rs =
     (Err TlGenerationExhausted, s, rs)"
| "issue_token_loop (Suc n) cr st own lbl created_at expires_at s rs =
     (case generate cr rs of
        (Inl _, rs') \<Rightarrow> (Err TlEntropyUnavailable, s, rs')
      | (Inr g, rs') \<Rightarrow>
          let t = TokenRecord_from_stored_parts (gt_id g) own lbl (gt_digest g) created_at
                    expires_at None in
          (case as_insert_token st s t of
             (Inr _, s') \<Rightarrow> (Ok \<lparr>it_metadata = metadata t, it_secret = gt_secret g\<rparr>, s', rs')
           | (Inl StoreConflict, s') \<Rightarrow>
               issue_token_loop n cr st own lbl created_at expires_at s' rs'
           | (Inl StoreUnavailable, s') \<Rightarrow> (Err TlStorageUnavailable, s', rs')))"

definition issue_token ::
    "crypto \<Rightarrow> 's auth_store \<Rightarrow> int option \<Rightarrow> principal_id \<Rightarrow> token_label option \<Rightarrow> nat option \<Rightarrow> 's
       \<Rightarrow> random_source \<Rightarrow> (token_lifecycle_error + issued_token) \<times> 's \<times> random_source" where
  "issue_token cr st now c lbl expires_in s rs =
     (case load_enabled_client st c s of
        (Inl e, s') \<Rightarrow> (Err e, s', rs)
      | (Inr own, s') \<Rightarrow>
          (case now_for_token now of
             Inl e \<Rightarrow> (Err e, s', rs)
           | Inr created_at \<Rightarrow>
               (case expiration created_at expires_in of
                  Inl e \<Rightarrow> (Err e, s', rs)
                | Inr expires_at \<Rightarrow>
                    issue_token_loop GENERATION_ATTEMPTS cr st (cl_id own) lbl created_at
                      expires_at s' rs)))"

definition authenticate ::
    "crypto \<Rightarrow> 's auth_store \<Rightarrow> int option \<Rightarrow> rstr \<Rightarrow> 's \<Rightarrow> (authentication_error + principal) \<times> 's" where
  "authenticate cr st now presented s =
     (case parse_presented cr presented of
        Inl _ \<Rightarrow> (Err AuthRejected, s)
      | Inr p \<Rightarrow>
          (case as_authentication_record st s (pt_id p) of
             (Inl _, s') \<Rightarrow> (Err AuthStorageUnavailable, s')
           | (Inr rec, s') \<Rightarrow>
               (case now of
                  None \<Rightarrow> (Err AuthStorageUnavailable, s')
                | Some t \<Rightarrow>
                    let dummy_digest = replicate 32 0;
                        digest = (case rec of None \<Rightarrow> dummy_digest | Some a \<Rightarrow> tr_digest (ar_token a));
                        digest_matches = presented_matches cr p digest;
                        valid = (case rec of None \<Rightarrow> False
                                 | Some a \<Rightarrow> digest_matches \<and> is_active_at (ar_token a) t \<and>
                                             ar_client_enabled a)
                    in if \<not> valid then (Err AuthRejected, s')
                       else (case rec of
                               None \<Rightarrow> (Err AuthRejected, s')
                             | Some a \<Rightarrow>
                                 (Ok \<lparr>pr_id = tr_client (ar_token a), pr_kind = Application\<rparr>, s')))))"

definition revoke_token ::
    "'s auth_store \<Rightarrow> int option \<Rightarrow> token_id \<Rightarrow> 's \<Rightarrow> (token_lifecycle_error + bool) \<times> 's" where
  "revoke_token st now i s =
     (case now_for_token now of
        Inl e \<Rightarrow> (Err e, s)
      | Inr revoked_at \<Rightarrow>
          let (r, s') = as_revoke_token st s i revoked_at
          in (map_err (\<lambda>_. TlStorageUnavailable) r, s'))"

fun rotate_token_loop ::
    "nat \<Rightarrow> crypto \<Rightarrow> 's auth_store \<Rightarrow> token_id \<Rightarrow> token_label option \<Rightarrow> int \<Rightarrow> int option \<Rightarrow> 's
       \<Rightarrow> random_source \<Rightarrow> (token_lifecycle_error + issued_token) \<times> 's \<times> random_source" where
  "rotate_token_loop 0 cr st cur lbl created_at expires_at s rs =
     (Err TlGenerationExhausted, s, rs)"
| "rotate_token_loop (Suc n) cr st cur lbl created_at expires_at s rs =
     (case generate cr rs of
        (Inl _, rs') \<Rightarrow> (Err TlEntropyUnavailable, s, rs')
      | (Inr g, rs') \<Rightarrow>
          let r = \<lparr>rp_id = gt_id g, rp_label = lbl, rp_digest = gt_digest g,
                   rp_created_at = created_at, rp_expires_at = expires_at\<rparr> in
          (case as_rotate_token st s cur r created_at of
             (Inr (Rotated c), s') \<Rightarrow>
               (Ok \<lparr>it_metadata = TokenMetadata_from_stored_parts (gt_id g) c lbl created_at
                                   expires_at None,
                    it_secret = gt_secret g\<rparr>, s', rs')
           | (Inr RotationNotFound, s') \<Rightarrow> (Err TlNotFound, s', rs')
           | (Inr RotationInactive, s') \<Rightarrow> (Err TlInactive, s', rs')
           | (Inr RotationClientDisabled, s') \<Rightarrow> (Err TlClientDisabled, s', rs')
           | (Inl StoreConflict, s') \<Rightarrow>
               rotate_token_loop n cr st cur lbl created_at expires_at s' rs'
           | (Inl StoreUnavailable, s') \<Rightarrow> (Err TlStorageUnavailable, s', rs')))"

definition rotate_token ::
    "crypto \<Rightarrow> 's auth_store \<Rightarrow> int option \<Rightarrow> token_id \<Rightarrow> token_label option \<Rightarrow> nat option \<Rightarrow> 's
       \<Rightarrow> random_source \<Rightarrow> (token_lifecycle_error + issued_token) \<times> 's \<times> random_source" where
  "rotate_token cr st now cur lbl expires_in s rs =
     (case now_for_token now of
        Inl e \<Rightarrow> (Err e, s, rs)
      | Inr created_at \<Rightarrow>
          (case expiration created_at expires_in of
             Inl e \<Rightarrow> (Err e, s, rs)
           | Inr expires_at \<Rightarrow>
               rotate_token_loop GENERATION_ATTEMPTS cr st cur lbl created_at expires_at s rs))"

definition tokens_for_client ::
    "'s auth_store \<Rightarrow> principal_id \<Rightarrow> 's \<Rightarrow> (token_lifecycle_error + token_metadata list) \<times> 's" where
  "tokens_for_client st c s =
     (case as_tokens_for_client st s c of
        (Inl _, s') \<Rightarrow> (Err TlStorageUnavailable, s')
      | (Inr ts, s') \<Rightarrow> (Ok (map metadata ts), s'))"

section \<open>Times and identifiers\<close>

lemma expiration_bounds:
  assumes "expiration now lifetime = Ok (Some at)"
  shows "now < at \<and> in_i64 at \<and> (\<exists>secs. lifetime = Some secs \<and> at = now + int secs)"
  using assms
  by (auto simp: expiration_def int_simps split: option.splits if_splits)

lemma expiration_None: "expiration now lifetime = Ok None \<longleftrightarrow> lifetime = None"
  by (auto simp: expiration_def split: option.splits if_splits)

lemma client_id_valid:
  assumes "crypto_ok cr" and "generate_client_id cr rs = (r, rs')"
  shows "(\<exists>i. r = Ok i \<and> valid_identifier i) \<or> (r = Err RandomError \<and> rs_draw rs (rs_calls rs) = None)"
proof (cases "rs_draw rs (rs_calls rs)")
  case None
  with assms(2) show ?thesis
    by (auto simp: generate_client_id_def fill_def split: prod.splits)
next
  case (Some g)
  let ?bs = "map g [0..<16]"
  have "length (b64_encode cr ?bs) = 22" "\<forall>c\<in>set (b64_encode cr ?bs). is_allowed c"
    using assms(1) by (auto simp: crypto_ok_def list_all_iff intro: url_safe_allowed)
  moreover have "valid_identifier (lit ''client_'')"
    by (simp add: valid_identifier_def lit_def of_char_def is_allowed_def is_ascii_alphanumeric_def)
  ultimately have "valid_identifier (lit ''client_'' @ b64_encode cr ?bs)"
    by (intro valid_identifier_append) simp_all
  with Some assms(2) show ?thesis
    by (auto simp: generate_client_id_def fill_def CLIENT_ID_RANDOM_BYTES_def)
qed

section \<open>What authentication means\<close>

text \<open>
  The specification of \<open>authenticate\<close> over the abstract maps: the presented string must parse, name
  a stored token with the same digest that is active at the time, and its client must be enabled.
\<close>

definition auth_spec ::
    "crypto \<Rightarrow> (principal_id \<rightharpoonup> client) \<Rightarrow> (token_id \<rightharpoonup> token_record) \<Rightarrow> int \<Rightarrow> rstr \<Rightarrow> principal option" where
  "auth_spec cr C T t presented =
     (case parse_presented cr presented of
        Inl _ \<Rightarrow> None
      | Inr p \<Rightarrow>
          (case T (pt_id p) of
             None \<Rightarrow> None
           | Some tok \<Rightarrow>
               (case C (tr_client tok) of
                  None \<Rightarrow> None
                | Some c \<Rightarrow>
                    if tr_digest tok = pt_digest p \<and> is_active_at tok t \<and> cl_enabled c
                    then Some \<lparr>pr_id = tr_client tok, pr_kind = Application\<rparr> else None)))"

text \<open>A token never changes but for one transition, from not revoked to revoked.\<close>

definition token_le :: "token_record \<Rightarrow> token_record \<Rightarrow> bool" where
  "token_le t t' \<longleftrightarrow> t' = t \<or> (tr_revoked_at t = None \<and> (\<exists>r. t' = mark_revoked t r))"

definition tokens_le :: "(token_id \<rightharpoonup> token_record) \<Rightarrow> (token_id \<rightharpoonup> token_record) \<Rightarrow> bool" where
  "tokens_le T T' \<longleftrightarrow> (\<forall>i t. T i = Some t \<longrightarrow> (\<exists>t'. T' i = Some t' \<and> token_le t t'))"

lemma token_le_refl [simp]: "token_le t t"
  by (simp add: token_le_def)

lemma token_le_trans: "token_le t t' \<Longrightarrow> token_le t' t'' \<Longrightarrow> token_le t t''"
  by (auto simp: token_le_def mark_revoked_def)

lemma token_le_revoked: "token_le t t' \<Longrightarrow> tr_revoked_at t \<noteq> None \<Longrightarrow> t' = t"
  by (auto simp: token_le_def)

lemma tokens_le_refl [simp]: "tokens_le T T"
  by (simp add: tokens_le_def)

lemma tokens_le_trans: "tokens_le T T' \<Longrightarrow> tokens_le T' T'' \<Longrightarrow> tokens_le T T''"
  unfolding tokens_le_def by (meson token_le_trans)

lemma tokens_le_insert: "T i = None \<Longrightarrow> tokens_le T (T(i \<mapsto> t))"
  by (auto simp: tokens_le_def)

lemma tokens_le_revoke:
  "T i = Some t \<Longrightarrow> is_active_at t now \<Longrightarrow> tokens_le T (T(i \<mapsto> mark_revoked t now))"
  by (auto simp: tokens_le_def token_le_def is_active_at_def)

lemma token_le_Some: "token_le t t' \<Longrightarrow> tr_client t' = tr_client t \<and> tr_digest t' = tr_digest t"
  by (auto simp: token_le_def)

lemma auth_spec_revoked:
  assumes "T i = Some tok" and "tr_revoked_at tok \<noteq> None"
    and "parse_presented cr presented = Ok p" and "pt_id p = i"
  shows "auth_spec cr C T t presented = None"
  using assms by (auto simp: auth_spec_def is_active_at_def split: option.splits)

lemma auth_spec_disabled:
  assumes "C i = Some c" and "\<not> cl_enabled c"
  shows "auth_spec cr C T t presented \<noteq> Some \<lparr>pr_id = i, pr_kind = Application\<rparr>"
  using assms by (auto simp: auth_spec_def split: sum.splits option.splits if_splits)

lemma rotation_refusal_cases:
  "(\<exists>p. y = Ok (Rotated p)) \<or> y = Err StoreConflict \<or> y = Err StoreUnavailable \<or>
     y = Ok RotationNotFound \<or> y = Ok RotationInactive \<or> y = Ok RotationClientDisabled"
proof (cases y)
  case (Inl e)
  then show ?thesis by (cases e) auto
next
  case (Inr out)
  then show ?thesis by (cases out) auto
qed

section \<open>The manager over any store\<close>

text \<open>All the ways in which the manager changes its store.\<close>

inductive mgr_step :: "crypto \<Rightarrow> 's auth_store \<Rightarrow> 's \<Rightarrow> 's \<Rightarrow> bool"
  for cr st where
  mgr_create: "valid_name name \<Longrightarrow> create_client cr st now name s rs = (r, s', rs') \<Longrightarrow>
     mgr_step cr st s s'"
| mgr_enable: "set_client_enabled st i b s = (r, s') \<Longrightarrow> mgr_step cr st s s'"
| mgr_clients: "clients st s = (r, s') \<Longrightarrow> mgr_step cr st s s'"
| mgr_issue: "(\<And>l. lbl = Some l \<Longrightarrow> valid_label l) \<Longrightarrow>
     issue_token cr st now c lbl e s rs = (r, s', rs') \<Longrightarrow> mgr_step cr st s s'"
| mgr_authenticate: "authenticate cr st now presented s = (r, s') \<Longrightarrow> mgr_step cr st s s'"
| mgr_revoke: "revoke_token st now i s = (r, s') \<Longrightarrow> mgr_step cr st s s'"
| mgr_rotate: "(\<And>l. lbl = Some l \<Longrightarrow> valid_label l) \<Longrightarrow>
     rotate_token cr st now i lbl e s rs = (r, s', rs') \<Longrightarrow> mgr_step cr st s s'"
| mgr_tokens: "tokens_for_client st c s = (r, s') \<Longrightarrow> mgr_step cr st s s'"

inductive mgr_reachable :: "crypto \<Rightarrow> 's auth_store \<Rightarrow> 's \<Rightarrow> 's \<Rightarrow> bool"
  for cr st s0 where
  mgr_refl: "mgr_reachable cr st s0 s0"
| mgr_next: "mgr_reachable cr st s0 s \<Longrightarrow> mgr_step cr st s s' \<Longrightarrow> mgr_reachable cr st s0 s'"

context auth_store_contract
begin

definition same :: "'s \<Rightarrow> 's \<Rightarrow> bool" where
  "same s s' \<longleftrightarrow> inv s' \<and> cls s' = cls s \<and> tks s' = tks s"

lemma same_refl: "inv s \<Longrightarrow> same s s"
  by (simp add: same_def)

lemma same_trans: "same s s' \<Longrightarrow> same s' s'' \<Longrightarrow> same s s''"
  by (simp add: same_def)

text \<open>\<open>authenticate\<close> implements its specification.\<close>

lemma authenticate_refines:
  assumes "inv s" and "crypto_ok cr" and "authenticate cr st now presented s = (r, s')"
  shows "same s s'"
    and "r = Ok p \<Longrightarrow> \<exists>t. now = Some t \<and> auth_spec cr (cls s) (tks s) t presented = Some p"
    and "r = Err AuthRejected \<Longrightarrow> now = Some t \<Longrightarrow> auth_spec cr (cls s) (tks s) t presented = None"
    and "usable s \<Longrightarrow> now = Some t \<Longrightarrow> r \<noteq> Err AuthStorageUnavailable"
proof -
  have all: "same s s' \<and>
     (\<forall>p. r = Ok p \<longrightarrow> (\<exists>t. now = Some t \<and> auth_spec cr (cls s) (tks s) t presented = Some p)) \<and>
     (\<forall>t. r = Err AuthRejected \<longrightarrow> now = Some t \<longrightarrow> auth_spec cr (cls s) (tks s) t presented = None) \<and>
     (\<forall>t. usable s \<longrightarrow> now = Some t \<longrightarrow> r \<noteq> Err AuthStorageUnavailable)"
  proof (cases "parse_presented cr presented")
    case (Inl u)
    with assms show ?thesis by (auto simp: authenticate_def auth_spec_def same_refl)
  next
    case (Inr p)
    obtain x s1 where ar: "as_authentication_record st s (pt_id p) = (x, s1)"
      by (cases "as_authentication_record st s (pt_id p)")
    from auth_frame [OF assms(1) ar] have sm: "same s s1" by (simp add: same_def)
    show ?thesis
    proof (cases x)
      case (Inl e)
      with Inr ar sm assms auth_usable [OF assms(1), of "pt_id p"] show ?thesis
        by (auto simp: authenticate_def)
    next
      case rec: (Inr rec)
      note ok = auth_ok [OF assms(1) ar [unfolded rec]]
      have eq: "ct_eq cr a b = (a = b)" for a b using assms(2) by (simp add: crypto_ok_def)
      from assms(3) Inr ar rec sm show ?thesis
        by (cases now; cases rec)
           (auto simp: authenticate_def auth_spec_def ok presented_matches_def eq
             TokenDigest_matches_def split: option.splits if_splits)
    qed
  qed
  then show "same s s'"
    and "r = Ok p \<Longrightarrow> \<exists>t. now = Some t \<and> auth_spec cr (cls s) (tks s) t presented = Some p"
    and "r = Err AuthRejected \<Longrightarrow> now = Some t \<Longrightarrow> auth_spec cr (cls s) (tks s) t presented = None"
    and "usable s \<Longrightarrow> now = Some t \<Longrightarrow> r \<noteq> Err AuthStorageUnavailable" by blast+
qed

text \<open>Registration creates one fresh, enabled client or changes nothing.\<close>

definition registered :: "'s \<Rightarrow> 's \<Rightarrow> client \<Rightarrow> bool" where
  "registered s s' c \<longleftrightarrow> valid_client c \<and> cl_enabled c \<and> cls s (cl_id c) = None \<and>
     inv s' \<and> cls s' = (cls s)(cl_id c \<mapsto> c) \<and> tks s' = tks s"

lemma registered_same: "same s s1 \<Longrightarrow> registered s1 s' c \<Longrightarrow> registered s s' c"
  by (simp add: registered_def same_def)

lemma create_client_loop_result:
  assumes "inv s" and "crypto_ok cr" and "valid_name name"
    and "create_client_loop n cr st name created_at s rs = (r, s', rs')"
  shows "(\<exists>c. r = Ok c \<and> registered s s' c \<and> cl_name c = name \<and> cl_created_at c = created_at) \<or>
         (\<exists>e. r = Err e \<and> same s s')"
  using assms
proof (induction n arbitrary: s rs)
  case 0
  then show ?case by (auto simp: same_refl)
next
  case (Suc n)
  obtain g rs1 where gen: "generate_client_id cr rs = (g, rs1)" by (cases "generate_client_id cr rs")
  show ?case
  proof (cases g)
    case (Inl e)
    with gen Suc.prems show ?thesis by (auto simp: same_refl)
  next
    case (Inr i)
    with client_id_valid [OF Suc.prems(2) gen] have i: "valid_identifier i" by auto
    let ?c = "Client_from_stored_parts i name True created_at"
    have vc: "valid_client ?c" "cl_enabled ?c" "cl_name ?c = name" "cl_created_at ?c = created_at"
      using i Suc.prems(3) by (simp_all add: valid_client_def Client_from_stored_parts_def)
    obtain x s1 where ic: "as_insert_client st s ?c = (x, s1)" by (cases "as_insert_client st s ?c")
    from insert_client_inv [OF Suc.prems(1) vc(1)] ic have inv1: "inv s1" by simp
    show ?thesis
    proof (cases x)
      case (Inr u)
      with gen \<open>g = Inr i\<close> ic Suc.prems(4) have "r = Ok ?c" "s' = s1" by auto
      moreover from insert_client_ok [OF Suc.prems(1) ic [unfolded Inr]] inv1 vc
      have "registered s s1 ?c" by (simp add: registered_def)
      ultimately show ?thesis using vc(3,4) by blast
    next
      case err: (Inl e)
      from insert_client_err [OF Suc.prems(1) ic [unfolded err]] inv1
      have sm: "same s s1" by (simp add: same_def)
      show ?thesis
      proof (cases e)
        case StoreConflict
        with gen Inr ic err Suc.prems(4)
        have "create_client_loop n cr st name created_at s1 rs1 = (r, s', rs')" by simp
        from Suc.IH [OF inv1 Suc.prems(2,3) this] sm show ?thesis
          using registered_same same_trans by blast
      next
        case StoreUnavailable
        with gen Inr ic err Suc.prems(4) sm show ?thesis by auto
      qed
    qed
  qed
qed

lemma create_client_result:
  assumes "inv s" and "crypto_ok cr" and "valid_name name"
    and "create_client cr st now name s rs = (r, s', rs')"
  shows "(\<exists>c. r = Ok c \<and> registered s s' c \<and> cl_name c = name \<and> now = Some (cl_created_at c)) \<or>
         (\<exists>e. r = Err e \<and> same s s')"
proof (cases now)
  case None
  with assms show ?thesis by (auto simp: create_client_def same_refl)
next
  case (Some t)
  with assms(4) have "create_client_loop GENERATION_ATTEMPTS cr st name t s rs = (r, s', rs')"
    by (simp add: create_client_def)
  from create_client_loop_result [OF assms(1-3) this] Some show ?thesis by blast
qed

text \<open>Issuing stores one fresh token whose secret parses to it.\<close>

definition stored_for :: "'s \<Rightarrow> 's \<Rightarrow> issued_token \<Rightarrow> token_record \<Rightarrow> bool" where
  "stored_for s s' it t \<longleftrightarrow> tks s (tr_id t) = None \<and> inv s' \<and> cls s' = cls s \<and>
     tks s' (tr_id t) = Some t \<and> it_metadata it = metadata t \<and> tr_revoked_at t = None \<and>
     parse_presented cr (it_secret it) = Ok \<lparr>pt_id = tr_id t, pt_digest = tr_digest t\<rparr>"

lemma stored_for_same: "same s s1 \<Longrightarrow> stored_for s1 s' it t \<Longrightarrow> stored_for s s' it t"
  by (simp add: stored_for_def same_def)

lemma stored_for_authenticates:
  assumes "stored_for s s' it t" and "cls s (tr_client t) = Some c" and "cl_enabled c"
    and "\<And>x. tr_expires_at t = Some x \<Longrightarrow> now < x"
  shows "auth_spec cr (cls s') (tks s') now (it_secret it) =
           Some \<lparr>pr_id = tr_client t, pr_kind = Application\<rparr>"
  using assms by (auto simp: stored_for_def auth_spec_def is_active_at_def split: option.splits)

lemma issue_token_loop_result:
  assumes "inv s" and "crypto_ok cr" and "valid_identifier own"
    and "\<And>l. lbl = Some l \<Longrightarrow> valid_label l"
    and "issue_token_loop n cr st own lbl created_at expires_at s rs = (r, s', rs')"
  shows "(\<exists>it t. r = Ok it \<and> stored_for s s' it t \<and> tks s' = (tks s)(tr_id t \<mapsto> t) \<and>
            tr_client t = own \<and> tr_expires_at t = expires_at \<and> tr_created_at t = created_at) \<or>
         (\<exists>e. r = Err e \<and> same s s')"
  using assms
proof (induction n arbitrary: s rs)
  case 0
  then show ?case by (auto simp: same_refl)
next
  case (Suc n)
  obtain x rs1 where gen: "generate cr rs = (x, rs1)" by (cases "generate cr rs")
  show ?case
  proof (cases x)
    case (Inl e)
    with gen Suc.prems show ?thesis by (auto simp: same_refl)
  next
    case (Inr g)
    note gp = generate_parse [OF Suc.prems(2) gen [unfolded Inr]]
    let ?t = "TokenRecord_from_stored_parts (gt_id g) own lbl (gt_digest g) created_at expires_at None"
    have t: "tr_id ?t = gt_id g" "tr_client ?t = own" "tr_label ?t = lbl" "tr_digest ?t = gt_digest g"
      "tr_created_at ?t = created_at" "tr_expires_at ?t = expires_at" "tr_revoked_at ?t = None"
      by (simp_all add: TokenRecord_from_stored_parts_def)
    have vt: "valid_token cr ?t" using gp Suc.prems(3,4) by (simp add: valid_token_def t)
    obtain y s1 where it: "as_insert_token st s ?t = (y, s1)" by (cases "as_insert_token st s ?t")
    from insert_token_inv [OF Suc.prems(1) vt] it have inv1: "inv s1" by simp
    show ?thesis
    proof (cases y)
      case ok: (Inr u)
      let ?it = "\<lparr>it_metadata = metadata ?t, it_secret = gt_secret g\<rparr>"
      from ok gen Inr it Suc.prems(5) have "r = Ok ?it" "s' = s1" by auto
      moreover from insert_token_ok [OF Suc.prems(1) it [unfolded ok]]
      have "tks s (tr_id ?t) = None" "tks s1 = (tks s)(tr_id ?t \<mapsto> ?t)" "cls s1 = cls s" by auto
      ultimately show ?thesis using inv1 gp(1) t by (auto simp: stored_for_def)
    next
      case err: (Inl e)
      from insert_token_err [OF Suc.prems(1) it [unfolded err]] inv1
      have sm: "same s s1" by (simp add: same_def)
      show ?thesis
      proof (cases e)
        case StoreConflict
        with gen Inr it err Suc.prems(5)
        have "issue_token_loop n cr st own lbl created_at expires_at s1 rs1 = (r, s', rs')" by simp
        from Suc.IH [OF inv1 Suc.prems(2-4) this] sm show ?thesis
          using stored_for_same [OF sm] same_trans [OF sm] by (metis same_def)
      next
        case StoreUnavailable
        with gen Inr it err Suc.prems(5) sm show ?thesis by auto
      qed
    qed
  qed
qed

lemma load_enabled_client_result:
  assumes "inv s" and "load_enabled_client st i s = (r, s')"
  shows "same s s'" and "r = Ok c \<Longrightarrow> cls s i = Some c \<and> cl_enabled c"
    and "r = Err e \<Longrightarrow> e \<noteq> TlStorageUnavailable \<Longrightarrow>
      (e = TlClientNotFound \<and> cls s i = None) \<or>
      (e = TlClientDisabled \<and> (\<exists>c. cls s i = Some c \<and> \<not> cl_enabled c))"
proof -
  obtain x s1 where a: "as_client st s i = (x, s1)" by (cases "as_client st s i")
  from client_frame [OF assms(1) a] have sm: "same s s1" by (simp add: same_def)
  from assms(2) a have s1: "s1 = s'"
    by (auto simp: load_enabled_client_def split: sum.splits option.splits if_splits)
  with sm show "same s s'" by simp
  show "r = Ok c \<Longrightarrow> cls s i = Some c \<and> cl_enabled c"
    using assms a client_ok [OF assms(1), of i _ s1]
    by (auto simp: load_enabled_client_def split: sum.splits option.splits if_splits)
  show "r = Err e \<Longrightarrow> e \<noteq> TlStorageUnavailable \<Longrightarrow>
      (e = TlClientNotFound \<and> cls s i = None) \<or>
      (e = TlClientDisabled \<and> (\<exists>c. cls s i = Some c \<and> \<not> cl_enabled c))"
    using assms a client_ok [OF assms(1), of i _ s1]
    by (auto simp: load_enabled_client_def split: sum.splits option.splits if_splits)
qed

lemma issue_token_result:
  assumes "inv s" and "crypto_ok cr" and "\<And>l. lbl = Some l \<Longrightarrow> valid_label l"
    and "issue_token cr st now i lbl lifetime s rs = (r, s', rs')"
  shows "(\<exists>it t c created_at. r = Ok it \<and> stored_for s s' it t \<and> tks s' = (tks s)(tr_id t \<mapsto> t) \<and>
            tr_client t = i \<and> cls s i = Some c \<and> cl_enabled c \<and> now = Some created_at \<and>
            expiration created_at lifetime = Ok (tr_expires_at t)) \<or>
         (\<exists>e. r = Err e \<and> same s s')"
proof -
  obtain x s1 where l: "load_enabled_client st i s = (x, s1)" by (cases "load_enabled_client st i s")
  note lr = load_enabled_client_result [OF assms(1) l]
  show ?thesis
  proof (cases x)
    case (Inl e)
    with l assms(4) lr(1) show ?thesis by (auto simp: issue_token_def)
  next
    case (Inr own)
    with lr(2) have own: "cls s i = Some own" "cl_enabled own" by auto
    from client_key [OF assms(1) own(1)] have key: "cl_id own = i" "valid_identifier i" by auto
    from lr(1) have inv1: "inv s1" by (simp add: same_def)
    show ?thesis
    proof (cases now)
      case None
      with l Inr assms(4) lr(1) show ?thesis by (auto simp: issue_token_def now_for_token_def ok_or_def)
    next
      case (Some t)
      show ?thesis
      proof (cases "expiration t lifetime")
        case (Inl e)
        with l Inr Some assms(4) lr(1) show ?thesis
          by (auto simp: issue_token_def now_for_token_def ok_or_def)
      next
        case exp: (Inr x)
        with l Inr Some assms(4) key
        have "issue_token_loop GENERATION_ATTEMPTS cr st i lbl t x s1 rs = (r, s', rs')"
          by (simp add: issue_token_def now_for_token_def ok_or_def)
        from issue_token_loop_result [OF inv1 assms(2) key(2) assms(3) this]
        consider it tok where "r = Ok it" "stored_for s1 s' it tok" "tks s' = (tks s1)(tr_id tok \<mapsto> tok)"
            "tr_client tok = i" "tr_expires_at tok = x"
          | e where "r = Err e" "same s1 s'" by blast
        then show ?thesis
        proof cases
          case 1
          with lr(1) have "tks s' = (tks s)(tr_id tok \<mapsto> tok)" by (simp add: same_def)
          with 1 own exp Some stored_for_same [OF lr(1) 1(2)] show ?thesis by blast
        next
          case 2
          with same_trans [OF lr(1)] show ?thesis by blast
        qed
      qed
    qed
  qed
qed

lemma set_client_enabled_result:
  assumes "inv s" and "set_client_enabled st i b s = (r, s')"
  shows "inv s'" and "tks s' = tks s"
    and "r = Ok u \<Longrightarrow> \<exists>c. cls s i = Some c \<and> cls s' = (cls s)(i \<mapsto> c\<lparr>cl_enabled := b\<rparr>)"
    and "r = Err e \<Longrightarrow> cls s' = cls s"
proof -
  obtain x s1 where a: "as_set_client_enabled st s i b = (x, s1)"
    by (cases "as_set_client_enabled st s i b")
  from assms(2) a have s1: "s1 = s'"
    by (auto simp: set_client_enabled_def split: sum.splits bool.splits)
  from set_enabled_inv [OF assms(1), of i b] a s1 show "inv s'" by simp
  show "tks s' = tks s"
    using set_enabled_ok [OF assms(1)] set_enabled_err [OF assms(1)] a s1 by (cases x) auto
  show "r = Ok u \<Longrightarrow> \<exists>c. cls s i = Some c \<and> cls s' = (cls s)(i \<mapsto> c\<lparr>cl_enabled := b\<rparr>)"
    using assms(2) a s1 set_enabled_ok [OF assms(1), of i b _ s1]
    by (auto simp: set_client_enabled_def split: sum.splits bool.splits option.splits)
  show "r = Err e \<Longrightarrow> cls s' = cls s"
    using assms(2) a s1 set_enabled_ok [OF assms(1), of i b _ s1] set_enabled_err [OF assms(1), of i b _ s1]
    by (auto simp: set_client_enabled_def split: sum.splits bool.splits option.splits)
qed

lemma revoke_token_result:
  assumes "inv s" and "revoke_token st now i s = (r, s')"
  shows "inv s'" and "cls s' = cls s"
    and "r = Ok True \<Longrightarrow> \<exists>t n. now = Some n \<and> tks s i = Some t \<and> is_active_at t n \<and>
           tks s' = (tks s)(i \<mapsto> mark_revoked t n)"
    and "r \<noteq> Ok True \<Longrightarrow> tks s' = tks s"
proof -
  have "inv s' \<and> cls s' = cls s \<and>
    (r = Ok True \<longrightarrow> (\<exists>t n. now = Some n \<and> tks s i = Some t \<and> is_active_at t n \<and>
           tks s' = (tks s)(i \<mapsto> mark_revoked t n))) \<and>
    (r \<noteq> Ok True \<longrightarrow> tks s' = tks s)"
  proof (cases now)
    case None
    with assms show ?thesis by (auto simp: revoke_token_def now_for_token_def ok_or_def)
  next
    case (Some n)
    obtain x s1 where a: "as_revoke_token st s i n = (x, s1)" by (cases "as_revoke_token st s i n")
    with Some assms(2) have s1: "s1 = s'" and r: "r = map_err (\<lambda>_. TlStorageUnavailable) x"
      by (auto simp: revoke_token_def now_for_token_def ok_or_def)
    have "inv s'" using revoke_inv [OF assms(1), of i n] a s1 by simp
    show ?thesis
    proof (cases x)
      case (Inl e)
      with r revoke_err [OF assms(1), of i n e s1] a s1 \<open>inv s'\<close> show ?thesis by simp
    next
      case (Inr b)
      with r revoke_ok [OF assms(1), of i n b s1] a s1 \<open>inv s'\<close> Some show ?thesis
        by (cases "tks s i") (auto split: if_splits)
    qed
  qed
  then show "inv s'" and "cls s' = cls s"
    and "r = Ok True \<Longrightarrow> \<exists>t n. now = Some n \<and> tks s i = Some t \<and> is_active_at t n \<and>
           tks s' = (tks s)(i \<mapsto> mark_revoked t n)"
    and "r \<noteq> Ok True \<Longrightarrow> tks s' = tks s" by blast+
qed

text \<open>Rotation replaces one active token of an enabled client, or changes nothing.\<close>

definition rotated :: "'s \<Rightarrow> 's \<Rightarrow> token_id \<Rightarrow> int \<Rightarrow> token_record \<Rightarrow> token_record \<Rightarrow> bool" where
  "rotated s s' i now old new \<longleftrightarrow> tks s i = Some old \<and> is_active_at old now \<and>
     (\<exists>c. cls s (tr_client old) = Some c \<and> cl_enabled c) \<and> tr_client new = tr_client old \<and>
     tks s' = (tks s)(tr_id new \<mapsto> new, i \<mapsto> mark_revoked old now)"

lemma rotated_same: "same s s1 \<Longrightarrow> rotated s1 s' i now old new \<Longrightarrow> rotated s s' i now old new"
  by (simp add: rotated_def same_def)

lemma rotate_token_loop_result:
  assumes "inv s" and "crypto_ok cr" and "\<And>l. lbl = Some l \<Longrightarrow> valid_label l"
    and "rotate_token_loop n cr st i lbl now expires_at s rs = (r, s', rs')"
  shows "(\<exists>it old new. r = Ok it \<and> stored_for s s' it new \<and> rotated s s' i now old new \<and>
            tr_expires_at new = expires_at) \<or>
         (\<exists>e. r = Err e \<and> same s s')"
  using assms
proof (induction n arbitrary: s rs)
  case 0
  then show ?case by (auto simp: same_refl)
next
  case (Suc n)
  obtain x rs1 where gen: "generate cr rs = (x, rs1)" by (cases "generate cr rs")
  show ?case
  proof (cases x)
    case (Inl e)
    with gen Suc.prems show ?thesis by (auto simp: same_refl)
  next
    case (Inr g)
    note gp = generate_parse [OF Suc.prems(2) gen [unfolded Inr]]
    let ?r = "\<lparr>rp_id = gt_id g, rp_label = lbl, rp_digest = gt_digest g, rp_created_at = now,
               rp_expires_at = expires_at\<rparr>"
    have vr: "valid_replacement cr ?r" using gp Suc.prems(3) by (simp add: valid_replacement_def)
    obtain y s1 where rt: "as_rotate_token st s i ?r now = (y, s1)"
      by (cases "as_rotate_token st s i ?r now")
    from rotate_inv [OF Suc.prems(1) vr, of i now] rt have inv1: "inv s1" by simp
    show ?thesis
    proof (cases "\<exists>p. y = Ok (Rotated p)")
      case True
      then obtain p where p: "y = Ok (Rotated p)" ..
      let ?it = "\<lparr>it_metadata = TokenMetadata_from_stored_parts (gt_id g) p lbl now expires_at None,
                  it_secret = gt_secret g\<rparr>"
      let ?new = "into_record ?r p"
      from p gen Inr rt Suc.prems(4) have res: "r = Ok ?it" "s' = s1" by auto
      from rotate_ok [OF Suc.prems(1) vr rt [unfolded p]] obtain old c where old:
        "tks s i = Some old" "is_active_at old now" "cls s (tr_client old) = Some c" "cl_enabled c"
        "p = tr_client old" "tks s (gt_id g) = None" "cls s1 = cls s"
        "tks s1 = (tks s)(gt_id g \<mapsto> ?new, i \<mapsto> mark_revoked old now)" by auto
      then have "gt_id g \<noteq> i" by auto
      have "metadata ?new = it_metadata ?it"
        by (simp add: metadata_def TokenMetadata_from_stored_parts_def)
      with old \<open>gt_id g \<noteq> i\<close> inv1 gp(1) have "stored_for s s1 ?it ?new"
        by (simp add: stored_for_def)
      moreover from old have "rotated s s1 i now old ?new" by (simp add: rotated_def)
      moreover have "tr_expires_at ?new = expires_at" by simp
      ultimately show ?thesis using res by blast
    next
      case False
      with rotate_refused [OF Suc.prems(1) rt] inv1 have sm: "same s s1" by (simp add: same_def)
      show ?thesis
      proof (cases "y = Err StoreConflict")
        case True
        with gen Inr rt Suc.prems(4)
        have "rotate_token_loop n cr st i lbl now expires_at s1 rs1 = (r, s', rs')" by simp
        from Suc.IH [OF inv1 Suc.prems(2,3) this] show ?thesis
          using stored_for_same [OF sm] same_trans [OF sm] rotated_same [OF sm] by blast
      next
        case nc: False
        consider "y = Err StoreUnavailable" | "y = Ok RotationNotFound"
          | "y = Ok RotationInactive" | "y = Ok RotationClientDisabled"
          using nc False rotation_refusal_cases [of y] by blast
        then have "(\<exists>e. r = Err e) \<and> s' = s1"
          using gen Inr rt Suc.prems(4) by cases auto
        with sm show ?thesis by blast
      qed
    qed
  qed
qed

lemma rotate_token_result:
  assumes "inv s" and "crypto_ok cr" and "\<And>l. lbl = Some l \<Longrightarrow> valid_label l"
    and "rotate_token cr st now i lbl lifetime s rs = (r, s', rs')"
  shows "(\<exists>it old new t. r = Ok it \<and> now = Some t \<and> stored_for s s' it new \<and>
            rotated s s' i t old new \<and> expiration t lifetime = Ok (tr_expires_at new)) \<or>
         (\<exists>e. r = Err e \<and> same s s')"
proof (cases now)
  case None
  with assms show ?thesis by (auto simp: rotate_token_def now_for_token_def ok_or_def same_refl)
next
  case (Some t)
  show ?thesis
  proof (cases "expiration t lifetime")
    case (Inl e)
    with Some assms show ?thesis
      by (auto simp: rotate_token_def now_for_token_def ok_or_def same_refl)
  next
    case (Inr x)
    with Some assms(4) have "rotate_token_loop GENERATION_ATTEMPTS cr st i lbl t x s rs = (r, s', rs')"
      by (simp add: rotate_token_def now_for_token_def ok_or_def)
    from rotate_token_loop_result [OF assms(1-3) this] Some Inr show ?thesis by blast
  qed
qed

lemma rotated_tokens_le: "rotated s s' i now old new \<Longrightarrow> tks s (tr_id new) = None \<Longrightarrow> tokens_le (tks s) (tks s')"
  by (auto simp: rotated_def tokens_le_def token_le_def is_active_at_def)

text \<open>Every manager operation keeps the store's invariant and only ever revokes tokens.\<close>

lemma mgr_step_preserves:
  assumes "mgr_step cr st s s'" and "inv s" and "crypto_ok cr"
  shows "inv s' \<and> tokens_le (tks s) (tks s')"
  using assms(1)
proof cases
  case (mgr_create name now rs r rs')
  from create_client_result [OF assms(2,3) mgr_create] show ?thesis
    by (auto simp: registered_def same_def)
next
  case (mgr_enable i b r)
  from set_client_enabled_result [OF assms(2) mgr_enable] show ?thesis by simp
next
  case (mgr_clients r)
  then obtain x where "as_clients st s = (x, s')"
    by (auto simp: clients_def split: prod.splits)
  from clients_frame [OF assms(2) this] show ?thesis by simp
next
  case (mgr_issue lbl now c e rs r rs')
  from issue_token_result [OF assms(2,3) mgr_issue] show ?thesis
    by (auto simp: stored_for_def same_def tokens_le_insert)
next
  case (mgr_authenticate now presented r)
  from authenticate_refines(1) [OF assms(2,3) mgr_authenticate] show ?thesis by (simp add: same_def)
next
  case (mgr_revoke now i r)
  from revoke_token_result [OF assms(2) mgr_revoke] show ?thesis
    by (cases "r = Ok True") (auto intro: tokens_le_revoke)
next
  case (mgr_rotate lbl now i e rs r rs')
  from rotate_token_result [OF assms(2,3) mgr_rotate] show ?thesis
    by (auto simp: stored_for_def same_def intro: rotated_tokens_le)
next
  case (mgr_tokens c r)
  then obtain x where "as_tokens_for_client st s c = (x, s')"
    by (auto simp: tokens_for_client_def split: prod.splits sum.splits)
  from tokens_frame [OF assms(2) this] show ?thesis by simp
qed

lemma mgr_reachable_preserves:
  assumes "mgr_reachable cr st s s'" and "inv s" and "crypto_ok cr"
  shows "inv s' \<and> tokens_le (tks s) (tks s')"
  using assms(1)
proof (induction rule: mgr_reachable.induct)
  case mgr_refl
  then show ?case using assms(2) by simp
next
  case (mgr_next t t')
  with mgr_step_preserves [OF mgr_next(2) _ assms(3)] tokens_le_trans show ?case by blast
qed

text \<open>Once revoked, a token is never accepted again, whatever the manager does afterwards.\<close>

lemma revoked_forever:
  assumes "inv s" and "crypto_ok cr" and "tks s i = Some t" and "tr_revoked_at t \<noteq> None"
    and "mgr_reachable cr st s s'" and "parse_presented cr presented = Ok p" and "pt_id p = i"
  shows "auth_spec cr (cls s') (tks s') now presented = None"
    and "authenticate cr st clock presented s' = (r, s'') \<Longrightarrow> r \<noteq> Ok pr"
proof -
  from mgr_reachable_preserves [OF assms(5,1,2)] assms(3,4) have inv': "inv s'"
    and t: "tks s' i = Some t"
    unfolding tokens_le_def by (blast dest: token_le_revoked)+
  show none: "auth_spec cr (cls s') (tks s') now presented = None" for now
    using auth_spec_revoked [of "tks s'" i t cr presented p "cls s'" now] t assms(4,6,7) by blast
  show "authenticate cr st clock presented s' = (r, s'') \<Longrightarrow> r \<noteq> Ok pr"
    using authenticate_refines(2) [OF inv' assms(2)] none by fastforce
qed

end

end
