(* ===== verification/Sql_Auth.thy ===== *)
theory Sql_Auth
  imports Sql_Database Auth_Manager
begin

text \<open>
  \<open>AuthStore\<close> for \<open>SqlCipherStore\<close> (\<open>bondry-store-sqlcipher/src/auth.rs\<close>), over the tables
  \<open>clients\<close> and \<open>tokens\<close>. A constraint violation is reported as a conflict, every other failure of
  the database as unavailability. The theory ends with the interpretation of the storage contract on
  these operations, so that the results on the manager hold of the store that is shipped.
\<close>

section \<open>Statements\<close>

definition flag :: "bool \<Rightarrow> int" where
  "flag b = (if b then 1 else 0)"

text \<open>\<open>INSERT INTO tokens\<close>, or \<open>None\<close> for a violated constraint.\<close>

definition insert_token_row :: "database \<Rightarrow> token_record \<Rightarrow> database option" where
  "insert_token_row d t =
     (if tbl kr_id (db_tokens d) (tr_id t) \<noteq> None
         \<or> tbl cr_id (db_clients d) (tr_client t) = None
         \<or> (\<exists>r\<in>set (db_tokens d). kr_digest r = tr_digest t)
         \<or> length (tr_digest t) \<noteq> 32
         \<or> (case tr_expires_at t of None \<Rightarrow> False | Some x \<Rightarrow> x \<le> tr_created_at t)
      then None
      else Some (d\<lparr>db_tokens := db_tokens d @
        [\<lparr>kr_id = tr_id t, kr_client = tr_client t, kr_label = tr_label t,
          kr_digest = tr_digest t, kr_created_at = tr_created_at t,
          kr_expires_at = tr_expires_at t, kr_revoked_at = tr_revoked_at t\<rparr>]\<rparr>))"

definition select_token :: "database \<Rightarrow> token_id \<Rightarrow> (token_row \<times> int) option" where
  "select_token d i =
     (case tbl kr_id (db_tokens d) i of
        None \<Rightarrow> None
      | Some t \<Rightarrow> map_option (\<lambda>c. (t, cr_enabled c)) (tbl cr_id (db_clients d) (kr_client t)))"

definition RawToken_validate :: "crypto \<Rightarrow> token_row \<Rightarrow> store_error + token_record" where
  "RawToken_validate cr r =
     (if length (kr_digest r) \<noteq> 32 then Err StoreUnavailable
      else
        bindR (map_err (\<lambda>_. StoreUnavailable) (TokenId_new cr (kr_id r))) (\<lambda>i.
        bindR (map_err (\<lambda>_. StoreUnavailable) (identifier_new (kr_client r))) (\<lambda>c.
        bindR (map_err (\<lambda>_. StoreUnavailable) (transposeR TokenLabel_new (kr_label r)))
          (\<lambda>l.
            Ok (TokenRecord_from_stored_parts i c l (kr_digest r) (kr_created_at r)
                  (kr_expires_at r) (kr_revoked_at r))))))"

definition decode_client :: "client_row \<Rightarrow> store_error + client" where
  "decode_client r =
     bindR (map_err (\<lambda>_. StoreUnavailable) (identifier_new (cr_id r))) (\<lambda>i.
     bindR (map_err (\<lambda>_. StoreUnavailable) (ClientName_new (cr_name r))) (\<lambda>name.
       Ok (Client_from_stored_parts i name (cr_enabled r \<noteq> 0) (cr_created_at r))))"

section \<open>Operations\<close>

definition sql_insert_client :: "conn \<Rightarrow> client \<Rightarrow> (store_error + unit) \<times> conn" where
  "sql_insert_client c cl =
     attempt StoreUnavailable c (\<lambda>c. attempt StoreUnavailable c (\<lambda>c.
       if tbl cr_id (db_clients (cn_data c)) (cl_id cl) \<noteq> None then (Err StoreConflict, c)
       else (Ok (), update_data (\<lambda>d. d\<lparr>db_clients := db_clients d @
         [\<lparr>cr_id = cl_id cl, cr_name = cl_name cl, cr_enabled = flag (cl_enabled cl),
           cr_created_at = cl_created_at cl\<rparr>]\<rparr>) c)))"

definition sql_client :: "conn \<Rightarrow> principal_id \<Rightarrow> (store_error + client option) \<times> conn" where
  "sql_client c i =
     attempt StoreUnavailable c (\<lambda>c. attempt StoreUnavailable c (\<lambda>c.
       (transposeR decode_client (tbl cr_id (db_clients (cn_data c)) i), c)))"

definition sql_clients :: "conn \<Rightarrow> (store_error + client list) \<times> conn" where
  "sql_clients c =
     attempt StoreUnavailable c (\<lambda>c. attempt StoreUnavailable c (\<lambda>c. attempt StoreUnavailable c (\<lambda>c.
       (collectR decode_client (sort_key cr_id (db_clients (cn_data c))), c))))"

definition sql_set_client_enabled ::
    "conn \<Rightarrow> principal_id \<Rightarrow> bool \<Rightarrow> (store_error + bool) \<times> conn" where
  "sql_set_client_enabled c i enabled =
     attempt StoreUnavailable c (\<lambda>c. attempt StoreUnavailable c (\<lambda>c.
       (Ok (count_rows (\<lambda>r. cr_id r = i) (db_clients (cn_data c)) = 1),
        update_data (\<lambda>d. d\<lparr>db_clients :=
          update_rows (\<lambda>r. cr_id r = i) (\<lambda>r. r\<lparr>cr_enabled := flag enabled\<rparr>) (db_clients d)\<rparr>) c)))"

definition sql_insert_token :: "conn \<Rightarrow> token_record \<Rightarrow> (store_error + unit) \<times> conn" where
  "sql_insert_token c t =
     attempt StoreUnavailable c (\<lambda>c. attempt StoreUnavailable c (\<lambda>c.
       case insert_token_row (cn_data c) t of
         None \<Rightarrow> (Err StoreConflict, c)
       | Some d \<Rightarrow> (Ok (), update_data (\<lambda>_. d) c)))"

definition sql_authentication_record ::
    "crypto \<Rightarrow> conn \<Rightarrow> token_id \<Rightarrow> (store_error + authentication_record option) \<times> conn" where
  "sql_authentication_record cr c i =
     attempt StoreUnavailable c (\<lambda>c. attempt StoreUnavailable c (\<lambda>c. attempt StoreUnavailable c (\<lambda>c.
       (transposeR (\<lambda>(token, enabled).
          bindR (RawToken_validate cr token) (\<lambda>t.
            Ok \<lparr>ar_token = t, ar_client_enabled = (enabled \<noteq> 0)\<rparr>)) (select_token (cn_data c) i), c))))"

definition sql_revoke_token :: "conn \<Rightarrow> token_id \<Rightarrow> int \<Rightarrow> (store_error + bool) \<times> conn" where
  "sql_revoke_token c i revoked_at =
     (let hit = (\<lambda>r. kr_id r = i \<and> kr_revoked_at r = None \<and>
            (case kr_expires_at r of None \<Rightarrow> True | Some x \<Rightarrow> revoked_at < x)) in
      attempt StoreUnavailable c (\<lambda>c. attempt StoreUnavailable c (\<lambda>c.
        (Ok (count_rows hit (db_tokens (cn_data c)) = 1),
         update_data (\<lambda>d. d\<lparr>db_tokens :=
           update_rows hit (\<lambda>r. r\<lparr>kr_revoked_at := Some revoked_at\<rparr>) (db_tokens d)\<rparr>) c))))"

text \<open>The body of the rotation's transaction, in two parts: the checks, and the two writes.\<close>

definition sql_rotate_write ::
    "conn \<Rightarrow> token_id \<Rightarrow> token_record \<Rightarrow> int \<Rightarrow> (store_error + rotation_outcome) \<times> bool \<times> conn" where
  "sql_rotate_write c current replacement revoked_at =
     attemptT StoreUnavailable c (\<lambda>c.
       case insert_token_row (cn_data c) replacement of
         None \<Rightarrow> (Err StoreConflict, False, c)
       | Some d \<Rightarrow>
           attemptT StoreUnavailable (update_data (\<lambda>_. d) c) (\<lambda>c.
             let hit = (\<lambda>r. kr_id r = current \<and> kr_revoked_at r = None);
                 changed = count_rows hit (db_tokens (cn_data c));
                 c = update_data (\<lambda>d. d\<lparr>db_tokens :=
                       update_rows hit (\<lambda>r. r\<lparr>kr_revoked_at := Some revoked_at\<rparr>)
                         (db_tokens d)\<rparr>) c
             in if changed \<noteq> 1 then (Err StoreUnavailable, False, c)
                else commit StoreUnavailable c (Ok (Rotated (tr_client replacement)))))"

definition sql_rotate_body ::
    "crypto \<Rightarrow> token_id \<Rightarrow> token_replacement \<Rightarrow> int \<Rightarrow> conn
       \<Rightarrow> (store_error + rotation_outcome) \<times> bool \<times> conn" where
  "sql_rotate_body cr current replacement revoked_at c =
     attemptT StoreUnavailable c (\<lambda>c.
       case select_token (cn_data c) current of
         None \<Rightarrow> (Ok RotationNotFound, False, c)
       | Some (raw, enabled) \<Rightarrow>
           (case RawToken_validate cr raw of
              Inl e \<Rightarrow> (Err e, False, c)
            | Inr current_token \<Rightarrow>
                if enabled = 0 then (Ok RotationClientDisabled, False, c)
                else if \<not> is_active_at current_token revoked_at
                then (Ok RotationInactive, False, c)
                else sql_rotate_write c current
                       (into_record replacement (tr_client current_token)) revoked_at))"

definition sql_rotate_token ::
    "crypto \<Rightarrow> conn \<Rightarrow> token_id \<Rightarrow> token_replacement \<Rightarrow> int \<Rightarrow> (store_error + rotation_outcome) \<times> conn"
  where
  "sql_rotate_token cr c current replacement revoked_at =
     attempt StoreUnavailable c (\<lambda>c.
       transaction StoreUnavailable c (sql_rotate_body cr current replacement revoked_at))"

definition sql_tokens_for_client ::
    "crypto \<Rightarrow> conn \<Rightarrow> principal_id \<Rightarrow> (store_error + token_record list) \<times> conn" where
  "sql_tokens_for_client cr c i =
     attempt StoreUnavailable c (\<lambda>c. attempt StoreUnavailable c (\<lambda>c. attempt StoreUnavailable c (\<lambda>c.
       (collectR (RawToken_validate cr)
          (sort_key (\<lambda>r. (- kr_created_at r, kr_id r))
            (filter (\<lambda>r. kr_client r = i) (db_tokens (cn_data c)))), c))))"

definition sql_auth_store :: "crypto \<Rightarrow> conn auth_store" where
  "sql_auth_store cr =
     \<lparr>as_insert_client = sql_insert_client,
      as_client = sql_client,
      as_clients = sql_clients,
      as_set_client_enabled = sql_set_client_enabled,
      as_insert_token = sql_insert_token,
      as_authentication_record = sql_authentication_record cr,
      as_revoke_token = sql_revoke_token,
      as_rotate_token = sql_rotate_token cr,
      as_tokens_for_client = sql_tokens_for_client cr\<rparr>"

section \<open>The abstract state\<close>

definition client_of_row :: "client_row \<Rightarrow> client" where
  "client_of_row r =
     \<lparr>cl_id = cr_id r, cl_name = cr_name r, cl_enabled = (cr_enabled r \<noteq> 0),
      cl_created_at = cr_created_at r\<rparr>"

definition token_of_row :: "token_row \<Rightarrow> token_record" where
  "token_of_row r =
     \<lparr>tr_id = kr_id r, tr_client = kr_client r, tr_label = kr_label r, tr_digest = kr_digest r,
      tr_created_at = kr_created_at r, tr_expires_at = kr_expires_at r,
      tr_revoked_at = kr_revoked_at r\<rparr>"

definition sql_cls :: "conn \<Rightarrow> principal_id \<rightharpoonup> client" where
  "sql_cls c i = map_option client_of_row (tbl cr_id (db_clients (cn_data c)) i)"

definition sql_tks :: "conn \<Rightarrow> token_id \<rightharpoonup> token_record" where
  "sql_tks c i = map_option token_of_row (tbl kr_id (db_tokens (cn_data c)) i)"

text \<open>
  What the schema and the callers guarantee together: unique keys, unique digests of 32 bytes, no
  token without its client, and only values the constructors accept.
\<close>

definition sql_auth_inv :: "crypto \<Rightarrow> conn \<Rightarrow> bool" where
  "sql_auth_inv cr c \<longleftrightarrow>
     keyed cr_id (db_clients (cn_data c)) \<and>
     (\<forall>r\<in>set (db_clients (cn_data c)). valid_client (client_of_row r)) \<and>
     keyed kr_id (db_tokens (cn_data c)) \<and> keyed kr_digest (db_tokens (cn_data c)) \<and>
     (\<forall>r\<in>set (db_tokens (cn_data c)). valid_token cr (token_of_row r) \<and>
        tbl cr_id (db_clients (cn_data c)) (kr_client r) \<noteq> None)"

lemma client_of_row_simps [simp]:
  "cl_id (client_of_row r) = cr_id r" "cl_enabled (client_of_row r) = (cr_enabled r \<noteq> 0)"
  "cl_name (client_of_row r) = cr_name r" "cl_created_at (client_of_row r) = cr_created_at r"
  by (simp_all add: client_of_row_def)

lemma token_of_row_simps [simp]:
  "tr_id (token_of_row r) = kr_id r" "tr_client (token_of_row r) = kr_client r"
  "tr_digest (token_of_row r) = kr_digest r" "tr_label (token_of_row r) = kr_label r"
  "tr_created_at (token_of_row r) = kr_created_at r"
  "tr_expires_at (token_of_row r) = kr_expires_at r"
  "tr_revoked_at (token_of_row r) = kr_revoked_at r"
  by (simp_all add: token_of_row_def)

lemma flag_neq_0 [simp]: "(flag b \<noteq> 0) = b" "(flag b = 0) = (\<not> b)"
  by (simp_all add: flag_def)

lemma decode_client_valid: "valid_client (client_of_row r) \<Longrightarrow> decode_client r = Ok (client_of_row r)"
  by (simp add: decode_client_def valid_client_def valid_name_def identifier_new_Ok_iff
      Client_from_stored_parts_def client_of_row_def)

lemma RawToken_validate_valid:
  assumes "valid_token cr (token_of_row r)"
  shows "RawToken_validate cr r = Ok (token_of_row r)"
proof -
  have "identifier_new (kr_client r) = Ok (kr_client r)"
    using assms by (simp add: valid_token_def identifier_new_Ok_iff)
  moreover have "transposeR TokenLabel_new (kr_label r) = Ok (kr_label r)"
    using assms by (auto simp: valid_token_def valid_label_def transposeR_def split: option.splits)
  ultimately show ?thesis
    using assms
    by (simp add: RawToken_validate_def valid_token_def valid_token_id_def
        TokenRecord_from_stored_parts_def token_of_row_def)
qed

lemma same_data:
  "cn_data c' = cn_data c \<Longrightarrow>
     sql_cls c' = sql_cls c \<and> sql_tks c' = sql_tks c \<and> sql_auth_inv cr c' = sql_auth_inv cr c"
  by (simp add: sql_cls_def sql_tks_def sql_auth_inv_def fun_eq_iff)

lemma select_token_inv:
  assumes "sql_auth_inv cr c"
  shows "select_token (cn_data c) i = None \<longleftrightarrow> sql_tks c i = None"
    and "select_token (cn_data c) i = Some (t, e) \<Longrightarrow>
      sql_tks c i = Some (token_of_row t) \<and> RawToken_validate cr t = Ok (token_of_row t) \<and>
      (\<exists>cl. sql_cls c (kr_client t) = Some cl \<and> cl_enabled cl = (e \<noteq> 0))"
  using assms
  by (auto simp: select_token_def sql_tks_def sql_cls_def sql_auth_inv_def RawToken_validate_valid
      split: option.splits dest: tbl_SomeD)

section \<open>What each operation does\<close>

lemma sql_insert_client_result:
  assumes "sql_insert_client c cl = (r, c')"
  obtains (err) e where "r = Err e" "cn_data c' = cn_data c"
  | (ok) row where "r = Ok ()" "client_of_row row = cl"
      "tbl cr_id (db_clients (cn_data c)) (cr_id row) = None"
      "cn_data c' = (cn_data c)\<lparr>db_clients := db_clients (cn_data c) @ [row]\<rparr>"
proof -
  let ?row = "\<lparr>cr_id = cl_id cl, cr_name = cl_name cl, cr_enabled = flag (cl_enabled cl),
      cr_created_at = cl_created_at cl\<rparr>"
  have row: "client_of_row ?row = cl" by (simp add: client_of_row_def)
  have "(\<exists>e. r = Err e \<and> cn_data c' = cn_data c) \<or>
    (r = Ok () \<and> tbl cr_id (db_clients (cn_data c)) (cl_id cl) = None \<and>
     cn_data c' = (cn_data c)\<lparr>db_clients := db_clients (cn_data c) @ [?row]\<rparr>)"
    using assms unfolding sql_insert_client_def
    by (auto elim!: attempt_cases split: if_splits)
  then show ?thesis
    by (elim disjE exE conjE) (auto intro: err ok [of ?row] simp: row)
qed

lemma sql_read_frame:
  "sql_client c i = (rc, c') \<Longrightarrow> cn_data c' = cn_data c"
  "sql_clients c = (rcs, c') \<Longrightarrow> cn_data c' = cn_data c"
  "sql_authentication_record cr c j = (ra, c') \<Longrightarrow> cn_data c' = cn_data c"
  "sql_tokens_for_client cr c i = (rt, c') \<Longrightarrow> cn_data c' = cn_data c"
  unfolding sql_client_def sql_clients_def sql_authentication_record_def sql_tokens_for_client_def
  by (auto elim!: attempt_cases)

lemma sql_set_client_enabled_result:
  assumes "sql_set_client_enabled c i b = (r, c')"
  obtains (err) e where "r = Err e" "cn_data c' = cn_data c"
  | (ok) "r = Ok (count_rows (\<lambda>r. cr_id r = i) (db_clients (cn_data c)) = 1)"
      "cn_data c' = (cn_data c)\<lparr>db_clients :=
         update_rows (\<lambda>r. cr_id r = i) (\<lambda>r. r\<lparr>cr_enabled := flag b\<rparr>) (db_clients (cn_data c))\<rparr>"
  using assms unfolding sql_set_client_enabled_def by (auto elim!: attempt_cases)

lemma sql_insert_token_result:
  assumes "sql_insert_token c t = (r, c')"
  obtains (err) e where "r = Err e" "cn_data c' = cn_data c"
  | (ok) "r = Ok ()" "insert_token_row (cn_data c) t = Some (cn_data c')"
  using assms unfolding sql_insert_token_def
  by (auto elim!: attempt_cases split: option.splits)

lemma insert_token_row_Some:
  assumes "insert_token_row d t = Some d'"
  obtains r where "token_of_row r = t" "d' = d\<lparr>db_tokens := db_tokens d @ [r]\<rparr>"
    "tbl kr_id (db_tokens d) (kr_id r) = None" "tbl cr_id (db_clients d) (kr_client r) \<noteq> None"
    "tbl kr_digest (db_tokens d) (kr_digest r) = None" "length (kr_digest r) = 32"
proof -
  let ?r = "\<lparr>kr_id = tr_id t, kr_client = tr_client t, kr_label = tr_label t,
      kr_digest = tr_digest t, kr_created_at = tr_created_at t,
      kr_expires_at = tr_expires_at t, kr_revoked_at = tr_revoked_at t\<rparr>"
  show thesis
    using assms
    by (intro that [of ?r])
      (auto simp: insert_token_row_def token_of_row_def tbl_None_iff split: if_splits)
qed

lemma sql_rotate_write_result:
  assumes "sql_rotate_write c i t now = (r, b, c')"
  obtains (err) e where "r = Err e" "\<not> b"
  | (written) d where "r = Ok (Rotated (tr_client t))" "b" "insert_token_row (cn_data c) t = Some d"
      "cn_data c' = d\<lparr>db_tokens := update_rows (\<lambda>r. kr_id r = i \<and> kr_revoked_at r = None)
         (\<lambda>r. r\<lparr>kr_revoked_at := Some now\<rparr>) (db_tokens d)\<rparr>"
  using assms unfolding sql_rotate_write_def
  by (auto elim!: attemptT_cases commit_cases simp: Let_def split: option.splits if_splits)

lemma sql_rotate_body_result:
  assumes "sql_auth_inv cr c" and "sql_rotate_body cr i rp now c = (r, b, c')"
  obtains (err) e where "r = Err e" "\<not> b"
  | (not_found) "r = Ok RotationNotFound" "\<not> b" "sql_tks c i = None"
  | (disabled) t cl where "r = Ok RotationClientDisabled" "\<not> b"
      "sql_tks c i = Some t" "sql_cls c (tr_client t) = Some cl" "\<not> cl_enabled cl"
  | (inactive) t where "r = Ok RotationInactive" "\<not> b"
      "sql_tks c i = Some t" "\<not> is_active_at t now"
  | (rotated) t cl d where "r = Ok (Rotated (tr_client t))" "b" "sql_tks c i = Some t"
      "sql_cls c (tr_client t) = Some cl" "cl_enabled cl" "is_active_at t now"
      "insert_token_row (cn_data c) (into_record rp (tr_client t)) = Some d"
      "cn_data c' = d\<lparr>db_tokens := update_rows (\<lambda>r. kr_id r = i \<and> kr_revoked_at r = None)
         (\<lambda>r. r\<lparr>kr_revoked_at := Some now\<rparr>) (db_tokens d)\<rparr>"
  using assms(2) unfolding sql_rotate_body_def
proof (cases rule: attemptT_cases)
  case failed
  then show ?thesis using err by blast
next
  case (passed c1)
  show ?thesis
  proof (cases "select_token (cn_data c) i")
    case None
    with passed select_token_inv(1) [OF assms(1), of i] not_found show ?thesis by simp
  next
    case (Some te)
    obtain t e where te: "te = (t, e)" by (cases te)
    with Some select_token_inv(2) [OF assms(1), of i t e] obtain cl where
      t: "sql_tks c i = Some (token_of_row t)" "RawToken_validate cr t = Ok (token_of_row t)"
        "sql_cls c (tr_client (token_of_row t)) = Some cl" "cl_enabled cl = (e \<noteq> 0)"
      by auto
    consider (d) "e = 0" | (i) "e \<noteq> 0" "\<not> is_active_at (token_of_row t) now"
      | (w) "e \<noteq> 0" "is_active_at (token_of_row t) now"
        "sql_rotate_write c1 i (into_record rp (tr_client (token_of_row t))) now = (r, b, c')"
      using passed(3) Some te t(2) passed(1) by (auto split: if_splits)
    then show ?thesis
    proof cases
      case d
      with passed Some te t disabled show ?thesis by simp
    next
      case i
      with passed Some te t inactive show ?thesis by simp
    next
      case w
      from w(3) show ?thesis
      proof (cases rule: sql_rotate_write_result)
        case err': (err e)
        then show ?thesis by (rule err)
      next
        case (written d)
        then show ?thesis
          by (intro rotated [of "token_of_row t" cl d]) (use t w passed(1) in simp_all)
      qed
    qed
  qed
qed

text \<open>A rotation writes both rows or none.\<close>

lemma sql_rotate_token_result:
  assumes "sql_auth_inv cr c" and "sql_rotate_token cr c i rp now = (r, c')"
  obtains (refused) "cn_data c' = cn_data c" "\<forall>p. r \<noteq> Ok (Rotated p)"
      "\<forall>out. r = Ok out \<longrightarrow> (case out of
         RotationNotFound \<Rightarrow> sql_tks c i = None
       | RotationClientDisabled \<Rightarrow>
           (\<exists>t cl. sql_tks c i = Some t \<and> sql_cls c (tr_client t) = Some cl \<and> \<not> cl_enabled cl)
       | RotationInactive \<Rightarrow> (\<exists>t. sql_tks c i = Some t \<and> \<not> is_active_at t now)
       | Rotated p \<Rightarrow> True)"
  | (rotated) t cl d where "r = Ok (Rotated (tr_client t))" "sql_tks c i = Some t"
      "sql_cls c (tr_client t) = Some cl" "cl_enabled cl" "is_active_at t now"
      "insert_token_row (cn_data c) (into_record rp (tr_client t)) = Some d"
      "cn_data c' = d\<lparr>db_tokens := update_rows (\<lambda>r. kr_id r = i \<and> kr_revoked_at r = None)
         (\<lambda>r. r\<lparr>kr_revoked_at := Some now\<rparr>) (db_tokens d)\<rparr>"
  using assms(2) unfolding sql_rotate_token_def
proof (cases rule: attempt_cases)
  case failed
  then show ?thesis using refused by simp
next
  case (passed c1)
  from passed(3) show ?thesis
  proof (cases rule: transaction_cases)
    case failed
    with passed(1) refused show ?thesis by simp
  next
    case (committed c2)
    with passed(1) same_data [of c2 c] assms(1) have inv: "sql_auth_inv cr c2" by simp
    from inv committed(3) show ?thesis
      by (cases rule: sql_rotate_body_result)
        (use rotated committed(1) passed(1) same_data [of c2 c] in simp_all)
  next
    case (rolled_back c2 c3)
    with passed(1) same_data [of c2 c] assms(1) have inv: "sql_auth_inv cr c2" by simp
    from inv rolled_back(3) show ?thesis
      by (cases rule: sql_rotate_body_result)
        (use refused rolled_back(1,4) passed(1) same_data [of c2 c] in simp_all)
  qed
qed

section \<open>The store keeps its contract\<close>

lemma sql_auth_inv_token:
  assumes "sql_auth_inv cr c" and "insert_token_row (cn_data c) t = Some d" and "valid_token cr t"
    and "cn_data c' = d"
  shows "sql_auth_inv cr c'"
  using assms(2)
proof (cases rule: insert_token_row_Some)
  case (1 r)
  with assms(1,3,4) keyed_snoc [of kr_id "db_tokens (cn_data c)" r]
    keyed_snoc [of kr_digest "db_tokens (cn_data c)" r]
  show ?thesis by (auto simp: sql_auth_inv_def)
qed

lemma sql_tks_token:
  assumes "insert_token_row (cn_data c) t = Some (cn_data c')"
  shows "sql_tks c (tr_id t) = None" "sql_cls c (tr_client t) \<noteq> None"
    "sql_tks c' = (sql_tks c)(tr_id t \<mapsto> t)" "sql_cls c' = sql_cls c"
  using assms
  by (cases rule: insert_token_row_Some;
      auto simp: sql_tks_def sql_cls_def fun_eq_iff tbl_snoc)+

lemma token_of_row_revoked:
  "token_of_row (r\<lparr>kr_revoked_at := Some now\<rparr>) = mark_revoked (token_of_row r) now"
  by (simp add: token_of_row_def mark_revoked_def)

lemma valid_mark_revoked: "valid_token cr (mark_revoked t now) = valid_token cr t"
  by (simp add: valid_token_def mark_revoked_def)

text \<open>Revoking rows is a pointwise update of the abstract token map and keeps the invariant.\<close>

lemma sql_revoke_rows:
  assumes "cn_data c' = (cn_data c)\<lparr>db_tokens :=
      update_rows hit (\<lambda>r. r\<lparr>kr_revoked_at := Some now\<rparr>) (db_tokens (cn_data c))\<rparr>"
  shows "sql_auth_inv cr c \<Longrightarrow> sql_auth_inv cr c'" and "sql_cls c' = sql_cls c"
    and "sql_tks c' j = map_option (\<lambda>r. if hit r then mark_revoked (token_of_row r) now
           else token_of_row r) (tbl kr_id (db_tokens (cn_data c)) j)"
proof -
  show "sql_cls c' = sql_cls c" using assms by (simp add: sql_cls_def fun_eq_iff)
  show "sql_tks c' j = map_option (\<lambda>r. if hit r then mark_revoked (token_of_row r) now
           else token_of_row r) (tbl kr_id (db_tokens (cn_data c)) j)"
    using assms
    by (auto simp: sql_tks_def tbl_update_rows token_of_row_revoked option.map_comp o_def
        intro: option.map_cong)
  assume "sql_auth_inv cr c"
  with assms show "sql_auth_inv cr c'"
    by (auto simp: sql_auth_inv_def set_update_rows token_of_row_revoked valid_mark_revoked
        intro!: keyed_update_rows)
qed

lemma is_active_at_row:
  "is_active_at (token_of_row r) now \<longleftrightarrow>
     kr_revoked_at r = None \<and> (case kr_expires_at r of None \<Rightarrow> True | Some x \<Rightarrow> now < x)"
  by (simp add: is_active_at_def)

lemma sql_revoke_token_result:
  assumes "sql_auth_inv cr c" and "sql_revoke_token c i now = (r, c')"
  obtains (err) e where "r = Err e" "cn_data c' = cn_data c"
  | (ok) "r = Ok (\<exists>t. sql_tks c i = Some t \<and> is_active_at t now)"
      "cn_data c' = (cn_data c)\<lparr>db_tokens := update_rows
         (\<lambda>r. kr_id r = i \<and> is_active_at (token_of_row r) now)
         (\<lambda>r. r\<lparr>kr_revoked_at := Some now\<rparr>) (db_tokens (cn_data c))\<rparr>"
proof -
  have "count_rows (\<lambda>r. kr_id r = i \<and> is_active_at (token_of_row r) now) (db_tokens (cn_data c)) = 1
      \<longleftrightarrow> (\<exists>t. sql_tks c i = Some t \<and> is_active_at t now)"
    using assms(1)
    by (auto simp: sql_auth_inv_def count_rows_key sql_tks_def split: option.splits)
  with assms(2) show ?thesis
    unfolding sql_revoke_token_def Let_def is_active_at_row [symmetric]
    by (auto elim!: attempt_cases intro: err ok)
qed

lemma sql_insert_client_contract:
  assumes "sql_auth_inv cr c" and "sql_insert_client c cl = (r, c')"
  shows "valid_client cl \<Longrightarrow> sql_auth_inv cr c'"
    and "r = Ok u \<Longrightarrow> sql_cls c (cl_id cl) = None \<and> sql_cls c' = (sql_cls c)(cl_id cl \<mapsto> cl) \<and>
      sql_tks c' = sql_tks c"
    and "r = Err e \<Longrightarrow> sql_cls c' = sql_cls c \<and> sql_tks c' = sql_tks c"
proof -
  from assms(2) have "(valid_client cl \<longrightarrow> sql_auth_inv cr c') \<and>
    (r = Ok u \<longrightarrow> sql_cls c (cl_id cl) = None \<and> sql_cls c' = (sql_cls c)(cl_id cl \<mapsto> cl) \<and>
      sql_tks c' = sql_tks c) \<and>
    (\<forall>e. r = Err e \<longrightarrow> sql_cls c' = sql_cls c \<and> sql_tks c' = sql_tks c)"
  proof (cases rule: sql_insert_client_result)
    case (err e)
    with same_data [of c' c] assms(1) show ?thesis by simp
  next
    case (ok row)
    from assms(1) ok(3) have "keyed cr_id (db_clients (cn_data c) @ [row])"
      by (intro keyed_snoc) (simp_all add: sql_auth_inv_def)
    with ok assms(1) show ?thesis
      by (auto simp: sql_auth_inv_def sql_cls_def sql_tks_def fun_eq_iff tbl_snoc)
  qed
  then show "valid_client cl \<Longrightarrow> sql_auth_inv cr c'"
    and "r = Ok u \<Longrightarrow> sql_cls c (cl_id cl) = None \<and> sql_cls c' = (sql_cls c)(cl_id cl \<mapsto> cl) \<and>
      sql_tks c' = sql_tks c"
    and "r = Err e \<Longrightarrow> sql_cls c' = sql_cls c \<and> sql_tks c' = sql_tks c"
    by blast+
qed

lemma sql_set_client_enabled_contract:
  assumes "sql_auth_inv cr c" and "sql_set_client_enabled c i b = (r, c')"
  shows "sql_auth_inv cr c'"
    and "r = Ok changed \<Longrightarrow> sql_tks c' = sql_tks c \<and> changed = (sql_cls c i \<noteq> None) \<and>
      sql_cls c' = (case sql_cls c i of None \<Rightarrow> sql_cls c
        | Some cl \<Rightarrow> (sql_cls c)(i \<mapsto> cl\<lparr>cl_enabled := b\<rparr>))"
    and "r = Err e \<Longrightarrow> sql_cls c' = sql_cls c \<and> sql_tks c' = sql_tks c"
proof -
  let ?f = "\<lambda>r. r\<lparr>cr_enabled := flag b\<rparr>"
  let ?rows = "db_clients (cn_data c)"
  have row: "client_of_row (?f r) = (client_of_row r)\<lparr>cl_enabled := b\<rparr>" for r
    by (simp add: client_of_row_def)
  have valid: "valid_client (cl\<lparr>cl_enabled := b\<rparr>) = valid_client cl" for cl
    by (simp add: valid_client_def)
  have upd: "tbl cr_id (update_rows (\<lambda>r. cr_id r = i) ?f ?rows) j =
      map_option (\<lambda>r. if cr_id r = i then ?f r else r) (tbl cr_id ?rows j)" for j
    by (rule tbl_update_rows) simp
  have count: "count_rows (\<lambda>r. cr_id r = i) ?rows = 1 \<longleftrightarrow> sql_cls c i \<noteq> None"
    using assms(1) count_rows_key [of cr_id ?rows i "\<lambda>_. True"]
    by (simp add: sql_auth_inv_def sql_cls_def split: option.splits)
  from assms(2) have "sql_auth_inv cr c' \<and>
    (r = Ok changed \<longrightarrow> sql_tks c' = sql_tks c \<and> changed = (sql_cls c i \<noteq> None) \<and>
      sql_cls c' = (case sql_cls c i of None \<Rightarrow> sql_cls c
        | Some cl \<Rightarrow> (sql_cls c)(i \<mapsto> cl\<lparr>cl_enabled := b\<rparr>))) \<and>
    (\<forall>e. r = Err e \<longrightarrow> sql_cls c' = sql_cls c \<and> sql_tks c' = sql_tks c)"
  proof (cases rule: sql_set_client_enabled_result)
    case (err e)
    with same_data [of c' c] assms(1) show ?thesis by simp
  next
    case ok
    have inv: "sql_auth_inv cr c'"
      using assms(1) ok(2)
      by (auto simp: sql_auth_inv_def set_update_rows row valid upd intro!: keyed_update_rows)
    have pt: "sql_cls c' j = map_option (\<lambda>cl. if j = i then cl\<lparr>cl_enabled := b\<rparr> else cl)
        (sql_cls c j)" for j
      using ok(2) upd [of j] row tbl_SomeD [of cr_id ?rows j]
      by (cases "tbl cr_id ?rows j") (simp_all add: sql_cls_def)
    have "sql_cls c' = (case sql_cls c i of None \<Rightarrow> sql_cls c
        | Some cl \<Rightarrow> (sql_cls c)(i \<mapsto> cl\<lparr>cl_enabled := b\<rparr>))"
    proof (rule ext)
      fix j
      show "sql_cls c' j = (case sql_cls c i of None \<Rightarrow> sql_cls c
        | Some cl \<Rightarrow> (sql_cls c)(i \<mapsto> cl\<lparr>cl_enabled := b\<rparr>)) j"
        by (cases "j = i"; cases "sql_cls c i") (simp_all add: pt option.map_ident)
    qed
    moreover have "sql_tks c' = sql_tks c" using ok(2) by (simp add: sql_tks_def fun_eq_iff)
    ultimately show ?thesis using inv ok(1) count by simp
  qed
  then show "sql_auth_inv cr c'"
    and "r = Ok changed \<Longrightarrow> sql_tks c' = sql_tks c \<and> changed = (sql_cls c i \<noteq> None) \<and>
      sql_cls c' = (case sql_cls c i of None \<Rightarrow> sql_cls c
        | Some cl \<Rightarrow> (sql_cls c)(i \<mapsto> cl\<lparr>cl_enabled := b\<rparr>))"
    and "r = Err e \<Longrightarrow> sql_cls c' = sql_cls c \<and> sql_tks c' = sql_tks c"
    by blast+
qed

lemma sql_revoke_token_contract:
  assumes "sql_auth_inv cr c" and "sql_revoke_token c i now = (r, c')"
  shows "sql_auth_inv cr c'"
    and "r = Ok changed \<Longrightarrow> sql_cls c' = sql_cls c \<and>
      changed = (\<exists>t. sql_tks c i = Some t \<and> is_active_at t now) \<and>
      sql_tks c' = (case sql_tks c i of None \<Rightarrow> sql_tks c
        | Some t \<Rightarrow> if is_active_at t now then (sql_tks c)(i \<mapsto> mark_revoked t now) else sql_tks c)"
    and "r = Err e \<Longrightarrow> sql_cls c' = sql_cls c \<and> sql_tks c' = sql_tks c"
proof -
  from assms have "sql_auth_inv cr c' \<and>
    (r = Ok changed \<longrightarrow> sql_cls c' = sql_cls c \<and>
      changed = (\<exists>t. sql_tks c i = Some t \<and> is_active_at t now) \<and>
      sql_tks c' = (case sql_tks c i of None \<Rightarrow> sql_tks c
        | Some t \<Rightarrow> if is_active_at t now then (sql_tks c)(i \<mapsto> mark_revoked t now)
            else sql_tks c)) \<and>
    (\<forall>e. r = Err e \<longrightarrow> sql_cls c' = sql_cls c \<and> sql_tks c' = sql_tks c)"
  proof (cases rule: sql_revoke_token_result)
    case (err e)
    with same_data [of c' c] assms(1) show ?thesis by simp
  next
    case ok
    note rows = sql_revoke_rows [OF ok(2)]
    have pt: "sql_tks c' j = map_option (\<lambda>t. if j = i \<and> is_active_at t now
        then mark_revoked t now else t) (sql_tks c j)" for j
      using rows(3) [of j] tbl_SomeD [of kr_id "db_tokens (cn_data c)" j]
      by (cases "tbl kr_id (db_tokens (cn_data c)) j") (simp_all add: sql_tks_def)
    have "sql_tks c' = (case sql_tks c i of None \<Rightarrow> sql_tks c
        | Some t \<Rightarrow> if is_active_at t now then (sql_tks c)(i \<mapsto> mark_revoked t now)
            else sql_tks c)"
    proof (rule ext)
      fix j
      show "sql_tks c' j = (case sql_tks c i of None \<Rightarrow> sql_tks c
        | Some t \<Rightarrow> if is_active_at t now then (sql_tks c)(i \<mapsto> mark_revoked t now)
            else sql_tks c) j"
        by (cases "j = i"; cases "sql_tks c i") (simp_all add: pt option.map_ident)
    qed
    with rows(1) [of cr] rows(2) ok(1) assms(1) show ?thesis by simp
  qed
  then show "sql_auth_inv cr c'"
    and "r = Ok changed \<Longrightarrow> sql_cls c' = sql_cls c \<and>
      changed = (\<exists>t. sql_tks c i = Some t \<and> is_active_at t now) \<and>
      sql_tks c' = (case sql_tks c i of None \<Rightarrow> sql_tks c
        | Some t \<Rightarrow> if is_active_at t now then (sql_tks c)(i \<mapsto> mark_revoked t now) else sql_tks c)"
    and "r = Err e \<Longrightarrow> sql_cls c' = sql_cls c \<and> sql_tks c' = sql_tks c"
    by blast+
qed

lemma sql_rotate_token_contract:
  assumes inv: "sql_auth_inv cr c" and run: "sql_rotate_token cr c i rp now = (r, c')"
  shows "valid_replacement cr rp \<Longrightarrow> sql_auth_inv cr c'"
    and "r = Ok (Rotated p) \<Longrightarrow>
      \<exists>t cl. sql_tks c i = Some t \<and> is_active_at t now \<and> sql_cls c (tr_client t) = Some cl \<and>
        cl_enabled cl \<and> p = tr_client t \<and> sql_tks c (rp_id rp) = None \<and> sql_cls c' = sql_cls c \<and>
        sql_tks c' = (sql_tks c)(rp_id rp \<mapsto> into_record rp p, i \<mapsto> mark_revoked t now)"
proof -
  from inv run have "(valid_replacement cr rp \<longrightarrow> sql_auth_inv cr c') \<and>
    (r = Ok (Rotated p) \<longrightarrow>
      (\<exists>t cl. sql_tks c i = Some t \<and> is_active_at t now \<and> sql_cls c (tr_client t) = Some cl \<and>
        cl_enabled cl \<and> p = tr_client t \<and> sql_tks c (rp_id rp) = None \<and> sql_cls c' = sql_cls c \<and>
        sql_tks c' = (sql_tks c)(rp_id rp \<mapsto> into_record rp p, i \<mapsto> mark_revoked t now)))"
  proof (cases rule: sql_rotate_token_result)
    case refused
    with same_data [of c' c] inv show ?thesis by simp
  next
    case (rotated t cl d)
    let ?n = "into_record rp (tr_client t)"
    define c1 where "c1 = c\<lparr>cn_data := d\<rparr>"
    have ins: "insert_token_row (cn_data c) ?n = Some (cn_data c1)"
      using rotated by (simp add: c1_def)
    note tk = sql_tks_token [OF ins]
    have rows: "cn_data c' = (cn_data c1)\<lparr>db_tokens := update_rows
        (\<lambda>r. kr_id r = i \<and> kr_revoked_at r = None) (\<lambda>r. r\<lparr>kr_revoked_at := Some now\<rparr>)
        (db_tokens (cn_data c1))\<rparr>"
      using rotated by (simp add: c1_def)
    note rv = sql_revoke_rows [OF rows]
    have neq: "i \<noteq> rp_id rp" using rotated(2) tk(1) by auto
    have "sql_auth_inv cr c'" if v: "valid_replacement cr rp"
    proof -
      have "valid_identifier (tr_client t)"
        using inv rotated(2) by (auto simp: sql_auth_inv_def sql_tks_def valid_token_def dest: tbl_SomeD)
      with v have "valid_token cr ?n" by (rule valid_into_record)
      with inv ins have "sql_auth_inv cr c1" by (rule sql_auth_inv_token) simp
      then show ?thesis by (rule rv(1))
    qed
    moreover have "sql_tks c' j = ((sql_tks c)(rp_id rp \<mapsto> ?n, i \<mapsto> mark_revoked t now)) j" for j
    proof -
      have "sql_tks c1 j = map_option token_of_row (tbl kr_id (db_tokens (cn_data c1)) j)"
        by (simp add: sql_tks_def)
      then have "sql_tks c' j = map_option (\<lambda>x. if j = i \<and> tr_revoked_at x = None
          then mark_revoked x now else x) (sql_tks c1 j)"
        by (cases "tbl kr_id (db_tokens (cn_data c1)) j") (auto simp: rv(3) dest: tbl_SomeD)
      with tk(3) neq rotated(2,5) show ?thesis
        by (auto simp: is_active_at_def option.map_ident)
    qed
    moreover have "sql_tks c (rp_id rp) = None" "sql_cls c' = sql_cls c"
      using tk rv(2) by simp_all
    ultimately show ?thesis using rotated(1-5) by (auto simp: fun_eq_iff)
  qed
  then show "valid_replacement cr rp \<Longrightarrow> sql_auth_inv cr c'"
    and "r = Ok (Rotated p) \<Longrightarrow>
      \<exists>t cl. sql_tks c i = Some t \<and> is_active_at t now \<and> sql_cls c (tr_client t) = Some cl \<and>
        cl_enabled cl \<and> p = tr_client t \<and> sql_tks c (rp_id rp) = None \<and> sql_cls c' = sql_cls c \<and>
        sql_tks c' = (sql_tks c)(rp_id rp \<mapsto> into_record rp p, i \<mapsto> mark_revoked t now)"
    by blast+
qed

lemma sql_authentication_record_ok:
  assumes inv: "sql_auth_inv cr c" and run: "sql_authentication_record cr c i = (r, c')"
  shows "r = Err StoreUnavailable \<and> \<not> healthy c \<or>
    r = Ok (case sql_tks c i of None \<Rightarrow> None
      | Some t \<Rightarrow> map_option (\<lambda>cl. \<lparr>ar_token = t, ar_client_enabled = cl_enabled cl\<rparr>)
          (sql_cls c (tr_client t)))"
proof -
  let ?dec = "\<lambda>(token, enabled). bindR (RawToken_validate cr token) (\<lambda>t.
            Ok \<lparr>ar_token = t, ar_client_enabled = (enabled \<noteq> 0)\<rparr>)"
  have "transposeR ?dec (select_token (cn_data c) i) =
     Ok (case sql_tks c i of None \<Rightarrow> None
      | Some t \<Rightarrow> map_option (\<lambda>cl. \<lparr>ar_token = t, ar_client_enabled = cl_enabled cl\<rparr>)
          (sql_cls c (tr_client t)))"
  proof (cases "select_token (cn_data c) i")
    case None
    with select_token_inv(1) [OF inv, of i] show ?thesis by (simp add: transposeR_def)
  next
    case (Some te)
    obtain t e where "te = (t, e)" by (cases te)
    with Some select_token_inv(2) [OF inv, of i t e] show ?thesis by (auto simp: transposeR_def)
  qed
  then show ?thesis
    using run unfolding sql_authentication_record_def by (auto elim!: attempt_cases)
qed

lemma sorted_by_key_rows: "sorted (map f (sort_key f rows))"
  by simp

lemma sql_clients_ok:
  assumes inv: "sql_auth_inv cr c" and run: "sql_clients c = (Ok cs, c')"
  shows "distinct (map cl_id cs) \<and> set cs = {cl. sql_cls c (cl_id cl) = Some cl} \<and>
    sorted (map cl_id cs)"
proof -
  let ?rows = "sort_key cr_id (db_clients (cn_data c))"
  have "collectR decode_client ?rows = Ok (map client_of_row ?rows)"
    using inv by (intro collectR_all) (auto simp: sql_auth_inv_def decode_client_valid)
  then have cs: "cs = map client_of_row ?rows"
    using run unfolding sql_clients_def by (auto elim!: attempt_cases)
  have key: "keyed cr_id (db_clients (cn_data c))" using inv by (simp add: sql_auth_inv_def)
  have ids: "map cl_id cs = map cr_id ?rows" by (simp add: cs o_def)
  have "distinct (map cr_id ?rows)"
    using key by (simp add: keyed_def distinct_map)
  moreover have "set cs = {cl. sql_cls c (cl_id cl) = Some cl}"
    using key by (force simp: cs sql_cls_def tbl_Some_iff)
  ultimately show ?thesis by (simp add: ids)
qed

lemma sql_tokens_for_client_ok:
  assumes inv: "sql_auth_inv cr c" and run: "sql_tokens_for_client cr c i = (Ok ts, c')"
  shows "distinct ts \<and> set ts = {t. sql_tks c (tr_id t) = Some t \<and> tr_client t = i} \<and>
    sorted (map (\<lambda>t. (- tr_created_at t, tr_id t)) ts)"
proof -
  let ?rows = "sort_key (\<lambda>r. (- kr_created_at r, kr_id r))
    (filter (\<lambda>r. kr_client r = i) (db_tokens (cn_data c)))"
  have "collectR (RawToken_validate cr) ?rows = Ok (map token_of_row ?rows)"
    using inv by (intro collectR_all) (auto simp: sql_auth_inv_def RawToken_validate_valid)
  then have ts: "ts = map token_of_row ?rows"
    using run unfolding sql_tokens_for_client_def by (auto elim!: attempt_cases)
  have key: "keyed kr_id (db_tokens (cn_data c))" using inv by (simp add: sql_auth_inv_def)
  have "distinct (map tr_id ts)"
    using key by (auto simp: ts o_def keyed_def distinct_map inj_on_def)
  moreover have "set ts = {t. sql_tks c (tr_id t) = Some t \<and> tr_client t = i}"
    using key by (force simp: ts sql_tks_def tbl_Some_iff)
  moreover have "sorted (map (\<lambda>t. (- tr_created_at t, tr_id t)) ts)"
    using sorted_by_key_rows [of "\<lambda>r. (- kr_created_at r, kr_id r)"] by (simp add: ts o_def)
  ultimately show ?thesis by (simp add: distinct_map)
qed

lemma sql_client_ok:
  assumes inv: "sql_auth_inv cr c" and run: "sql_client c i = (Ok oc, c')"
  shows "oc = sql_cls c i"
proof -
  have "transposeR decode_client (tbl cr_id (db_clients (cn_data c)) i) =
      Ok (map_option client_of_row (tbl cr_id (db_clients (cn_data c)) i))"
    using inv
    by (intro transposeR_all) (auto simp: sql_auth_inv_def decode_client_valid dest: tbl_SomeD)
  with run show ?thesis
    unfolding sql_client_def sql_cls_def by (auto elim!: attempt_cases)
qed

lemma sql_insert_token_contract:
  assumes inv: "sql_auth_inv cr c" and run: "sql_insert_token c t = (r, c')"
  shows "valid_token cr t \<Longrightarrow> sql_auth_inv cr c'"
    and "r = Ok u \<Longrightarrow> sql_tks c (tr_id t) = None \<and> sql_cls c (tr_client t) \<noteq> None \<and>
      sql_tks c' = (sql_tks c)(tr_id t \<mapsto> t) \<and> sql_cls c' = sql_cls c"
    and "r = Err e \<Longrightarrow> sql_cls c' = sql_cls c \<and> sql_tks c' = sql_tks c"
  using run same_data [of c' c] inv sql_tks_token [of c t c'] sql_auth_inv_token [OF inv, of t _ c']
  by (cases rule: sql_insert_token_result; simp)+

lemma sql_auth_store_fields [simp]:
  "as_insert_client (sql_auth_store cr) = sql_insert_client"
  "as_client (sql_auth_store cr) = sql_client"
  "as_clients (sql_auth_store cr) = sql_clients"
  "as_set_client_enabled (sql_auth_store cr) = sql_set_client_enabled"
  "as_insert_token (sql_auth_store cr) = sql_insert_token"
  "as_authentication_record (sql_auth_store cr) = sql_authentication_record cr"
  "as_revoke_token (sql_auth_store cr) = sql_revoke_token"
  "as_rotate_token (sql_auth_store cr) = sql_rotate_token cr"
  "as_tokens_for_client (sql_auth_store cr) = sql_tokens_for_client cr"
  by (simp_all add: sql_auth_store_def)

lemma sql_auth_keys:
  assumes "sql_auth_inv cr c"
  shows "sql_cls c i = Some cl \<Longrightarrow> cl_id cl = i \<and> valid_identifier i"
    and "sql_tks c j = Some t \<Longrightarrow> sql_cls c (tr_client t) \<noteq> None"
    and "sql_tks c j = Some t \<Longrightarrow> tr_id t = j"
  using assms
  by (auto simp: sql_auth_inv_def sql_cls_def sql_tks_def valid_client_def dest: tbl_SomeD)

lemma sql_auth_frame:
  assumes "sql_auth_inv cr c" and "cn_data c' = cn_data c"
  shows "sql_auth_inv cr c' \<and> sql_cls c' = sql_cls c \<and> sql_tks c' = sql_tks c"
  using assms same_data [of c' c cr] by simp

lemma sql_rotate_token_refused:
  assumes "sql_auth_inv cr c" and "sql_rotate_token cr c i rp now = (r, c')"
  shows "\<forall>p. r \<noteq> Ok (Rotated p) \<Longrightarrow> sql_cls c' = sql_cls c \<and> sql_tks c' = sql_tks c"
    and "r = Ok out \<Longrightarrow> (case out of
         RotationNotFound \<Rightarrow> sql_tks c i = None
       | RotationClientDisabled \<Rightarrow>
           (\<exists>t cl. sql_tks c i = Some t \<and> sql_cls c (tr_client t) = Some cl \<and> \<not> cl_enabled cl)
       | RotationInactive \<Rightarrow> (\<exists>t. sql_tks c i = Some t \<and> \<not> is_active_at t now)
       | Rotated p \<Rightarrow> True)"
proof -
  have "((\<forall>p. r \<noteq> Ok (Rotated p)) \<longrightarrow> cn_data c' = cn_data c) \<and>
    (r = Ok out \<longrightarrow> (case out of
         RotationNotFound \<Rightarrow> sql_tks c i = None
       | RotationClientDisabled \<Rightarrow>
           (\<exists>t cl. sql_tks c i = Some t \<and> sql_cls c (tr_client t) = Some cl \<and> \<not> cl_enabled cl)
       | RotationInactive \<Rightarrow> (\<exists>t. sql_tks c i = Some t \<and> \<not> is_active_at t now)
       | Rotated p \<Rightarrow> True))"
    using assms
  proof (cases rule: sql_rotate_token_result)
    case refused
    then show ?thesis by simp
  next
    case (rotated t cl d)
    then show ?thesis by (cases out) simp_all
  qed
  then show "\<forall>p. r \<noteq> Ok (Rotated p) \<Longrightarrow> sql_cls c' = sql_cls c \<and> sql_tks c' = sql_tks c"
    and "r = Ok out \<Longrightarrow> (case out of
         RotationNotFound \<Rightarrow> sql_tks c i = None
       | RotationClientDisabled \<Rightarrow>
           (\<exists>t cl. sql_tks c i = Some t \<and> sql_cls c (tr_client t) = Some cl \<and> \<not> cl_enabled cl)
       | RotationInactive \<Rightarrow> (\<exists>t. sql_tks c i = Some t \<and> \<not> is_active_at t now)
       | Rotated p \<Rightarrow> True)"
    using sql_auth_frame [OF assms(1), of c'] by blast+
qed

lemma snd_pair: "(\<And>r s. f = (r, s) \<Longrightarrow> P s) \<Longrightarrow> P (snd f)"
  by (cases f) simp

interpretation sql_auth: auth_store_contract cr "sql_auth_store cr" "sql_auth_inv cr" healthy
  sql_cls sql_tks for cr
proof (unfold_locales, unfold sql_auth_store_fields, goal_cases)
  case 1 show ?case by (rule snd_pair, rule sql_insert_client_contract(1) [OF 1(1) _ 1(2)])
next
  case 2 then show ?case by (rule sql_insert_client_contract(2) [OF _ _ refl])
next
  case 3 then show ?case by (rule sql_insert_client_contract(3) [OF _ _ refl])
next
  case 4 then show ?case by (intro sql_auth_frame sql_read_frame(1))
next
  case 5 then show ?case by (rule sql_client_ok)
next
  case 6 show ?case by (rule snd_pair, rule sql_set_client_enabled_contract(1) [OF 6])
next
  case 7 then show ?case by (rule sql_set_client_enabled_contract(2) [OF _ _ refl])
next
  case 8 then show ?case by (rule sql_set_client_enabled_contract(3) [OF _ _ refl])
next
  case 9 show ?case by (rule snd_pair, rule sql_insert_token_contract(1) [OF 9(1) _ 9(2)])
next
  case 10 then show ?case by (rule sql_insert_token_contract(2) [OF _ _ refl])
next
  case 11 then show ?case by (rule sql_insert_token_contract(3) [OF _ _ refl])
next
  case 12 then show ?case by (intro sql_auth_frame sql_read_frame(3))
next
  case 13 from sql_authentication_record_ok [OF 13] show ?case by simp
next
  case (14 s i) then show ?case
    using sql_authentication_record_ok [of cr s i]
    by (cases "sql_authentication_record cr s i") (auto simp: result_simps)
next
  case 15 then show ?case by (rule sql_auth_keys(1))
next
  case 16 then show ?case by (rule sql_auth_keys(2))
next
  case 17 then show ?case by (rule sql_auth_keys(3))
next
  case 18 show ?case by (rule snd_pair, rule sql_revoke_token_contract(1) [OF 18])
next
  case 19 then show ?case by (rule sql_revoke_token_contract(2) [OF _ _ refl])
next
  case 20 then show ?case by (rule sql_revoke_token_contract(3) [OF _ _ refl])
next
  case 21 show ?case by (rule snd_pair, rule sql_rotate_token_contract(1) [OF 21(1) _ 21(2)])
next
  case 22 show ?case by (rule sql_rotate_token_contract(2) [OF 22(1,3) refl])
next
  case 23 then show ?case by (rule sql_rotate_token_refused(1))
next
  case 24 then show ?case by (rule sql_rotate_token_refused(2) [OF _ _ refl])
next
  case 25 then show ?case by (intro sql_auth_frame sql_read_frame(4))
next
  case 26 then show ?case by (rule sql_tokens_for_client_ok)
next
  case 27 then show ?case by (intro sql_auth_frame sql_read_frame(2))
next
  case 28 then show ?case by (rule sql_clients_ok)
qed

end
