(* ===== verification/Codec_Instance.thy ===== *)
theory Codec_Instance
  imports Auth_Model
begin

text \<open>
  A concrete codec that satisfies \<open>crypto_ok\<close>: the URL-safe base64 alphabet without padding, written
  out over six-bit digits, a digest that pads its input to 32 bytes, and equality of byte lists. It is
  not a model of the third-party crates; it shows that the assumptions made of them can hold
  together, and the witnesses of the authentication properties are evaluated on it.
\<close>

definition digit_char :: "nat \<Rightarrow> nat" where
  "digit_char n =
     (if n < 26 then n + 65 else if n < 52 then n + 71 else if n < 62 then n - 4
      else if n = 62 then 45 else 95)"

definition char_digit :: "nat \<Rightarrow> nat option" where
  "char_digit c =
     (if 65 \<le> c \<and> c \<le> 90 then Some (c - 65)
      else if 97 \<le> c \<and> c \<le> 122 then Some (c - 71)
      else if 48 \<le> c \<and> c \<le> 57 then Some (c + 4)
      else if c = 45 then Some 62
      else if c = 95 then Some 63
      else None)"

fun to_digits :: "bytes \<Rightarrow> nat list" where
  "to_digits [] = []"
| "to_digits [a] = [unat a div 4, unat a mod 4 * 16]"
| "to_digits [a, b] = [unat a div 4, unat a mod 4 * 16 + unat b div 16, unat b mod 16 * 4]"
| "to_digits (a # b # c # bs) =
     unat a div 4 # (unat a mod 4 * 16 + unat b div 16) # (unat b mod 16 * 4 + unat c div 64) #
     unat c mod 64 # to_digits bs"

fun of_digits :: "nat list \<Rightarrow> bytes option" where
  "of_digits [] = Some []"
| "of_digits [w, x] = Some [of_nat (w * 4 + x div 16)]"
| "of_digits [w, x, y] = Some [of_nat (w * 4 + x div 16), of_nat (x mod 16 * 16 + y div 4)]"
| "of_digits (w # x # y # z # ds) =
     map_option (\<lambda>bs. of_nat (w * 4 + x div 16) # of_nat (x mod 16 * 16 + y div 4) #
       of_nat (y mod 4 * 64 + z) # bs) (of_digits ds)"
| "of_digits [w] = None"

fun char_digits :: "rstr \<Rightarrow> nat list option" where
  "char_digits [] = Some []"
| "char_digits (c # cs) =
     (case char_digit c of None \<Rightarrow> None | Some d \<Rightarrow> map_option ((#) d) (char_digits cs))"

definition base64_url :: crypto where
  "base64_url =
     \<lparr>b64_encode = (\<lambda>bs. map digit_char (to_digits bs)),
      b64_decode = (\<lambda>s. Option.bind (char_digits s) of_digits),
      sha256 = (\<lambda>bs. take 32 (bs @ replicate 32 0)),
      ct_eq = (=)\<rparr>"

lemma char_digit_char: "n < 64 \<Longrightarrow> char_digit (digit_char n) = Some n"
  by (auto simp: char_digit_def digit_char_def)

lemma url_safe_digit_char: "n < 64 \<Longrightarrow> url_safe_char (digit_char n)"
  by (auto simp: url_safe_char_def digit_char_def is_ascii_alphanumeric_def)

lemma unat_u8_less: "unat (a :: u8) < 256"
  using unsigned_less [of a, where ?'a = nat] by simp

lemma to_digits_less: "\<forall>d\<in>set (to_digits bs). d < 64"
proof (induction bs rule: to_digits.induct)
  case (2 a)
  show ?case using unat_u8_less [of a] by auto
next
  case (3 a b)
  show ?case using unat_u8_less [of a] unat_u8_less [of b] by auto
next
  case (4 a b c bs)
  show ?case using unat_u8_less [of a] unat_u8_less [of b] unat_u8_less [of c] 4 by auto
qed simp

lemma length_to_digits: "length (to_digits bs) = (4 * length bs + 2) div 3"
  by (induction bs rule: to_digits.induct) auto

lemma char_digits_chars: "\<forall>d\<in>set ds. d < 64 \<Longrightarrow> char_digits (map digit_char ds) = Some ds"
  by (induction ds) (simp_all add: char_digit_char)

lemma of_nat_u8: "n = unat a \<Longrightarrow> of_nat n = (a :: u8)"
  by simp

lemma regroup: "a < 256 \<Longrightarrow> (a div 4) * 4 + (a mod 4 * 16 + b div 16) div 16 = a" if "b < 256"
  for a b :: nat
proof -
  have "b div 16 < 16" using that by auto
  then have "(a mod 4 * 16 + b div 16) div 16 = a mod 4" by simp
  then show ?thesis by simp
qed

lemma regroup2: "c < 256 \<Longrightarrow>
    (a mod 4 * 16 + b div 16) mod 16 * 16 + (b mod 16 * 4 + c div 64) div 4 = b" if "b < 256"
  for a b c :: nat
proof -
  assume "c < 256"
  then have "c div 64 < 4" by auto
  then have "(b mod 16 * 4 + c div 64) div 4 = b mod 16" by simp
  moreover have "b div 16 < 16" using that by auto
  then have "(a mod 4 * 16 + b div 16) mod 16 = b div 16" by simp
  ultimately show ?thesis by simp
qed

lemma regroup3: "(b mod 16 * 4 + c div 64) mod 4 * 64 + c mod 64 = c" if "c < 256" for b c :: nat
proof -
  have "c div 64 < 4" using that by auto
  then have "(b mod 16 * 4 + c div 64) mod 4 = c div 64" by simp
  then show ?thesis by simp
qed

lemma of_to_digits: "of_digits (to_digits bs) = Some bs"
proof (induction bs rule: to_digits.induct)
  case (2 a)
  have "unat a div 4 * 4 + unat a mod 4 * 16 div 16 = unat a" by simp
  then show ?case using of_nat_u8 by simp
next
  case (3 a b)
  have "unat b mod 16 * 4 div 4 = unat b mod 16" by simp
  moreover have "(unat a mod 4 * 16 + unat b div 16) mod 16 * 16 + unat b mod 16 = unat b"
    using regroup2 [of "unat b" 0 "unat a"] unat_u8_less [of b] by simp
  ultimately show ?case
    using regroup [of "unat b" "unat a"] unat_u8_less [of a] unat_u8_less [of b] of_nat_u8 by simp
next
  case (4 a b c bs)
  then show ?case
    using regroup [of "unat b" "unat a"] regroup2 [of "unat b" "unat c" "unat a"]
      regroup3 [of "unat c" "unat b"]
      unat_u8_less [of a] unat_u8_less [of b] unat_u8_less [of c]
    by (simp add: of_nat_u8)
qed simp

lemma base64_url_ok: "crypto_ok base64_url"
  unfolding crypto_ok_def base64_url_def
  using char_digits_chars [OF to_digits_less] to_digits_less
  by (auto simp: of_to_digits length_to_digits list_all_iff url_safe_digit_char)

end
