(* ===== verification/Host_Auth.thy ===== *)
theory Host_Auth
  imports Sql_Auth Codec_Instance "HOL-Library.Code_Target_Nat"
begin

text \<open>
  Authentication as a host runs it: the manager of \<open>bondry-auth\<close> over the encrypted database. The
  properties of \<open>auth_store_contract\<close> are stated here for that store, for any codec that keeps the
  promises of \<open>crypto_ok\<close>.
\<close>

abbreviation auth_spec_on :: "crypto \<Rightarrow> conn \<Rightarrow> int \<Rightarrow> rstr \<Rightarrow> principal option" where
  "auth_spec_on cr c \<equiv> auth_spec cr (sql_cls c) (sql_tks c)"

section \<open>A small host\<close>

definition alice_row :: client_row where
  "alice_row = \<lparr>cr_id = lit ''alice'', cr_name = lit ''Alice'', cr_enabled = 1, cr_created_at = 0\<rparr>"

definition alice_conn :: conn where
  "alice_conn = \<lparr>cn_data = empty_database\<lparr>db_clients := [alice_row]\<rparr>, cn_plan = []\<rparr>"

definition zero_source :: random_source where
  "zero_source = \<lparr>rs_calls = 0, rs_draw = (\<lambda>n. Some (\<lambda>_. of_nat n))\<rparr>"

abbreviation alice_store :: "conn auth_store" where
  "alice_store \<equiv> sql_auth_store base64_url"

text \<open>Alice is issued a token at time 100 for a minute; then it is rotated at time 110.\<close>

definition alice_issue :: "(token_lifecycle_error + issued_token) \<times> conn \<times> random_source" where
  "alice_issue = issue_token base64_url alice_store (Some 100) (lit ''alice'') None (Some 60)
     alice_conn zero_source"

definition alice_token :: issued_token where "alice_token = projr (fst alice_issue)"

definition alice_rotate :: "(token_lifecycle_error + issued_token) \<times> conn \<times> random_source" where
  "alice_rotate = rotate_token base64_url alice_store (Some 110) (tm_id (it_metadata alice_token))
     None None (fst (snd alice_issue)) (snd (snd alice_issue))"

definition alice_token2 :: issued_token where "alice_token2 = projr (fst alice_rotate)"

lemma alice_runs:
  "is_ok (fst alice_issue) \<and> cn_plan (fst (snd alice_issue)) = [] \<and>
   is_ok (fst alice_rotate) \<and> cn_plan (fst (snd alice_rotate)) = []"
  by code_simp

lemma alice_issue_run: "issue_token base64_url alice_store (Some 100) (lit ''alice'') None (Some 60)
     alice_conn zero_source = (Ok alice_token, fst (snd alice_issue), snd (snd alice_issue))"
  using alice_runs unfolding alice_issue_def [symmetric] alice_token_def
  by (cases "fst alice_issue") (auto simp: prod_eq_iff)

lemma alice_rotate_run: "rotate_token base64_url alice_store (Some 110)
     (tm_id (it_metadata alice_token)) None None (fst (snd alice_issue)) (snd (snd alice_issue)) =
     (Ok alice_token2, fst (snd alice_rotate), snd (snd alice_rotate))"
  using alice_runs unfolding alice_rotate_def [symmetric] alice_token2_def
  by (cases "fst alice_rotate") (auto simp: prod_eq_iff)

lemma alice_valid: "valid_client (client_of_row alice_row)"
  by code_simp

lemma alice_conn_inv: "sql_auth_inv cr alice_conn"
  using alice_valid by (simp add: sql_auth_inv_def alice_conn_def empty_database_def keyed_def)

lemma alice_conn_healthy: "healthy alice_conn"
  by (simp add: healthy_def alice_conn_def)

section \<open>Properties\<close>

text \<open>C5 (refinement): \<open>authenticate\<close> over the encrypted database implements its specification. It
  accepts a presented string only as the specification does, whatever the database does; and on a
  database that answers it returns exactly the specified principal or a rejection. It never changes
  what is stored.\<close>

theorem authenticate_spec:
  assumes "sql_auth_inv cr c" and "crypto_ok cr"
    and "authenticate cr (sql_auth_store cr) (Some t) presented c = (r, c')"
  shows "(r = (case auth_spec_on cr c t presented of Some p \<Rightarrow> Ok p | None \<Rightarrow> Err AuthRejected) \<or>
          r = Err AuthStorageUnavailable \<and> \<not> healthy c) \<and>
         sql_cls c' = sql_cls c \<and> sql_tks c' = sql_tks c"
proof -
  note ref = sql_auth.authenticate_refines [OF assms]
  from ref(1) have "sql_cls c' = sql_cls c \<and> sql_tks c' = sql_tks c"
    by (simp add: sql_auth.same_def)
  moreover have "r = (case auth_spec_on cr c t presented of Some p \<Rightarrow> Ok p | None \<Rightarrow> Err AuthRejected) \<or>
         r = Err AuthStorageUnavailable \<and> \<not> healthy c"
  proof (cases r)
    case (Inl e)
    with ref(3) [of t] ref(4) [of t] show ?thesis by (cases e) auto
  next
    case (Inr p)
    with ref(2) [of p] show ?thesis by auto
  qed
  ultimately show ?thesis by blast
qed

theorem authenticate_spec_witness:
  "\<exists>r c'. authenticate base64_url alice_store (Some 5) (lit ''nonsense'') alice_conn = (r, c') \<and>
     r = Err AuthRejected"
proof -
  obtain r c' where run: "authenticate base64_url alice_store (Some 5) (lit ''nonsense'') alice_conn = (r, c')"
    by (cases "authenticate base64_url alice_store (Some 5) (lit ''nonsense'') alice_conn")
  have "parse_presented base64_url (lit ''nonsense'') = Err ()" by code_simp
  then have "auth_spec_on base64_url alice_conn 5 (lit ''nonsense'') = None"
    by (simp add: auth_spec_def)
  with authenticate_spec [OF alice_conn_inv base64_url_ok run] run alice_conn_healthy
  show ?thesis by simp
qed

text \<open>C10 (round trip): the secret of a freshly issued token authenticates its client at every time
  before the token expires, on a database that answers.\<close>

theorem issued_token_authenticates:
  assumes "sql_auth_inv cr c" and "crypto_ok cr" and "\<And>l. lbl = Some l \<Longrightarrow> valid_label l"
    and "issue_token cr (sql_auth_store cr) (Some t) i lbl lifetime c rs = (Ok it, c', rs')"
    and "healthy c'" and "\<And>secs. lifetime = Some secs \<Longrightarrow> n < t + int secs"
  shows "fst (authenticate cr (sql_auth_store cr) (Some n) (it_secret it) c') =
           Ok \<lparr>pr_id = i, pr_kind = Application\<rparr>"
proof -
  obtain tok cl where tok: "sql_auth.stored_for cr c c' it tok" "tr_client tok = i"
    "sql_cls c i = Some cl" "cl_enabled cl" "expiration t lifetime = Ok (tr_expires_at tok)"
    using sql_auth.issue_token_result [OF assms(1,2,3,4)] by auto
  have "n < x" if "tr_expires_at tok = Some x" for x
    using expiration_bounds [of t lifetime x] tok(5) that assms(6) by auto
  with tok have spec: "auth_spec_on cr c' n (it_secret it) =
      Some \<lparr>pr_id = tr_client tok, pr_kind = Application\<rparr>"
    by (intro sql_auth.stored_for_authenticates [of cr c c' it tok cl]) auto
  have inv': "sql_auth_inv cr c'" using tok(1) by (simp add: sql_auth.stored_for_def)
  obtain r c'' where run: "authenticate cr (sql_auth_store cr) (Some n) (it_secret it) c' = (r, c'')"
    by (cases "authenticate cr (sql_auth_store cr) (Some n) (it_secret it) c'")
  note ref = sql_auth.authenticate_refines [OF inv' assms(2) run]
  have "r \<noteq> Err AuthStorageUnavailable" "r \<noteq> Err AuthRejected"
    using ref(3) [of n] ref(4) [of n] spec assms(5) by auto
  then obtain p where "r = Ok p" by (metis authentication_error.exhaust sum.exhaust)
  with ref(2) spec tok(2) run show ?thesis by auto
qed

theorem issued_token_authenticates_witness:
  "fst (authenticate base64_url alice_store (Some 120) (it_secret alice_token)
     (fst (snd alice_issue))) = Ok \<lparr>pr_id = lit ''alice'', pr_kind = Application\<rparr>"
  using alice_runs
  by (intro issued_token_authenticates [OF alice_conn_inv base64_url_ok _ alice_issue_run])
    (simp_all add: healthy_def)

text \<open>C8 (safety): rotation is atomic. When it succeeds, the presented token was active and its client
  enabled, exactly two tokens of the database change, the old one is revoked and the new secret
  belongs to the same client; when it fails, no client and no token has changed, whatever the
  database did.\<close>

theorem rotation_atomic:
  assumes "sql_auth_inv cr c" and "crypto_ok cr" and "\<And>l. lbl = Some l \<Longrightarrow> valid_label l"
    and "rotate_token cr (sql_auth_store cr) now i lbl lifetime c rs = (r, c', rs')"
  shows "sql_cls c' = sql_cls c \<and>
    (case r of
       Inl e \<Rightarrow> sql_tks c' = sql_tks c
     | Inr it \<Rightarrow> \<exists>old new t. now = Some t \<and> sql_tks c i = Some old \<and> is_active_at old t \<and>
         (\<exists>cl. sql_cls c (tr_client old) = Some cl \<and> cl_enabled cl) \<and>
         tr_client new = tr_client old \<and> sql_tks c (tr_id new) = None \<and>
         sql_tks c' = (sql_tks c)(tr_id new \<mapsto> new, i \<mapsto> mark_revoked old t) \<and>
         parse_presented cr (it_secret it) = Ok \<lparr>pt_id = tr_id new, pt_digest = tr_digest new\<rparr>)"
proof -
  have "(\<exists>it old new t. r = Ok it \<and> now = Some t \<and> sql_auth.stored_for cr c c' it new \<and>
            sql_auth.rotated c c' i t old new \<and> expiration t lifetime = Ok (tr_expires_at new)) \<or>
         (\<exists>e. r = Err e \<and> sql_auth.same cr c c')"
    by (rule sql_auth.rotate_token_result [OF assms(1,2) _ assms(4)]) (rule assms(3))
  then show ?thesis
    by (elim disjE exE conjE)
      (auto simp: sql_auth.stored_for_def sql_auth.rotated_def sql_auth.same_def)
qed

text \<open>The database after Alice's token was issued satisfies the invariant.\<close>

lemma alice_issued_inv: "sql_auth_inv base64_url (fst (snd alice_issue))"
  using sql_auth.issue_token_result [OF alice_conn_inv base64_url_ok _ alice_issue_run]
  by (auto simp: sql_auth.stored_for_def sql_auth.same_def)

theorem rotation_atomic_witness:
  "\<exists>old. sql_tks (fst (snd alice_issue)) (tm_id (it_metadata alice_token)) = Some old \<and>
     sql_tks (fst (snd alice_rotate)) (tm_id (it_metadata alice_token)) = Some (mark_revoked old 110)"
  using rotation_atomic [OF alice_issued_inv base64_url_ok _ alice_rotate_run] by auto

text \<open>C7 (safety): once a token is revoked, no later sequence of manager operations, with any clock,
  entropy and database failures, makes any string that names it authenticate again.\<close>

theorem revoked_stays_revoked:
  assumes "sql_auth_inv cr c" and "crypto_ok cr" and "sql_tks c i = Some t"
    and "tr_revoked_at t \<noteq> None" and "mgr_reachable cr (sql_auth_store cr) c c'"
    and "parse_presented cr presented = Ok p" and "pt_id p = i"
  shows "\<forall>prin. fst (authenticate cr (sql_auth_store cr) clock presented c') \<noteq> Ok prin"
proof
  fix prin
  obtain r c'' where run: "authenticate cr (sql_auth_store cr) clock presented c' = (r, c'')"
    by (cases "authenticate cr (sql_auth_store cr) clock presented c'")
  with sql_auth.revoked_forever(2) [OF assms run]
  show "fst (authenticate cr (sql_auth_store cr) clock presented c') \<noteq> Ok prin" by simp
qed

text \<open>C11 (invariant): starting from a database that satisfies it, every sequence of manager operations
  keeps the stored invariant: unique client and token identifiers, unique digests of 32 bytes, no token
  without its client, only validated names, labels and identifiers. And no operation changes a token
  but to revoke it once.\<close>

theorem manager_invariant:
  assumes "sql_auth_inv cr c" and "crypto_ok cr" and "mgr_reachable cr (sql_auth_store cr) c c'"
  shows "sql_auth_inv cr c' \<and> tokens_le (sql_tks c) (sql_tks c')"
  using sql_auth.mgr_reachable_preserves [OF assms(3,1,2)] .

theorem manager_invariant_witness:
  "sql_auth_inv base64_url (fst (snd alice_rotate)) \<and>
   tokens_le (sql_tks alice_conn) (sql_tks (fst (snd alice_rotate)))"
proof -
  have "mgr_step base64_url alice_store alice_conn (fst (snd alice_issue))"
    by (rule mgr_issue [OF _ alice_issue_run]) simp
  moreover have "mgr_step base64_url alice_store (fst (snd alice_issue)) (fst (snd alice_rotate))"
    by (rule mgr_rotate [OF _ alice_rotate_run]) simp
  ultimately have "mgr_reachable base64_url alice_store alice_conn (fst (snd alice_rotate))"
    by (blast intro: mgr_refl mgr_next)
  from manager_invariant [OF alice_conn_inv base64_url_ok this] show ?thesis .
qed

lemma alice_rotated_inv: "sql_auth_inv base64_url (fst (snd alice_rotate))"
  using sql_auth.rotate_token_result [OF alice_issued_inv base64_url_ok _ alice_rotate_run]
  by (auto simp: sql_auth.stored_for_def sql_auth.same_def)

theorem revoked_stays_revoked_witness:
  "\<forall>prin. fst (authenticate base64_url alice_store (Some 111) (it_secret alice_token)
     (fst (snd alice_rotate))) \<noteq> Ok prin"
proof -
  obtain tok where tok: "sql_auth.stored_for base64_url alice_conn (fst (snd alice_issue)) alice_token tok"
    using sql_auth.issue_token_result [OF alice_conn_inv base64_url_ok _ alice_issue_run] by auto
  obtain old new t where "sql_auth.rotated (fst (snd alice_issue)) (fst (snd alice_rotate))
      (tm_id (it_metadata alice_token)) t old new"
    using sql_auth.rotate_token_result [OF alice_issued_inv base64_url_ok _ alice_rotate_run] by auto
  then have "sql_tks (fst (snd alice_rotate)) (tm_id (it_metadata alice_token)) =
      Some (mark_revoked old t)" by (simp add: sql_auth.rotated_def)
  moreover have "tm_id (it_metadata alice_token) = tr_id tok"
    "parse_presented base64_url (it_secret alice_token) =
       Ok \<lparr>pt_id = tr_id tok, pt_digest = tr_digest tok\<rparr>"
    using tok by (simp_all add: sql_auth.stored_for_def metadata_def)
  ultimately show ?thesis
    by (intro revoked_stays_revoked [OF alice_rotated_inv base64_url_ok _ _ mgr_refl,
          where t = "mark_revoked old t"]) (simp_all add: mark_revoked_def)
qed

text \<open>C14 (bounds): a token's expiration is a signed 64-bit time strictly after the time of issue, exactly
  the requested number of seconds later; a zero lifetime, one that does not fit or one whose end
  overflows is refused.\<close>

theorem expiration_exact:
  "in_i64 now \<Longrightarrow>
     expiration now (Some secs) =
       (if 0 < secs \<and> now + int secs \<le> i64_max \<and> int secs \<le> i64_max
        then Ok (Some (now + int secs)) else Err TlInvalidLifetime)"
  by (auto simp: expiration_def int_simps i64_try_from_def in_i64_def i64_min_def checked_add_i64_def
      split: option.splits)

theorem expiration_exact_witness:
  "expiration (i64_max - 10) (Some 10) = Ok (Some i64_max) \<and>
   expiration (i64_max - 10) (Some 11) = Err TlInvalidLifetime"
  using expiration_exact [of "i64_max - 10" 10] expiration_exact [of "i64_max - 10" 11]
  by (simp add: in_i64_def i64_min_def i64_max_def)

end
