(* ===== verification/Delivery_Model.thy ===== *)
theory Delivery_Model
  imports Identifiers
begin

text \<open>
  The delivery log's contract (\<open>bondry-delivery-store\<close>: \<open>delivery.rs\<close>, \<open>limits.rs\<close>, \<open>lib.rs\<close>):
  intents, records, limits and the \<open>DeliveryLog\<close> trait. The locale \<open>delivery_log_contract\<close> states
  what both logs of the repository promise, over an abstract map from delivery identifiers to
  records; a log may forget terminal records to make room, never pending ones. In it, the
  bookkeeping argument that every accepted delivery ends at most once is carried out for all logs.
\<close>

section \<open>Data\<close>

definition PERSISTENT_DELIVERY_RECORD_CHARGE_BYTES :: nat where
  "PERSISTENT_DELIVERY_RECORD_CHARGE_BYTES = 512"

datatype delivery_failure =
    DfCancelled | DfDeadlineExceeded | DfEndpointPolicy | DfSecretUnavailable
  | DfTransportUnavailable | DfReceiverRejected | DfRetryExhausted | DfInternal

datatype delivery_result_category = DrcSucceeded | DrcFailed | DrcInvalid

record delivery_result_metadata =
  rm_category :: delivery_result_category
  rm_bytes :: nat

datatype delivery_outcome =
    Delivered | DeliveryFailed delivery_failure | LostOnShutdown | UnknownAfterCrash

datatype delivery_state = Pending | Terminal delivery_outcome

fun is_terminal :: "delivery_state \<Rightarrow> bool" where
  "is_terminal (Terminal out) = True"
| "is_terminal Pending = False"

record delivery_intent =
  di_route :: route_id
  di_delivery :: delivery_id
  di_accepted_at :: nat

record delivery_record =
  dr_intent :: delivery_intent
  dr_attempts :: nat
  dr_state :: delivery_state
  dr_updated_at :: nat
  dr_result :: "delivery_result_metadata option"

definition DeliveryRecord_from_stored_parts ::
    "delivery_intent \<Rightarrow> nat \<Rightarrow> delivery_state \<Rightarrow> nat \<Rightarrow> delivery_result_metadata option
       \<Rightarrow> delivery_record" where
  "DeliveryRecord_from_stored_parts i a s u r =
     \<lparr>dr_intent = i, dr_attempts = a, dr_state = s, dr_updated_at = u, dr_result = r\<rparr>"

datatype delivery_log_error =
    DlConflict | DlCapacityExhausted | DlNotFound | DlInvalidTransition | DlUnavailable

datatype store_durability = ProcessLocal | Persistent

record 's delivery_log =
  dlog_durability :: store_durability
  dlog_insert_intent :: "'s \<Rightarrow> delivery_intent \<Rightarrow> (delivery_log_error + unit) \<times> 's"
  dlog_record_attempt ::
    "'s \<Rightarrow> delivery_id \<Rightarrow> nat \<Rightarrow> nat \<Rightarrow> (delivery_log_error + unit) \<times> 's"
  dlog_record_outcome ::
    "'s \<Rightarrow> delivery_id \<Rightarrow> delivery_outcome \<Rightarrow> nat \<Rightarrow> delivery_result_metadata option
       \<Rightarrow> (delivery_log_error + unit) \<times> 's"
  dlog_delivery :: "'s \<Rightarrow> delivery_id \<Rightarrow> (delivery_log_error + delivery_record option) \<times> 's"
  dlog_recover_unfinished :: "'s \<Rightarrow> nat \<Rightarrow> (delivery_log_error + nat) \<times> 's"

section \<open>Limits\<close>

text \<open>A \<open>Duration\<close> is a number of nanoseconds.\<close>

type_synonym duration = nat

definition from_secs :: "nat \<Rightarrow> duration" where
  "from_secs n = n * 1000000000"

definition as_millis :: "duration \<Rightarrow> nat" where
  "as_millis d = d div 1000000"

definition MIN_PERSISTENT_DELIVERY_LOG_RECORDS :: nat where
  "MIN_PERSISTENT_DELIVERY_LOG_RECORDS = 1000"
definition MAX_PERSISTENT_DELIVERY_LOG_RECORDS :: nat where
  "MAX_PERSISTENT_DELIVERY_LOG_RECORDS = 1000000"
definition MIN_PERSISTENT_DELIVERY_LOG_BYTES :: nat where
  "MIN_PERSISTENT_DELIVERY_LOG_BYTES = 1024 * 1024"
definition MAX_PERSISTENT_DELIVERY_LOG_BYTES :: nat where
  "MAX_PERSISTENT_DELIVERY_LOG_BYTES = 512 * 1024 * 1024"
definition MIN_PERSISTENT_DELIVERY_LOG_RETENTION :: duration where
  "MIN_PERSISTENT_DELIVERY_LOG_RETENTION = from_secs 86400"
definition MAX_PERSISTENT_DELIVERY_LOG_RETENTION :: duration where
  "MAX_PERSISTENT_DELIVERY_LOG_RETENTION = from_secs (90 * 86400)"

record delivery_log_limits =
  ll_records :: nat
  ll_bytes :: nat
  ll_retention :: duration

datatype delivery_log_limits_error = LlRecords | LlBytes | LlRetention

definition PersistentDeliveryLogLimits_new ::
    "nat \<Rightarrow> nat \<Rightarrow> duration \<Rightarrow> delivery_log_limits_error + delivery_log_limits" where
  "PersistentDeliveryLogLimits_new records bs retention =
     (if \<not> (MIN_PERSISTENT_DELIVERY_LOG_RECORDS \<le> records
             \<and> records \<le> MAX_PERSISTENT_DELIVERY_LOG_RECORDS) then Err LlRecords
      else if \<not> (MIN_PERSISTENT_DELIVERY_LOG_BYTES \<le> bs
                  \<and> bs \<le> MAX_PERSISTENT_DELIVERY_LOG_BYTES) then Err LlBytes
      else if \<not> (MIN_PERSISTENT_DELIVERY_LOG_RETENTION \<le> retention
                  \<and> retention \<le> MAX_PERSISTENT_DELIVERY_LOG_RETENTION) then Err LlRetention
      else Ok \<lparr>ll_records = records, ll_bytes = bs, ll_retention = retention\<rparr>)"

definition PersistentDeliveryLogLimits_default :: delivery_log_limits where
  "PersistentDeliveryLogLimits_default =
     \<lparr>ll_records = 100000, ll_bytes = 64 * 1024 * 1024, ll_retention = from_secs (7 * 86400)\<rparr>"

text \<open>The limits a constructor can build; the default ones are among them.\<close>

definition valid_log_limits :: "delivery_log_limits \<Rightarrow> bool" where
  "valid_log_limits l \<longleftrightarrow>
     PersistentDeliveryLogLimits_new (ll_records l) (ll_bytes l) (ll_retention l) = Ok l"

lemma valid_log_limits_default: "valid_log_limits PersistentDeliveryLogLimits_default"
  by (simp add: valid_log_limits_def PersistentDeliveryLogLimits_new_def
      PersistentDeliveryLogLimits_default_def MIN_PERSISTENT_DELIVERY_LOG_RECORDS_def
      MAX_PERSISTENT_DELIVERY_LOG_RECORDS_def MIN_PERSISTENT_DELIVERY_LOG_BYTES_def
      MAX_PERSISTENT_DELIVERY_LOG_BYTES_def MIN_PERSISTENT_DELIVERY_LOG_RETENTION_def
      MAX_PERSISTENT_DELIVERY_LOG_RETENTION_def from_secs_def)

lemma valid_log_limits_bounds:
  assumes "valid_log_limits l"
  shows "ll_records l \<le> 1000000" "ll_bytes l \<le> 536870912" "as_millis (ll_retention l) \<le> 7776000000"
  using assms
  by (auto simp: valid_log_limits_def PersistentDeliveryLogLimits_new_def
      MAX_PERSISTENT_DELIVERY_LOG_RECORDS_def MAX_PERSISTENT_DELIVERY_LOG_BYTES_def
      MAX_PERSISTENT_DELIVERY_LOG_RETENTION_def from_secs_def as_millis_def split: if_splits)

section \<open>The contract\<close>

abbreviation pending :: "delivery_record option \<Rightarrow> bool" where
  "pending x \<equiv> (case x of None \<Rightarrow> False | Some r \<Rightarrow> dr_state r = Pending)"

definition fresh_record :: "delivery_intent \<Rightarrow> delivery_record" where
  "fresh_record i = DeliveryRecord_from_stored_parts i 0 Pending (di_accepted_at i) None"

definition purged ::
    "(delivery_id \<rightharpoonup> delivery_record) \<Rightarrow> (delivery_id \<rightharpoonup> delivery_record) \<Rightarrow> bool" where
  "purged m m' \<longleftrightarrow>
     (\<forall>i. m' i = m i \<or> m' i = None \<and> (\<exists>r. m i = Some r \<and> is_terminal (dr_state r)))"

definition recovered ::
    "nat \<Rightarrow> (delivery_id \<rightharpoonup> delivery_record) \<Rightarrow> (delivery_id \<rightharpoonup> delivery_record) \<Rightarrow> bool" where
  "recovered t m m' \<longleftrightarrow>
     (\<forall>i. m' i = m i \<or> (\<exists>r. m i = Some r \<and> dr_state r = Pending \<and>
        m' i = Some (r\<lparr>dr_state := Terminal UnknownAfterCrash, dr_updated_at := t\<rparr>)))"

lemma not_terminal [simp]: "\<not> is_terminal s \<longleftrightarrow> s = Pending"
  by (cases s) simp_all

lemma is_terminal_neq: "is_terminal s \<longleftrightarrow> s \<noteq> Pending"
  by (cases s) simp_all

lemma purged_refl [simp]: "purged m m"
  by (simp add: purged_def)

lemma purged_trans: "purged m m' \<Longrightarrow> purged m' m'' \<Longrightarrow> purged m m''"
  unfolding purged_def by metis

lemma purged_pending: "purged m m' \<Longrightarrow> pending (m' i) = pending (m i)"
  by (auto simp: purged_def is_terminal_neq split: option.splits)
    (metis option.distinct(1) option.inject)+

lemma recovered_refl [simp]: "recovered t m m"
  by (simp add: recovered_def)

lemma recovered_pending: "recovered t m m' \<Longrightarrow> pending (m' i) \<Longrightarrow> pending (m i)"
  unfolding recovered_def by (cases "m' i = m i") (auto dest!: spec [of _ i])

locale delivery_log_contract =
  fixes dlog :: "'s delivery_log"
    and inv :: "'s \<Rightarrow> bool"
    and recs :: "'s \<Rightarrow> delivery_id \<rightharpoonup> delivery_record"
    and usable_intent :: "delivery_intent \<Rightarrow> bool"
  assumes insert_inv: "inv s \<Longrightarrow> usable_intent i \<Longrightarrow> inv (snd (dlog_insert_intent dlog s i))"
    and insert_ok: "inv s \<Longrightarrow> usable_intent i \<Longrightarrow> dlog_insert_intent dlog s i = (Ok u, s') \<Longrightarrow>
      \<exists>m. purged (recs s) m \<and> m (di_delivery i) = None \<and>
        recs s' = m(di_delivery i \<mapsto> fresh_record i)"
    and insert_err: "inv s \<Longrightarrow> usable_intent i \<Longrightarrow> dlog_insert_intent dlog s i = (Err e, s') \<Longrightarrow>
      purged (recs s) (recs s')"
    and attempt_inv: "inv s \<Longrightarrow> n \<le> u16_max \<Longrightarrow> inv (snd (dlog_record_attempt dlog s d n t))"
    and attempt_ok: "inv s \<Longrightarrow> n \<le> u16_max \<Longrightarrow> dlog_record_attempt dlog s d n t = (Ok u, s') \<Longrightarrow>
      \<exists>r. recs s d = Some r \<and> dr_state r = Pending \<and> dr_attempts r < n \<and>
        recs s' = (recs s)(d \<mapsto> r\<lparr>dr_attempts := n, dr_updated_at := t\<rparr>)"
    and attempt_err: "inv s \<Longrightarrow> dlog_record_attempt dlog s d n t = (Err e, s') \<Longrightarrow> recs s' = recs s"
    and outcome_inv: "inv s \<Longrightarrow> (\<And>m. res = Some m \<Longrightarrow> rm_bytes m \<le> u32_max) \<Longrightarrow>
      inv (snd (dlog_record_outcome dlog s d out t res))"
    and outcome_ok: "inv s \<Longrightarrow> (\<And>m. res = Some m \<Longrightarrow> rm_bytes m \<le> u32_max) \<Longrightarrow>
      dlog_record_outcome dlog s d out t res = (Ok u, s') \<Longrightarrow>
      \<exists>r. recs s d = Some r \<and> dr_state r = Pending \<and>
        recs s' = (recs s)(d \<mapsto> r\<lparr>dr_state := Terminal out, dr_updated_at := t, dr_result := res\<rparr>)"
    and outcome_err: "inv s \<Longrightarrow> dlog_record_outcome dlog s d out t res = (Err e, s') \<Longrightarrow>
      recs s' = recs s"
    and delivery_frame: "inv s \<Longrightarrow> dlog_delivery dlog s d = (rd, s') \<Longrightarrow> inv s' \<and> recs s' = recs s"
    and delivery_ok: "inv s \<Longrightarrow> dlog_delivery dlog s d = (Ok od, s') \<Longrightarrow> od = recs s d"
    and recover_inv: "inv s \<Longrightarrow> inv (snd (dlog_recover_unfinished dlog s t))"
    and recover_any: "inv s \<Longrightarrow> dlog_recover_unfinished dlog s t = (rr, s') \<Longrightarrow>
      recovered t (recs s) (recs s')"

section \<open>Sequences of operations\<close>

datatype log_op =
    OpInsert delivery_intent
  | OpAttempt delivery_id nat nat
  | OpOutcome delivery_id delivery_outcome nat "delivery_result_metadata option"
  | OpDelivery delivery_id
  | OpRecover nat

definition run_op :: "'s delivery_log \<Rightarrow> log_op \<Rightarrow> 's \<Rightarrow> bool \<times> 's" where
  "run_op dl op s = (case op of
     OpInsert i \<Rightarrow> map_prod is_ok id (dlog_insert_intent dl s i)
   | OpAttempt d n t \<Rightarrow> map_prod is_ok id (dlog_record_attempt dl s d n t)
   | OpOutcome d out t res \<Rightarrow> map_prod is_ok id (dlog_record_outcome dl s d out t res)
   | OpDelivery d \<Rightarrow> map_prod is_ok id (dlog_delivery dl s d)
   | OpRecover t \<Rightarrow> map_prod is_ok id (dlog_recover_unfinished dl s t))"

definition valid_op :: "(delivery_intent \<Rightarrow> bool) \<Rightarrow> log_op \<Rightarrow> bool" where
  "valid_op usable op \<longleftrightarrow> (case op of
     OpInsert i \<Rightarrow> usable i
   | OpAttempt d n t \<Rightarrow> n \<le> u16_max
   | OpOutcome d out t res \<Rightarrow> (\<forall>m. res = Some m \<longrightarrow> rm_bytes m \<le> u32_max)
   | _ \<Rightarrow> True)"

text \<open>The operations of a run that succeeded, and the state it ends in.\<close>

fun run_log :: "'s delivery_log \<Rightarrow> log_op list \<Rightarrow> 's \<Rightarrow> log_op list \<times> 's" where
  "run_log dl [] s = ([], s)"
| "run_log dl (op # ops) s =
     (case run_op dl op s of (good, s') \<Rightarrow>
        (case run_log dl ops s' of (done_ops, s'') \<Rightarrow> ((if good then op # done_ops else done_ops), s'')))"

fun is_insert_of :: "delivery_id \<Rightarrow> log_op \<Rightarrow> bool" where
  "is_insert_of d (OpInsert i) = (di_delivery i = d)"
| "is_insert_of d _ = False"

fun is_outcome_of :: "delivery_id \<Rightarrow> log_op \<Rightarrow> bool" where
  "is_outcome_of d (OpOutcome d' out t res) = (d' = d)"
| "is_outcome_of d _ = False"

definition inserts_of :: "delivery_id \<Rightarrow> log_op list \<Rightarrow> nat" where
  "inserts_of d ops = length (filter (is_insert_of d) ops)"

definition outcomes_of :: "delivery_id \<Rightarrow> log_op list \<Rightarrow> nat" where
  "outcomes_of d ops = length (filter (is_outcome_of d) ops)"

definition weight :: "bool \<Rightarrow> nat" where
  "weight b = (if b then 1 else 0)"

context delivery_log_contract
begin

lemma run_op_inv: "inv s \<Longrightarrow> valid_op usable_intent op \<Longrightarrow> inv (snd (run_op dlog op s))"
  using insert_inv attempt_inv outcome_inv recover_inv
  by (cases op) (auto simp: run_op_def valid_op_def prod_eq_iff delivery_frame [of _ _ "fst _" "snd _"])

text \<open>
  One operation: a pending record of \<open>d\<close> is a credit that an insertion earns and an outcome spends.
\<close>

lemma run_op_credit:
  assumes "inv s" and "valid_op usable_intent op" and "run_op dlog op s = (good, s')"
  shows "weight (good \<and> is_outcome_of d op) + weight (pending (recs s' d))
           \<le> weight (good \<and> is_insert_of d op) + weight (pending (recs s d))"
proof (cases op)
  case (OpInsert i)
  with assms(3) obtain r where run: "dlog_insert_intent dlog s i = (r, s')" "good = is_ok r"
    by (cases "dlog_insert_intent dlog s i") (auto simp: run_op_def)
  show ?thesis
  proof (cases r)
    case (Inl e)
    with insert_err [OF assms(1)] run assms(2) OpInsert have "purged (recs s) (recs s')"
      by (auto simp: valid_op_def)
    with purged_pending [of "recs s" "recs s'" d] OpInsert show ?thesis by (simp add: weight_def)
  next
    case (Inr u)
    with insert_ok [OF assms(1) _ run(1) [unfolded Inr]] assms(2) OpInsert obtain m
      where m: "purged (recs s) m" "m (di_delivery i) = None"
        "recs s' = m(di_delivery i \<mapsto> fresh_record i)" by (auto simp: valid_op_def)
    with purged_pending [OF m(1), of d] OpInsert run(2) Inr show ?thesis by (auto simp: weight_def)
  qed
next
  case (OpAttempt d' n t)
  with assms(3) obtain r where run: "dlog_record_attempt dlog s d' n t = (r, s')"
    by (cases "dlog_record_attempt dlog s d' n t") (auto simp: run_op_def)
  from assms(2) OpAttempt have n: "n \<le> u16_max" by (simp add: valid_op_def)
  have "pending (recs s' d) = pending (recs s d)"
    using attempt_ok [OF assms(1) n, of d' t _ s'] attempt_err [OF assms(1), of d' n t _ s'] run
    by (cases r; cases "d = d'") auto
  with OpAttempt show ?thesis by simp
next
  case (OpOutcome d' out t res)
  with assms(3) obtain r where run: "dlog_record_outcome dlog s d' out t res = (r, s')" "good = is_ok r"
    by (cases "dlog_record_outcome dlog s d' out t res") (auto simp: run_op_def)
  show ?thesis
  proof (cases r)
    case (Inl e)
    with outcome_err [OF assms(1)] run have "recs s' = recs s" by blast
    with OpOutcome run(2) Inl show ?thesis by (simp add: weight_def)
  next
    case (Inr u)
    have "\<exists>x. recs s d' = Some x \<and> dr_state x = Pending \<and>
        recs s' = (recs s)(d' \<mapsto> x\<lparr>dr_state := Terminal out, dr_updated_at := t, dr_result := res\<rparr>)"
      using outcome_ok [OF assms(1) _ run(1) [unfolded Inr]] assms(2) OpOutcome
      by (auto simp: valid_op_def)
    with OpOutcome run(2) Inr show ?thesis by (auto simp: weight_def)
  qed
next
  case (OpDelivery d')
  with assms(3) obtain r where run: "dlog_delivery dlog s d' = (r, s')"
    by (cases "dlog_delivery dlog s d'") (auto simp: run_op_def)
  with delivery_frame [OF assms(1) run] OpDelivery show ?thesis by simp
next
  case (OpRecover t)
  with assms(3) obtain r where run: "dlog_recover_unfinished dlog s t = (r, s')"
    by (cases "dlog_recover_unfinished dlog s t") (auto simp: run_op_def)
  with recovered_pending [OF recover_any [OF assms(1) run], of d] OpRecover
  show ?thesis by (auto simp: weight_def)
qed

text \<open>A whole run: accepted outcomes never outnumber accepted intents.\<close>

lemma run_log_credit:
  assumes "inv s" and "list_all (valid_op usable_intent) ops" and "run_log dlog ops s = (done_ops, s')"
  shows "inv s' \<and> outcomes_of d done_ops + weight (pending (recs s' d))
           \<le> inserts_of d done_ops + weight (pending (recs s d))"
  using assms
proof (induction ops arbitrary: s done_ops)
  case Nil
  then show ?case by (auto simp: outcomes_of_def inserts_of_def)
next
  case (Cons op ops)
  obtain good s1 where op: "run_op dlog op s = (good, s1)" by (cases "run_op dlog op s")
  obtain rest s2 where rest: "run_log dlog ops s1 = (rest, s2)" by (cases "run_log dlog ops s1")
  from Cons.prems op rest have eqs: "s2 = s'" "done_ops = (if good then op # rest else rest)" by auto
  have "inv s1" using run_op_inv [of s op] Cons.prems op by simp
  then have IH: "inv s' \<and> outcomes_of d rest + weight (pending (recs s' d))
      \<le> inserts_of d rest + weight (pending (recs s1 d))"
    using Cons.IH [of s1 rest] Cons.prems(2) rest eqs by simp
  have "weight (good \<and> is_outcome_of d op) + weight (pending (recs s1 d))
      \<le> weight (good \<and> is_insert_of d op) + weight (pending (recs s d))"
    using run_op_credit [OF Cons.prems(1) _ op] Cons.prems(2) by simp
  with IH eqs show ?case
    by (cases good) (auto simp: outcomes_of_def inserts_of_def weight_def)
qed

end

end
