(* ===== verification/Memory_Log.thy ===== *)
theory Memory_Log
  imports Delivery_Model "HOL-Library.Finite_Map"
begin

text \<open>
  The process-local delivery log (\<open>bondry-egress-runtime/src/memory_log.rs\<close>): a bounded map and the
  order in which its records became terminal. A full log makes room by dropping the oldest terminal
  record; a log full of pending records refuses new intents. The lock is poisoned when a holder has
  panicked.
\<close>

definition MIN_IN_MEMORY_LOG_ENTRIES :: nat where "MIN_IN_MEMORY_LOG_ENTRIES = 64"
definition MAX_IN_MEMORY_LOG_ENTRIES :: nat where "MAX_IN_MEMORY_LOG_ENTRIES = 8192"
definition DEFAULT_IN_MEMORY_LOG_ENTRIES :: nat where "DEFAULT_IN_MEMORY_LOG_ENTRIES = 1024"

definition InMemoryDeliveryLogLimit_new :: "nat \<Rightarrow> unit + nat" where
  "InMemoryDeliveryLogLimit_new v =
     (if v < MIN_IN_MEMORY_LOG_ENTRIES \<or> v > MAX_IN_MEMORY_LOG_ENTRIES then Err () else Ok v)"

record memory_log =
  ml_limit :: nat
  ml_poisoned :: bool
  ml_records :: "(delivery_id, delivery_record) fmap"
  ml_terminal_order :: "delivery_id list"

definition InMemoryDeliveryLog_new :: "nat \<Rightarrow> memory_log" where
  "InMemoryDeliveryLog_new limit =
     \<lparr>ml_limit = limit, ml_poisoned = False, ml_records = fmempty, ml_terminal_order = []\<rparr>"

definition ml_len :: "(delivery_id, delivery_record) fmap \<Rightarrow> nat" where
  "ml_len m = fcard (fmdom m)"

text \<open>The loop that makes room: \<open>None\<close> when nothing terminal is left to drop.\<close>

fun make_room ::
    "nat \<Rightarrow> (delivery_id, delivery_record) fmap \<Rightarrow> delivery_id list
       \<Rightarrow> bool \<times> (delivery_id, delivery_record) fmap \<times> delivery_id list" where
  "make_room limit m [] = (ml_len m < limit, m, [])"
| "make_room limit m (expired # rest) =
     (if ml_len m < limit then (True, m, expired # rest)
      else make_room limit
             (case fmlookup m expired of
                None \<Rightarrow> m
              | Some r \<Rightarrow> if is_terminal (dr_state r) then fmdrop expired m else m)
             rest)"

definition memory_insert_intent ::
    "memory_log \<Rightarrow> delivery_intent \<Rightarrow> (delivery_log_error + unit) \<times> memory_log" where
  "memory_insert_intent s intent =
     (if ml_poisoned s then (Err DlUnavailable, s)
      else if fmlookup (ml_records s) (di_delivery intent) \<noteq> None then (Err DlConflict, s)
      else
        (case make_room (ml_limit s) (ml_records s) (ml_terminal_order s) of
           (room, m, order) \<Rightarrow>
             if \<not> room
             then (Err DlCapacityExhausted, s\<lparr>ml_records := m, ml_terminal_order := order\<rparr>)
             else
               (Ok (), s\<lparr>ml_records := fmupd (di_delivery intent)
                    (DeliveryRecord_from_stored_parts intent 0 Pending (di_accepted_at intent) None) m,
                  ml_terminal_order := order\<rparr>)))"

definition memory_record_attempt ::
    "memory_log \<Rightarrow> delivery_id \<Rightarrow> nat \<Rightarrow> nat \<Rightarrow> (delivery_log_error + unit) \<times> memory_log" where
  "memory_record_attempt s delivery attempts updated_at =
     (if ml_poisoned s then (Err DlUnavailable, s)
      else
        (case fmlookup (ml_records s) delivery of
           None \<Rightarrow> (Err DlNotFound, s)
         | Some r \<Rightarrow>
             if is_terminal (dr_state r) \<or> attempts \<le> dr_attempts r then (Err DlInvalidTransition, s)
             else (Ok (), s\<lparr>ml_records := fmupd delivery
                     (DeliveryRecord_from_stored_parts (dr_intent r) attempts Pending updated_at None)
                     (ml_records s)\<rparr>)))"

definition memory_record_outcome ::
    "memory_log \<Rightarrow> delivery_id \<Rightarrow> delivery_outcome \<Rightarrow> nat \<Rightarrow> delivery_result_metadata option
       \<Rightarrow> (delivery_log_error + unit) \<times> memory_log" where
  "memory_record_outcome s delivery outcome updated_at result =
     (if ml_poisoned s then (Err DlUnavailable, s)
      else
        (case fmlookup (ml_records s) delivery of
           None \<Rightarrow> (Err DlNotFound, s)
         | Some r \<Rightarrow>
             if is_terminal (dr_state r) \<or> outcome = UnknownAfterCrash
             then (Err DlInvalidTransition, s)
             else (Ok (), s\<lparr>ml_records := fmupd delivery
                     (DeliveryRecord_from_stored_parts (dr_intent r) (dr_attempts r)
                        (Terminal outcome) updated_at result) (ml_records s),
                   ml_terminal_order := ml_terminal_order s @ [delivery]\<rparr>)))"

definition memory_delivery ::
    "memory_log \<Rightarrow> delivery_id \<Rightarrow> (delivery_log_error + delivery_record option) \<times> memory_log" where
  "memory_delivery s delivery =
     (if ml_poisoned s then (Err DlUnavailable, s)
      else (Ok (fmlookup (ml_records s) delivery), s))"

definition memory_recover_unfinished ::
    "memory_log \<Rightarrow> nat \<Rightarrow> (delivery_log_error + nat) \<times> memory_log" where
  "memory_recover_unfinished s updated_at = (Ok 0, s)"

definition memory_delivery_log :: "memory_log delivery_log" where
  "memory_delivery_log =
     \<lparr>dlog_durability = ProcessLocal,
      dlog_insert_intent = memory_insert_intent,
      dlog_record_attempt = memory_record_attempt,
      dlog_record_outcome = memory_record_outcome,
      dlog_delivery = memory_delivery,
      dlog_recover_unfinished = memory_recover_unfinished\<rparr>"

section \<open>Invariant\<close>

text \<open>
  The terminal order lists exactly the terminal records, each once; the map never outgrows the limit;
  a pending record carries no result.
\<close>

definition terminal_at :: "(delivery_id, delivery_record) fmap \<Rightarrow> delivery_id \<Rightarrow> bool" where
  "terminal_at m d \<longleftrightarrow> (\<exists>r. fmlookup m d = Some r \<and> is_terminal (dr_state r))"

definition order_ok :: "(delivery_id, delivery_record) fmap \<Rightarrow> delivery_id list \<Rightarrow> bool" where
  "order_ok m order \<longleftrightarrow> distinct order \<and> (\<forall>d. d \<in> set order \<longleftrightarrow> terminal_at m d)"

definition pending_plain :: "(delivery_id, delivery_record) fmap \<Rightarrow> bool" where
  "pending_plain m \<longleftrightarrow>
     (\<forall>d r. fmlookup m d = Some r \<longrightarrow> dr_state r = Pending \<longrightarrow> dr_result r = None)"

definition memory_log_inv :: "memory_log \<Rightarrow> bool" where
  "memory_log_inv s \<longleftrightarrow>
     0 < ml_limit s \<and> ml_len (ml_records s) \<le> ml_limit s \<and>
     order_ok (ml_records s) (ml_terminal_order s) \<and> pending_plain (ml_records s)"

definition memory_recs :: "memory_log \<Rightarrow> delivery_id \<rightharpoonup> delivery_record" where
  "memory_recs s = fmlookup (ml_records s)"

lemma fmlookup_fmupd_fun [simp]: "fmlookup (fmupd k v m) = (fmlookup m)(k \<mapsto> v)"
  by (auto simp: fun_eq_iff)

lemma fmlookup_fmdrop_fun [simp]: "fmlookup (fmdrop k m) = (fmlookup m)(k := None)"
  by (auto simp: fun_eq_iff)

lemma ml_len_dom: "ml_len m = card (dom (fmlookup m))"
  by (simp add: ml_len_def fcard.rep_eq fmdom.rep_eq)

lemma finite_dom_fmlookup: "finite (dom (fmlookup m))"
  using finite_fset [of "fmdom m"] by (simp add: fmdom.rep_eq)

lemma memory_log_inv_new:
  "InMemoryDeliveryLogLimit_new n = Ok limit \<Longrightarrow> memory_log_inv (InMemoryDeliveryLog_new limit)"
  by (auto simp: memory_log_inv_def InMemoryDeliveryLog_new_def InMemoryDeliveryLogLimit_new_def
      ml_len_dom order_ok_def terminal_at_def pending_plain_def MIN_IN_MEMORY_LOG_ENTRIES_def
      split: if_splits)

lemma ml_len_fmupd: "ml_len (fmupd d r m) = (if fmlookup m d = None then Suc (ml_len m) else ml_len m)"
  using finite_dom_fmlookup [of m] by (auto simp: ml_len_dom insert_absorb fmlookup_dom'_iff)

lemma ml_len_fmdrop: "fmlookup m d \<noteq> None \<Longrightarrow> ml_len (fmdrop d m) = ml_len m - 1"
proof -
  assume "fmlookup m d \<noteq> None"
  moreover have "dom (fmlookup (fmdrop d m)) = dom (fmlookup m) - {d}"
    by (auto simp: dom_def)
  ultimately show ?thesis using finite_dom_fmlookup [of m] by (auto simp: ml_len_dom fmlookup_dom'_iff)
qed

text \<open>One eviction is enough, and it takes the oldest terminal record.\<close>

lemma make_room_result:
  assumes "ml_len m \<le> limit" and "order_ok m order"
  shows "make_room limit m order =
    (if ml_len m < limit then (True, m, order)
     else (case order of [] \<Rightarrow> (False, m, [])
           | d # rest \<Rightarrow> (0 < limit, fmdrop d m, rest)))"
proof (cases order)
  case Nil
  then show ?thesis by simp
next
  case (Cons d rest)
  show ?thesis
  proof (cases "ml_len m < limit")
    case False
    from Cons assms(2) obtain r where r: "fmlookup m d = Some r" "is_terminal (dr_state r)"
      by (auto simp: order_ok_def terminal_at_def)
    with False assms(1) have len: "ml_len (fmdrop d m) = limit - 1"
      by (simp add: ml_len_fmdrop)
    have pos: "0 < limit"
    proof (rule ccontr)
      assume "\<not> 0 < limit"
      with assms(1) finite_dom_fmlookup [of m] have "dom (fmlookup m) = {}"
        by (simp add: ml_len_dom)
      with r(1) show False by (auto simp: dom_def)
    qed
    with False Cons r len show ?thesis by (cases rest) simp_all
  qed (simp add: Cons)
qed

text \<open>Dropping the head of the order, or finishing a pending record, keeps the order exact.\<close>

lemma order_ok_drop: "order_ok m (d # rest) \<Longrightarrow> order_ok (fmdrop d m) rest"
  by (auto simp: order_ok_def terminal_at_def)

lemma order_ok_pending:
  assumes "order_ok m order" and "\<not> terminal_at m d" and "dr_state r = Pending"
  shows "order_ok (fmupd d r m) order"
  using assms by (auto simp: order_ok_def terminal_at_def)

lemma order_ok_finish:
  assumes "order_ok m order" and "\<not> terminal_at m d" and "is_terminal (dr_state r)"
  shows "order_ok (fmupd d r m) (order @ [d])"
  using assms by (auto simp: order_ok_def terminal_at_def)

lemma purged_drop: "terminal_at m d \<Longrightarrow> purged (fmlookup m) (fmlookup (fmdrop d m))"
  by (auto simp: purged_def terminal_at_def)

section \<open>What each operation does\<close>

lemma memory_insert_result:
  assumes "memory_log_inv s" and "memory_insert_intent s i = (r, s')"
  shows "memory_log_inv s'"
    and "r = Ok u \<Longrightarrow> \<exists>m. purged (memory_recs s) m \<and> m (di_delivery i) = None \<and>
        memory_recs s' = m(di_delivery i \<mapsto> fresh_record i)"
    and "r = Err e \<Longrightarrow> memory_recs s' = memory_recs s"
proof -
  have inv: "ml_len (ml_records s) \<le> ml_limit s" "order_ok (ml_records s) (ml_terminal_order s)"
    "0 < ml_limit s" "pending_plain (ml_records s)"
    using assms(1) by (simp_all add: memory_log_inv_def)
  note room = make_room_result [OF inv(1,2)]
  have "memory_log_inv s' \<and>
    (r = Ok u \<longrightarrow> (\<exists>m. purged (memory_recs s) m \<and> m (di_delivery i) = None \<and>
        memory_recs s' = m(di_delivery i \<mapsto> fresh_record i))) \<and>
    (\<forall>e. r = Err e \<longrightarrow> memory_recs s' = memory_recs s)"
  proof (cases "ml_poisoned s \<or> fmlookup (ml_records s) (di_delivery i) \<noteq> None")
    case True
    with assms show ?thesis by (auto simp: memory_insert_intent_def split: if_splits)
  next
    case False
    then have new: "fmlookup (ml_records s) (di_delivery i) = None" by simp
    show ?thesis
    proof (cases "ml_len (ml_records s) < ml_limit s")
      case True
      with False room assms have r: "r = Ok ()" "s' = s\<lparr>ml_records := fmupd (di_delivery i)
          (fresh_record i) (ml_records s), ml_terminal_order := ml_terminal_order s\<rparr>"
        by (auto simp: memory_insert_intent_def fresh_record_def)
      with True inv new show ?thesis
        by (auto simp: memory_log_inv_def memory_recs_def ml_len_fmupd fresh_record_def
            DeliveryRecord_from_stored_parts_def pending_plain_def terminal_at_def
            intro!: order_ok_pending exI [of _ "fmlookup (ml_records s)"])
    next
      case full: False
      show ?thesis
      proof (cases "ml_terminal_order s")
        case Nil
        with False full room assms show ?thesis
          by (auto simp: memory_insert_intent_def memory_recs_def memory_log_inv_def)
      next
        case (Cons d rest)
        let ?m = "fmdrop d (ml_records s)"
        have t: "terminal_at (ml_records s) d" using inv(2) Cons unfolding order_ok_def by auto
        have ord: "order_ok ?m rest" using inv(2) Cons order_ok_drop by simp
        from t have len: "ml_len ?m = ml_limit s - 1"
          using full inv(1) by (auto simp: ml_len_fmdrop terminal_at_def)
        from False full room Cons inv(3) assms have r: "r = Ok ()"
          "s' = s\<lparr>ml_records := fmupd (di_delivery i) (fresh_record i) ?m, ml_terminal_order := rest\<rparr>"
          by (auto simp: memory_insert_intent_def fresh_record_def)
        from new have new': "fmlookup ?m (di_delivery i) = None" by simp
        have "memory_log_inv s'"
          using r ord len inv(3,4) new'
          by (auto simp: memory_log_inv_def ml_len_fmupd pending_plain_def fresh_record_def
              DeliveryRecord_from_stored_parts_def terminal_at_def intro!: order_ok_pending)
        with r new' purged_drop [OF t] show ?thesis
          by (auto simp: memory_recs_def intro!: exI [of _ "fmlookup ?m"])
      qed
    qed
  qed
  then show "memory_log_inv s'"
    and "r = Ok u \<Longrightarrow> \<exists>m. purged (memory_recs s) m \<and> m (di_delivery i) = None \<and>
        memory_recs s' = m(di_delivery i \<mapsto> fresh_record i)"
    and "r = Err e \<Longrightarrow> memory_recs s' = memory_recs s"
    by blast+
qed

lemma attempted_record:
  "dr_state x = Pending \<Longrightarrow> dr_result x = None \<Longrightarrow>
     DeliveryRecord_from_stored_parts (dr_intent x) n Pending t None =
       x\<lparr>dr_attempts := n, dr_updated_at := t\<rparr>"
  by (cases x) (simp add: DeliveryRecord_from_stored_parts_def)

lemma finished_record:
  "DeliveryRecord_from_stored_parts (dr_intent x) (dr_attempts x) (Terminal out) t res =
     x\<lparr>dr_state := Terminal out, dr_updated_at := t, dr_result := res\<rparr>"
  by (cases x) (simp add: DeliveryRecord_from_stored_parts_def)

lemma memory_attempt_result:
  assumes "memory_log_inv s" and "memory_record_attempt s d n t = (r, s')"
  shows "memory_log_inv s'"
    and "r = Ok u \<Longrightarrow> \<exists>x. memory_recs s d = Some x \<and> dr_state x = Pending \<and> dr_attempts x < n \<and>
        memory_recs s' = (memory_recs s)(d \<mapsto> x\<lparr>dr_attempts := n, dr_updated_at := t\<rparr>)"
    and "r = Err e \<Longrightarrow> memory_recs s' = memory_recs s"
proof -
  have "(\<exists>e. r = Err e \<and> s' = s) \<or>
    (\<exists>x. r = Ok () \<and> fmlookup (ml_records s) d = Some x \<and> dr_state x = Pending \<and>
      dr_attempts x < n \<and> s' = s\<lparr>ml_records := fmupd d (x\<lparr>dr_attempts := n, dr_updated_at := t\<rparr>)
        (ml_records s)\<rparr>)"
    using assms
    by (auto simp: memory_record_attempt_def attempted_record
        memory_log_inv_def pending_plain_def split: if_splits option.splits)
  moreover have "memory_log_inv (s\<lparr>ml_records := fmupd d (x\<lparr>dr_attempts := n, dr_updated_at := t\<rparr>)
        (ml_records s)\<rparr>)" if "fmlookup (ml_records s) d = Some x" "dr_state x = Pending" for x
    using that assms(1)
    by (auto simp: memory_log_inv_def ml_len_fmupd pending_plain_def terminal_at_def
        intro!: order_ok_pending)
  ultimately show "memory_log_inv s'"
    and "r = Ok u \<Longrightarrow> \<exists>x. memory_recs s d = Some x \<and> dr_state x = Pending \<and> dr_attempts x < n \<and>
        memory_recs s' = (memory_recs s)(d \<mapsto> x\<lparr>dr_attempts := n, dr_updated_at := t\<rparr>)"
    and "r = Err e \<Longrightarrow> memory_recs s' = memory_recs s"
    using assms(1) by (auto simp: memory_recs_def)
qed

lemma memory_outcome_result:
  assumes "memory_log_inv s" and "memory_record_outcome s d out t res = (r, s')"
  shows "memory_log_inv s'"
    and "r = Ok u \<Longrightarrow> \<exists>x. memory_recs s d = Some x \<and> dr_state x = Pending \<and>
        memory_recs s' = (memory_recs s)(d \<mapsto>
          x\<lparr>dr_state := Terminal out, dr_updated_at := t, dr_result := res\<rparr>)"
    and "r = Err e \<Longrightarrow> memory_recs s' = memory_recs s"
proof -
  let ?y = "\<lambda>x. x\<lparr>dr_state := Terminal out, dr_updated_at := t, dr_result := res\<rparr>"
  have "(\<exists>e. r = Err e \<and> s' = s) \<or>
    (\<exists>x. r = Ok () \<and> fmlookup (ml_records s) d = Some x \<and> dr_state x = Pending \<and>
      s' = s\<lparr>ml_records := fmupd d (?y x) (ml_records s),
             ml_terminal_order := ml_terminal_order s @ [d]\<rparr>)"
    using assms
    by (auto simp: memory_record_outcome_def finished_record split: if_splits option.splits)
  moreover have "memory_log_inv (s\<lparr>ml_records := fmupd d (?y x) (ml_records s),
             ml_terminal_order := ml_terminal_order s @ [d]\<rparr>)"
    if "fmlookup (ml_records s) d = Some x" "dr_state x = Pending" for x
    using that assms(1)
    by (auto simp: memory_log_inv_def ml_len_fmupd pending_plain_def terminal_at_def
        intro!: order_ok_finish)
  ultimately show "memory_log_inv s'"
    and "r = Ok u \<Longrightarrow> \<exists>x. memory_recs s d = Some x \<and> dr_state x = Pending \<and>
        memory_recs s' = (memory_recs s)(d \<mapsto> ?y x)"
    and "r = Err e \<Longrightarrow> memory_recs s' = memory_recs s"
    using assms(1) by (auto simp: memory_recs_def)
qed

lemma memory_log_fields [simp]:
  "dlog_insert_intent memory_delivery_log = memory_insert_intent"
  "dlog_record_attempt memory_delivery_log = memory_record_attempt"
  "dlog_record_outcome memory_delivery_log = memory_record_outcome"
  "dlog_delivery memory_delivery_log = memory_delivery"
  "dlog_recover_unfinished memory_delivery_log = memory_recover_unfinished"
  by (simp_all add: memory_delivery_log_def)

interpretation memory_log: delivery_log_contract memory_delivery_log memory_log_inv memory_recs
  "\<lambda>_. True"
proof (unfold_locales, unfold memory_log_fields, goal_cases)
  case (1 s i) then show ?case
    using memory_insert_result(1) [of s i] by (cases "memory_insert_intent s i") simp
next
  case 2 show ?case by (rule memory_insert_result(2) [OF 2(1,3) refl])
next
  case 3 then show ?case using memory_insert_result(3) [OF 3(1,3) refl] by simp
next
  case (4 s n d t) then show ?case
    using memory_attempt_result(1) [of s d n t] by (cases "memory_record_attempt s d n t") simp
next
  case 5 show ?case by (rule memory_attempt_result(2) [OF 5(1,3) refl])
next
  case 6 show ?case by (rule memory_attempt_result(3) [OF 6(1,2) refl])
next
  case (7 s res d out t) then show ?case
    using memory_outcome_result(1) [of s d out t res]
    by (cases "memory_record_outcome s d out t res") simp
next
  case 8 show ?case by (rule memory_outcome_result(2) [OF 8(1,3) refl])
next
  case 9 show ?case by (rule memory_outcome_result(3) [OF 9(1,2) refl])
qed (auto simp: memory_delivery_def memory_recover_unfinished_def memory_recs_def split: if_splits)

section \<open>Properties\<close>

text \<open>C20 (functional): inserting an intent into the process-local log. A known delivery is a conflict;
  a log with room, or with a terminal record to drop, accepts the intent and drops at most the one
  record that became terminal first; a log full of pending records refuses it and keeps them all.\<close>

theorem memory_insert_exact:
  assumes "memory_log_inv s" and "\<not> ml_poisoned s"
  shows "(fst (memory_insert_intent s i), memory_recs (snd (memory_insert_intent s i))) =
    (if memory_recs s (di_delivery i) \<noteq> None then (Err DlConflict, memory_recs s)
     else if ml_len (ml_records s) < ml_limit s
     then (Ok (), (memory_recs s)(di_delivery i \<mapsto> fresh_record i))
     else (case ml_terminal_order s of
        [] \<Rightarrow> (Err DlCapacityExhausted, memory_recs s)
      | oldest # _ \<Rightarrow>
          (Ok (), (memory_recs s)(oldest := None, di_delivery i \<mapsto> fresh_record i))))"
proof -
  have inv: "ml_len (ml_records s) \<le> ml_limit s" "order_ok (ml_records s) (ml_terminal_order s)"
    "0 < ml_limit s"
    using assms(1) by (simp_all add: memory_log_inv_def)
  from make_room_result [OF inv(1,2)] inv(3) assms(2) show ?thesis
    by (auto simp: memory_insert_intent_def memory_recs_def fresh_record_def split: list.splits)
qed

definition sample_intent :: delivery_intent where
  "sample_intent = \<lparr>di_route = lit ''r'', di_delivery = lit ''d'', di_accepted_at = 5\<rparr>"

lemma memory_log_inv_64: "memory_log_inv (InMemoryDeliveryLog_new 64)"
  by (rule memory_log_inv_new [of 64])
    (simp add: InMemoryDeliveryLogLimit_new_def MIN_IN_MEMORY_LOG_ENTRIES_def
      MAX_IN_MEMORY_LOG_ENTRIES_def)

theorem memory_insert_exact_witness:
  "fst (memory_insert_intent (InMemoryDeliveryLog_new 64) sample_intent) = Ok ()"
  using memory_insert_exact [OF memory_log_inv_64, of sample_intent]
  by (simp add: InMemoryDeliveryLog_new_def memory_recs_def ml_len_dom)

text \<open>C19 (invariant): the process-local log never exceeds its limit, lists its terminal records exactly
  once in the order they ended, and over any sequence of operations accepts no more outcomes for a
  delivery than it accepted intents for it: every accepted intent ends at most once.\<close>

theorem memory_log_ends_once:
  assumes "memory_log_inv s" and "list_all (valid_op (\<lambda>_. True)) ops"
    and "run_log memory_delivery_log ops s = (done_ops, s')" and "memory_recs s d = None"
  shows "memory_log_inv s' \<and> outcomes_of d done_ops \<le> inserts_of d done_ops"
  using memory_log.run_log_credit [OF assms(1-3), of d] assms(4) by (simp add: weight_def)

theorem memory_log_ends_once_witness:
  "\<exists>done_ops s'. run_log memory_delivery_log
       [OpInsert sample_intent, OpOutcome (lit ''d'') Delivered 7 None,
        OpOutcome (lit ''d'') LostOnShutdown 8 None] (InMemoryDeliveryLog_new 64) = (done_ops, s') \<and>
     outcomes_of (lit ''d'') done_ops \<le> inserts_of (lit ''d'') done_ops \<and> length done_ops = 2"
proof -
  let ?ops = "[OpInsert sample_intent, OpOutcome (lit ''d'') Delivered 7 None,
        OpOutcome (lit ''d'') LostOnShutdown 8 None]"
  obtain ops s' where run: "run_log memory_delivery_log ?ops (InMemoryDeliveryLog_new 64) = (ops, s')"
    by (cases "run_log memory_delivery_log ?ops (InMemoryDeliveryLog_new 64)")
  moreover have "length ops = 2"
    using run
    by (auto simp: run_op_def memory_insert_intent_def memory_record_outcome_def
        InMemoryDeliveryLog_new_def sample_intent_def ml_len_dom DeliveryRecord_from_stored_parts_def
        split: prod.splits if_splits)
  ultimately show ?thesis
    using memory_log_ends_once [OF memory_log_inv_64 _ run, of "lit ''d''"]
    by (auto simp: valid_op_def memory_recs_def InMemoryDeliveryLog_new_def)
qed

end
