(* ===== verification/Sql_Usage.thy ===== *)
theory Sql_Usage
  imports Sql_Database
begin

text \<open>
  Storage accounting (\<open>bondry-store-sqlcipher/src/usage.rs\<close>): the table \<open>storage_usage\<close> holds the
  record count and charged bytes of the two bounded tables, kept by triggers on every insertion and
  deletion and guarded by \<open>CHECK\<close> constraints. A statement whose trigger violates a constraint fails
  as a whole. The readers reject usage that cannot be right.
\<close>

datatype usage_table = DeliveryLogTable | WebhookDedupTable

fun minimum_charge :: "usage_table \<Rightarrow> int" where
  "minimum_charge DeliveryLogTable = 512"
| "minimum_charge WebhookDedupTable = 96"

definition usage_read :: "usage_table \<Rightarrow> usage_row \<Rightarrow> (int \<times> int) option" where
  "usage_read t u =
     (case checked_mul_i64 (us_records u) (minimum_charge t) of
        None \<Rightarrow> None
      | Some minimum \<Rightarrow>
          if us_records u < 0 \<or> us_charged_bytes u < minimum
             \<or> (us_records u = 0 \<and> us_charged_bytes u \<noteq> 0)
             \<or> (t = DeliveryLogTable \<and> us_charged_bytes u \<noteq> minimum)
          then None
          else Some (us_records u, us_charged_bytes u))"

text \<open>The constraints of \<open>storage_usage\<close> on the row of one table.\<close>

definition usage_check :: "usage_table \<Rightarrow> usage_row \<Rightarrow> bool" where
  "usage_check t u \<longleftrightarrow>
     us_records u \<ge> 0 \<and> us_charged_bytes u \<ge> 0 \<and>
     (us_records u \<noteq> 0 \<or> us_charged_bytes u = 0) \<and>
     us_charged_bytes u \<ge> us_records u * 96 \<and>
     (t = DeliveryLogTable \<longrightarrow> us_charged_bytes u = us_records u * 512)"

definition usage_insert :: "usage_table \<Rightarrow> int \<Rightarrow> usage_row \<Rightarrow> usage_row option" where
  "usage_insert t charge u =
     (let u' = \<lparr>us_records = us_records u + 1, us_charged_bytes = us_charged_bytes u + charge\<rparr>
      in if usage_check t u' then Some u' else None)"

definition usage_delete :: "usage_table \<Rightarrow> int \<Rightarrow> usage_row \<Rightarrow> usage_row option" where
  "usage_delete t charge u =
     (let u' = \<lparr>us_records = us_records u - 1, us_charged_bytes = us_charged_bytes u - charge\<rparr>
      in if usage_check t u' then Some u' else None)"

text \<open>A \<open>DELETE\<close> with its trigger: the rows that stay and the usage after it.\<close>

fun delete_rows ::
    "usage_table \<Rightarrow> ('r \<Rightarrow> int) \<Rightarrow> ('r \<Rightarrow> bool) \<Rightarrow> 'r list \<Rightarrow> usage_row \<Rightarrow> ('r list \<times> usage_row) option"
  where
  "delete_rows t charge p [] u = Some ([], u)"
| "delete_rows t charge p (r # rs) u =
     (if p r
      then (case usage_delete t (charge r) u of
              None \<Rightarrow> None
            | Some u' \<Rightarrow> delete_rows t charge p rs u')
      else map_option (map_prod ((#) r) id) (delete_rows t charge p rs u))"

text \<open>\<open>usage::refresh\<close> recomputes the usage of a table from its rows.\<close>

definition refresh :: "usage_table \<Rightarrow> ('r \<Rightarrow> int) \<Rightarrow> 'r list \<Rightarrow> usage_row option" where
  "refresh t charge rows =
     (if list_all (\<lambda>r. if t = DeliveryLogTable then charge r = 512 else charge r \<ge> 96) rows
      then Some \<lparr>us_records = int (length rows), us_charged_bytes = sum_list (map charge rows)\<rparr>
      else None)"

section \<open>Exact accounting\<close>

definition usage_exact :: "('r \<Rightarrow> int) \<Rightarrow> 'r list \<Rightarrow> usage_row \<Rightarrow> bool" where
  "usage_exact charge rows u \<longleftrightarrow>
     us_records u = int (length rows) \<and> us_charged_bytes u = sum_list (map charge rows)"

definition charges_ok :: "usage_table \<Rightarrow> ('r \<Rightarrow> int) \<Rightarrow> 'r list \<Rightarrow> bool" where
  "charges_ok t charge rows \<longleftrightarrow>
     list_all (\<lambda>r. if t = DeliveryLogTable then charge r = 512 else charge r \<ge> 96) rows"

lemma charges_sum:
  assumes "charges_ok t charge rows"
  shows "sum_list (map charge rows) \<ge> int (length rows) * 96"
    and "t = DeliveryLogTable \<Longrightarrow> sum_list (map charge rows) = int (length rows) * 512"
proof -
  have each: "charge r \<ge> 96" "t = DeliveryLogTable \<Longrightarrow> charge r = 512" if "r \<in> set rows" for r
    using assms that by (auto simp: charges_ok_def list_all_iff split: if_splits)
  then show "sum_list (map charge rows) \<ge> int (length rows) * 96"
    by (induction rows) (auto simp: algebra_simps, force)
  show "t = DeliveryLogTable \<Longrightarrow> sum_list (map charge rows) = int (length rows) * 512"
    using each(2) by (induction rows) (auto simp: algebra_simps)
qed

lemma exact_usage_check:
  "charges_ok t charge rows \<Longrightarrow> usage_exact charge rows u \<Longrightarrow> usage_check t u"
  using charges_sum [of t charge rows]
  by (cases rows) (auto simp: usage_check_def usage_exact_def)

lemma usage_insert_exact:
  assumes "charges_ok t charge (rows @ [r])" and "usage_exact charge rows u"
  shows "\<exists>u'. usage_insert t (charge r) u = Some u' \<and> usage_exact charge (rows @ [r]) u'"
proof -
  let ?u = "\<lparr>us_records = us_records u + 1, us_charged_bytes = us_charged_bytes u + charge r\<rparr>"
  have "usage_exact charge (rows @ [r]) ?u" using assms(2) by (simp add: usage_exact_def)
  moreover from exact_usage_check [OF assms(1) this] have "usage_check t ?u" .
  ultimately show ?thesis by (simp add: usage_insert_def Let_def)
qed

text \<open>With exact usage a deletion never fails and stays exact; the rows already scanned are \<open>pre\<close>.\<close>

lemma delete_rows_from:
  assumes "charges_ok t charge (pre @ rows)" and "usage_exact charge (pre @ rows) u"
  shows "\<exists>u'. delete_rows t charge p rows u = Some (filter (\<lambda>r. \<not> p r) rows, u') \<and>
    usage_exact charge (pre @ filter (\<lambda>r. \<not> p r) rows) u'"
  using assms
proof (induction rows arbitrary: pre u)
  case (Cons r rows)
  show ?case
  proof (cases "p r")
    case True
    let ?u = "\<lparr>us_records = us_records u - 1, us_charged_bytes = us_charged_bytes u - charge r\<rparr>"
    have ok: "charges_ok t charge (pre @ rows)" using Cons.prems(1) by (simp add: charges_ok_def)
    have ex: "usage_exact charge (pre @ rows) ?u" using Cons.prems(2) by (simp add: usage_exact_def)
    from exact_usage_check [OF ok ex] have "usage_delete t (charge r) u = Some ?u"
      by (simp add: usage_delete_def Let_def)
    with Cons.IH [OF ok ex] True show ?thesis by simp
  next
    case False
    from Cons.IH [of "pre @ [r]" u] Cons.prems False show ?thesis by auto
  qed
qed simp

lemma delete_rows_exact:
  assumes "charges_ok t charge rows" and "usage_exact charge rows u"
  obtains u' where "delete_rows t charge p rows u = Some (filter (\<lambda>r. \<not> p r) rows, u')"
    and "usage_exact charge (filter (\<lambda>r. \<not> p r) rows) u'"
  using delete_rows_from [of t charge "[]" rows u p] assms by auto

lemma charges_ok_filter: "charges_ok t charge rows \<Longrightarrow> charges_ok t charge (filter p rows)"
  by (auto simp: charges_ok_def list_all_iff)

lemma usage_read_exact:
  assumes "charges_ok t charge rows" and "usage_exact charge rows u" and "int (length rows) < 2 ^ 50"
  shows "usage_read t u = Some (int (length rows), sum_list (map charge rows))"
proof -
  have "checked_mul_i64 (us_records u) (minimum_charge t) = Some (int (length rows) * minimum_charge t)"
    using assms(2,3)
    by (cases t) (auto simp: checked_mul_i64_def in_i64_def i64_min_def i64_max_def usage_exact_def)
  with charges_sum [OF assms(1)] assms(2) show ?thesis
    by (cases t; cases rows) (auto simp: usage_read_def usage_exact_def)
qed

end
