(* ===== verification/Sql_Delivery.thy ===== *)
theory Sql_Delivery
  imports Sql_Usage Delivery_Model
begin

text \<open>
  The persistent delivery log (\<open>bondry-store-sqlcipher/src/delivery.rs\<close>) over the table
  \<open>delivery_log\<close>, with its encodings, constraints, retention and storage accounting. The theory ends
  with the interpretation of \<open>delivery_log_contract\<close> on it.
\<close>

section \<open>Encoding\<close>

definition delivery_encoded_time :: "nat \<Rightarrow> delivery_log_error + int" where
  "delivery_encoded_time v = ok_or DlInvalidTransition (i64_try_from (int v))"

fun encode_failure :: "delivery_failure \<Rightarrow> rstr" where
  "encode_failure DfCancelled = lit ''cancelled''"
| "encode_failure DfDeadlineExceeded = lit ''deadline_exceeded''"
| "encode_failure DfEndpointPolicy = lit ''endpoint_policy''"
| "encode_failure DfSecretUnavailable = lit ''secret_unavailable''"
| "encode_failure DfTransportUnavailable = lit ''transport_unavailable''"
| "encode_failure DfReceiverRejected = lit ''receiver_rejected''"
| "encode_failure DfRetryExhausted = lit ''retry_exhausted''"
| "encode_failure DfInternal = lit ''internal''"

definition decode_failure :: "rstr \<Rightarrow> delivery_log_error + delivery_failure" where
  "decode_failure v =
     (if v = lit ''cancelled'' then Ok DfCancelled
      else if v = lit ''deadline_exceeded'' then Ok DfDeadlineExceeded
      else if v = lit ''endpoint_policy'' then Ok DfEndpointPolicy
      else if v = lit ''secret_unavailable'' then Ok DfSecretUnavailable
      else if v = lit ''transport_unavailable'' then Ok DfTransportUnavailable
      else if v = lit ''receiver_rejected'' then Ok DfReceiverRejected
      else if v = lit ''retry_exhausted'' then Ok DfRetryExhausted
      else if v = lit ''internal'' then Ok DfInternal
      else Err DlUnavailable)"

fun encode_delivery_outcome :: "delivery_outcome \<Rightarrow> rstr \<times> rstr option" where
  "encode_delivery_outcome Delivered = (lit ''delivered'', None)"
| "encode_delivery_outcome (DeliveryFailed f) = (lit ''failed'', Some (encode_failure f))"
| "encode_delivery_outcome LostOnShutdown = (lit ''lost_on_shutdown'', None)"
| "encode_delivery_outcome UnknownAfterCrash = (lit ''unknown_after_crash'', None)"

definition decode_delivery_state :: "rstr \<Rightarrow> rstr option \<Rightarrow> delivery_log_error + delivery_state" where
  "decode_delivery_state state failure =
     (if state = lit ''pending'' \<and> failure = None then Ok Pending
      else if state = lit ''delivered'' \<and> failure = None then Ok (Terminal Delivered)
      else if state = lit ''failed'' \<and> failure \<noteq> None
      then bindR (decode_failure (the failure)) (\<lambda>f. Ok (Terminal (DeliveryFailed f)))
      else if state = lit ''lost_on_shutdown'' \<and> failure = None then Ok (Terminal LostOnShutdown)
      else if state = lit ''unknown_after_crash'' \<and> failure = None
      then Ok (Terminal UnknownAfterCrash)
      else Err DlUnavailable)"

fun encode_category :: "delivery_result_category \<Rightarrow> rstr" where
  "encode_category DrcSucceeded = lit ''succeeded''"
| "encode_category DrcFailed = lit ''failed''"
| "encode_category DrcInvalid = lit ''invalid''"

definition encode_result ::
    "delivery_result_metadata option \<Rightarrow> rstr option \<times> int option" where
  "encode_result r = (case r of None \<Rightarrow> (None, None)
     | Some m \<Rightarrow> (Some (encode_category (rm_category m)), Some (int (rm_bytes m))))"

definition decode_result ::
    "rstr option \<Rightarrow> int option \<Rightarrow> delivery_log_error + delivery_result_metadata option" where
  "decode_result category bs =
     (case (category, bs) of
        (None, None) \<Rightarrow> Ok None
      | (Some cat, Some n) \<Rightarrow>
          bindR (if cat = lit ''succeeded'' then Ok DrcSucceeded
                 else if cat = lit ''failed'' then Ok DrcFailed
                 else if cat = lit ''invalid'' then Ok DrcInvalid
                 else Err DlUnavailable) (\<lambda>cat.
          bindR (ok_or DlUnavailable (u32_try_from n)) (\<lambda>n.
            Ok (Some \<lparr>rm_category = cat, rm_bytes = n\<rparr>)))
      | _ \<Rightarrow> Err DlUnavailable)"

definition RawDeliveryRecord_validate :: "delivery_row \<Rightarrow> delivery_log_error + delivery_record" where
  "RawDeliveryRecord_validate r =
     bindR (map_err (\<lambda>_. DlUnavailable) (DeliveryId_new (dl_delivery r))) (\<lambda>d.
     bindR (map_err (\<lambda>_. DlUnavailable) (RouteId_new (dl_route r))) (\<lambda>route.
     bindR (ok_or DlUnavailable (u64_try_from (dl_accepted_at_ms r))) (\<lambda>accepted_at.
     bindR (ok_or DlUnavailable (u16_try_from (dl_attempts r))) (\<lambda>attempts.
     bindR (ok_or DlUnavailable (u64_try_from (dl_updated_at_ms r))) (\<lambda>updated_at.
     bindR (decode_delivery_state (dl_state r) (dl_failure r)) (\<lambda>state.
     bindR (decode_result (dl_result_category r) (dl_result_bytes r)) (\<lambda>result.
       Ok (DeliveryRecord_from_stored_parts
             \<lparr>di_route = route, di_delivery = d, di_accepted_at = accepted_at\<rparr>
             attempts state updated_at result))))))))"

section \<open>Statements\<close>

text \<open>The \<open>CHECK\<close> constraints of the table.\<close>

definition delivery_row_check :: "delivery_row \<Rightarrow> bool" where
  "delivery_row_check r \<longleftrightarrow>
     0 \<le> dl_accepted_at_ms r \<and> 0 \<le> dl_attempts r \<and> dl_attempts r \<le> 65535 \<and>
     dl_state r \<in> {lit ''pending'', lit ''delivered'', lit ''failed'', lit ''lost_on_shutdown'',
       lit ''unknown_after_crash''} \<and>
     0 \<le> dl_updated_at_ms r \<and> dl_charged_bytes r = 512 \<and>
     (dl_state r = lit ''failed'' \<longleftrightarrow> dl_failure r \<noteq> None) \<and>
     (dl_result_category r = None \<and> dl_result_bytes r = None \<or>
      dl_state r \<noteq> lit ''pending'' \<and> dl_result_category r \<noteq> None \<and>
      (case dl_result_bytes r of None \<Rightarrow> False | Some n \<Rightarrow> 0 \<le> n))"

definition delete_delivery_rows :: "(delivery_row \<Rightarrow> bool) \<Rightarrow> database \<Rightarrow> database option" where
  "delete_delivery_rows p d =
     map_option (\<lambda>(rows, u). d\<lparr>db_delivery := rows, db_usage_delivery := u\<rparr>)
       (delete_rows DeliveryLogTable dl_charged_bytes p (db_delivery d) (db_usage_delivery d))"

text \<open>\<open>INSERT OR IGNORE\<close>: the number of rows inserted and the database, or a failure.\<close>

definition insert_delivery_row :: "delivery_row \<Rightarrow> database \<Rightarrow> (nat \<times> database) option" where
  "insert_delivery_row r d =
     (if tbl dl_delivery (db_delivery d) (dl_delivery r) \<noteq> None \<or> \<not> delivery_row_check r
      then Some (0, d)
      else if db_seq_delivery d \<ge> i64_max then None
      else
        (case usage_insert DeliveryLogTable (dl_charged_bytes r) (db_usage_delivery d) of
           None \<Rightarrow> None
         | Some u \<Rightarrow>
             Some (1, d\<lparr>db_seq_delivery := db_seq_delivery d + 1,
               db_delivery := db_delivery d @ [r\<lparr>dl_sequence := db_seq_delivery d + 1\<rparr>],
               db_usage_delivery := u\<rparr>)))"

definition update_delivery_rows ::
    "(delivery_row \<Rightarrow> bool) \<Rightarrow> (delivery_row \<Rightarrow> delivery_row) \<Rightarrow> database \<Rightarrow> (nat \<times> database) option" where
  "update_delivery_rows p f d =
     (if \<exists>r\<in>set (db_delivery d). p r \<and> \<not> delivery_row_check (f r) then None
      else Some (count_rows p (db_delivery d),
                 d\<lparr>db_delivery := update_rows p f (db_delivery d)\<rparr>))"

section \<open>Operations\<close>

text \<open>The second half of \<open>insert_intent\<close> inside its transaction: capacity, then the statement.\<close>

definition sql_insert_checked ::
    "delivery_log_limits \<Rightarrow> delivery_intent \<Rightarrow> int \<Rightarrow> conn
       \<Rightarrow> (delivery_log_error + unit) \<times> bool \<times> conn" where
  "sql_insert_checked limits intent accepted_at c =
     attemptT DlUnavailable c (\<lambda>c.
       case usage_read DeliveryLogTable (db_usage_delivery (cn_data c)) of
         None \<Rightarrow> (Err DlUnavailable, False, c)
       | Some (records, bs) \<Rightarrow>
           let charged_bytes = int PERSISTENT_DELIVERY_RECORD_CHARGE_BYTES in
           if records \<ge> int (ll_records limits)
              \<or> saturating_add_i64 bs charged_bytes > int (ll_bytes limits)
           then commit DlUnavailable c (Err DlCapacityExhausted)
           else
             attemptT DlUnavailable c (\<lambda>c.
               case insert_delivery_row
                      \<lparr>dl_sequence = 0, dl_delivery = di_delivery intent,
                       dl_route = di_route intent, dl_accepted_at_ms = accepted_at,
                       dl_attempts = 0, dl_state = lit ''pending'', dl_failure = None,
                       dl_updated_at_ms = accepted_at, dl_result_category = None,
                       dl_result_bytes = None, dl_charged_bytes = charged_bytes\<rparr>
                      (cn_data c) of
                 None \<Rightarrow> (Err DlUnavailable, False, c)
               | Some (changed, d) \<Rightarrow>
                   commit DlUnavailable (update_data (\<lambda>_. d) c)
                     (if changed \<noteq> 1 then Err DlConflict else Ok ())))"

definition sql_insert_intent_body ::
    "delivery_log_limits \<Rightarrow> delivery_intent \<Rightarrow> int \<Rightarrow> int \<Rightarrow> conn
       \<Rightarrow> (delivery_log_error + unit) \<times> bool \<times> conn" where
  "sql_insert_intent_body limits intent accepted_at cutoff c =
     attemptT DlUnavailable c (\<lambda>c.
       case delete_delivery_rows (\<lambda>r. dl_state r \<noteq> lit ''pending'' \<and> dl_updated_at_ms r < cutoff)
              (cn_data c) of
         None \<Rightarrow> (Err DlUnavailable, False, c)
       | Some d \<Rightarrow>
           attemptT DlUnavailable (update_data (\<lambda>_. d) c) (\<lambda>c.
             if tbl dl_delivery (db_delivery (cn_data c)) (di_delivery intent) \<noteq> None
             then commit DlUnavailable c (Err DlConflict)
             else sql_insert_checked limits intent accepted_at c))"

definition sql_insert_intent ::
    "delivery_log_limits \<Rightarrow> conn \<Rightarrow> delivery_intent \<Rightarrow> (delivery_log_error + unit) \<times> conn" where
  "sql_insert_intent limits c intent =
     (case delivery_encoded_time (di_accepted_at intent) of
        Inl e \<Rightarrow> (Err e, c)
      | Inr accepted_at \<Rightarrow>
          (case i64_try_from (int (as_millis (ll_retention limits))) of
             None \<Rightarrow> (Err DlInvalidTransition, c)
           | Some retention \<Rightarrow>
               let cutoff = saturating_sub_i64 accepted_at retention in
               attempt DlUnavailable c (\<lambda>c.
                 transaction DlUnavailable c
                   (sql_insert_intent_body limits intent accepted_at cutoff))))"

definition delivery_transition ::
    "conn \<Rightarrow> delivery_id \<Rightarrow> (database \<Rightarrow> (nat \<times> database) option)
       \<Rightarrow> (delivery_log_error + unit) \<times> conn" where
  "delivery_transition c delivery update =
     attempt DlUnavailable c (\<lambda>c. transaction DlUnavailable c (\<lambda>c.
       attemptT DlUnavailable c (\<lambda>c.
         case update (cn_data c) of
           None \<Rightarrow> (Err DlUnavailable, False, c)
         | Some (changed, d) \<Rightarrow>
             (let c = update_data (\<lambda>_. d) c in
              if changed = 1 then commit DlUnavailable c (Ok ())
              else
                attemptT DlUnavailable c (\<lambda>c.
                  if tbl dl_delivery (db_delivery (cn_data c)) delivery \<noteq> None
                  then (Err DlInvalidTransition, False, c)
                  else (Err DlNotFound, False, c))))))"

definition sql_record_attempt ::
    "conn \<Rightarrow> delivery_id \<Rightarrow> nat \<Rightarrow> nat \<Rightarrow> (delivery_log_error + unit) \<times> conn" where
  "sql_record_attempt c delivery attempts updated_at_unix_ms =
     (if attempts = 0 then (Err DlInvalidTransition, c)
      else
        (case delivery_encoded_time updated_at_unix_ms of
           Inl e \<Rightarrow> (Err e, c)
         | Inr updated_at \<Rightarrow>
             delivery_transition c delivery
               (update_delivery_rows
                  (\<lambda>r. dl_delivery r = delivery \<and> dl_state r = lit ''pending'' \<and>
                    dl_attempts r < int attempts)
                  (\<lambda>r. r\<lparr>dl_attempts := int attempts, dl_updated_at_ms := updated_at\<rparr>))))"

definition sql_record_outcome ::
    "conn \<Rightarrow> delivery_id \<Rightarrow> delivery_outcome \<Rightarrow> nat \<Rightarrow> delivery_result_metadata option
       \<Rightarrow> (delivery_log_error + unit) \<times> conn" where
  "sql_record_outcome c delivery outcome updated_at_unix_ms result =
     (case delivery_encoded_time updated_at_unix_ms of
        Inl e \<Rightarrow> (Err e, c)
      | Inr updated_at \<Rightarrow>
          (case encode_delivery_outcome outcome of
             (state, failure) \<Rightarrow>
               (case encode_result result of
                  (result_category, result_bytes) \<Rightarrow>
                    delivery_transition c delivery
                      (update_delivery_rows
                         (\<lambda>r. dl_delivery r = delivery \<and> dl_state r = lit ''pending'')
                         (\<lambda>r. r\<lparr>dl_state := state, dl_failure := failure,
                            dl_updated_at_ms := updated_at, dl_result_category := result_category,
                            dl_result_bytes := result_bytes\<rparr>)))))"

definition sql_delivery ::
    "conn \<Rightarrow> delivery_id \<Rightarrow> (delivery_log_error + delivery_record option) \<times> conn" where
  "sql_delivery c delivery =
     attempt DlUnavailable c (\<lambda>c. attempt DlUnavailable c (\<lambda>c.
       (transposeR RawDeliveryRecord_validate
          (tbl dl_delivery (db_delivery (cn_data c)) delivery), c)))"

definition sql_recover_unfinished ::
    "conn \<Rightarrow> nat \<Rightarrow> (delivery_log_error + nat) \<times> conn" where
  "sql_recover_unfinished c updated_at_unix_ms =
     (case delivery_encoded_time updated_at_unix_ms of
        Inl e \<Rightarrow> (Err e, c)
      | Inr updated_at \<Rightarrow>
          attempt DlUnavailable c (\<lambda>c. attempt DlUnavailable c (\<lambda>c.
            case update_delivery_rows (\<lambda>r. dl_state r = lit ''pending'')
                   (\<lambda>r. r\<lparr>dl_state := lit ''unknown_after_crash'', dl_updated_at_ms := updated_at\<rparr>)
                   (cn_data c) of
              None \<Rightarrow> (Err DlUnavailable, c)
            | Some (changed, d) \<Rightarrow> (Ok changed, update_data (\<lambda>_. d) c))))"

definition sql_delivery_log :: "delivery_log_limits \<Rightarrow> conn delivery_log" where
  "sql_delivery_log limits =
     \<lparr>dlog_durability = Persistent,
      dlog_insert_intent = sql_insert_intent limits,
      dlog_record_attempt = sql_record_attempt,
      dlog_record_outcome = sql_record_outcome,
      dlog_delivery = sql_delivery,
      dlog_recover_unfinished = sql_recover_unfinished\<rparr>"

section \<open>Round trips of the encodings\<close>

lemma decode_encode_failure: "decode_failure (encode_failure f) = Ok f"
  by (cases f) (simp_all add: decode_failure_def)

lemma decode_encode_state:
  "encode_delivery_outcome out = (state, failure) \<Longrightarrow>
     decode_delivery_state state failure = Ok (Terminal out) \<and> state \<noteq> lit ''pending''"
  by (cases out) (auto simp: decode_delivery_state_def decode_encode_failure)

lemma decode_encode_result:
  "encode_result r = (cat, n) \<Longrightarrow> (\<And>m. r = Some m \<Longrightarrow> rm_bytes m \<le> u32_max) \<Longrightarrow>
     decode_result cat n = Ok r"
proof (cases r)
  case (Some m)
  assume "encode_result r = (cat, n)" and "\<And>m. r = Some m \<Longrightarrow> rm_bytes m \<le> u32_max"
  with Some have "cat = Some (encode_category (rm_category m))" "n = Some (int (rm_bytes m))"
    "rm_bytes m \<le> u32_max" by (auto simp: encode_result_def)
  then show ?thesis
    unfolding Some by (cases "rm_category m") (auto simp: decode_result_def u32_try_from_def ok_or_def)
qed (auto simp: encode_result_def decode_result_def)

section \<open>Invariant\<close>

definition good_delivery_row :: "delivery_row \<Rightarrow> bool" where
  "good_delivery_row r \<longleftrightarrow> delivery_row_check r \<and> is_ok (RawDeliveryRecord_validate r)"

definition row_record :: "delivery_row \<Rightarrow> delivery_record" where
  "row_record r = projr (RawDeliveryRecord_validate r)"

definition delivery_wf :: "database \<Rightarrow> bool" where
  "delivery_wf d \<longleftrightarrow>
     keyed dl_delivery (db_delivery d) \<and> (\<forall>r\<in>set (db_delivery d). good_delivery_row r) \<and>
     usage_exact dl_charged_bytes (db_delivery d) (db_usage_delivery d) \<and>
     length (db_delivery d) \<le> 1000000"

definition del_recs :: "database \<Rightarrow> delivery_id \<rightharpoonup> delivery_record" where
  "del_recs d i = map_option row_record (tbl dl_delivery (db_delivery d) i)"

lemma validate_Ok_iff:
  "RawDeliveryRecord_validate r = Ok x \<longleftrightarrow>
     valid_identifier (dl_delivery r) \<and> valid_identifier (dl_route r) \<and>
     u64_try_from (dl_accepted_at_ms r) = Some (di_accepted_at (dr_intent x)) \<and>
     u16_try_from (dl_attempts r) = Some (dr_attempts x) \<and>
     u64_try_from (dl_updated_at_ms r) = Some (dr_updated_at x) \<and>
     decode_delivery_state (dl_state r) (dl_failure r) = Ok (dr_state x) \<and>
     decode_result (dl_result_category r) (dl_result_bytes r) = Ok (dr_result x) \<and>
     di_delivery (dr_intent x) = dl_delivery r \<and> di_route (dr_intent x) = dl_route r"
  by (cases x; cases "dr_intent x")
    (auto simp: RawDeliveryRecord_validate_def result_simps DeliveryRecord_from_stored_parts_def)

lemma good_row_record: "good_delivery_row r \<Longrightarrow> RawDeliveryRecord_validate r = Ok (row_record r)"
  by (auto simp: good_delivery_row_def row_record_def result_simps)

lemma decode_state_pending:
  "decode_delivery_state state failure = Ok st \<Longrightarrow> (st = Pending) = (state = lit ''pending'')"
  by (auto simp: decode_delivery_state_def result_simps split: if_splits)

lemma row_record_pending:
  "good_delivery_row r \<Longrightarrow> (dr_state (row_record r) = Pending) = (dl_state r = lit ''pending'')"
  using good_row_record [of r] by (auto simp: validate_Ok_iff dest: decode_state_pending)

lemma row_record_attempts:
  "good_delivery_row r \<Longrightarrow> int (dr_attempts (row_record r)) = dl_attempts r"
  using good_row_record [of r] by (auto simp: validate_Ok_iff u16_try_from_def split: if_splits)

lemma row_record_plain:
  "good_delivery_row r \<Longrightarrow> dl_state r = lit ''pending'' \<Longrightarrow>
     dl_failure r = None \<and> dl_result_category r = None \<and> dl_result_bytes r = None \<and>
     dr_result (row_record r) = None"
  using good_row_record [of r]
  by (auto simp: good_delivery_row_def delivery_row_check_def validate_Ok_iff decode_result_def)

lemma good_charges: "\<forall>r\<in>set rows. good_delivery_row r \<Longrightarrow> charges_ok DeliveryLogTable dl_charged_bytes rows"
  by (auto simp: charges_ok_def list_all_iff good_delivery_row_def delivery_row_check_def)

lemma row_record_eqI: "RawDeliveryRecord_validate r = Ok x \<Longrightarrow> row_record r = x"
  by (simp add: row_record_def)

section \<open>Effect of the statements\<close>

lemma delete_delivery_wf:
  assumes "delivery_wf d"
  obtains d' where "delete_delivery_rows p d = Some d'" "delivery_wf d'"
    "db_delivery d' = filter (\<lambda>r. \<not> p r) (db_delivery d)" "db_seq_delivery d' = db_seq_delivery d"
proof -
  from assms have ok: "charges_ok DeliveryLogTable dl_charged_bytes (db_delivery d)"
    and ex: "usage_exact dl_charged_bytes (db_delivery d) (db_usage_delivery d)"
    by (auto simp: delivery_wf_def intro: good_charges)
  obtain u where u: "delete_rows DeliveryLogTable dl_charged_bytes p (db_delivery d) (db_usage_delivery d)
      = Some (filter (\<lambda>r. \<not> p r) (db_delivery d), u)"
    "usage_exact dl_charged_bytes (filter (\<lambda>r. \<not> p r) (db_delivery d)) u"
    using delete_rows_exact [OF ok ex] by blast
  have "length (filter (\<lambda>r. \<not> p r) (db_delivery d)) \<le> 1000000"
    using assms by (intro le_trans [OF length_filter_le]) (simp add: delivery_wf_def)
  with u assms show ?thesis
    by (intro that [of "d\<lparr>db_delivery := filter (\<lambda>r. \<not> p r) (db_delivery d), db_usage_delivery := u\<rparr>"])
      (auto simp: delete_delivery_rows_def delivery_wf_def keyed_filter)
qed

lemma del_recs_filter:
  assumes "delivery_wf d" and "db_delivery d' = filter (\<lambda>r. \<not> p r) (db_delivery d)"
    and "\<And>r. p r \<Longrightarrow> dl_state r \<noteq> lit ''pending''"
  shows "purged (del_recs d) (del_recs d')"
  unfolding purged_def
proof
  fix i
  have key: "keyed dl_delivery (db_delivery d)" using assms(1) by (simp add: delivery_wf_def)
  show "del_recs d' i = del_recs d i \<or>
    del_recs d' i = None \<and> (\<exists>r. del_recs d i = Some r \<and> is_terminal (dr_state r))"
  proof (cases "tbl dl_delivery (db_delivery d) i")
    case None
    with assms(2) show ?thesis by (simp add: del_recs_def tbl_filter [OF key])
  next
    case (Some r)
    then have "good_delivery_row r" using assms(1) by (auto simp: delivery_wf_def dest: tbl_SomeD)
    with Some assms(2) assms(3) [of r] show ?thesis
      by (auto simp: del_recs_def tbl_filter [OF key] is_terminal_neq row_record_pending)
  qed
qed

lemma delivery_row_check_sequence [simp]:
  "delivery_row_check (r\<lparr>dl_sequence := n\<rparr>) = delivery_row_check r"
  by (simp add: delivery_row_check_def)

lemma insert_delivery_wf:
  assumes "delivery_wf d" and "good_delivery_row r" and "length (db_delivery d) < 1000000"
    and "insert_delivery_row r d = Some (n, d')" and "tbl dl_delivery (db_delivery d) (dl_delivery r) = None"
  shows "n = 1 \<and> delivery_wf d' \<and> del_recs d' = (del_recs d)(dl_delivery r \<mapsto> row_record r)"
proof -
  let ?r = "r\<lparr>dl_sequence := db_seq_delivery d + 1\<rparr>"
  have val: "RawDeliveryRecord_validate ?r = RawDeliveryRecord_validate r"
    by (simp add: RawDeliveryRecord_validate_def)
  then have good: "good_delivery_row ?r" and rec: "row_record ?r = row_record r"
    using assms(2) by (simp_all add: good_delivery_row_def row_record_def)
  from assms(2,4,5) obtain u where
    u: "usage_insert DeliveryLogTable (dl_charged_bytes r) (db_usage_delivery d) = Some u"
    and d': "n = 1" "d' = d\<lparr>db_seq_delivery := db_seq_delivery d + 1,
      db_delivery := db_delivery d @ [?r], db_usage_delivery := u\<rparr>"
    by (auto simp: insert_delivery_row_def good_delivery_row_def split: if_splits option.splits)
  have "charges_ok DeliveryLogTable dl_charged_bytes (db_delivery d @ [?r])"
    using assms(1) good by (intro good_charges) (auto simp: delivery_wf_def)
  from usage_insert_exact [OF this, of "db_usage_delivery d"] assms(1) u
  have "usage_exact dl_charged_bytes (db_delivery d @ [?r]) u"
    by (auto simp: delivery_wf_def)
  moreover have "keyed dl_delivery (db_delivery d @ [?r])"
    using assms(1,5) by (intro keyed_snoc) (simp_all add: delivery_wf_def)
  moreover have "del_recs d' = (del_recs d)(dl_delivery r \<mapsto> row_record r)"
    using assms(5) tbl_snoc [of dl_delivery "db_delivery d" ?r] rec
    by (auto simp: del_recs_def d' fun_eq_iff)
  ultimately show ?thesis
    using assms(1,3) good d' by (auto simp: delivery_wf_def)
qed

lemma update_delivery_wf:
  assumes "delivery_wf d" and "update_delivery_rows p f d = Some (n, d')"
    and "\<And>r. dl_delivery (f r) = dl_delivery r" "\<And>r. dl_charged_bytes (f r) = dl_charged_bytes r"
    and "\<And>r. good_delivery_row r \<Longrightarrow> p r \<Longrightarrow> delivery_row_check (f r) \<Longrightarrow> good_delivery_row (f r)"
  shows "delivery_wf d'"
    and "del_recs d' i = map_option (\<lambda>r. row_record (if p r then f r else r))
           (tbl dl_delivery (db_delivery d) i)"
    and "n = count_rows p (db_delivery d)"
proof -
  from assms(2) have n: "n = count_rows p (db_delivery d)"
    and d': "d' = d\<lparr>db_delivery := update_rows p f (db_delivery d)\<rparr>"
    and chk: "\<And>r. r \<in> set (db_delivery d) \<Longrightarrow> p r \<Longrightarrow> delivery_row_check (f r)"
    by (auto simp: update_delivery_rows_def split: if_splits)
  show "n = count_rows p (db_delivery d)" by (rule n)
  have "map dl_charged_bytes (update_rows p f (db_delivery d)) = map dl_charged_bytes (db_delivery d)"
    by (simp add: update_rows_def assms(4))
  then have "usage_exact dl_charged_bytes (update_rows p f (db_delivery d)) (db_usage_delivery d)"
    using assms(1) by (simp add: delivery_wf_def usage_exact_def)
  moreover have "\<forall>r\<in>set (update_rows p f (db_delivery d)). good_delivery_row r"
    using assms(1,5) chk by (auto simp: delivery_wf_def set_update_rows)
  ultimately show "delivery_wf d'"
    using assms(1,3) by (simp add: d' delivery_wf_def keyed_update_rows)
  show "del_recs d' i = map_option (\<lambda>r. row_record (if p r then f r else r))
           (tbl dl_delivery (db_delivery d) i)"
    using tbl_update_rows [of p dl_delivery f "db_delivery d" i] assms(3)
    by (simp add: del_recs_def d' option.map_comp o_def)
qed

section \<open>Effect of the operations\<close>

definition valid_intent :: "delivery_intent \<Rightarrow> bool" where
  "valid_intent i \<longleftrightarrow> valid_identifier (di_delivery i) \<and> valid_identifier (di_route i)"

definition sql_delivery_inv :: "delivery_log_limits \<Rightarrow> conn \<Rightarrow> bool" where
  "sql_delivery_inv limits c \<longleftrightarrow> valid_log_limits limits \<and> delivery_wf (cn_data c)"

definition sql_del_recs :: "conn \<Rightarrow> delivery_id \<rightharpoonup> delivery_record" where
  "sql_del_recs c = del_recs (cn_data c)"

abbreviation intent_row :: "delivery_intent \<Rightarrow> int \<Rightarrow> delivery_row" where
  "intent_row intent accepted_at \<equiv>
     \<lparr>dl_sequence = 0, dl_delivery = di_delivery intent, dl_route = di_route intent,
      dl_accepted_at_ms = accepted_at, dl_attempts = 0, dl_state = lit ''pending'',
      dl_failure = None, dl_updated_at_ms = accepted_at, dl_result_category = None,
      dl_result_bytes = None, dl_charged_bytes = int PERSISTENT_DELIVERY_RECORD_CHARGE_BYTES\<rparr>"

lemma encoded_time_Ok: "delivery_encoded_time v = Ok t \<longleftrightarrow> t = int v \<and> int v \<le> i64_max"
  by (auto simp: delivery_encoded_time_def result_simps int_simps in_i64_def)

lemma u64_try_from_int [simp]: "u64_try_from (int n) = (if n \<le> u64_max then Some n else None)"
  by (simp add: u64_try_from_def)

lemma i64_max_u64: "int v \<le> i64_max \<Longrightarrow> v \<le> u64_max"
  by (simp add: i64_max_def u64_max_def)

lemma intent_row_good:
  assumes "valid_intent i" and "int (di_accepted_at i) \<le> i64_max"
  shows "good_delivery_row (intent_row i (int (di_accepted_at i)))"
    and "row_record (intent_row i (int (di_accepted_at i))) = fresh_record i"
proof -
  have "RawDeliveryRecord_validate (intent_row i (int (di_accepted_at i))) = Ok (fresh_record i)"
    using assms i64_max_u64 [OF assms(2)]
    by (simp add: validate_Ok_iff valid_intent_def fresh_record_def
        DeliveryRecord_from_stored_parts_def u16_try_from_def decode_delivery_state_def
        decode_result_def)
  then show "good_delivery_row (intent_row i (int (di_accepted_at i)))"
    and "row_record (intent_row i (int (di_accepted_at i))) = fresh_record i"
    by (simp_all add: good_delivery_row_def row_record_def delivery_row_check_def
        PERSISTENT_DELIVERY_RECORD_CHARGE_BYTES_def)
qed

lemma insert_delivery_row_length:
  "insert_delivery_row r d = Some (n, d') \<Longrightarrow> length (db_delivery d') \<le> Suc (length (db_delivery d))"
  by (auto simp: insert_delivery_row_def split: if_splits option.splits)

lemma sql_insert_checked_result:
  assumes run: "sql_insert_checked limits i at c = (r, b, c')"
    and d: "cn_data c = d"
    and usage: "usage_read DeliveryLogTable (db_usage_delivery d) = Some (records, bs)"
  obtains (undone) e where "r = Err e" "\<not> b"
  | (refused) e where "r = Err e" "b" "cn_data c' = d"
  | (stored) n where "records < int (ll_records limits)"
      "insert_delivery_row (intent_row i at) d = Some (n, cn_data c')" "b"
      "r = (if n \<noteq> 1 then Err DlConflict else Ok ())"
  using run unfolding sql_insert_checked_def Let_def
proof (cases rule: attemptT_cases)
  case failed
  then show ?thesis using undone by blast
next
  case (passed c1)
  show ?thesis
  proof (cases "records \<ge> int (ll_records limits)
      \<or> saturating_add_i64 bs (int PERSISTENT_DELIVERY_RECORD_CHARGE_BYTES) > int (ll_bytes limits)")
    case True
    with passed d usage have "commit DlUnavailable c1 (Err DlCapacityExhausted) = (r, b, c')" by simp
    then show ?thesis by (cases rule: commit_cases) (use undone refused passed(1) d in auto)
  next
    case False
    with passed d usage have "attemptT DlUnavailable c1 (\<lambda>c.
        case insert_delivery_row (intent_row i at) (cn_data c) of
          None \<Rightarrow> (Err DlUnavailable, False, c)
        | Some (changed, d) \<Rightarrow>
            commit DlUnavailable (update_data (\<lambda>_. d) c)
              (if changed \<noteq> 1 then Err DlConflict else Ok ())) = (r, b, c')" by simp
    then show ?thesis
    proof (cases rule: attemptT_cases)
      case failed
      then show ?thesis using undone by blast
    next
      case (passed c2)
      with \<open>cn_data c1 = cn_data c\<close> d have d2: "cn_data c2 = d" by simp
      show ?thesis
      proof (cases "insert_delivery_row (intent_row i at) d")
        case None
        with passed d2 undone show ?thesis by auto
      next
        case (Some nd)
        obtain n d' where nd: "nd = (n, d')" by (cases nd)
        with passed d2 Some have "commit DlUnavailable (update_data (\<lambda>_. d') c2)
            (if n \<noteq> 1 then Err DlConflict else Ok ()) = (r, b, c')" by simp
        then show ?thesis
          by (cases rule: commit_cases) (use undone stored Some nd False in auto)
      qed
    qed
  qed
qed

text \<open>The body of the insertion: old terminal records go, then the intent is refused or stored.\<close>

lemma sql_insert_intent_body_result:
  assumes wf: "delivery_wf (cn_data c)" and lim: "valid_log_limits limits"
    and row: "good_delivery_row (intent_row i at)"
    and run: "sql_insert_intent_body limits i at cutoff c = (r, b, c')"
  obtains (undone) e where "r = Err e" "\<not> b"
  | (refused) e where "r = Err e" "b" "delivery_wf (cn_data c')"
      "purged (del_recs (cn_data c)) (del_recs (cn_data c'))"
  | (stored) m where "r = Ok ()" "b" "delivery_wf (cn_data c')"
      "purged (del_recs (cn_data c)) m" "m (di_delivery i) = None"
      "del_recs (cn_data c') = m(di_delivery i \<mapsto> row_record (intent_row i at))"
      "length (db_delivery (cn_data c')) \<le> ll_records limits"
proof -
  let ?p = "\<lambda>r. dl_state r \<noteq> lit ''pending'' \<and> dl_updated_at_ms r < cutoff"
  obtain d1 where d1: "delete_delivery_rows ?p (cn_data c) = Some d1" "delivery_wf d1"
    "db_delivery d1 = filter (\<lambda>r. \<not> ?p r) (db_delivery (cn_data c))"
    using delete_delivery_wf [OF wf, of ?p] by blast
  have pur: "purged (del_recs (cn_data c)) (del_recs d1)"
    by (rule del_recs_filter [OF wf d1(3)]) simp
  have len: "int (length (db_delivery d1)) < 2 ^ 50" using d1(2) by (simp add: delivery_wf_def)
  have usage: "usage_read DeliveryLogTable (db_usage_delivery d1) =
      Some (int (length (db_delivery d1)), sum_list (map dl_charged_bytes (db_delivery d1)))"
    using d1(2) len by (intro usage_read_exact) (auto simp: delivery_wf_def intro: good_charges)
  consider (a) e where "r = Err e" "\<not> b" | (bb) e where "r = Err e" "b" "cn_data c' = d1"
    | (cc) n where "tbl dl_delivery (db_delivery d1) (di_delivery i) = None"
      "length (db_delivery d1) < ll_records limits"
      "insert_delivery_row (intent_row i at) d1 = Some (n, cn_data c')" "b"
      "r = (if n \<noteq> 1 then Err DlConflict else Ok ())"
    using run unfolding sql_insert_intent_body_def
  proof (cases rule: attemptT_cases)
    case failed
    then show ?thesis using a by blast
  next
    case (passed c1)
    from passed(3) d1(1) passed(1) have "attemptT DlUnavailable (update_data (\<lambda>_. d1) c1) (\<lambda>c.
        if tbl dl_delivery (db_delivery (cn_data c)) (di_delivery i) \<noteq> None
        then commit DlUnavailable c (Err DlConflict)
        else sql_insert_checked limits i at c) = (r, b, c')"
      by simp
    then show ?thesis
    proof (cases rule: attemptT_cases)
      case failed
      then show ?thesis using a by blast
    next
      case (passed c2)
      show ?thesis
      proof (cases "tbl dl_delivery (db_delivery d1) (di_delivery i)")
        case (Some x)
        with passed have "commit DlUnavailable c2 (Err DlConflict) = (r, b, c')" by simp
        then show ?thesis by (cases rule: commit_cases) (use a bb passed(1) in auto)
      next
        case None
        with passed have "sql_insert_checked limits i at c2 = (r, b, c')" by simp
        then show ?thesis
          by (cases rule: sql_insert_checked_result [where d = d1])
            (use a bb cc passed(1) usage None in auto)
      qed
    qed
  qed
  then show thesis
  proof cases
    case a
    then show ?thesis by (rule undone)
  next
    case bb
    with d1 pur show ?thesis by (intro refused) auto
  next
    case cc
    have ins: "n = 1 \<and> delivery_wf (cn_data c') \<and> del_recs (cn_data c') =
        (del_recs d1)(dl_delivery (intent_row i at) \<mapsto> row_record (intent_row i at))"
      using cc(1,2) valid_log_limits_bounds(1) [OF lim]
      by (intro insert_delivery_wf [OF d1(2) row _ cc(3)]) auto
    moreover note insert_delivery_row_length [OF cc(3)]
    ultimately show ?thesis
      using cc pur by (intro stored [of "del_recs d1"]) (auto simp: del_recs_def)
  qed
qed

lemma sql_insert_intent_result:
  assumes inv: "sql_delivery_inv limits c" and val: "valid_intent i"
    and run: "sql_insert_intent limits c i = (r, c')"
  obtains (refused) e where "r = Err e" "sql_delivery_inv limits c'"
      "purged (sql_del_recs c) (sql_del_recs c')"
  | (stored) m where "r = Ok ()" "sql_delivery_inv limits c'" "purged (sql_del_recs c) m"
      "m (di_delivery i) = None" "sql_del_recs c' = m(di_delivery i \<mapsto> fresh_record i)"
      "length (db_delivery (cn_data c')) \<le> ll_records limits"
proof -
  have same: "sql_delivery_inv limits c' \<and> purged (sql_del_recs c) (sql_del_recs c')"
    if "cn_data c' = cn_data c" for c'
    using that inv by (simp add: sql_delivery_inv_def sql_del_recs_def)
  show thesis
  proof (cases "delivery_encoded_time (di_accepted_at i)")
    case (Inl e)
    with run same [of c] show ?thesis
      by (intro refused [of e]) (auto simp: sql_insert_intent_def)
  next
    case (Inr at)
    then have at: "at = int (di_accepted_at i)" "int (di_accepted_at i) \<le> i64_max"
      by (simp_all add: encoded_time_Ok)
    note row = intent_row_good [OF val at(2)]
    show ?thesis
    proof (cases "i64_try_from (int (as_millis (ll_retention limits)))")
      case None
      with run Inr same [of c] show ?thesis
        by (intro refused [of DlInvalidTransition]) (auto simp: sql_insert_intent_def)
    next
      case (Some ret)
      let ?cut = "saturating_sub_i64 at ret"
      from run Inr Some have "attempt DlUnavailable c (\<lambda>c. transaction DlUnavailable c
          (sql_insert_intent_body limits i at ?cut)) = (r, c')"
        by (simp add: sql_insert_intent_def)
      then show ?thesis
      proof (cases rule: attempt_cases)
        case failed
        with same [of c'] refused show ?thesis by simp
      next
        case (passed c1)
        from passed(3) show ?thesis
        proof (cases rule: transaction_cases)
          case failed
          with same [of c'] refused passed(1) show ?thesis by simp
        next
          case (rolled_back c2 c3)
          have "delivery_wf (cn_data c2)" "valid_log_limits limits"
            using inv rolled_back(1) passed(1) by (simp_all add: sql_delivery_inv_def)
          from this row(1) [folded at(1)] rolled_back(3) have "\<exists>e. r = Err e"
            by (cases rule: sql_insert_intent_body_result) auto
          with same [of c'] refused passed(1) rolled_back(4) show ?thesis by auto
        next
          case (committed c2)
          have c2: "delivery_wf (cn_data c2)" "valid_log_limits limits" "cn_data c2 = cn_data c"
            using inv committed(1) passed(1) by (simp_all add: sql_delivery_inv_def)
          from c2(1,2) row(1) [folded at(1)] committed(3) show ?thesis
          proof (cases rule: sql_insert_intent_body_result)
            case (undone e)
            then show ?thesis by simp
          next
            case ref: (refused e)
            with c2 show ?thesis
              by (intro refused [of e]) (simp_all add: sql_delivery_inv_def sql_del_recs_def)
          next
            case st: (stored m)
            with c2 row(2) at(1) show ?thesis
              by (intro stored [of m]) (simp_all add: sql_delivery_inv_def sql_del_recs_def)
          qed
        qed
      qed
    qed
  qed
qed

text \<open>A transition either changes one row and commits, or leaves the stored rows alone.\<close>

lemma delivery_transition_result:
  assumes "delivery_transition c d update = (r, c')"
  obtains (kept) e where "r = Err e" "cn_data c' = cn_data c"
  | (changed) "r = Ok ()" "update (cn_data c) = Some (1, cn_data c')"
  using assms unfolding delivery_transition_def
proof (cases rule: attempt_cases)
  case failed
  then show ?thesis using kept by blast
next
  case (passed c1)
  from passed(3) show ?thesis
  proof (cases rule: transaction_cases)
    case failed
    then show ?thesis using kept passed(1) by auto
  next
    case (committed c2)
    from committed(3) show ?thesis
      by (cases rule: attemptT_cases)
        (use changed passed(1) committed(1) in
          \<open>auto simp: Let_def split: option.splits prod.splits if_splits
             elim!: commit_cases attemptT_cases\<close>)
  next
    case (rolled_back c2 c3)
    have "\<exists>e. r = Err e"
      using rolled_back(3)
      by (cases rule: attemptT_cases)
        (auto simp: Let_def split: option.splits prod.splits if_splits
          elim!: commit_cases attemptT_cases)
    then show ?thesis using kept rolled_back(4) passed(1) by auto
  qed
qed

lemma touched_row:
  assumes "good_delivery_row r" and "n \<le> u16_max" and "int t \<le> i64_max"
  shows "RawDeliveryRecord_validate (r\<lparr>dl_attempts := int n, dl_updated_at_ms := int t\<rparr>) =
    Ok ((row_record r)\<lparr>dr_attempts := n, dr_updated_at := t\<rparr>)"
  using good_row_record [OF assms(1)] assms(2) i64_max_u64 [OF assms(3)]
  by (simp add: validate_Ok_iff u16_try_from_def)

lemma finished_row:
  assumes "good_delivery_row r" and "int t \<le> i64_max"
    and "encode_delivery_outcome out = (state, failure)" and "encode_result res = (cat, bs)"
    and "\<And>m. res = Some m \<Longrightarrow> rm_bytes m \<le> u32_max"
  shows "RawDeliveryRecord_validate (r\<lparr>dl_state := state, dl_failure := failure,
      dl_updated_at_ms := int t, dl_result_category := cat, dl_result_bytes := bs\<rparr>) =
    Ok ((row_record r)\<lparr>dr_state := Terminal out, dr_updated_at := t, dr_result := res\<rparr>)"
  using good_row_record [OF assms(1)] i64_max_u64 [OF assms(2)] decode_encode_state [OF assms(3)]
    decode_encode_result [OF assms(4,5)]
  by (simp add: validate_Ok_iff)

lemma recovered_row:
  assumes "good_delivery_row r" and "dl_state r = lit ''pending''" and "int t \<le> i64_max"
  shows "RawDeliveryRecord_validate
      (r\<lparr>dl_state := lit ''unknown_after_crash'', dl_updated_at_ms := int t\<rparr>) =
    Ok ((row_record r)\<lparr>dr_state := Terminal UnknownAfterCrash, dr_updated_at := t\<rparr>)"
  using good_row_record [OF assms(1)] i64_max_u64 [OF assms(3)] row_record_plain [OF assms(1,2)]
  by (simp add: validate_Ok_iff decode_delivery_state_def)

text \<open>An update of the one row of a delivery that holds exactly when it changed a row.\<close>

lemma single_update:
  assumes wf: "delivery_wf d"
    and upd: "update_delivery_rows (\<lambda>r. dl_delivery r = i \<and> q r) f d = Some (1, d')"
    and f: "\<And>r. dl_delivery (f r) = dl_delivery r" "\<And>r. dl_charged_bytes (f r) = dl_charged_bytes r"
    and val: "\<And>r. good_delivery_row r \<Longrightarrow> q r \<Longrightarrow> RawDeliveryRecord_validate (f r) = Ok (g (row_record r))"
  obtains r where "delivery_wf d'" "tbl dl_delivery (db_delivery d) i = Some r"
    "good_delivery_row r" "q r" "del_recs d' = (del_recs d)(i \<mapsto> g (row_record r))"
proof -
  let ?p = "\<lambda>r. dl_delivery r = i \<and> q r"
  have good: "good_delivery_row (f r)" if "good_delivery_row r" "?p r" "delivery_row_check (f r)" for r
    using that val [of r] by (simp add: good_delivery_row_def)
  note eff = update_delivery_wf [OF wf upd f good]
  have key: "keyed dl_delivery (db_delivery d)" using wf by (simp add: delivery_wf_def)
  obtain r where r: "tbl dl_delivery (db_delivery d) i = Some r" "q r"
    using eff(3) count_rows_key [OF key, of i q] by (auto split: option.splits if_splits)
  then have gr: "good_delivery_row r" "dl_delivery r = i"
    using wf by (auto simp: delivery_wf_def dest: tbl_SomeD)
  have "del_recs d' j = ((del_recs d)(i \<mapsto> g (row_record r))) j" for j
  proof (cases "j = i")
    case True
    then show ?thesis
      using eff(2) [of i] r gr val [OF gr(1) r(2)] by (simp add: row_record_def)
  next
    case False
    have "tbl dl_delivery (db_delivery d) j = Some x \<Longrightarrow> dl_delivery x \<noteq> i" for x
      using False by (auto dest: tbl_SomeD)
    with False eff(2) [of j] show ?thesis
      by (cases "tbl dl_delivery (db_delivery d) j") (auto simp: del_recs_def)
  qed
  with eff(1) r gr that show thesis by blast
qed

lemma sql_record_attempt_result:
  assumes "sql_delivery_inv limits c" and "sql_record_attempt c d n t = (r, c')"
  shows "r = Err e \<Longrightarrow> sql_delivery_inv limits c' \<and> sql_del_recs c' = sql_del_recs c"
    and "r = Ok u \<Longrightarrow> n \<le> u16_max \<Longrightarrow> sql_delivery_inv limits c' \<and>
      (\<exists>x. sql_del_recs c d = Some x \<and> dr_state x = Pending \<and> dr_attempts x < n \<and>
        sql_del_recs c' = (sql_del_recs c)(d \<mapsto> x\<lparr>dr_attempts := n, dr_updated_at := t\<rparr>))"
proof -
  let ?q = "\<lambda>r. dl_state r = lit ''pending'' \<and> dl_attempts r < int n"
  let ?f = "\<lambda>r. r\<lparr>dl_attempts := int n, dl_updated_at_ms := int t\<rparr>"
  consider (kept) e where "r = Err e" "cn_data c' = cn_data c"
    | (done_upd) "int t \<le> i64_max" "r = Ok ()"
      "update_delivery_rows (\<lambda>r. dl_delivery r = d \<and> ?q r) ?f (cn_data c) = Some (1, cn_data c')"
    using assms(2)
    by (auto simp: sql_record_attempt_def encoded_time_Ok split: if_splits sum.splits
        elim!: delivery_transition_result)
  note cases = this
  show "sql_delivery_inv limits c' \<and> sql_del_recs c' = sql_del_recs c" if "r = Err e"
    using cases that assms(1) by cases (simp_all add: sql_delivery_inv_def sql_del_recs_def)
  show "sql_delivery_inv limits c' \<and>
      (\<exists>x. sql_del_recs c d = Some x \<and> dr_state x = Pending \<and> dr_attempts x < n \<and>
        sql_del_recs c' = (sql_del_recs c)(d \<mapsto> x\<lparr>dr_attempts := n, dr_updated_at := t\<rparr>))"
    if "r = Ok u" "n \<le> u16_max"
    using cases
  proof cases
    case kept
    with that show ?thesis by simp
  next
    case done_upd
    have wf: "delivery_wf (cn_data c)" using assms(1) by (simp add: sql_delivery_inv_def)
    from single_update [OF wf done_upd(3), of "\<lambda>x. x\<lparr>dr_attempts := n, dr_updated_at := t\<rparr>"]
      touched_row [OF _ that(2) done_upd(1)]
    obtain x where "delivery_wf (cn_data c')" "tbl dl_delivery (db_delivery (cn_data c)) d = Some x"
      "good_delivery_row x" "?q x" "del_recs (cn_data c') =
        (del_recs (cn_data c))(d \<mapsto> (row_record x)\<lparr>dr_attempts := n, dr_updated_at := t\<rparr>)"
      by auto
    moreover from this have "dr_attempts (row_record x) < n"
      using row_record_attempts [of x] by simp
    ultimately show ?thesis
      using assms(1) row_record_pending [of x]
      by (auto simp: sql_delivery_inv_def sql_del_recs_def del_recs_def)
  qed
qed

lemma sql_record_outcome_result:
  assumes "sql_delivery_inv limits c" and "sql_record_outcome c d out t res = (r, c')"
  shows "r = Err e \<Longrightarrow> sql_delivery_inv limits c' \<and> sql_del_recs c' = sql_del_recs c"
    and "r = Ok u \<Longrightarrow> (\<And>m. res = Some m \<Longrightarrow> rm_bytes m \<le> u32_max) \<Longrightarrow> sql_delivery_inv limits c' \<and>
      (\<exists>x. sql_del_recs c d = Some x \<and> dr_state x = Pending \<and>
        sql_del_recs c' = (sql_del_recs c)(d \<mapsto>
          x\<lparr>dr_state := Terminal out, dr_updated_at := t, dr_result := res\<rparr>))"
proof -
  obtain state failure cat bs where
    enc: "encode_delivery_outcome out = (state, failure)" "encode_result res = (cat, bs)"
    by (meson surj_pair)
  let ?q = "\<lambda>r. dl_state r = lit ''pending''"
  let ?f = "\<lambda>r. r\<lparr>dl_state := state, dl_failure := failure,
      dl_updated_at_ms := int t, dl_result_category := cat, dl_result_bytes := bs\<rparr>"
  consider (kept) e where "r = Err e" "cn_data c' = cn_data c"
    | (done_upd) "int t \<le> i64_max" "r = Ok ()"
      "update_delivery_rows (\<lambda>r. dl_delivery r = d \<and> ?q r) ?f (cn_data c) = Some (1, cn_data c')"
    using assms(2) enc
    by (auto simp: sql_record_outcome_def encoded_time_Ok split: if_splits sum.splits
        elim!: delivery_transition_result)
  note cases = this
  show "sql_delivery_inv limits c' \<and> sql_del_recs c' = sql_del_recs c" if "r = Err e"
    using cases that assms(1) by cases (simp_all add: sql_delivery_inv_def sql_del_recs_def)
  show "sql_delivery_inv limits c' \<and>
      (\<exists>x. sql_del_recs c d = Some x \<and> dr_state x = Pending \<and>
        sql_del_recs c' = (sql_del_recs c)(d \<mapsto>
          x\<lparr>dr_state := Terminal out, dr_updated_at := t, dr_result := res\<rparr>))"
    if "r = Ok u" "\<And>m. res = Some m \<Longrightarrow> rm_bytes m \<le> u32_max"
    using cases
  proof cases
    case kept
    with that show ?thesis by simp
  next
    case done_upd
    have wf: "delivery_wf (cn_data c)" using assms(1) by (simp add: sql_delivery_inv_def)
    from single_update [OF wf done_upd(3),
        of "\<lambda>x. x\<lparr>dr_state := Terminal out, dr_updated_at := t, dr_result := res\<rparr>"]
      finished_row [OF _ done_upd(1) enc that(2)]
    obtain x where "delivery_wf (cn_data c')" "tbl dl_delivery (db_delivery (cn_data c)) d = Some x"
      "good_delivery_row x" "?q x" "del_recs (cn_data c') = (del_recs (cn_data c))
         (d \<mapsto> (row_record x)\<lparr>dr_state := Terminal out, dr_updated_at := t, dr_result := res\<rparr>)"
      by auto
    then show ?thesis
      using assms(1) row_record_pending [of x]
      by (auto simp: sql_delivery_inv_def sql_del_recs_def del_recs_def)
  qed
qed

lemma sql_delivery_result:
  assumes "sql_delivery_inv limits c" and "sql_delivery c d = (r, c')"
  shows "cn_data c' = cn_data c" and "r = Ok x \<Longrightarrow> x = sql_del_recs c d"
proof -
  have good: "good_delivery_row y" if "tbl dl_delivery (db_delivery (cn_data c)) d = Some y" for y
    using assms(1) that by (auto simp: sql_delivery_inv_def delivery_wf_def dest: tbl_SomeD)
  show "cn_data c' = cn_data c" and "r = Ok x \<Longrightarrow> x = sql_del_recs c d"
    using assms(2) good good_row_record unfolding sql_delivery_def
    by (auto elim!: attempt_cases simp: sql_del_recs_def del_recs_def transposeR_def
        split: option.splits)
qed

lemma sql_recover_result:
  assumes "sql_delivery_inv limits c" and "sql_recover_unfinished c t = (r, c')"
  shows "sql_delivery_inv limits c' \<and> recovered t (sql_del_recs c) (sql_del_recs c')"
    and "r = Ok n \<Longrightarrow> \<not> pending (sql_del_recs c' d)"
proof -
  let ?p = "\<lambda>r. dl_state r = lit ''pending''"
  let ?f = "\<lambda>r. r\<lparr>dl_state := lit ''unknown_after_crash'', dl_updated_at_ms := int t\<rparr>"
  consider (kept) e where "r = Err e" "cn_data c' = cn_data c"
    | (done_upd) k where "int t \<le> i64_max" "r = Ok k"
      "update_delivery_rows ?p ?f (cn_data c) = Some (k, cn_data c')"
    using assms(2)
    by (auto simp: sql_recover_unfinished_def encoded_time_Ok split: option.splits sum.splits
        elim!: attempt_cases)
  note cases = this
  have main: "sql_delivery_inv limits c' \<and> recovered t (sql_del_recs c) (sql_del_recs c') \<and>
    (is_ok r \<longrightarrow> \<not> pending (sql_del_recs c' d))" for d
    using cases
  proof cases
    case kept
    with assms(1) show ?thesis by (simp add: sql_delivery_inv_def sql_del_recs_def)
  next
    case done_upd
    have wf: "delivery_wf (cn_data c)" using assms(1) by (simp add: sql_delivery_inv_def)
    have good: "good_delivery_row (?f r)"
      if "good_delivery_row r" "?p r" "delivery_row_check (?f r)" for r
      using that recovered_row [OF that(1,2) done_upd(1)] by (simp add: good_delivery_row_def)
    have f: "dl_delivery (?f r) = dl_delivery r" "dl_charged_bytes (?f r) = dl_charged_bytes r" for r
      by simp_all
    note eff = update_delivery_wf [OF wf done_upd(3) f good]
    have rec: "del_recs (cn_data c') i = map_option (\<lambda>r. if dr_state r = Pending
        then r\<lparr>dr_state := Terminal UnknownAfterCrash, dr_updated_at := t\<rparr> else r)
        (del_recs (cn_data c) i)" for i
    proof (cases "tbl dl_delivery (db_delivery (cn_data c)) i")
      case None
      with eff(2) [of i] show ?thesis by (simp add: del_recs_def)
    next
      case (Some r)
      then have gr: "good_delivery_row r" using wf by (auto simp: delivery_wf_def dest: tbl_SomeD)
      show ?thesis
      proof (cases "?p r")
        case True
        with eff(2) [of i] Some row_record_eqI [OF recovered_row [OF gr True done_upd(1)]]
          row_record_pending [OF gr] show ?thesis by (simp add: del_recs_def)
      next
        case False
        with eff(2) [of i] Some row_record_pending [OF gr] show ?thesis
          by (simp add: del_recs_def)
      qed
    qed
    have "del_recs (cn_data c') i = del_recs (cn_data c) i \<or>
        (\<exists>r. del_recs (cn_data c) i = Some r \<and> dr_state r = Pending \<and> del_recs (cn_data c') i =
          Some (r\<lparr>dr_state := Terminal UnknownAfterCrash, dr_updated_at := t\<rparr>))" for i
      unfolding rec [of i] by (cases "del_recs (cn_data c) i") simp_all
    then have "recovered t (del_recs (cn_data c)) (del_recs (cn_data c'))"
      unfolding recovered_def by blast
    moreover have "\<not> pending (del_recs (cn_data c') d)"
      unfolding rec [of d] by (cases "del_recs (cn_data c) d") simp_all
    ultimately show ?thesis
      using assms(1) eff(1) by (simp add: sql_delivery_inv_def sql_del_recs_def)
  qed
  show "sql_delivery_inv limits c' \<and> recovered t (sql_del_recs c) (sql_del_recs c')"
    using main by blast
  show "\<not> pending (sql_del_recs c' d)" if "r = Ok n"
    using main [of d] that by simp
qed

lemma sql_delivery_log_fields [simp]:
  "dlog_insert_intent (sql_delivery_log limits) = sql_insert_intent limits"
  "dlog_record_attempt (sql_delivery_log limits) = sql_record_attempt"
  "dlog_record_outcome (sql_delivery_log limits) = sql_record_outcome"
  "dlog_delivery (sql_delivery_log limits) = sql_delivery"
  "dlog_recover_unfinished (sql_delivery_log limits) = sql_recover_unfinished"
  by (simp_all add: sql_delivery_log_def)

interpretation sql_log: delivery_log_contract "sql_delivery_log limits" "sql_delivery_inv limits"
  sql_del_recs valid_intent for limits
proof (unfold_locales, unfold sql_delivery_log_fields, goal_cases)
  case (1 s i)
  obtain r s' where run: "sql_insert_intent limits s i = (r, s')"
    by (cases "sql_insert_intent limits s i")
  from sql_insert_intent_result [OF 1 run] run show ?case by auto
next
  case 2
  from sql_insert_intent_result [OF 2] show ?case by auto
next
  case 3
  from sql_insert_intent_result [OF 3] show ?case by auto
next
  case (4 s n d t)
  obtain r s' where run: "sql_record_attempt s d n t = (r, s')"
    by (cases "sql_record_attempt s d n t")
  from sql_record_attempt_result [OF 4(1) run] run 4(2) show ?case by (cases r) auto
next
  case 5
  from sql_record_attempt_result(2) [OF 5(1,3) refl 5(2)] show ?case by blast
next
  case 6
  from sql_record_attempt_result(1) [OF 6 refl] show ?case by blast
next
  case (7 s res d out t)
  obtain r s' where run: "sql_record_outcome s d out t res = (r, s')"
    by (cases "sql_record_outcome s d out t res")
  from sql_record_outcome_result [OF 7(1) run] run 7(2) show ?case by (cases r) auto
next
  case (8 s res d out t u s')
  from sql_record_outcome_result(2) [OF 8(1,3) refl] 8(2) show ?case by blast
next
  case 9
  from sql_record_outcome_result(1) [OF 9 refl] show ?case by blast
next
  case 10
  from sql_delivery_result(1) [OF 10] 10(1) show ?case
    by (simp add: sql_delivery_inv_def sql_del_recs_def)
next
  case 11
  from sql_delivery_result(2) [OF 11 refl] show ?case .
next
  case (12 s t)
  obtain r s' where run: "sql_recover_unfinished s t = (r, s')"
    by (cases "sql_recover_unfinished s t")
  from sql_recover_result(1) [OF 12 run] run show ?case by simp
next
  case 13
  from sql_recover_result(1) [OF 13] show ?case by simp
qed

end
