(* ===== verification/Host_Delivery.thy ===== *)
theory Host_Delivery
  imports Memory_Log Sql_Delivery
begin

text \<open>
  Properties of the persistent delivery log: what each operation returns and stores on a connection
  without faults, and what holds of any sequence of operations whatever fails on the way.
\<close>

section \<open>Counting rows of a keyed table\<close>

lemma card_count_rows:
  assumes "keyed key rows" and "\<And>k. m k = (case tbl key rows k of None \<Rightarrow> False | Some r \<Rightarrow> p r)"
  shows "card {k. m k} = count_rows p rows"
proof -
  have "{k. m k} = key ` set (filter p rows)"
  proof (rule set_eqI)
    fix k
    show "k \<in> {k. m k} \<longleftrightarrow> k \<in> key ` set (filter p rows)"
    proof (cases "tbl key rows k")
      case None
      then have "\<not> m k" using assms(2) [of k] by simp
      moreover from None have "\<forall>r\<in>set rows. key r \<noteq> k" by (simp add: tbl_None_iff)
      ultimately show ?thesis by auto
    next
      case (Some r)
      then have "x = r" if "x \<in> set rows" "key x = k" for x
        using tbl_Some_iff [OF assms(1), of k x] that by simp
      with Some tbl_SomeD [OF Some] assms(2) [of k] show ?thesis by auto
    qed
  qed
  moreover have "inj_on key (set (filter p rows))"
    using assms(1) by (auto simp: keyed_def distinct_map intro: inj_on_subset)
  moreover have "distinct (filter p rows)"
    using assms(1) by (simp add: keyed_def distinct_map)
  ultimately show ?thesis
    by (simp add: card_image distinct_card count_rows_def del: set_filter)
qed

lemma delivery_row_exists:
  assumes "delivery_wf d" and "tbl dl_delivery (db_delivery d) i = Some r"
  shows "good_delivery_row r" "del_recs d i = Some (row_record r)"
  using assms by (auto simp: delivery_wf_def del_recs_def dest: tbl_SomeD)

lemma delivery_card:
  assumes "delivery_wf d"
  shows "card (dom (del_recs d)) = length (db_delivery d)"
proof -
  have "card {i. del_recs d i \<noteq> None} = count_rows (\<lambda>_. True) (db_delivery d)"
  proof (rule card_count_rows)
    show "keyed dl_delivery (db_delivery d)" using assms by (simp add: delivery_wf_def)
  qed (simp add: del_recs_def split: option.split)
  then show ?thesis by (simp add: dom_def count_rows_def)
qed

lemma pending_count:
  assumes "delivery_wf d"
  shows "card {i. pending (del_recs d i)} = count_rows (\<lambda>r. dl_state r = lit ''pending'') (db_delivery d)"
proof (rule card_count_rows)
  show "keyed dl_delivery (db_delivery d)" using assms by (simp add: delivery_wf_def)
  show "pending (del_recs d i) = (case tbl dl_delivery (db_delivery d) i of None \<Rightarrow> False
      | Some r \<Rightarrow> dl_state r = lit ''pending'')" for i
    using delivery_row_exists [OF assms, of i] row_record_pending
    by (auto simp: del_recs_def split: option.splits)
qed

section \<open>Statements that never fail\<close>

lemma finished_row_check:
  assumes "good_delivery_row r" and "encode_delivery_outcome out = (state, failure)"
    and "encode_result res = (cat, bs)"
  shows "delivery_row_check (r\<lparr>dl_state := state, dl_failure := failure,
      dl_updated_at_ms := int t, dl_result_category := cat, dl_result_bytes := bs\<rparr>)"
proof -
  have "0 \<le> dl_accepted_at_ms r \<and> 0 \<le> dl_attempts r \<and> dl_attempts r \<le> 65535 \<and> dl_charged_bytes r = 512"
    using assms(1) by (simp add: good_delivery_row_def delivery_row_check_def)
  moreover have "state \<in> {lit ''delivered'', lit ''failed'', lit ''lost_on_shutdown'',
      lit ''unknown_after_crash''} \<and> (state = lit ''failed'' \<longleftrightarrow> failure \<noteq> None)"
    using assms(2) by (cases out) auto
  moreover have "state \<noteq> lit ''pending''" using assms(2) by (cases out) auto
  moreover have "cat = None \<and> bs = None \<or> (\<exists>x n. cat = Some x \<and> bs = Some n \<and> 0 \<le> n)"
    using assms(3) by (cases res) (auto simp: encode_result_def)
  ultimately show ?thesis by (auto simp: delivery_row_check_def)
qed

lemma recovered_row_check:
  assumes "good_delivery_row r" and "dl_state r = lit ''pending''"
  shows "delivery_row_check (r\<lparr>dl_state := lit ''unknown_after_crash'', dl_updated_at_ms := int t\<rparr>)"
  using assms row_record_plain [OF assms] by (simp add: good_delivery_row_def delivery_row_check_def)

lemma update_delivery_Some:
  assumes "delivery_wf d" and "\<And>r. good_delivery_row r \<Longrightarrow> p r \<Longrightarrow> delivery_row_check (f r)"
  shows "update_delivery_rows p f d =
    Some (count_rows p (db_delivery d), d\<lparr>db_delivery := update_rows p f (db_delivery d)\<rparr>)"
  using assms by (auto simp: update_delivery_rows_def delivery_wf_def)

lemma encoded_time_cases:
  "delivery_encoded_time v = (if int v \<le> i64_max then Ok (int v) else Err DlInvalidTransition)"
  by (auto simp: delivery_encoded_time_def i64_try_from_def in_i64_def i64_min_def ok_or_def)

section \<open>Insertion without faults\<close>

text \<open>The records that survive an insertion accepted at a given time.\<close>

definition retained ::
    "delivery_log_limits \<Rightarrow> nat \<Rightarrow> (delivery_id \<rightharpoonup> delivery_record) \<Rightarrow> delivery_id \<rightharpoonup> delivery_record" where
  "retained limits now m i = (case m i of
     None \<Rightarrow> None
   | Some r \<Rightarrow>
       if is_terminal (dr_state r) \<and>
          int (dr_updated_at r) < int now - int (as_millis (ll_retention limits))
       then None else Some r)"

lemma row_record_updated:
  "good_delivery_row r \<Longrightarrow> int (dr_updated_at (row_record r)) = dl_updated_at_ms r"
  using good_row_record [of r] by (auto simp: validate_Ok_iff u64_try_from_def split: if_splits)

lemma retained_rows:
  assumes "delivery_wf d" and "db_delivery d' =
      filter (\<lambda>r. \<not> (dl_state r \<noteq> lit ''pending'' \<and>
        dl_updated_at_ms r < int now - int (as_millis (ll_retention limits)))) (db_delivery d)"
  shows "del_recs d' = retained limits now (del_recs d)"
proof
  fix i
  have key: "keyed dl_delivery (db_delivery d)" using assms(1) by (simp add: delivery_wf_def)
  show "del_recs d' i = retained limits now (del_recs d) i"
  proof (cases "tbl dl_delivery (db_delivery d) i")
    case None
    then show ?thesis by (simp add: del_recs_def retained_def assms(2) tbl_filter [OF key])
  next
    case (Some r)
    note r = delivery_row_exists [OF assms(1) Some]
    show ?thesis
      using Some r row_record_pending [OF r(1)] row_record_updated [OF r(1)]
      by (simp add: del_recs_def retained_def assms(2) tbl_filter [OF key] is_terminal_neq)
  qed
qed

lemma intent_inserted:
  assumes "delivery_wf d" and "good_delivery_row r" and "db_seq_delivery d < i64_max"
    and "tbl dl_delivery (db_delivery d) (dl_delivery r) = None"
  shows "\<exists>d'. insert_delivery_row r d = Some (1, d')"
proof -
  have chk: "delivery_row_check r" using assms(2) by (simp add: good_delivery_row_def)
  have ok: "charges_ok DeliveryLogTable dl_charged_bytes (db_delivery d @ [r])"
    using assms(1,2) by (intro good_charges) (auto simp: delivery_wf_def)
  have "usage_exact dl_charged_bytes (db_delivery d) (db_usage_delivery d)"
    using assms(1) by (simp add: delivery_wf_def)
  then have "\<exists>u. usage_insert DeliveryLogTable (dl_charged_bytes r) (db_usage_delivery d) = Some u"
    using usage_insert_exact [OF ok, of "db_usage_delivery d"] by blast
  with chk assms(3,4) show ?thesis by (auto simp: insert_delivery_row_def)
qed

section \<open>Properties\<close>

text \<open>C15 (invariant): a run of the persistent delivery log with any faults, in any order of operations,
  keeps its rows readable and its storage accounting exact, and accepts no more outcomes for a delivery
  than it accepted intents for it: an accepted intent ends at most once.\<close>

theorem sql_log_ends_once:
  assumes "sql_delivery_inv limits c" and "list_all (valid_op valid_intent) ops"
    and "run_log (sql_delivery_log limits) ops c = (done_ops, c')" and "sql_del_recs c d = None"
  shows "sql_delivery_inv limits c' \<and> outcomes_of d done_ops \<le> inserts_of d done_ops"
  using sql_log.run_log_credit [OF assms(1-3), of d] assms(4) by (simp add: weight_def)

text \<open>C17 (error): recording an outcome, branch by branch. A time outside the signed range and a record
  that already ended are invalid transitions, an unknown delivery is not found, and only a pending
  record takes the outcome, with its time and result, as one durable change.\<close>

theorem sql_outcome_exact:
  assumes "sql_delivery_inv limits c" and "cn_plan c = []"
    and "\<And>m. res = Some m \<Longrightarrow> rm_bytes m \<le> u32_max"
  shows "(fst (sql_record_outcome c d out t res), sql_del_recs (snd (sql_record_outcome c d out t res))) =
    (if i64_max < int t then (Err DlInvalidTransition, sql_del_recs c)
     else (case sql_del_recs c d of
        None \<Rightarrow> (Err DlNotFound, sql_del_recs c)
      | Some x \<Rightarrow>
          if is_terminal (dr_state x) then (Err DlInvalidTransition, sql_del_recs c)
          else (Ok (), (sql_del_recs c)(d \<mapsto>
            x\<lparr>dr_state := Terminal out, dr_updated_at := t, dr_result := res\<rparr>))))"
proof -
  obtain state failure cat bs where
    enc: "encode_delivery_outcome out = (state, failure)" "encode_result res = (cat, bs)"
    by (meson surj_pair)
  let ?p = "\<lambda>r. dl_delivery r = d \<and> dl_state r = lit ''pending''"
  let ?f = "\<lambda>r. r\<lparr>dl_state := state, dl_failure := failure,
      dl_updated_at_ms := int t, dl_result_category := cat, dl_result_bytes := bs\<rparr>"
  have wf: "delivery_wf (cn_data c)" using assms(1) by (simp add: sql_delivery_inv_def)
  then have key: "keyed dl_delivery (db_delivery (cn_data c))" by (simp add: delivery_wf_def)
  have upd: "update_delivery_rows ?p ?f (cn_data c) = Some (count_rows ?p (db_delivery (cn_data c)),
      (cn_data c)\<lparr>db_delivery := update_rows ?p ?f (db_delivery (cn_data c))\<rparr>)"
    using finished_row_check [OF _ enc, of _ t] by (intro update_delivery_Some [OF wf]) blast
  obtain r c' where run: "sql_record_outcome c d out t res = (r, c')"
    by (cases "sql_record_outcome c d out t res")
  note res = sql_record_outcome_result [OF assms(1) run]
  show ?thesis
  proof (cases "i64_max < int t")
    case True
    then show ?thesis by (simp add: sql_record_outcome_def encoded_time_cases)
  next
    case False
    show ?thesis
    proof (cases "tbl dl_delivery (db_delivery (cn_data c)) d")
      case None
      then have none: "count_rows ?p (db_delivery (cn_data c)) = 0"
        by (simp add: count_rows_key [OF key])
      with None upd False run assms(2) enc have "r = Err DlNotFound"
        by (simp add: sql_record_outcome_def encoded_time_cases delivery_transition_def Let_def
            tbl_update_rows)
      with res(1) run None False show ?thesis by (simp add: sql_del_recs_def del_recs_def)
    next
      case (Some x)
      note x = delivery_row_exists [OF wf Some]
      show ?thesis
      proof (cases "dl_state x = lit ''pending''")
        case True
        then have "count_rows ?p (db_delivery (cn_data c)) = 1"
          by (simp add: count_rows_key [OF key] Some)
        with upd False run assms(2) enc have "r = Ok ()"
          by (simp add: sql_record_outcome_def encoded_time_cases delivery_transition_def Let_def)
        with res(2) [OF _ assms(3)] run False True x row_record_pending [OF x(1)] show ?thesis
          by (auto simp: sql_del_recs_def)
      next
        case ended: False
        then have "count_rows ?p (db_delivery (cn_data c)) = 0"
          by (simp add: count_rows_key [OF key] Some)
        with Some upd False run assms(2) enc have "r = Err DlInvalidTransition"
          by (simp add: sql_record_outcome_def encoded_time_cases delivery_transition_def Let_def
              tbl_update_rows)
        with res(1) run False ended x row_record_pending [OF x(1)] show ?thesis
          by (simp add: sql_del_recs_def is_terminal_neq)
      qed
    qed
  qed
qed

text \<open>C18 (liveness): recovery after a restart always finishes. Every pending record, and no other, ends
  as unknown after a crash at the given time, and the count returned is the number of them.\<close>

theorem sql_recovery_complete:
  assumes "sql_delivery_inv limits c" and "cn_plan c = []" and "int t \<le> i64_max"
  shows "\<exists>c'. sql_recover_unfinished c t = (Ok (card {d. pending (sql_del_recs c d)}), c') \<and>
    (\<forall>d. sql_del_recs c' d = map_option (\<lambda>x. if dr_state x = Pending
        then x\<lparr>dr_state := Terminal UnknownAfterCrash, dr_updated_at := t\<rparr> else x)
      (sql_del_recs c d))"
proof -
  let ?p = "\<lambda>r. dl_state r = lit ''pending''"
  let ?f = "\<lambda>r. r\<lparr>dl_state := lit ''unknown_after_crash'', dl_updated_at_ms := int t\<rparr>"
  have wf: "delivery_wf (cn_data c)" using assms(1) by (simp add: sql_delivery_inv_def)
  have upd: "update_delivery_rows ?p ?f (cn_data c) = Some (count_rows ?p (db_delivery (cn_data c)),
      (cn_data c)\<lparr>db_delivery := update_rows ?p ?f (db_delivery (cn_data c))\<rparr>)"
    using recovered_row_check by (intro update_delivery_Some [OF wf]) blast
  let ?c = "update_data (\<lambda>_. (cn_data c)\<lparr>db_delivery := update_rows ?p ?f (db_delivery (cn_data c))\<rparr>) c"
  have run: "sql_recover_unfinished c t = (Ok (card {d. pending (sql_del_recs c d)}), ?c)"
    using upd assms(2,3) pending_count [OF wf]
    by (simp add: sql_recover_unfinished_def encoded_time_cases sql_del_recs_def)
  note eff = sql_recover_result [OF assms(1) run]
  have "sql_del_recs ?c d = map_option (\<lambda>x. if dr_state x = Pending
        then x\<lparr>dr_state := Terminal UnknownAfterCrash, dr_updated_at := t\<rparr> else x)
      (sql_del_recs c d)" for d
  proof -
    have "sql_del_recs ?c d = sql_del_recs c d \<or> (\<exists>x. sql_del_recs c d = Some x \<and>
        dr_state x = Pending \<and> sql_del_recs ?c d =
          Some (x\<lparr>dr_state := Terminal UnknownAfterCrash, dr_updated_at := t\<rparr>))"
      using eff(1) by (simp add: recovered_def)
    with eff(2) [OF refl, of d] show ?thesis
      by (cases "sql_del_recs c d") auto
  qed
  with run show ?thesis by blast
qed

text \<open>C16 (functional): inserting an intent, branch by branch. Ended records older than the retention
  go first, also when the insertion is then refused; a delivery still known is a conflict; a log at its
  record or byte limit refuses; otherwise exactly the fresh pending record is added.\<close>

theorem sql_insert_exact:
  assumes "sql_delivery_inv limits c" and "cn_plan c = []" and "valid_intent i"
    and "db_seq_delivery (cn_data c) < i64_max"
  defines "m \<equiv> retained limits (di_accepted_at i) (sql_del_recs c)"
  shows "(fst (sql_insert_intent limits c i), sql_del_recs (snd (sql_insert_intent limits c i))) =
    (if i64_max < int (di_accepted_at i) then (Err DlInvalidTransition, sql_del_recs c)
     else if m (di_delivery i) \<noteq> None then (Err DlConflict, m)
     else if ll_records limits \<le> card (dom m) \<or> ll_bytes limits < 512 * card (dom m) + 512
     then (Err DlCapacityExhausted, m)
     else (Ok (), m(di_delivery i \<mapsto> fresh_record i)))"
proof (cases "i64_max < int (di_accepted_at i)")
  case True
  then show ?thesis by (simp add: sql_insert_intent_def encoded_time_cases)
next
  case False
  let ?ret = "int (as_millis (ll_retention limits))" and ?at = "int (di_accepted_at i)"
  have inv: "valid_log_limits limits" "delivery_wf (cn_data c)"
    using assms(1) by (simp_all add: sql_delivery_inv_def)
  have ret: "i64_try_from ?ret = Some ?ret" "saturating_sub_i64 ?at ?ret = ?at - ?ret"
    using valid_log_limits_bounds(3) [OF inv(1)] False
    by (simp_all add: i64_try_from_def in_i64_def i64_min_def i64_max_def saturating_sub_i64_def)
  obtain d1 where d1: "delete_delivery_rows (\<lambda>r. dl_state r \<noteq> lit ''pending'' \<and>
        dl_updated_at_ms r < ?at - ?ret) (cn_data c) = Some d1" "delivery_wf d1"
    "db_delivery d1 = filter (\<lambda>r. \<not> (dl_state r \<noteq> lit ''pending'' \<and>
        dl_updated_at_ms r < ?at - ?ret)) (db_delivery (cn_data c))"
    "db_seq_delivery d1 = db_seq_delivery (cn_data c)"
    using delete_delivery_wf [OF inv(2)] by blast
  have m: "del_recs d1 = m"
    using retained_rows [OF inv(2) d1(3)] by (simp add: m_def sql_del_recs_def)
  have card: "card (dom m) = length (db_delivery d1)" using delivery_card [OF d1(2)] m by simp
  have len: "length (db_delivery d1) \<le> 1000000" using d1(2) by (simp add: delivery_wf_def)
  have charges: "charges_ok DeliveryLogTable dl_charged_bytes (db_delivery d1)"
    using d1(2) by (intro good_charges) (simp add: delivery_wf_def)
  have usage: "usage_read DeliveryLogTable (db_usage_delivery d1) =
      Some (int (card (dom m)), int (card (dom m)) * 512)"
    using usage_read_exact [OF charges, of "db_usage_delivery d1"] charges_sum(2) [OF charges] d1(2) len
    by (simp add: card delivery_wf_def)
  have sat: "saturating_add_i64 (int (card (dom m)) * 512) 512 = int (512 * card (dom m) + 512)"
    using len by (simp add: card saturating_add_i64_def i64_min_def i64_max_def)
  let ?r = "intent_row i ?at"
  have row: "good_delivery_row ?r" "row_record ?r = fresh_record i"
    using intent_row_good [OF assms(3)] False by simp_all
  have start: "sql_insert_intent limits c i = transaction DlUnavailable c
      (sql_insert_intent_body limits i ?at (?at - ?ret))"
    using False ret assms(2) by (simp add: sql_insert_intent_def encoded_time_cases)
  show ?thesis
  proof (cases "m (di_delivery i) = None")
    case False
    then have "tbl dl_delivery (db_delivery d1) (di_delivery i) \<noteq> None"
      by (simp add: m [symmetric] del_recs_def)
    with \<open>\<not> i64_max < ?at\<close> False d1(1) m assms(2) show ?thesis
      by (simp add: start sql_insert_intent_body_def sql_del_recs_def)
  next
    case True
    then have absent: "tbl dl_delivery (db_delivery d1) (di_delivery i) = None"
      by (simp add: m [symmetric] del_recs_def)
    show ?thesis
    proof (cases "ll_records limits \<le> card (dom m) \<or> ll_bytes limits < 512 * card (dom m) + 512")
      case full: True
      then have "int (ll_records limits) \<le> int (card (dom m)) \<or>
          int (ll_bytes limits) < saturating_add_i64 (int (card (dom m)) * 512) 512"
        unfolding sat by linarith
      with \<open>\<not> i64_max < ?at\<close> True full absent d1(1) m usage assms(2) show ?thesis
        by (simp add: start sql_insert_intent_body_def sql_insert_checked_def sql_del_recs_def
            PERSISTENT_DELIVERY_RECORD_CHARGE_BYTES_def)
    next
      case room: False
      then have fits: "\<not> (int (ll_records limits) \<le> int (card (dom m)) \<or>
          int (ll_bytes limits) < saturating_add_i64 (int (card (dom m)) * 512) 512)"
        unfolding sat by linarith
      obtain d2 where d2: "insert_delivery_row ?r d1 = Some (1, d2)"
        using intent_inserted [OF d1(2) row(1)] absent d1(4) assms(4) by auto
      have "length (db_delivery d1) < 1000000"
        using room valid_log_limits_bounds(1) [OF inv(1)] by (simp add: card)
      then have "del_recs d2 = m(di_delivery i \<mapsto> fresh_record i)"
        using insert_delivery_wf [OF d1(2) row(1) _ d2] absent m row(2) by simp
      with \<open>\<not> i64_max < ?at\<close> True room fits absent d1(1) d2 m usage assms(2) show ?thesis
        by (simp add: start sql_insert_intent_body_def sql_insert_checked_def sql_del_recs_def
            PERSISTENT_DELIVERY_RECORD_CHARGE_BYTES_def)
    qed
  qed
qed

section \<open>Concrete runs\<close>

abbreviation log_limits :: delivery_log_limits where
  "log_limits \<equiv> PersistentDeliveryLogLimits_default"

definition log_conn :: conn where
  "log_conn = \<lparr>cn_data = empty_database, cn_plan = []\<rparr>"

lemma log_conn_inv: "sql_delivery_inv log_limits log_conn"
  by (simp add: sql_delivery_inv_def log_conn_def valid_log_limits_default delivery_wf_def
      empty_database_def keyed_def usage_exact_def)

lemma log_conn_recs: "sql_del_recs log_conn d = None"
  by (simp add: sql_del_recs_def del_recs_def log_conn_def empty_database_def)

lemma sample_intent_valid: "valid_intent sample_intent"
  by (simp add: valid_intent_def sample_intent_def valid_identifier_def lit_def
      of_char_def is_allowed_def is_ascii_alphanumeric_def)

text \<open>A log that holds one pending record.\<close>

definition pending_conn :: conn where
  "pending_conn =
     \<lparr>cn_data = empty_database\<lparr>db_delivery := [intent_row sample_intent 5], db_seq_delivery := 1,
        db_usage_delivery := \<lparr>us_records = 1, us_charged_bytes = 512\<rparr>\<rparr>,
      cn_plan = []\<rparr>"

lemma pending_row: "good_delivery_row (intent_row sample_intent 5)"
    "row_record (intent_row sample_intent 5) = fresh_record sample_intent"
  using intent_row_good [OF sample_intent_valid] by (simp_all add: sample_intent_def i64_max_def)

lemma pending_conn_inv: "sql_delivery_inv log_limits pending_conn"
  using pending_row(1)
  by (simp add: sql_delivery_inv_def pending_conn_def valid_log_limits_default delivery_wf_def
      empty_database_def keyed_def usage_exact_def PERSISTENT_DELIVERY_RECORD_CHARGE_BYTES_def)

lemma pending_conn_recs:
  "sql_del_recs pending_conn = [lit ''d'' \<mapsto> fresh_record sample_intent]"
  using pending_row(2)
  by (auto simp: sql_del_recs_def del_recs_def pending_conn_def tbl_Cons sample_intent_def fun_eq_iff)

lemma pending_conn_plan: "cn_plan pending_conn = []"
  by (simp add: pending_conn_def)

theorem sql_log_ends_once_witness:
  "\<exists>done_ops c'. run_log (sql_delivery_log log_limits)
       [OpInsert sample_intent, OpOutcome (lit ''d'') Delivered 7 None, OpRecover 9] log_conn =
         (done_ops, c') \<and>
     sql_delivery_inv log_limits c' \<and> outcomes_of (lit ''d'') done_ops \<le> inserts_of (lit ''d'') done_ops"
proof -
  let ?ops = "[OpInsert sample_intent, OpOutcome (lit ''d'') Delivered 7 None, OpRecover 9]"
  obtain ops c' where run: "run_log (sql_delivery_log log_limits) ?ops log_conn = (ops, c')"
    by (cases "run_log (sql_delivery_log log_limits) ?ops log_conn")
  with sql_log_ends_once [OF log_conn_inv _ run log_conn_recs] show ?thesis
    by (auto simp: valid_op_def sample_intent_valid)
qed

theorem sql_outcome_exact_witness:
  "fst (sql_record_outcome pending_conn (lit ''d'') Delivered 7 None) = Ok () \<and>
   fst (sql_record_outcome pending_conn (lit ''e'') Delivered 7 None) = Err DlNotFound"
  using sql_outcome_exact [OF pending_conn_inv pending_conn_plan, of None "lit ''d''" Delivered 7]
    sql_outcome_exact [OF pending_conn_inv pending_conn_plan, of None "lit ''e''" Delivered 7]
  by (simp add: pending_conn_recs fresh_record_def DeliveryRecord_from_stored_parts_def i64_max_def)

theorem sql_recovery_complete_witness:
  "\<exists>c'. sql_recover_unfinished pending_conn 9 = (Ok 1, c') \<and>
     sql_del_recs c' (lit ''d'') =
       Some ((fresh_record sample_intent)\<lparr>dr_state := Terminal UnknownAfterCrash, dr_updated_at := 9\<rparr>)"
proof -
  have "{d. pending (sql_del_recs pending_conn d)} = {lit ''d''}"
    by (auto simp: pending_conn_recs fresh_record_def DeliveryRecord_from_stored_parts_def split: option.splits if_splits)
  then have card: "card {d. pending (sql_del_recs pending_conn d)} = 1" by simp
  obtain c' where run: "sql_recover_unfinished pending_conn 9 =
      (Ok (card {d. pending (sql_del_recs pending_conn d)}), c')"
    and rec: "sql_del_recs c' (lit ''d'') = map_option (\<lambda>x. if dr_state x = Pending
        then x\<lparr>dr_state := Terminal UnknownAfterCrash, dr_updated_at := 9\<rparr> else x)
      (sql_del_recs pending_conn (lit ''d''))"
    using sql_recovery_complete [OF pending_conn_inv pending_conn_plan, of 9]
    by (auto simp: i64_max_def)
  have "dr_state (fresh_record sample_intent) = Pending" by (simp add: fresh_record_def DeliveryRecord_from_stored_parts_def)
  with rec have "sql_del_recs c' (lit ''d'') =
      Some ((fresh_record sample_intent)\<lparr>dr_state := Terminal UnknownAfterCrash, dr_updated_at := 9\<rparr>)"
    by (simp add: pending_conn_recs)
  with run card show ?thesis by auto
qed

theorem sql_insert_exact_witness:
  "fst (sql_insert_intent log_limits log_conn sample_intent) = Ok () \<and>
   fst (sql_insert_intent log_limits pending_conn sample_intent) = Err DlConflict"
proof -
  have empty: "retained log_limits (di_accepted_at sample_intent) (sql_del_recs log_conn) = Map.empty"
    by (simp add: fun_eq_iff retained_def log_conn_recs)
  have one: "retained log_limits (di_accepted_at sample_intent) (sql_del_recs pending_conn)
      (di_delivery sample_intent) = Some (fresh_record sample_intent)"
    by (simp add: retained_def pending_conn_recs sample_intent_def fresh_record_def DeliveryRecord_from_stored_parts_def)
  have seq: "db_seq_delivery (cn_data log_conn) < i64_max" "db_seq_delivery (cn_data pending_conn) < i64_max"
    by (simp_all add: log_conn_def pending_conn_def empty_database_def i64_max_def)
  show ?thesis
    using sql_insert_exact [OF log_conn_inv _ sample_intent_valid seq(1)]
      sql_insert_exact [OF pending_conn_inv pending_conn_plan sample_intent_valid seq(2)] empty one
    by (simp add: log_conn_def [of] sample_intent_def i64_max_def PersistentDeliveryLogLimits_default_def)
qed

end
