(* ===== verification/Dedup_Model.thy ===== *)
theory Dedup_Model
  imports Delivery_Model
begin

text \<open>
  The replay-protection contract (\<open>bondry-delivery-store/src/dedup.rs\<close> and \<open>limits.rs\<close>): keys, states,
  records and limits, and the trait \<open>DedupStore\<close> as a record of operations. What the trait promises is a
  step relation on the stored entries; a store implements it when every operation it completes, and
  every one it refuses, is a step. The bound on dispatches per key follows from the steps alone.
\<close>

section \<open>Data\<close>

datatype dedup_key = DedupKey (dk_route: route_id) (dk_namespace: verifier_namespace) (dk_hash: bytes)

text \<open>Keys are ordered as the columns of the table: route, namespace, hash.\<close>

instantiation dedup_key :: linorder
begin

definition less_eq_dedup_key :: "dedup_key \<Rightarrow> dedup_key \<Rightarrow> bool" where
  "less_eq_dedup_key a b \<longleftrightarrow>
     (dk_route a, dk_namespace a, dk_hash a) \<le> (dk_route b, dk_namespace b, dk_hash b)"

definition less_dedup_key :: "dedup_key \<Rightarrow> dedup_key \<Rightarrow> bool" where
  "less_dedup_key a b \<longleftrightarrow>
     (dk_route a, dk_namespace a, dk_hash a) < (dk_route b, dk_namespace b, dk_hash b)"

instance
proof
  fix x y z :: dedup_key
  show "(x < y) = (x \<le> y \<and> \<not> y \<le> x)"
    by (simp only: less_eq_dedup_key_def less_dedup_key_def less_le_not_le)
  show "x \<le> x" by (simp only: less_eq_dedup_key_def order.refl)
  show "x \<le> y \<Longrightarrow> y \<le> z \<Longrightarrow> x \<le> z"
    unfolding less_eq_dedup_key_def by (rule order.trans)
  show "x \<le> y \<Longrightarrow> y \<le> x \<Longrightarrow> x = y"
    by (cases x; cases y) (auto simp only: less_eq_dedup_key_def dedup_key.sel dest: order.antisym)
  show "x \<le> y \<or> y \<le> x" by (simp only: less_eq_dedup_key_def linear)
qed

end

datatype dedup_state = InFlight | Completed | Unknown

record dedup_record =
  dr_key :: dedup_key
  ds_state :: dedup_state
  ds_updated_at :: nat

definition DedupRecord_from_stored_parts :: "dedup_key \<Rightarrow> dedup_state \<Rightarrow> nat \<Rightarrow> dedup_record" where
  "DedupRecord_from_stored_parts key state updated_at_unix_ms =
     \<lparr>dr_key = key, ds_state = state, ds_updated_at = updated_at_unix_ms\<rparr>"

datatype dedup_claim = Claimed | Duplicate dedup_state

datatype dedup_claim_policy = RetainCompleted | ExpireCompleted

datatype dedup_resolution = ResolveCompleted | ResolveRetryAllowed

datatype dedup_store_error =
  DsCapacityExhausted | DsNotFound | DsInvalidTransition | DsUnavailable

text \<open>The trait. The scan with a callback is kept apart, since its callback has a state of its own.\<close>

record 's dedup_store =
  dst_durability :: store_durability
  dst_claim :: "'s \<Rightarrow> dedup_key \<Rightarrow> dedup_claim_policy \<Rightarrow> nat \<Rightarrow> (dedup_store_error + dedup_claim) \<times> 's"
  dst_complete :: "'s \<Rightarrow> dedup_key \<Rightarrow> nat \<Rightarrow> (dedup_store_error + unit) \<times> 's"
  dst_mark_unknown :: "'s \<Rightarrow> dedup_key \<Rightarrow> nat \<Rightarrow> (dedup_store_error + unit) \<times> 's"
  dst_release_claim :: "'s \<Rightarrow> dedup_key \<Rightarrow> (dedup_store_error + unit) \<times> 's"
  dst_record :: "'s \<Rightarrow> dedup_key \<Rightarrow> (dedup_store_error + dedup_record option) \<times> 's"
  dst_recover_in_flight :: "'s \<Rightarrow> nat \<Rightarrow> (dedup_store_error + nat) \<times> 's"
  dst_resolve_unknown :: "'s \<Rightarrow> dedup_key \<Rightarrow> dedup_resolution \<Rightarrow> nat \<Rightarrow> (dedup_store_error + unit) \<times> 's"
  dst_clear_completed_before :: "'s \<Rightarrow> nat \<Rightarrow> (dedup_store_error + nat) \<times> 's"

section \<open>Limits\<close>

definition MIN_DEDUP_STORE_RECORDS :: nat where
  "MIN_DEDUP_STORE_RECORDS = 1000"
definition MAX_DEDUP_STORE_RECORDS :: nat where
  "MAX_DEDUP_STORE_RECORDS = 1000000"
definition MIN_DEDUP_STORE_BYTES :: nat where
  "MIN_DEDUP_STORE_BYTES = 1024 * 1024"
definition MAX_DEDUP_STORE_BYTES :: nat where
  "MAX_DEDUP_STORE_BYTES = 128 * 1024 * 1024"
definition MIN_DEDUP_STORE_RETENTION :: duration where
  "MIN_DEDUP_STORE_RETENTION = from_secs 86400"
definition MAX_DEDUP_STORE_RETENTION :: duration where
  "MAX_DEDUP_STORE_RETENTION = from_secs (90 * 86400)"

record dedup_store_limits =
  dsl_records :: nat
  dsl_bytes :: nat
  dsl_retention :: duration

datatype dedup_store_limits_error = DsLimitRecords | DsLimitBytes | DsLimitRetention

definition DedupStoreLimits_new ::
    "nat \<Rightarrow> nat \<Rightarrow> duration \<Rightarrow> dedup_store_limits_error + dedup_store_limits" where
  "DedupStoreLimits_new records bs retention =
     (if \<not> (MIN_DEDUP_STORE_RECORDS \<le> records \<and> records \<le> MAX_DEDUP_STORE_RECORDS)
      then Err DsLimitRecords
      else if \<not> (MIN_DEDUP_STORE_BYTES \<le> bs \<and> bs \<le> MAX_DEDUP_STORE_BYTES)
      then Err DsLimitBytes
      else if \<not> (MIN_DEDUP_STORE_RETENTION \<le> retention \<and> retention \<le> MAX_DEDUP_STORE_RETENTION)
      then Err DsLimitRetention
      else Ok \<lparr>dsl_records = records, dsl_bytes = bs, dsl_retention = retention\<rparr>)"

definition DedupStoreLimits_default :: dedup_store_limits where
  "DedupStoreLimits_default =
     \<lparr>dsl_records = 100000, dsl_bytes = 16 * 1024 * 1024, dsl_retention = from_secs (7 * 86400)\<rparr>"

definition valid_dedup_limits :: "dedup_store_limits \<Rightarrow> bool" where
  "valid_dedup_limits l \<longleftrightarrow> DedupStoreLimits_new (dsl_records l) (dsl_bytes l) (dsl_retention l) = Ok l"

lemma valid_dedup_limits_default: "valid_dedup_limits DedupStoreLimits_default"
  by (simp add: valid_dedup_limits_def DedupStoreLimits_new_def DedupStoreLimits_default_def
      MIN_DEDUP_STORE_RECORDS_def MAX_DEDUP_STORE_RECORDS_def MIN_DEDUP_STORE_BYTES_def
      MAX_DEDUP_STORE_BYTES_def MIN_DEDUP_STORE_RETENTION_def MAX_DEDUP_STORE_RETENTION_def
      from_secs_def)

lemma valid_dedup_limits_bounds:
  assumes "valid_dedup_limits l"
  shows "dsl_records l \<le> 1000000" "dsl_bytes l \<le> 134217728"
    "86400000 \<le> as_millis (dsl_retention l)" "as_millis (dsl_retention l) \<le> 7776000000"
  using assms
  by (auto simp: valid_dedup_limits_def DedupStoreLimits_new_def MAX_DEDUP_STORE_RECORDS_def
      MAX_DEDUP_STORE_BYTES_def MIN_DEDUP_STORE_RETENTION_def MAX_DEDUP_STORE_RETENTION_def
      from_secs_def as_millis_def split: if_splits)

section \<open>The contract as a step relation\<close>

text \<open>What a store holds for a key: the record, its policy and its expiration.\<close>

record dedup_entry =
  en_record :: dedup_record
  en_policy :: dedup_claim_policy
  en_expires :: "int option"

type_synonym dedup_entries = "dedup_key \<rightharpoonup> dedup_entry"

abbreviation en_state :: "dedup_entry \<Rightarrow> dedup_state" where
  "en_state e \<equiv> ds_state (en_record e)"

definition set_state :: "dedup_state \<Rightarrow> nat \<Rightarrow> int option \<Rightarrow> dedup_entry \<Rightarrow> dedup_entry" where
  "set_state st t ex e =
     e\<lparr>en_record := (en_record e)\<lparr>ds_state := st, ds_updated_at := t\<rparr>, en_expires := ex\<rparr>"

definition fresh_entry :: "dedup_key \<Rightarrow> dedup_claim_policy \<Rightarrow> nat \<Rightarrow> dedup_entry" where
  "fresh_entry k p t =
     \<lparr>en_record = DedupRecord_from_stored_parts k InFlight t, en_policy = p, en_expires = None\<rparr>"

definition has_expired :: "nat \<Rightarrow> dedup_entry \<Rightarrow> bool" where
  "has_expired now e \<longleftrightarrow>
     en_state e = Completed \<and> (case en_expires e of None \<Rightarrow> False | Some x \<Rightarrow> x \<le> int now)"

definition expired_at :: "nat \<Rightarrow> dedup_entries \<Rightarrow> dedup_entries" where
  "expired_at now m k = (case m k of None \<Rightarrow> None | Some e \<Rightarrow> if has_expired now e then None else Some e)"

definition cleared_before :: "nat \<Rightarrow> dedup_entries \<Rightarrow> dedup_entries" where
  "cleared_before t m k = (case m k of None \<Rightarrow> None
     | Some e \<Rightarrow> if en_state e = Completed \<and> ds_updated_at (en_record e) < t then None else Some e)"

definition recovered_at :: "nat \<Rightarrow> dedup_entries \<Rightarrow> dedup_entries" where
  "recovered_at t m k =
     map_option (\<lambda>e. if en_state e = InFlight then set_state Unknown t None e else e) (m k)"

text \<open>When a tombstone expires: never, or a retention after its completion.\<close>

definition expiry :: "int \<Rightarrow> dedup_entry \<Rightarrow> int option" where
  "expiry ex e = (if en_policy e = ExpireCompleted then Some ex else None)"

datatype dedup_event =
    EvClaimed dedup_key dedup_claim_policy nat
  | EvDuplicate dedup_key dedup_state nat
  | EvRefused nat
  | EvCompleted dedup_key nat
  | EvResolved dedup_key nat
  | EvUnknown dedup_key
  | EvReleased dedup_key
  | EvRetried dedup_key
  | EvRecovered
  | EvCleared
  | EvNothing

inductive dedup_step :: "nat \<Rightarrow> dedup_event \<Rightarrow> dedup_entries \<Rightarrow> dedup_entries \<Rightarrow> bool" for ret where
  claimed: "expired_at now m k = None \<Longrightarrow>
    dedup_step ret (EvClaimed k p now) m ((expired_at now m)(k \<mapsto> fresh_entry k p now))"
| duplicate: "expired_at now m k = Some e \<Longrightarrow>
    dedup_step ret (EvDuplicate k (en_state e) now) m (expired_at now m)"
| refused: "m' = m \<or> m' = expired_at now m \<Longrightarrow> dedup_step ret (EvRefused now) m m'"
| completed: "m k = Some e \<Longrightarrow> en_state e = InFlight \<Longrightarrow> ex = saturating_add_i64 (int t) (int ret) \<Longrightarrow>
    dedup_step ret (EvCompleted k t) m (m(k \<mapsto> set_state Completed t (expiry ex e) e))"
| resolved: "m k = Some e \<Longrightarrow> en_state e = Unknown \<Longrightarrow> ex = saturating_add_i64 (int t) (int ret) \<Longrightarrow>
    dedup_step ret (EvResolved k t) m (m(k \<mapsto> set_state Completed t (expiry ex e) e))"
| unknown: "m k = Some e \<Longrightarrow> en_state e = InFlight \<Longrightarrow>
    dedup_step ret (EvUnknown k) m (m(k \<mapsto> set_state Unknown t None e))"
| released: "m k = Some e \<Longrightarrow> en_state e = InFlight \<Longrightarrow> dedup_step ret (EvReleased k) m (m(k := None))"
| retried: "m k = Some e \<Longrightarrow> en_state e = Unknown \<Longrightarrow> dedup_step ret (EvRetried k) m (m(k := None))"
| recovered: "dedup_step ret EvRecovered m (recovered_at t m)"
| cleared: "dedup_step ret EvCleared m (cleared_before t m)"
| nothing: "dedup_step ret EvNothing m m"

inductive_cases dedup_step_completedE: "dedup_step ret (EvCompleted k t) m m'"

section \<open>Operations as events\<close>

datatype dedup_op =
    DoClaim dedup_key dedup_claim_policy nat
  | DoComplete dedup_key nat
  | DoMarkUnknown dedup_key nat
  | DoRelease dedup_key
  | DoRecord dedup_key
  | DoRecover nat
  | DoResolve dedup_key dedup_resolution nat
  | DoClear nat

text \<open>An operation on a store, reported as the event its result stands for.\<close>

fun dedup_run :: "'s dedup_store \<Rightarrow> dedup_op \<Rightarrow> 's \<Rightarrow> dedup_event \<times> 's" where
  "dedup_run st (DoClaim k p t) s = (case dst_claim st s k p t of
     (Inl e, s') \<Rightarrow> (EvRefused t, s')
   | (Inr Claimed, s') \<Rightarrow> (EvClaimed k p t, s')
   | (Inr (Duplicate d), s') \<Rightarrow> (EvDuplicate k d t, s'))"
| "dedup_run st (DoComplete k t) s = (case dst_complete st s k t of
     (r, s') \<Rightarrow> (if is_ok r then EvCompleted k t else EvNothing, s'))"
| "dedup_run st (DoMarkUnknown k t) s = (case dst_mark_unknown st s k t of
     (r, s') \<Rightarrow> (if is_ok r then EvUnknown k else EvNothing, s'))"
| "dedup_run st (DoRelease k) s = (case dst_release_claim st s k of
     (r, s') \<Rightarrow> (if is_ok r then EvReleased k else EvNothing, s'))"
| "dedup_run st (DoRecord k) s = (case dst_record st s k of (r, s') \<Rightarrow> (EvNothing, s'))"
| "dedup_run st (DoRecover t) s = (case dst_recover_in_flight st s t of
     (r, s') \<Rightarrow> (if is_ok r then EvRecovered else EvNothing, s'))"
| "dedup_run st (DoResolve k ResolveCompleted t) s =
     (case dst_resolve_unknown st s k ResolveCompleted t of
        (r, s') \<Rightarrow> (if is_ok r then EvResolved k t else EvNothing, s'))"
| "dedup_run st (DoResolve k ResolveRetryAllowed t) s =
     (case dst_resolve_unknown st s k ResolveRetryAllowed t of
        (r, s') \<Rightarrow> (if is_ok r then EvRetried k else EvNothing, s'))"
| "dedup_run st (DoClear t) s = (case dst_clear_completed_before st s t of
     (r, s') \<Rightarrow> (if is_ok r then EvCleared else EvNothing, s'))"

fun dedup_op_key :: "dedup_op \<Rightarrow> dedup_key option" where
  "dedup_op_key (DoClaim k _ _) = Some k"
| "dedup_op_key _ = None"

fun dedup_trace :: "'s dedup_store \<Rightarrow> dedup_op list \<Rightarrow> 's \<Rightarrow> dedup_event list \<times> 's" where
  "dedup_trace st [] s = ([], s)"
| "dedup_trace st (op # ops) s =
     (case dedup_run st op s of (ev, s') \<Rightarrow>
        (case dedup_trace st ops s' of (evs, s'') \<Rightarrow> (ev # evs, s'')))"

section \<open>What the steps allow\<close>

inductive dedup_steps :: "nat \<Rightarrow> dedup_event list \<Rightarrow> dedup_entries \<Rightarrow> dedup_entries \<Rightarrow> bool" for ret where
  done_steps: "dedup_steps ret [] m m"
| more_steps: "dedup_step ret ev m m1 \<Longrightarrow> dedup_steps ret evs m1 m2 \<Longrightarrow> dedup_steps ret (ev # evs) m m2"

text \<open>Permissions to dispatch a key, and the decisions that allow another one.\<close>

definition claims_of :: "dedup_key \<Rightarrow> dedup_event list \<Rightarrow> nat" where
  "claims_of k evs = length (filter (\<lambda>ev. \<exists>p t. ev = EvClaimed k p t) evs)"

definition removals_of :: "dedup_key \<Rightarrow> dedup_event list \<Rightarrow> nat" where
  "removals_of k evs = length (filter (\<lambda>ev. ev = EvReleased k \<or> ev = EvRetried k) evs)"

text \<open>Events under which a tombstone of \<open>k\<close> stays for good.\<close>

definition retains :: "dedup_key \<Rightarrow> dedup_event \<Rightarrow> bool" where
  "retains k ev \<longleftrightarrow> ev \<noteq> EvCleared \<and> (\<forall>p t. ev = EvClaimed k p t \<longrightarrow> p = RetainCompleted)"

definition retained_entry :: "dedup_entry option \<Rightarrow> bool" where
  "retained_entry x \<longleftrightarrow> (case x of None \<Rightarrow> True
     | Some e \<Rightarrow> en_policy e = RetainCompleted \<and> en_expires e = None)"

lemma set_state_simps [simp]:
  "en_state (set_state st t ex e) = st" "en_policy (set_state st t ex e) = en_policy e"
  "en_expires (set_state st t ex e) = ex" "ds_updated_at (en_record (set_state st t ex e)) = t"
  "dr_key (en_record (set_state st t ex e)) = dr_key (en_record e)"
  by (simp_all add: set_state_def)

lemma fresh_entry_simps [simp]:
  "en_state (fresh_entry k p t) = InFlight" "en_policy (fresh_entry k p t) = p"
  "en_expires (fresh_entry k p t) = None"
  by (simp_all add: fresh_entry_def DedupRecord_from_stored_parts_def)

lemma expired_retained: "retained_entry (m k) \<Longrightarrow> expired_at now m k = m k"
  by (cases "m k") (simp_all add: expired_at_def retained_entry_def has_expired_def)

lemma dedup_step_balance:
  assumes "dedup_step ret ev m m'" and "retained_entry (m k)" and "retains k ev"
  shows "retained_entry (m' k) \<and>
    weight (\<exists>p t. ev = EvClaimed k p t) + weight (m k \<noteq> None) =
    weight (ev = EvReleased k \<or> ev = EvRetried k) + weight (m' k \<noteq> None)"
  using assms expired_retained [of m k]
  by (cases rule: dedup_step.cases)
    (auto simp: weight_def retained_entry_def retains_def expiry_def recovered_at_def
      split: option.splits)

text \<open>A retained key: the number of claims is the number of removals, up to one claim still held.\<close>

lemma dedup_steps_balance:
  assumes "dedup_steps ret evs m m'" and "retained_entry (m k)" and "list_all (retains k) evs"
  shows "claims_of k evs + weight (m k \<noteq> None) = removals_of k evs + weight (m' k \<noteq> None)"
  using assms
proof (induction rule: dedup_steps.induct)
  case (done_steps m)
  then show ?case by (simp add: claims_of_def removals_of_def)
next
  case (more_steps ev m m1 evs m2)
  have step: "retained_entry (m1 k)" "weight (\<exists>p t. ev = EvClaimed k p t) + weight (m k \<noteq> None) =
      weight (ev = EvReleased k \<or> ev = EvRetried k) + weight (m1 k \<noteq> None)"
    using dedup_step_balance [OF more_steps.hyps(1)] more_steps.prems by auto
  have "claims_of k (ev # evs) = weight (\<exists>p t. ev = EvClaimed k p t) + claims_of k evs"
    "removals_of k (ev # evs) = weight (ev = EvReleased k \<or> ev = EvRetried k) + removals_of k evs"
    by (simp_all add: claims_of_def removals_of_def weight_def)
  with step more_steps show ?case by simp
qed

text \<open>An uncertain dispatch never becomes claimable on its own: only a resolution ends it.\<close>

definition settles :: "dedup_key \<Rightarrow> dedup_event \<Rightarrow> bool" where
  "settles k ev \<longleftrightarrow> ev = EvRetried k \<or> (\<exists>t. ev = EvResolved k t)"

lemma unknown_not_expired: "m k = Some e \<Longrightarrow> en_state e \<noteq> Completed \<Longrightarrow> expired_at now m k = Some e"
  by (simp add: expired_at_def has_expired_def)

lemma dedup_step_unknown:
  assumes "dedup_step ret ev m m'" and "m k = Some e" and "en_state e = Unknown" and "\<not> settles k ev"
  shows "m' k = Some e \<and> (\<forall>p t. ev \<noteq> EvClaimed k p t)"
  using assms unknown_not_expired [of m k e]
  by (cases rule: dedup_step.cases)
    (auto simp: settles_def recovered_at_def cleared_before_def)

lemma dedup_steps_unknown:
  assumes "dedup_steps ret evs m m'" and "m k = Some e" and "en_state e = Unknown"
    and "list_all (\<lambda>ev. \<not> settles k ev) evs"
  shows "m' k = Some e \<and> claims_of k evs = 0"
  using assms
proof (induction rule: dedup_steps.induct)
  case (more_steps ev m m1 evs m2)
  then have "m1 k = Some e \<and> (\<forall>p t. ev \<noteq> EvClaimed k p t)"
    using dedup_step_unknown [OF more_steps.hyps(1)] by simp
  with more_steps show ?case by (simp add: claims_of_def)
qed (simp add: claims_of_def)

text \<open>A completed dispatch is not repeated before its retention is over, unless it is cleared.\<close>

fun event_time :: "dedup_event \<Rightarrow> nat option" where
  "event_time (EvClaimed _ _ t) = Some t"
| "event_time (EvDuplicate _ _ t) = Some t"
| "event_time (EvRefused t) = Some t"
| "event_time _ = None"

definition early :: "dedup_entry \<Rightarrow> dedup_event \<Rightarrow> bool" where
  "early e ev \<longleftrightarrow> ev \<noteq> EvCleared \<and>
     (\<forall>t x. event_time ev = Some t \<longrightarrow> en_expires e = Some x \<longrightarrow> int t < x)"

lemma dedup_step_completed:
  assumes "dedup_step ret ev m m'" and "m k = Some e" and "en_state e = Completed" and "early e ev"
  shows "m' k = Some e \<and> (\<forall>p t. ev \<noteq> EvClaimed k p t)"
proof -
  have "expired_at t m k = Some e" if "event_time ev = Some t" for t
    using assms(2,4) that by (auto simp: expired_at_def has_expired_def early_def split: option.split)
  with assms show ?thesis
    by (cases rule: dedup_step.cases) (auto simp: recovered_at_def early_def)
qed

lemma dedup_steps_completed:
  assumes "dedup_steps ret evs m m'" and "m k = Some e" and "en_state e = Completed"
    and "list_all (early e) evs"
  shows "m' k = Some e \<and> claims_of k evs = 0"
  using assms
proof (induction rule: dedup_steps.induct)
  case (more_steps ev m m1 evs m2)
  then have "m1 k = Some e \<and> (\<forall>p t. ev \<noteq> EvClaimed k p t)"
    using dedup_step_completed [OF more_steps.hyps(1)] by simp
  with more_steps show ?case by (simp add: claims_of_def)
qed (simp add: claims_of_def)

section \<open>Stores that implement the contract\<close>

locale dedup_store_contract =
  fixes st :: "'s dedup_store"
    and inv :: "'s \<Rightarrow> bool"
    and ents :: "'s \<Rightarrow> dedup_entries"
    and usable :: "dedup_key \<Rightarrow> bool"
    and ret :: nat
  assumes run_step: "inv s \<Longrightarrow> pred_option usable (dedup_op_key op) \<Longrightarrow> dedup_run st op s = (ev, s') \<Longrightarrow>
      inv s' \<and> dedup_step ret ev (ents s) (ents s')"
    and record_ok: "inv s \<Longrightarrow> dst_record st s k = (Ok r, s') \<Longrightarrow> r = map_option en_record (ents s k)"
begin

lemma trace_steps:
  assumes "inv s" and "list_all (\<lambda>op. pred_option usable (dedup_op_key op)) ops"
    and "dedup_trace st ops s = (evs, s')"
  shows "inv s' \<and> dedup_steps ret evs (ents s) (ents s')"
  using assms
proof (induction ops arbitrary: s evs)
  case Nil
  then show ?case by (simp add: dedup_steps.intros)
next
  case (Cons op ops)
  obtain ev s1 where op: "dedup_run st op s = (ev, s1)" by (cases "dedup_run st op s")
  obtain evs1 s2 where rest: "dedup_trace st ops s1 = (evs1, s2)" by (cases "dedup_trace st ops s1")
  have "inv s1" "dedup_step ret ev (ents s) (ents s1)"
    using run_step [OF Cons.prems(1) _ op] Cons.prems(2) by auto
  with Cons.IH [of s1 evs1] Cons.prems op rest show ?case
    by (auto intro: dedup_steps.intros)
qed

end

end
