(* ===== verification/Sql_Dedup.thy ===== *)
theory Sql_Dedup
  imports Sql_Usage Dedup_Model
begin

text \<open>
  \<open>SqlCipherDedupStore\<close> (\<open>bondry-store-sqlcipher/src/dedup.rs\<close>): webhook replay protection over the
  table \<open>webhook_dedup\<close>. Every statement, constraint and transaction of the file is a definition here;
  the store implements the contract of \<open>Dedup_Model\<close>, and the scan over unknown records ends and
  visits them in key order.
\<close>

section \<open>Encodings\<close>

definition DEDUP_RECORD_BASE_CHARGE_BYTES :: nat where
  "DEDUP_RECORD_BASE_CHARGE_BYTES = 96"

definition dedup_encoded_time :: "nat \<Rightarrow> dedup_store_error + int" where
  "dedup_encoded_time v = ok_or DsInvalidTransition (i64_try_from (int v))"

definition dedup_expiration :: "int \<Rightarrow> dedup_store_limits \<Rightarrow> dedup_store_error + int" where
  "dedup_expiration updated_at limits =
     bindR (ok_or DsInvalidTransition (i64_try_from (int (as_millis (dsl_retention limits)))))
       (\<lambda>retention. Ok (saturating_add_i64 updated_at retention))"

definition encoded_charge :: "dedup_key \<Rightarrow> dedup_store_error + int" where
  "encoded_charge key =
     bindR (ok_or DsUnavailable
       (case checked_add_u64 DEDUP_RECORD_BASE_CHARGE_BYTES (str_len (dk_route key)) of
          None \<Rightarrow> None
        | Some charge \<Rightarrow> checked_add_u64 charge (str_len (dk_namespace key))))
       (\<lambda>charge. ok_or DsUnavailable (i64_try_from (int charge)))"

definition decode_dedup_state :: "rstr \<Rightarrow> dedup_store_error + dedup_state" where
  "decode_dedup_state v =
     (if v = lit ''in_flight'' then Ok InFlight
      else if v = lit ''completed'' then Ok Completed
      else if v = lit ''unknown'' then Ok Unknown
      else Err DsUnavailable)"

definition row_key :: "dedup_row \<Rightarrow> dedup_key" where
  "row_key r = DedupKey (dd_route r) (dd_namespace r) (dd_hash r)"

definition RawDedupRecord_validate :: "dedup_row \<Rightarrow> dedup_store_error + dedup_record" where
  "RawDedupRecord_validate r =
     bindR (map_err (\<lambda>_. DsUnavailable) (RouteId_new (dd_route r))) (\<lambda>route.
     bindR (map_err (\<lambda>_. DsUnavailable) (VerifierNamespace_new (dd_namespace r))) (\<lambda>namespace.
     bindR (if length (dd_hash r) = 32 then Ok (dd_hash r) else Err DsUnavailable) (\<lambda>delivery_hash.
     bindR (ok_or DsUnavailable (u64_try_from (dd_updated_at_ms r))) (\<lambda>updated_at_ms.
     bindR (decode_dedup_state (dd_state r)) (\<lambda>state.
       Ok (DedupRecord_from_stored_parts (DedupKey route namespace delivery_hash)
             state updated_at_ms))))))"

section \<open>Statements\<close>

text \<open>The \<open>CHECK\<close> constraints of \<open>webhook_dedup\<close>.\<close>

definition dedup_row_check :: "dedup_row \<Rightarrow> bool" where
  "dedup_row_check r \<longleftrightarrow>
     length (dd_hash r) = 32 \<and>
     dd_state r \<in> {lit ''in_flight'', lit ''completed'', lit ''unknown''} \<and>
     dd_automatic_expiry r \<in> {0, 1} \<and> 0 \<le> dd_updated_at_ms r \<and> 96 \<le> dd_charged_bytes r \<and>
     (dd_state r = lit ''completed'' \<and> dd_automatic_expiry r = 1 \<and> dd_expires_at_ms r \<noteq> None \<or>
      dd_state r = lit ''completed'' \<and> dd_automatic_expiry r = 0 \<and> dd_expires_at_ms r = None \<or>
      dd_state r \<noteq> lit ''completed'' \<and> dd_expires_at_ms r = None)"

definition delete_dedup_rows :: "(dedup_row \<Rightarrow> bool) \<Rightarrow> database \<Rightarrow> (nat \<times> database) option" where
  "delete_dedup_rows p d =
     map_option (\<lambda>(rows, u). (count_rows p (db_dedup d), d\<lparr>db_dedup := rows, db_usage_dedup := u\<rparr>))
       (delete_rows WebhookDedupTable dd_charged_bytes p (db_dedup d) (db_usage_dedup d))"

definition insert_dedup_row :: "dedup_row \<Rightarrow> database \<Rightarrow> database option" where
  "insert_dedup_row r d =
     (if tbl row_key (db_dedup d) (row_key r) \<noteq> None \<or> \<not> dedup_row_check r
         \<or> db_seq_dedup d \<ge> i64_max then None
      else
        (case usage_insert WebhookDedupTable (dd_charged_bytes r) (db_usage_dedup d) of
           None \<Rightarrow> None
         | Some u \<Rightarrow>
             Some (d\<lparr>db_seq_dedup := db_seq_dedup d + 1,
               db_dedup := db_dedup d @ [r\<lparr>dd_sequence := db_seq_dedup d + 1\<rparr>],
               db_usage_dedup := u\<rparr>)))"

definition update_dedup_rows ::
    "(dedup_row \<Rightarrow> bool) \<Rightarrow> (dedup_row \<Rightarrow> dedup_row) \<Rightarrow> database \<Rightarrow> (nat \<times> database) option" where
  "update_dedup_rows p f d =
     (if \<exists>r\<in>set (db_dedup d). p r \<and> \<not> dedup_row_check (f r) then None
      else Some (count_rows p (db_dedup d), d\<lparr>db_dedup := update_rows p f (db_dedup d)\<rparr>))"

section \<open>Operations\<close>

definition dedup_transition ::
    "conn \<Rightarrow> dedup_key \<Rightarrow> (database \<Rightarrow> (nat \<times> database) option)
       \<Rightarrow> (dedup_store_error + unit) \<times> conn" where
  "dedup_transition c key update =
     attempt DsUnavailable c (\<lambda>c. transaction DsUnavailable c (\<lambda>c.
       attemptT DsUnavailable c (\<lambda>c.
         case update (cn_data c) of
           None \<Rightarrow> (Err DsUnavailable, False, c)
         | Some (changed, d) \<Rightarrow>
             (let c = update_data (\<lambda>_. d) c in
              if changed = 1 then commit DsUnavailable c (Ok ())
              else
                attemptT DsUnavailable c (\<lambda>c.
                  if tbl row_key (db_dedup (cn_data c)) key \<noteq> None
                  then (Err DsInvalidTransition, False, c)
                  else (Err DsNotFound, False, c))))))"

text \<open>The part of \<open>claim\<close> after a key was found absent: capacity, then the insertion.\<close>

definition sql_claim_checked ::
    "dedup_store_limits \<Rightarrow> dedup_key \<Rightarrow> dedup_claim_policy \<Rightarrow> int \<Rightarrow> conn
       \<Rightarrow> (dedup_store_error + dedup_claim) \<times> bool \<times> conn" where
  "sql_claim_checked limits key policy updated_at c =
     attemptT DsUnavailable c (\<lambda>c.
       case usage_read WebhookDedupTable (db_usage_dedup (cn_data c)) of
         None \<Rightarrow> (Err DsUnavailable, False, c)
       | Some (records, bs) \<Rightarrow>
           (case encoded_charge key of
              Inl e \<Rightarrow> (Err e, False, c)
            | Inr charged_bytes \<Rightarrow>
                if records \<ge> int (dsl_records limits)
                   \<or> saturating_add_i64 bs charged_bytes > int (dsl_bytes limits)
                then commit DsUnavailable c (Err DsCapacityExhausted)
                else
                  attemptT DsUnavailable c (\<lambda>c.
                    case insert_dedup_row
                           \<lparr>dd_sequence = 0, dd_route = dk_route key,
                            dd_namespace = dk_namespace key, dd_hash = dk_hash key,
                            dd_state = lit ''in_flight'',
                            dd_automatic_expiry = (if policy = ExpireCompleted then 1 else 0),
                            dd_updated_at_ms = updated_at, dd_expires_at_ms = None,
                            dd_charged_bytes = charged_bytes\<rparr> (cn_data c) of
                      None \<Rightarrow> (Err DsUnavailable, False, c)
                    | Some d \<Rightarrow> commit DsUnavailable (update_data (\<lambda>_. d) c) (Ok Claimed))))"

definition sql_claim_body ::
    "dedup_store_limits \<Rightarrow> dedup_key \<Rightarrow> dedup_claim_policy \<Rightarrow> int \<Rightarrow> conn
       \<Rightarrow> (dedup_store_error + dedup_claim) \<times> bool \<times> conn" where
  "sql_claim_body limits key policy updated_at c =
     attemptT DsUnavailable c (\<lambda>c.
       case delete_dedup_rows (\<lambda>r. dd_state r = lit ''completed'' \<and>
              (case dd_expires_at_ms r of None \<Rightarrow> False | Some x \<Rightarrow> x \<le> updated_at)) (cn_data c) of
         None \<Rightarrow> (Err DsUnavailable, False, c)
       | Some (_, d) \<Rightarrow>
           attemptT DsUnavailable (update_data (\<lambda>_. d) c) (\<lambda>c.
             case tbl row_key (db_dedup (cn_data c)) key of
               Some r \<Rightarrow>
                 (case decode_dedup_state (dd_state r) of
                    Inl e \<Rightarrow> (Err e, False, c)
                  | Inr state \<Rightarrow> commit DsUnavailable c (Ok (Duplicate state)))
             | None \<Rightarrow> sql_claim_checked limits key policy updated_at c))"

definition sql_claim ::
    "dedup_store_limits \<Rightarrow> conn \<Rightarrow> dedup_key \<Rightarrow> dedup_claim_policy \<Rightarrow> nat
       \<Rightarrow> (dedup_store_error + dedup_claim) \<times> conn" where
  "sql_claim limits c key policy updated_at_unix_ms =
     (case dedup_encoded_time updated_at_unix_ms of
        Inl e \<Rightarrow> (Err e, c)
      | Inr updated_at \<Rightarrow>
          attempt DsUnavailable c (\<lambda>c.
            transaction DsUnavailable c (sql_claim_body limits key policy updated_at)))"

text \<open>The assignment shared by completion and resolution.\<close>

definition complete_row :: "int \<Rightarrow> int \<Rightarrow> dedup_row \<Rightarrow> dedup_row" where
  "complete_row updated_at expires_at r =
     r\<lparr>dd_state := lit ''completed'', dd_updated_at_ms := updated_at,
       dd_expires_at_ms := (if dd_automatic_expiry r = 1 then Some expires_at else None)\<rparr>"

definition unknown_row :: "int \<Rightarrow> dedup_row \<Rightarrow> dedup_row" where
  "unknown_row updated_at r =
     r\<lparr>dd_state := lit ''unknown'', dd_updated_at_ms := updated_at, dd_expires_at_ms := None\<rparr>"

definition sql_complete ::
    "dedup_store_limits \<Rightarrow> conn \<Rightarrow> dedup_key \<Rightarrow> nat \<Rightarrow> (dedup_store_error + unit) \<times> conn" where
  "sql_complete limits c key updated_at_unix_ms =
     (case dedup_encoded_time updated_at_unix_ms of
        Inl e \<Rightarrow> (Err e, c)
      | Inr updated_at \<Rightarrow>
          (case dedup_expiration updated_at limits of
             Inl e \<Rightarrow> (Err e, c)
           | Inr expires_at \<Rightarrow>
               dedup_transition c key
                 (update_dedup_rows (\<lambda>r. row_key r = key \<and> dd_state r = lit ''in_flight'')
                    (complete_row updated_at expires_at))))"

definition sql_mark_unknown ::
    "conn \<Rightarrow> dedup_key \<Rightarrow> nat \<Rightarrow> (dedup_store_error + unit) \<times> conn" where
  "sql_mark_unknown c key updated_at_unix_ms =
     (case dedup_encoded_time updated_at_unix_ms of
        Inl e \<Rightarrow> (Err e, c)
      | Inr updated_at \<Rightarrow>
          dedup_transition c key
            (update_dedup_rows (\<lambda>r. row_key r = key \<and> dd_state r = lit ''in_flight'')
               (unknown_row updated_at)))"

definition sql_release_claim :: "conn \<Rightarrow> dedup_key \<Rightarrow> (dedup_store_error + unit) \<times> conn" where
  "sql_release_claim c key =
     dedup_transition c key
       (delete_dedup_rows (\<lambda>r. row_key r = key \<and> dd_state r = lit ''in_flight''))"

definition sql_dedup_record ::
    "conn \<Rightarrow> dedup_key \<Rightarrow> (dedup_store_error + dedup_record option) \<times> conn" where
  "sql_dedup_record c key =
     attempt DsUnavailable c (\<lambda>c. attempt DsUnavailable c (\<lambda>c.
       (transposeR RawDedupRecord_validate (tbl row_key (db_dedup (cn_data c)) key), c)))"

definition sql_recover_in_flight :: "conn \<Rightarrow> nat \<Rightarrow> (dedup_store_error + nat) \<times> conn" where
  "sql_recover_in_flight c updated_at_unix_ms =
     (case dedup_encoded_time updated_at_unix_ms of
        Inl e \<Rightarrow> (Err e, c)
      | Inr updated_at \<Rightarrow>
          attempt DsUnavailable c (\<lambda>c. attempt DsUnavailable c (\<lambda>c.
            case update_dedup_rows (\<lambda>r. dd_state r = lit ''in_flight'') (unknown_row updated_at)
                   (cn_data c) of
              None \<Rightarrow> (Err DsUnavailable, c)
            | Some (changed, d) \<Rightarrow> (Ok changed, update_data (\<lambda>_. d) c))))"

definition sql_resolve_unknown ::
    "dedup_store_limits \<Rightarrow> conn \<Rightarrow> dedup_key \<Rightarrow> dedup_resolution \<Rightarrow> nat
       \<Rightarrow> (dedup_store_error + unit) \<times> conn" where
  "sql_resolve_unknown limits c key resolution updated_at_unix_ms =
     (case dedup_encoded_time updated_at_unix_ms of
        Inl e \<Rightarrow> (Err e, c)
      | Inr updated_at \<Rightarrow>
          (case dedup_expiration updated_at limits of
             Inl e \<Rightarrow> (Err e, c)
           | Inr expires_at \<Rightarrow>
               dedup_transition c key
                 (case resolution of
                    ResolveCompleted \<Rightarrow>
                      update_dedup_rows (\<lambda>r. row_key r = key \<and> dd_state r = lit ''unknown'')
                        (complete_row updated_at expires_at)
                  | ResolveRetryAllowed \<Rightarrow>
                      delete_dedup_rows (\<lambda>r. row_key r = key \<and> dd_state r = lit ''unknown''))))"

definition sql_clear_completed_before :: "conn \<Rightarrow> nat \<Rightarrow> (dedup_store_error + nat) \<times> conn" where
  "sql_clear_completed_before c updated_before_unix_ms =
     (case dedup_encoded_time updated_before_unix_ms of
        Inl e \<Rightarrow> (Err e, c)
      | Inr cutoff \<Rightarrow>
          attempt DsUnavailable c (\<lambda>c. attempt DsUnavailable c (\<lambda>c.
            case delete_dedup_rows (\<lambda>r. dd_state r = lit ''completed'' \<and> dd_updated_at_ms r < cutoff)
                   (cn_data c) of
              None \<Rightarrow> (Err DsUnavailable, c)
            | Some (changed, d) \<Rightarrow> (Ok changed, update_data (\<lambda>_. d) c))))"

definition sql_dedup_store :: "dedup_store_limits \<Rightarrow> conn dedup_store" where
  "sql_dedup_store limits =
     \<lparr>dst_durability = Persistent,
      dst_claim = sql_claim limits,
      dst_complete = sql_complete limits,
      dst_mark_unknown = sql_mark_unknown,
      dst_release_claim = sql_release_claim,
      dst_record = sql_dedup_record,
      dst_recover_in_flight = sql_recover_in_flight,
      dst_resolve_unknown = sql_resolve_unknown limits,
      dst_clear_completed_before = sql_clear_completed_before\<rparr>"

section \<open>Invariant\<close>

definition good_dedup_row :: "dedup_row \<Rightarrow> bool" where
  "good_dedup_row r \<longleftrightarrow> dedup_row_check r \<and> is_ok (RawDedupRecord_validate r) \<and>
     dd_charged_bytes r = 96 + int (str_len (dd_route r)) + int (str_len (dd_namespace r))"

definition row_entry :: "dedup_row \<Rightarrow> dedup_entry" where
  "row_entry r =
     \<lparr>en_record = projr (RawDedupRecord_validate r),
      en_policy = (if dd_automatic_expiry r = 1 then ExpireCompleted else RetainCompleted),
      en_expires = dd_expires_at_ms r\<rparr>"

definition dedup_wf :: "database \<Rightarrow> bool" where
  "dedup_wf d \<longleftrightarrow>
     keyed row_key (db_dedup d) \<and> (\<forall>r\<in>set (db_dedup d). good_dedup_row r) \<and>
     usage_exact dd_charged_bytes (db_dedup d) (db_usage_dedup d) \<and>
     length (db_dedup d) \<le> 1000000 \<and> (\<forall>r\<in>set (db_dedup d). dd_sequence r \<le> db_seq_dedup d) \<and>
     0 \<le> db_seq_dedup d"

definition dd_ents :: "database \<Rightarrow> dedup_entries" where
  "dd_ents d k = map_option row_entry (tbl row_key (db_dedup d) k)"

definition valid_dedup_key :: "dedup_key \<Rightarrow> bool" where
  "valid_dedup_key k \<longleftrightarrow>
     valid_identifier (dk_route k) \<and> valid_identifier (dk_namespace k) \<and> length (dk_hash k) = 32"

lemma dedup_time_Ok: "dedup_encoded_time v = Ok t \<longleftrightarrow> t = int v \<and> int v \<le> i64_max"
  by (auto simp: dedup_encoded_time_def result_simps int_simps in_i64_def)

lemma time_u64: "int v \<le> i64_max \<Longrightarrow> u64_try_from (int v) = Some v"
  by (simp add: u64_try_from_def i64_max_def u64_max_def)

lemma dedup_validate_Ok_iff:
  "RawDedupRecord_validate r = Ok x \<longleftrightarrow>
     valid_dedup_key (row_key r) \<and> u64_try_from (dd_updated_at_ms r) = Some (ds_updated_at x) \<and>
     decode_dedup_state (dd_state r) = Ok (ds_state x) \<and> dr_key x = row_key r"
  by (cases x)
    (auto simp: RawDedupRecord_validate_def result_simps DedupRecord_from_stored_parts_def
      valid_dedup_key_def row_key_def split: if_splits)

lemma good_validate: "good_dedup_row r \<Longrightarrow> RawDedupRecord_validate r = Ok (en_record (row_entry r))"
  by (auto simp: good_dedup_row_def row_entry_def result_simps)

lemma decode_dedup_state_iff:
  "decode_dedup_state v = Ok InFlight \<longleftrightarrow> v = lit ''in_flight''"
  "decode_dedup_state v = Ok Completed \<longleftrightarrow> v = lit ''completed''"
  "decode_dedup_state v = Ok Unknown \<longleftrightarrow> v = lit ''unknown''"
  by (auto simp: decode_dedup_state_def)

lemma row_entry_state:
  assumes "good_dedup_row r"
  shows "decode_dedup_state (dd_state r) = Ok (en_state (row_entry r))"
    and "en_state (row_entry r) = InFlight \<longleftrightarrow> dd_state r = lit ''in_flight''"
    and "en_state (row_entry r) = Completed \<longleftrightarrow> dd_state r = lit ''completed''"
    and "en_state (row_entry r) = Unknown \<longleftrightarrow> dd_state r = lit ''unknown''"
    and "int (ds_updated_at (en_record (row_entry r))) = dd_updated_at_ms r"
    and "dr_key (en_record (row_entry r)) = row_key r"
proof -
  from good_validate [OF assms] have v: "decode_dedup_state (dd_state r) = Ok (en_state (row_entry r))"
    "u64_try_from (dd_updated_at_ms r) = Some (ds_updated_at (en_record (row_entry r)))"
    "dr_key (en_record (row_entry r)) = row_key r"
    by (simp_all add: dedup_validate_Ok_iff)
  then show "decode_dedup_state (dd_state r) = Ok (en_state (row_entry r))"
    "dr_key (en_record (row_entry r)) = row_key r" by simp_all
  from v(2) show "int (ds_updated_at (en_record (row_entry r))) = dd_updated_at_ms r"
    by (auto simp: u64_try_from_def split: if_splits)
  from v(1) decode_dedup_state_iff [of "dd_state r"]
  show "en_state (row_entry r) = InFlight \<longleftrightarrow> dd_state r = lit ''in_flight''"
    and "en_state (row_entry r) = Completed \<longleftrightarrow> dd_state r = lit ''completed''"
    and "en_state (row_entry r) = Unknown \<longleftrightarrow> dd_state r = lit ''unknown''"
    by auto
qed

lemma dedup_entry_eqI:
  "en_record e = en_record e' \<Longrightarrow> en_policy e = en_policy e' \<Longrightarrow> en_expires e = en_expires e' \<Longrightarrow> e = (e' :: dedup_entry)"
  by (cases e; cases e') simp

lemma dedup_record_eqI:
  "dr_key e = dr_key e' \<Longrightarrow> ds_state e = ds_state e' \<Longrightarrow> ds_updated_at e = ds_updated_at e' \<Longrightarrow> e = (e' :: dedup_record)"
  by (cases e; cases e') simp

text \<open>A row rewritten by a statement, and the entry it then stands for.\<close>

lemma rewritten_row:
  assumes good: "good_dedup_row r" and t: "int t \<le> i64_max"
    and same: "row_key r' = row_key r" "dd_automatic_expiry r' = dd_automatic_expiry r"
      "dd_charged_bytes r' = dd_charged_bytes r"
    and new: "dd_updated_at_ms r' = int t" "decode_dedup_state (dd_state r') = Ok st"
      "dd_expires_at_ms r' = ex"
    and chk: "dedup_row_check r'"
  shows "good_dedup_row r' \<and> row_entry r' = set_state st t ex (row_entry r)"
proof -
  let ?x = "(en_record (row_entry r))\<lparr>ds_state := st, ds_updated_at := t\<rparr>"
  have cols: "dd_route r' = dd_route r" "dd_namespace r' = dd_namespace r"
    using same(1) by (simp_all add: row_key_def)
  have val: "RawDedupRecord_validate r' = Ok ?x"
    using good_validate [OF good] same new time_u64 [OF t] by (simp add: dedup_validate_Ok_iff)
  then have "good_dedup_row r'"
    using good same(3) chk cols by (simp add: good_dedup_row_def)
  moreover have "row_entry r' = set_state st t ex (row_entry r)"
    using val same(2) new(3) by (intro dedup_entry_eqI) (simp_all add: row_entry_def set_state_def)
  ultimately show ?thesis ..
qed

lemma row_key_rewrites [simp]:
  "row_key (complete_row t ex r) = row_key r" "row_key (unknown_row t r) = row_key r"
  "dd_charged_bytes (complete_row t ex r) = dd_charged_bytes r"
  "dd_charged_bytes (unknown_row t r) = dd_charged_bytes r"
  "dd_sequence (complete_row t ex r) = dd_sequence r" "dd_sequence (unknown_row t r) = dd_sequence r"
  by (simp_all add: row_key_def complete_row_def unknown_row_def)

lemma completed_row:
  assumes "good_dedup_row r" and "int t \<le> i64_max"
  shows "dedup_row_check (complete_row (int t) ex r)" "good_dedup_row (complete_row (int t) ex r)"
    "row_entry (complete_row (int t) ex r) = set_state Completed t (expiry ex (row_entry r)) (row_entry r)"
proof -
  show chk: "dedup_row_check (complete_row (int t) ex r)"
    using assms(1) by (auto simp: good_dedup_row_def dedup_row_check_def complete_row_def)
  have "good_dedup_row (complete_row (int t) ex r) \<and>
    row_entry (complete_row (int t) ex r) = set_state Completed t (expiry ex (row_entry r)) (row_entry r)"
    by (rule rewritten_row [OF assms])
      (use chk in \<open>simp_all add: complete_row_def row_key_def decode_dedup_state_def expiry_def row_entry_def\<close>)
  then show "good_dedup_row (complete_row (int t) ex r)"
    "row_entry (complete_row (int t) ex r) = set_state Completed t (expiry ex (row_entry r)) (row_entry r)"
    by simp_all
qed

lemma unknowned_row:
  assumes "good_dedup_row r" and "int t \<le> i64_max"
  shows "dedup_row_check (unknown_row (int t) r)" "good_dedup_row (unknown_row (int t) r)"
    "row_entry (unknown_row (int t) r) = set_state Unknown t None (row_entry r)"
proof -
  show chk: "dedup_row_check (unknown_row (int t) r)"
    using assms(1) by (auto simp: good_dedup_row_def dedup_row_check_def unknown_row_def)
  have "good_dedup_row (unknown_row (int t) r) \<and>
    row_entry (unknown_row (int t) r) = set_state Unknown t None (row_entry r)"
    by (rule rewritten_row [OF assms])
      (use chk in \<open>simp_all add: unknown_row_def row_key_def decode_dedup_state_def\<close>)
  then show "good_dedup_row (unknown_row (int t) r)"
    "row_entry (unknown_row (int t) r) = set_state Unknown t None (row_entry r)"
    by simp_all
qed

section \<open>Effect of the statements\<close>

lemma dedup_charges: "\<forall>r\<in>set rows. good_dedup_row r \<Longrightarrow> charges_ok WebhookDedupTable dd_charged_bytes rows"
  by (auto simp: charges_ok_def list_all_iff good_dedup_row_def)

lemma dedup_row_exists:
  assumes "dedup_wf d" and "tbl row_key (db_dedup d) k = Some r"
  shows "good_dedup_row r" "row_key r = k" "dd_ents d k = Some (row_entry r)"
  using assms by (auto simp: dedup_wf_def dd_ents_def dest: tbl_SomeD)

text \<open>
  Sequence numbers are never reused: a row after a statement has the key and sequence of a row before
  it, or a sequence above all earlier ones.
\<close>

definition rows_evolve :: "database \<Rightarrow> database \<Rightarrow> bool" where
  "rows_evolve d d' \<longleftrightarrow> db_seq_dedup d \<le> db_seq_dedup d' \<and>
     (\<forall>r'\<in>set (db_dedup d'). db_seq_dedup d < dd_sequence r' \<or>
        (\<exists>r\<in>set (db_dedup d). row_key r = row_key r' \<and> dd_sequence r = dd_sequence r'))"

lemma rows_evolve_refl [simp]: "rows_evolve d d"
  by (auto simp: rows_evolve_def)

lemma rows_evolve_trans: "rows_evolve d d1 \<Longrightarrow> rows_evolve d1 d2 \<Longrightarrow> rows_evolve d d2"
  unfolding rows_evolve_def by (fastforce dest: bspec)

lemma delete_dedup_wf:
  assumes "dedup_wf d"
  obtains d' where "delete_dedup_rows p d = Some (count_rows p (db_dedup d), d')" "dedup_wf d'"
    "db_seq_dedup d' = db_seq_dedup d" "rows_evolve d d'"
    "\<And>k. dd_ents d' k = (case tbl row_key (db_dedup d) k of None \<Rightarrow> None
       | Some r \<Rightarrow> if p r then None else Some (row_entry r))"
proof -
  from assms have ok: "charges_ok WebhookDedupTable dd_charged_bytes (db_dedup d)"
    and ex: "usage_exact dd_charged_bytes (db_dedup d) (db_usage_dedup d)"
    and key: "keyed row_key (db_dedup d)"
    by (auto simp: dedup_wf_def intro: dedup_charges)
  obtain u where u: "delete_rows WebhookDedupTable dd_charged_bytes p (db_dedup d) (db_usage_dedup d)
      = Some (filter (\<lambda>r. \<not> p r) (db_dedup d), u)"
    "usage_exact dd_charged_bytes (filter (\<lambda>r. \<not> p r) (db_dedup d)) u"
    using delete_rows_exact [OF ok ex] by blast
  have "length (filter (\<lambda>r. \<not> p r) (db_dedup d)) \<le> 1000000"
    using assms by (intro le_trans [OF length_filter_le]) (simp add: dedup_wf_def)
  with u assms key show ?thesis
    by (intro that [of "d\<lparr>db_dedup := filter (\<lambda>r. \<not> p r) (db_dedup d), db_usage_dedup := u\<rparr>"])
      (auto simp: delete_dedup_rows_def dedup_wf_def keyed_filter dd_ents_def tbl_filter [OF key]
        rows_evolve_def split: option.split)
qed

lemma update_dedup_wf:
  assumes wf: "dedup_wf d"
    and f: "\<And>r. row_key (f r) = row_key r" "\<And>r. dd_charged_bytes (f r) = dd_charged_bytes r"
      "\<And>r. dd_sequence (f r) = dd_sequence r"
    and good: "\<And>r. good_dedup_row r \<Longrightarrow> p r \<Longrightarrow> good_dedup_row (f r)"
  obtains d' where "update_dedup_rows p f d = Some (count_rows p (db_dedup d), d')" "dedup_wf d'"
    "\<And>k. dd_ents d' k = map_option (\<lambda>r. row_entry (if p r then f r else r)) (tbl row_key (db_dedup d) k)"
    "rows_evolve d d'"
proof -
  let ?d = "d\<lparr>db_dedup := update_rows p f (db_dedup d)\<rparr>"
  have "map dd_charged_bytes (update_rows p f (db_dedup d)) = map dd_charged_bytes (db_dedup d)"
    by (simp add: update_rows_def f)
  then have "usage_exact dd_charged_bytes (update_rows p f (db_dedup d)) (db_usage_dedup d)"
    using wf by (simp add: dedup_wf_def usage_exact_def)
  moreover have "\<forall>r\<in>set (update_rows p f (db_dedup d)). good_dedup_row r \<and> dd_sequence r \<le> db_seq_dedup d"
    using wf good f(3) by (auto simp: dedup_wf_def set_update_rows)
  ultimately have "dedup_wf ?d"
    using wf f by (simp add: dedup_wf_def keyed_update_rows)
  moreover have "update_dedup_rows p f d = Some (count_rows p (db_dedup d), ?d)"
    using wf good by (auto simp: update_dedup_rows_def dedup_wf_def good_dedup_row_def)
  moreover have "dd_ents ?d k = map_option (\<lambda>r. row_entry (if p r then f r else r))
      (tbl row_key (db_dedup d) k)" for k
    using tbl_update_rows [of p row_key f "db_dedup d" k] f(1)
    by (simp add: dd_ents_def option.map_comp o_def)
  moreover have "rows_evolve d ?d"
    using f by (auto simp: rows_evolve_def set_update_rows)
  ultimately show thesis using that by blast
qed

lemma insert_dedup_wf:
  assumes "dedup_wf d" and "good_dedup_row r" and "length (db_dedup d) < 1000000"
    and "insert_dedup_row r d = Some d'"
  shows "dedup_wf d' \<and> dd_ents d' = (dd_ents d)(row_key r \<mapsto> row_entry r) \<and> rows_evolve d d'"
proof -
  let ?r = "r\<lparr>dd_sequence := db_seq_dedup d + 1\<rparr>"
  have val: "RawDedupRecord_validate ?r = RawDedupRecord_validate r"
    by (simp add: RawDedupRecord_validate_def)
  then have good: "good_dedup_row ?r" and rec: "row_entry ?r = row_entry r" and key: "row_key ?r = row_key r"
    using assms(2) by (simp_all add: good_dedup_row_def row_entry_def row_key_def dedup_row_check_def)
  from assms(4) obtain u where
    u: "usage_insert WebhookDedupTable (dd_charged_bytes r) (db_usage_dedup d) = Some u"
    and absent: "tbl row_key (db_dedup d) (row_key r) = None"
    and d': "d' = d\<lparr>db_seq_dedup := db_seq_dedup d + 1,
      db_dedup := db_dedup d @ [?r], db_usage_dedup := u\<rparr>"
    by (auto simp: insert_dedup_row_def split: if_splits option.splits)
  have "charges_ok WebhookDedupTable dd_charged_bytes (db_dedup d @ [?r])"
    using assms(1) good by (intro dedup_charges) (auto simp: dedup_wf_def)
  from usage_insert_exact [OF this, of "db_usage_dedup d"] assms(1) u
  have "usage_exact dd_charged_bytes (db_dedup d @ [?r]) u"
    by (auto simp: dedup_wf_def)
  moreover have "keyed row_key (db_dedup d @ [?r])"
    using assms(1) absent key by (intro keyed_snoc) (simp_all add: dedup_wf_def)
  moreover have "dd_ents d' = (dd_ents d)(row_key r \<mapsto> row_entry r)"
    using absent tbl_snoc [of row_key "db_dedup d" ?r] rec key
    by (auto simp: dd_ents_def d' fun_eq_iff)
  moreover have "rows_evolve d d'"
    by (auto simp: d' rows_evolve_def)
  moreover have "\<forall>x\<in>set (db_dedup d'). dd_sequence x \<le> db_seq_dedup d'"
    using assms(1) by (auto simp: d' dedup_wf_def)
  ultimately show ?thesis
    using assms(1,3) good d' by (auto simp: dedup_wf_def)
qed

text \<open>A statement about one key that reports one changed row.\<close>

lemma single_dedup_row:
  assumes "dedup_wf d" and "count_rows (\<lambda>r. row_key r = k \<and> q r) (db_dedup d) = 1"
  obtains r where "tbl row_key (db_dedup d) k = Some r" "q r" "good_dedup_row r"
    "dd_ents d k = Some (row_entry r)"
proof -
  have key: "keyed row_key (db_dedup d)" using assms(1) by (simp add: dedup_wf_def)
  show thesis
  proof (cases "tbl row_key (db_dedup d) k")
    case None
    then show ?thesis using assms(2) by (simp add: count_rows_key [OF key])
  next
    case (Some r)
    then have "q r" using assms(2) by (simp add: count_rows_key [OF key] split: if_splits)
    with Some dedup_row_exists [OF assms(1) Some] show ?thesis by (intro that)
  qed
qed

lemma other_key:
  "j \<noteq> k \<Longrightarrow> tbl row_key rows j = Some r \<Longrightarrow> \<not> (row_key r = k \<and> q r)"
  by (auto dest: tbl_SomeD)

lemma single_dedup_update:
  assumes wf: "dedup_wf d" and upd: "update_dedup_rows (\<lambda>r. row_key r = k \<and> q r) f d = Some (1, d')"
    and f: "\<And>r. row_key (f r) = row_key r" "\<And>r. dd_charged_bytes (f r) = dd_charged_bytes r"
      "\<And>r. dd_sequence (f r) = dd_sequence r"
    and good: "\<And>r. good_dedup_row r \<Longrightarrow> good_dedup_row (f r)"
  obtains r where "dedup_wf d'" "good_dedup_row r" "q r" "dd_ents d k = Some (row_entry r)"
    "dd_ents d' = (dd_ents d)(k \<mapsto> row_entry (f r))" "rows_evolve d d'"
proof -
  let ?p = "\<lambda>r. row_key r = k \<and> q r"
  obtain d1 where d1: "update_dedup_rows ?p f d = Some (count_rows ?p (db_dedup d), d1)" "dedup_wf d1"
    "\<And>j. dd_ents d1 j = map_option (\<lambda>r. row_entry (if ?p r then f r else r)) (tbl row_key (db_dedup d) j)"
    "rows_evolve d d1"
    using update_dedup_wf [OF wf f, of ?p] good by blast
  with upd have eq: "d1 = d'" "count_rows ?p (db_dedup d) = 1" by simp_all
  from single_dedup_row [OF wf eq(2)] obtain r where
    r: "tbl row_key (db_dedup d) k = Some r" "q r" "good_dedup_row r" "dd_ents d k = Some (row_entry r)"
    by blast
  have "dd_ents d' j = ((dd_ents d)(k \<mapsto> row_entry (f r))) j" for j
  proof (cases "j = k")
    case True
    then show ?thesis using d1(3) [of k] eq(1) r tbl_SomeD [OF r(1)] by simp
  next
    case False
    then show ?thesis using d1(3) [of j] eq(1) other_key [OF False, of "db_dedup d" _ q]
      by (cases "tbl row_key (db_dedup d) j") (auto simp: dd_ents_def)
  qed
  with d1(2,4) eq(1) r that show thesis by blast
qed

lemma single_dedup_delete:
  assumes wf: "dedup_wf d" and upd: "delete_dedup_rows (\<lambda>r. row_key r = k \<and> q r) d = Some (1, d')"
  obtains r where "dedup_wf d'" "good_dedup_row r" "q r" "dd_ents d k = Some (row_entry r)"
    "dd_ents d' = (dd_ents d)(k := None)" "rows_evolve d d'"
proof -
  let ?p = "\<lambda>r. row_key r = k \<and> q r"
  obtain d1 where d1: "delete_dedup_rows ?p d = Some (count_rows ?p (db_dedup d), d1)" "dedup_wf d1"
    "\<And>j. dd_ents d1 j = (case tbl row_key (db_dedup d) j of None \<Rightarrow> None
       | Some r \<Rightarrow> if ?p r then None else Some (row_entry r))" "rows_evolve d d1"
    using delete_dedup_wf [OF wf, of ?p] by blast
  with upd have eq: "d1 = d'" "count_rows ?p (db_dedup d) = 1" by simp_all
  from single_dedup_row [OF wf eq(2)] obtain r where
    r: "tbl row_key (db_dedup d) k = Some r" "q r" "good_dedup_row r" "dd_ents d k = Some (row_entry r)"
    by blast
  have "dd_ents d' j = ((dd_ents d)(k := None)) j" for j
  proof (cases "j = k")
    case True
    then show ?thesis using d1(3) [of k] eq(1) r tbl_SomeD [OF r(1)] by simp
  next
    case False
    then show ?thesis using d1(3) [of j] eq(1) other_key [OF False, of "db_dedup d" _ q]
      by (cases "tbl row_key (db_dedup d) j") (auto simp: dd_ents_def)
  qed
  with d1(2,4) eq(1) r that show thesis by blast
qed

section \<open>Effect of the operations\<close>

definition sql_dedup_inv :: "dedup_store_limits \<Rightarrow> conn \<Rightarrow> bool" where
  "sql_dedup_inv limits c \<longleftrightarrow> valid_dedup_limits limits \<and> dedup_wf (cn_data c)"

definition sql_dd_ents :: "conn \<Rightarrow> dedup_entries" where
  "sql_dd_ents c = dd_ents (cn_data c)"

abbreviation retention_ms :: "dedup_store_limits \<Rightarrow> nat" where
  "retention_ms limits \<equiv> as_millis (dsl_retention limits)"

text \<open>The guarantee of the contract for one event of this store.\<close>

definition dedup_ok :: "dedup_store_limits \<Rightarrow> dedup_event \<Rightarrow> conn \<Rightarrow> conn \<Rightarrow> bool" where
  "dedup_ok limits ev c c' \<longleftrightarrow>
     sql_dedup_inv limits c' \<and> dedup_step (retention_ms limits) ev (sql_dd_ents c) (sql_dd_ents c') \<and>
     rows_evolve (cn_data c) (cn_data c')"

lemma dedup_ok_nothing: "sql_dedup_inv limits c \<Longrightarrow> cn_data c' = cn_data c \<Longrightarrow> dedup_ok limits EvNothing c c'"
  by (simp add: dedup_ok_def sql_dedup_inv_def sql_dd_ents_def dedup_step.nothing)

lemma dedup_okI:
  assumes "sql_dedup_inv limits c" and "dedup_wf (cn_data c')"
    and "dedup_step (retention_ms limits) ev (dd_ents (cn_data c)) (dd_ents (cn_data c'))"
    and "rows_evolve (cn_data c) (cn_data c')"
  shows "dedup_ok limits ev c c'"
  using assms by (simp add: dedup_ok_def sql_dedup_inv_def sql_dd_ents_def)

lemma dedup_expiration_valid:
  assumes "valid_dedup_limits limits"
  shows "dedup_expiration t limits = Ok (saturating_add_i64 t (int (retention_ms limits)))"
  using valid_dedup_limits_bounds(4) [OF assms]
  by (simp add: dedup_expiration_def i64_try_from_def in_i64_def i64_min_def i64_max_def ok_or_def)

lemma dedup_transition_result:
  assumes "dedup_transition c k update = (r, c')"
  obtains (kept) e where "r = Err e" "cn_data c' = cn_data c"
  | (changed) "r = Ok ()" "update (cn_data c) = Some (1, cn_data c')"
  using assms unfolding dedup_transition_def
proof (cases rule: attempt_cases)
  case failed
  then show ?thesis using kept by blast
next
  case (passed c1)
  from passed(3) show ?thesis
  proof (cases rule: transaction_cases)
    case failed
    then show ?thesis using kept passed(1) by auto
  next
    case (committed c2)
    from committed(3) show ?thesis
      by (cases rule: attemptT_cases)
        (use changed passed(1) committed(1) in
          \<open>auto simp: Let_def split: option.splits prod.splits if_splits
             elim!: commit_cases attemptT_cases\<close>)
  next
    case (rolled_back c2 c3)
    have "\<exists>e. r = Err e"
      using rolled_back(3)
      by (cases rule: attemptT_cases)
        (auto simp: Let_def split: option.splits prod.splits if_splits
          elim!: commit_cases attemptT_cases)
    then show ?thesis using kept rolled_back(4) passed(1) by auto
  qed
qed

lemma sql_complete_ok:
  assumes inv: "sql_dedup_inv limits c" and run: "sql_complete limits c k t = (r, c')"
  shows "dedup_ok limits (if is_ok r then EvCompleted k t else EvNothing) c c'"
proof -
  have wf: "dedup_wf (cn_data c)" "valid_dedup_limits limits" using inv by (simp_all add: sql_dedup_inv_def)
  let ?ex = "saturating_add_i64 (int t) (int (retention_ms limits))"
  consider (kept) e where "r = Err e" "cn_data c' = cn_data c"
    | (changed) "int t \<le> i64_max" "r = Ok ()" "update_dedup_rows
        (\<lambda>r. row_key r = k \<and> dd_state r = lit ''in_flight'') (complete_row (int t) ?ex) (cn_data c) =
          Some (1, cn_data c')"
    using run
    by (auto simp: sql_complete_def dedup_time_Ok dedup_expiration_valid [OF wf(2)]
        split: sum.splits elim!: dedup_transition_result)
  then show ?thesis
  proof cases
    case kept
    then show ?thesis using dedup_ok_nothing [OF inv] by simp
  next
    case changed
    obtain x where x: "dedup_wf (cn_data c')" "good_dedup_row x" "dd_state x = lit ''in_flight''"
      "dd_ents (cn_data c) k = Some (row_entry x)"
      "dd_ents (cn_data c') = (dd_ents (cn_data c))(k \<mapsto> row_entry (complete_row (int t) ?ex x))"
      "rows_evolve (cn_data c) (cn_data c')"
      using single_dedup_update [OF wf(1) changed(3)] completed_row(2) [OF _ changed(1)] by auto
    then have "dedup_step (retention_ms limits) (EvCompleted k t) (dd_ents (cn_data c)) (dd_ents (cn_data c'))"
      using completed_row(3) [OF x(2) changed(1)] row_entry_state(2) [OF x(2)]
      by (auto intro!: dedup_step.completed)
    with x(1,6) changed(2) show ?thesis by (auto intro: dedup_okI [OF inv])
  qed
qed

lemma sql_mark_unknown_ok:
  assumes inv: "sql_dedup_inv limits c" and run: "sql_mark_unknown c k t = (r, c')"
  shows "dedup_ok limits (if is_ok r then EvUnknown k else EvNothing) c c'"
proof -
  have wf: "dedup_wf (cn_data c)" using inv by (simp add: sql_dedup_inv_def)
  consider (kept) e where "r = Err e" "cn_data c' = cn_data c"
    | (changed) "int t \<le> i64_max" "r = Ok ()" "update_dedup_rows
        (\<lambda>r. row_key r = k \<and> dd_state r = lit ''in_flight'') (unknown_row (int t)) (cn_data c) =
          Some (1, cn_data c')"
    using run
    by (auto simp: sql_mark_unknown_def dedup_time_Ok split: sum.splits elim!: dedup_transition_result)
  then show ?thesis
  proof cases
    case kept
    then show ?thesis using dedup_ok_nothing [OF inv] by simp
  next
    case changed
    obtain x where x: "dedup_wf (cn_data c')" "good_dedup_row x" "dd_state x = lit ''in_flight''"
      "dd_ents (cn_data c) k = Some (row_entry x)"
      "dd_ents (cn_data c') = (dd_ents (cn_data c))(k \<mapsto> row_entry (unknown_row (int t) x))"
      "rows_evolve (cn_data c) (cn_data c')"
      using single_dedup_update [OF wf changed(3)] unknowned_row(2) [OF _ changed(1)] by auto
    then have "dedup_step (retention_ms limits) (EvUnknown k) (dd_ents (cn_data c)) (dd_ents (cn_data c'))"
      using unknowned_row(3) [OF x(2) changed(1)] row_entry_state(2) [OF x(2)]
      by (auto intro!: dedup_step.unknown)
    with x(1,6) changed(2) show ?thesis by (auto intro: dedup_okI [OF inv])
  qed
qed

lemma sql_release_ok:
  assumes inv: "sql_dedup_inv limits c" and run: "sql_release_claim c k = (r, c')"
  shows "dedup_ok limits (if is_ok r then EvReleased k else EvNothing) c c'"
  using run unfolding sql_release_claim_def
proof (cases rule: dedup_transition_result)
  case kept
  then show ?thesis using dedup_ok_nothing [OF inv] by simp
next
  case changed
  have wf: "dedup_wf (cn_data c)" using inv by (simp add: sql_dedup_inv_def)
  obtain x where x: "dedup_wf (cn_data c')" "good_dedup_row x" "dd_state x = lit ''in_flight''"
    "dd_ents (cn_data c) k = Some (row_entry x)" "dd_ents (cn_data c') = (dd_ents (cn_data c))(k := None)"
    "rows_evolve (cn_data c) (cn_data c')"
    using single_dedup_delete [OF wf changed(2)] by auto
  then have "dedup_step (retention_ms limits) (EvReleased k) (dd_ents (cn_data c)) (dd_ents (cn_data c'))"
    using row_entry_state(2) [OF x(2)] by (auto intro!: dedup_step.released)
  with x(1,6) changed(1) show ?thesis by (auto intro: dedup_okI [OF inv])
qed

lemma sql_resolve_completed_ok:
  assumes inv: "sql_dedup_inv limits c" and run: "sql_resolve_unknown limits c k ResolveCompleted t = (r, c')"
  shows "dedup_ok limits (if is_ok r then EvResolved k t else EvNothing) c c'"
proof -
  have wf: "dedup_wf (cn_data c)" "valid_dedup_limits limits" using inv by (simp_all add: sql_dedup_inv_def)
  let ?ex = "saturating_add_i64 (int t) (int (retention_ms limits))"
  consider (kept) e where "r = Err e" "cn_data c' = cn_data c"
    | (changed) "int t \<le> i64_max" "r = Ok ()" "update_dedup_rows
        (\<lambda>r. row_key r = k \<and> dd_state r = lit ''unknown'') (complete_row (int t) ?ex) (cn_data c) =
          Some (1, cn_data c')"
    using run
    by (auto simp: sql_resolve_unknown_def dedup_time_Ok dedup_expiration_valid [OF wf(2)]
        split: sum.splits elim!: dedup_transition_result)
  then show ?thesis
  proof cases
    case kept
    then show ?thesis using dedup_ok_nothing [OF inv] by simp
  next
    case changed
    obtain x where x: "dedup_wf (cn_data c')" "good_dedup_row x" "dd_state x = lit ''unknown''"
      "dd_ents (cn_data c) k = Some (row_entry x)"
      "dd_ents (cn_data c') = (dd_ents (cn_data c))(k \<mapsto> row_entry (complete_row (int t) ?ex x))"
      "rows_evolve (cn_data c) (cn_data c')"
      using single_dedup_update [OF wf(1) changed(3)] completed_row(2) [OF _ changed(1)] by auto
    then have "dedup_step (retention_ms limits) (EvResolved k t) (dd_ents (cn_data c)) (dd_ents (cn_data c'))"
      using completed_row(3) [OF x(2) changed(1)] row_entry_state(4) [OF x(2)]
      by (auto intro!: dedup_step.resolved)
    with x(1,6) changed(2) show ?thesis by (auto intro: dedup_okI [OF inv])
  qed
qed

lemma sql_resolve_retry_ok:
  assumes inv: "sql_dedup_inv limits c" and run: "sql_resolve_unknown limits c k ResolveRetryAllowed t = (r, c')"
  shows "dedup_ok limits (if is_ok r then EvRetried k else EvNothing) c c'"
proof -
  have wf: "dedup_wf (cn_data c)" "valid_dedup_limits limits" using inv by (simp_all add: sql_dedup_inv_def)
  consider (kept) e where "r = Err e" "cn_data c' = cn_data c"
    | (changed) "r = Ok ()" "delete_dedup_rows
        (\<lambda>r. row_key r = k \<and> dd_state r = lit ''unknown'') (cn_data c) = Some (1, cn_data c')"
    using run
    by (auto simp: sql_resolve_unknown_def dedup_expiration_valid [OF wf(2)]
        split: sum.splits elim!: dedup_transition_result)
  then show ?thesis
  proof cases
    case kept
    then show ?thesis using dedup_ok_nothing [OF inv] by simp
  next
    case changed
    obtain x where x: "dedup_wf (cn_data c')" "good_dedup_row x" "dd_state x = lit ''unknown''"
      "dd_ents (cn_data c) k = Some (row_entry x)" "dd_ents (cn_data c') = (dd_ents (cn_data c))(k := None)"
      "rows_evolve (cn_data c) (cn_data c')"
      using single_dedup_delete [OF wf(1) changed(2)] by auto
    then have "dedup_step (retention_ms limits) (EvRetried k) (dd_ents (cn_data c)) (dd_ents (cn_data c'))"
      using row_entry_state(4) [OF x(2)] by (auto intro!: dedup_step.retried)
    with x(1,6) changed(1) show ?thesis by (auto intro: dedup_okI [OF inv])
  qed
qed

lemma recover_statement:
  assumes wf: "dedup_wf d" and t: "int t \<le> i64_max"
  obtains d' where "update_dedup_rows (\<lambda>r. dd_state r = lit ''in_flight'') (unknown_row (int t)) d =
      Some (count_rows (\<lambda>r. dd_state r = lit ''in_flight'') (db_dedup d), d')" "dedup_wf d'"
    "dd_ents d' = recovered_at t (dd_ents d)" "rows_evolve d d'"
proof -
  let ?p = "\<lambda>r. dd_state r = lit ''in_flight''"
  obtain d' where d': "update_dedup_rows ?p (unknown_row (int t)) d =
      Some (count_rows ?p (db_dedup d), d')" "dedup_wf d'"
    "\<And>k. dd_ents d' k = map_option (\<lambda>r. row_entry (if ?p r then unknown_row (int t) r else r))
       (tbl row_key (db_dedup d) k)" "rows_evolve d d'"
    using update_dedup_wf [OF wf, of "unknown_row (int t)" ?p] unknowned_row(2) [OF _ t] by auto
  have "dd_ents d' k = recovered_at t (dd_ents d) k" for k
  proof (cases "tbl row_key (db_dedup d) k")
    case None
    then have "dd_ents d k = None" by (simp add: dd_ents_def)
    with None show ?thesis by (simp add: d'(3) recovered_at_def)
  next
    case (Some r)
    note r = dedup_row_exists [OF wf Some]
    then show ?thesis
      using Some unknowned_row(3) [OF r(1) t] row_entry_state(2) [OF r(1)]
      by (simp add: d'(3) recovered_at_def)
  qed
  with d'(1,2,4) that show thesis by blast
qed

lemma sql_recover_in_flight_ok:
  assumes inv: "sql_dedup_inv limits c" and run: "sql_recover_in_flight c t = (r, c')"
  shows "dedup_ok limits (if is_ok r then EvRecovered else EvNothing) c c'"
proof -
  let ?p = "\<lambda>r. dd_state r = lit ''in_flight''"
  have wf: "dedup_wf (cn_data c)" using inv by (simp add: sql_dedup_inv_def)
  consider (kept) e where "r = Err e" "cn_data c' = cn_data c"
    | (changed) n where "int t \<le> i64_max" "r = Ok n"
        "update_dedup_rows ?p (unknown_row (int t)) (cn_data c) = Some (n, cn_data c')"
    using run
    by (auto simp: sql_recover_in_flight_def dedup_time_Ok split: sum.splits option.splits
        elim!: attempt_cases)
  then show ?thesis
  proof cases
    case kept
    then show ?thesis using dedup_ok_nothing [OF inv] by simp
  next
    case changed
    with recover_statement [OF wf changed(1)] have "dedup_wf (cn_data c')"
      "rows_evolve (cn_data c) (cn_data c')" "dd_ents (cn_data c') = recovered_at t (dd_ents (cn_data c))" by force+
    with changed(2) show ?thesis
      by (auto intro!: dedup_okI [OF inv] dedup_step.recovered)
  qed
qed

lemma clear_statement:
  assumes wf: "dedup_wf d"
  obtains n d' where "delete_dedup_rows (\<lambda>r. dd_state r = lit ''completed'' \<and> dd_updated_at_ms r < int t) d =
      Some (n, d')" "dedup_wf d'" "dd_ents d' = cleared_before t (dd_ents d)"
    "rows_evolve d d'"
proof -
  let ?p = "\<lambda>r. dd_state r = lit ''completed'' \<and> dd_updated_at_ms r < int t"
  obtain d' where d': "delete_dedup_rows ?p d = Some (count_rows ?p (db_dedup d), d')" "dedup_wf d'"
    "\<And>k. dd_ents d' k = (case tbl row_key (db_dedup d) k of None \<Rightarrow> None
       | Some r \<Rightarrow> if ?p r then None else Some (row_entry r))" "rows_evolve d d'"
    using delete_dedup_wf [OF wf, of ?p] by blast
  have "dd_ents d' k = cleared_before t (dd_ents d) k" for k
  proof (cases "tbl row_key (db_dedup d) k")
    case None
    then have "dd_ents d k = None" by (simp add: dd_ents_def)
    with None show ?thesis by (simp add: d'(3) cleared_before_def)
  next
    case (Some r)
    note r = dedup_row_exists [OF wf Some]
    have "(ds_updated_at (en_record (row_entry r)) < t) = (dd_updated_at_ms r < int t)"
      using row_entry_state(5) [OF r(1)] by linarith
    with Some r row_entry_state(3) [OF r(1)] show ?thesis
      by (simp add: d'(3) cleared_before_def)
  qed
  with d'(1,2,4) that show thesis by blast
qed

lemma sql_clear_ok:
  assumes inv: "sql_dedup_inv limits c" and run: "sql_clear_completed_before c t = (r, c')"
  shows "dedup_ok limits (if is_ok r then EvCleared else EvNothing) c c'"
proof -
  let ?p = "\<lambda>r. dd_state r = lit ''completed'' \<and> dd_updated_at_ms r < int t"
  have wf: "dedup_wf (cn_data c)" using inv by (simp add: sql_dedup_inv_def)
  consider (kept) e where "r = Err e" "cn_data c' = cn_data c"
    | (changed) n where "r = Ok n" "delete_dedup_rows ?p (cn_data c) = Some (n, cn_data c')"
    using run
    by (auto simp: sql_clear_completed_before_def dedup_time_Ok split: sum.splits option.splits
        elim!: attempt_cases)
  then show ?thesis
  proof cases
    case kept
    then show ?thesis using dedup_ok_nothing [OF inv] by simp
  next
    case changed
    with clear_statement [OF wf, of t] have "dedup_wf (cn_data c')"
      "rows_evolve (cn_data c) (cn_data c')" "dd_ents (cn_data c') = cleared_before t (dd_ents (cn_data c))" by force+
    with changed(1) show ?thesis
      by (auto intro!: dedup_okI [OF inv] dedup_step.cleared)
  qed
qed

lemma sql_dedup_record_result:
  assumes inv: "sql_dedup_inv limits c" and run: "sql_dedup_record c k = (r, c')"
  shows "cn_data c' = cn_data c" and "r = Ok x \<Longrightarrow> x = map_option en_record (sql_dd_ents c k)"
proof -
  have good: "good_dedup_row y" if "tbl row_key (db_dedup (cn_data c)) k = Some y" for y
    using inv that by (auto simp: sql_dedup_inv_def dedup_wf_def dest: tbl_SomeD)
  show "cn_data c' = cn_data c" and "r = Ok x \<Longrightarrow> x = map_option en_record (sql_dd_ents c k)"
    using run good good_validate unfolding sql_dedup_record_def
    by (auto elim!: attempt_cases simp: sql_dd_ents_def dd_ents_def transposeR_def
        split: option.splits)
qed

text \<open>The rows a claim drops before it looks for its key.\<close>

lemma expiry_statement:
  assumes wf: "dedup_wf d"
  obtains n d' where "delete_dedup_rows (\<lambda>r. dd_state r = lit ''completed'' \<and>
      (case dd_expires_at_ms r of None \<Rightarrow> False | Some x \<Rightarrow> x \<le> int t)) d = Some (n, d')" "dedup_wf d'"
    "dd_ents d' = expired_at t (dd_ents d)" "db_seq_dedup d' = db_seq_dedup d" "rows_evolve d d'"
proof -
  let ?p = "\<lambda>r. dd_state r = lit ''completed'' \<and>
      (case dd_expires_at_ms r of None \<Rightarrow> False | Some x \<Rightarrow> x \<le> int t)"
  obtain d' where d': "delete_dedup_rows ?p d = Some (count_rows ?p (db_dedup d), d')" "dedup_wf d'"
    "db_seq_dedup d' = db_seq_dedup d" "rows_evolve d d'"
    "\<And>k. dd_ents d' k = (case tbl row_key (db_dedup d) k of None \<Rightarrow> None
       | Some r \<Rightarrow> if ?p r then None else Some (row_entry r))"
    using delete_dedup_wf [OF wf, of ?p] by blast
  have "dd_ents d' k = expired_at t (dd_ents d) k" for k
  proof (cases "tbl row_key (db_dedup d) k")
    case None
    then have "dd_ents d k = None" by (simp add: dd_ents_def)
    with None show ?thesis by (simp add: d'(5) expired_at_def)
  next
    case (Some r)
    note r = dedup_row_exists [OF wf Some]
    have "en_expires (row_entry r) = dd_expires_at_ms r" by (simp add: row_entry_def)
    with Some r row_entry_state(3) [OF r(1)] show ?thesis
      by (simp add: d'(5) expired_at_def has_expired_def)
  qed
  with d'(1-4) that show thesis by blast
qed

abbreviation claim_row :: "dedup_key \<Rightarrow> dedup_claim_policy \<Rightarrow> int \<Rightarrow> int \<Rightarrow> dedup_row" where
  "claim_row key policy updated_at charge \<equiv>
     \<lparr>dd_sequence = 0, dd_route = dk_route key, dd_namespace = dk_namespace key,
      dd_hash = dk_hash key, dd_state = lit ''in_flight'',
      dd_automatic_expiry = (if policy = ExpireCompleted then 1 else 0),
      dd_updated_at_ms = updated_at, dd_expires_at_ms = None, dd_charged_bytes = charge\<rparr>"

definition key_charge :: "dedup_key \<Rightarrow> nat" where
  "key_charge k = 96 + str_len (dk_route k) + str_len (dk_namespace k)"

lemma key_charge_bounds: "valid_dedup_key k \<Longrightarrow> 96 \<le> key_charge k \<and> key_charge k \<le> 352"
  using str_len_allowed [of "dk_route k"] str_len_allowed [of "dk_namespace k"]
  by (auto simp: key_charge_def valid_dedup_key_def valid_identifier_def)

lemma encoded_charge_valid: "valid_dedup_key k \<Longrightarrow> encoded_charge k = Ok (int (key_charge k))"
  using key_charge_bounds [of k]
  by (auto simp: encoded_charge_def checked_add_u64_def DEDUP_RECORD_BASE_CHARGE_BYTES_def
      key_charge_def ok_or_def i64_try_from_def in_i64_def u64_max_def i64_max_def i64_min_def)

lemma claim_row_good:
  fixes p :: dedup_claim_policy
  assumes "valid_dedup_key k" and "int t \<le> i64_max"
  defines "r \<equiv> claim_row k p (int t) (int (key_charge k))"
  shows "good_dedup_row r" "row_entry r = fresh_entry k p t" "row_key r = k"
proof -
  show key: "row_key r = k" by (cases k) (simp add: r_def row_key_def)
  have val: "RawDedupRecord_validate r = Ok (DedupRecord_from_stored_parts k InFlight t)"
    unfolding dedup_validate_Ok_iff key
    using assms(1) time_u64 [OF assms(2)]
    by (simp add: r_def decode_dedup_state_def DedupRecord_from_stored_parts_def)
  moreover have "dedup_row_check r"
    using assms(1) key_charge_bounds [OF assms(1)]
    by (simp add: dedup_row_check_def r_def valid_dedup_key_def)
  ultimately show "good_dedup_row r"
    by (simp add: good_dedup_row_def r_def key_charge_def)
  show "row_entry r = fresh_entry k p t"
    using val dedup_claim_policy.exhaust [of p]
    by (cases p) (simp_all add: row_entry_def fresh_entry_def r_def)
qed

lemma sql_claim_checked_result:
  assumes run: "sql_claim_checked limits k p at c = (r, b, c')" and d: "cn_data c = d"
    and usage: "usage_read WebhookDedupTable (db_usage_dedup d) = Some (records, bs)"
    and key: "valid_dedup_key k"
  obtains (undone) e where "r = Err e" "\<not> b"
  | (refused) e where "r = Err e" "b" "cn_data c' = d"
  | (stored) "records < int (dsl_records limits)" "r = Ok Claimed" "b"
      "insert_dedup_row (claim_row k p at (int (key_charge k))) d = Some (cn_data c')"
  using run unfolding sql_claim_checked_def encoded_charge_valid [OF key]
proof (cases rule: attemptT_cases)
  case failed
  then show ?thesis using undone by blast
next
  case (passed c1)
  let ?row = "claim_row k p at (int (key_charge k))"
  show ?thesis
  proof (cases "records \<ge> int (dsl_records limits)
      \<or> saturating_add_i64 bs (int (key_charge k)) > int (dsl_bytes limits)")
    case True
    with passed d usage have "commit DsUnavailable c1 (Err DsCapacityExhausted) = (r, b, c')" by simp
    then show ?thesis by (cases rule: commit_cases) (use undone refused passed(1) d in auto)
  next
    case False
    with passed d usage have "attemptT DsUnavailable c1 (\<lambda>c.
        case insert_dedup_row ?row (cn_data c) of
          None \<Rightarrow> (Err DsUnavailable, False, c)
        | Some d \<Rightarrow> commit DsUnavailable (update_data (\<lambda>_. d) c) (Ok Claimed)) = (r, b, c')" by simp
    then show ?thesis
    proof (cases rule: attemptT_cases)
      case failed
      then show ?thesis using undone by blast
    next
      case (passed c2)
      with \<open>cn_data c1 = cn_data c\<close> d have d2: "cn_data c2 = d" by simp
      show ?thesis
      proof (cases "insert_dedup_row ?row d")
        case None
        with passed d2 undone show ?thesis by auto
      next
        case (Some d')
        with passed d2 have "commit DsUnavailable (update_data (\<lambda>_. d') c2) (Ok Claimed) = (r, b, c')"
          by simp
        then show ?thesis
          by (cases rule: commit_cases) (use undone stored Some False in auto)
      qed
    qed
  qed
qed

lemma dedup_usage_read:
  assumes "dedup_wf d"
  shows "usage_read WebhookDedupTable (db_usage_dedup d) =
    Some (int (length (db_dedup d)), sum_list (map dd_charged_bytes (db_dedup d)))"
  using assms by (intro usage_read_exact) (auto simp: dedup_wf_def intro: dedup_charges)

lemma sql_claim_body_result:
  assumes wf: "dedup_wf (cn_data c)" and lim: "valid_dedup_limits limits"
    and key: "valid_dedup_key k" and t: "int t \<le> i64_max"
    and run: "sql_claim_body limits k p (int t) c = (r, b, c')"
  defines "m \<equiv> expired_at t (dd_ents (cn_data c))"
  obtains (undone) e where "r = Err e" "\<not> b"
  | (refused) e where "r = Err e" "b" "dedup_wf (cn_data c')" "dd_ents (cn_data c') = m"
      "rows_evolve (cn_data c) (cn_data c')"
  | (dup) e where "r = Ok (Duplicate (en_state e))" "b" "m k = Some e" "dedup_wf (cn_data c')"
      "dd_ents (cn_data c') = m" "rows_evolve (cn_data c) (cn_data c')"
  | (stored) "r = Ok Claimed" "b" "m k = None" "dedup_wf (cn_data c')"
      "dd_ents (cn_data c') = m(k \<mapsto> fresh_entry k p t)" "rows_evolve (cn_data c) (cn_data c')"
  using run unfolding sql_claim_body_def
proof (cases rule: attemptT_cases)
  case failed
  then show ?thesis using undone by blast
next
  case (passed c1)
  obtain n d1 where d1: "delete_dedup_rows (\<lambda>r. dd_state r = lit ''completed'' \<and>
      (case dd_expires_at_ms r of None \<Rightarrow> False | Some x \<Rightarrow> x \<le> int t)) (cn_data c) = Some (n, d1)"
    "dedup_wf d1" "dd_ents d1 = m" "rows_evolve (cn_data c) d1"
    unfolding m_def by (rule expiry_statement [OF wf, of t])
  from passed(3) passed(1) d1(1) have "attemptT DsUnavailable (update_data (\<lambda>_. d1) c1) (\<lambda>c.
      case tbl row_key (db_dedup (cn_data c)) k of
        Some r \<Rightarrow>
          (case decode_dedup_state (dd_state r) of
             Inl e \<Rightarrow> (Err e, False, c)
           | Inr state \<Rightarrow> commit DsUnavailable c (Ok (Duplicate state)))
      | None \<Rightarrow> sql_claim_checked limits k p (int t) c) = (r, b, c')" by simp
  then show ?thesis
  proof (cases rule: attemptT_cases)
    case failed
    then show ?thesis using undone by blast
  next
    case (passed c2)
    then have c2: "cn_data c2 = d1" by simp
    show ?thesis
    proof (cases "tbl row_key (db_dedup d1) k")
      case (Some x)
      note x = dedup_row_exists [OF d1(2) Some]
      from passed(3) Some c2 row_entry_state(1) [OF x(1)]
      have "commit DsUnavailable c2 (Ok (Duplicate (en_state (row_entry x)))) = (r, b, c')" by simp
      then show ?thesis
      proof (cases rule: commit_cases)
        case failed
        then show ?thesis using undone by blast
      next
        case finished
        with c2 d1 x(3) show ?thesis by (intro dup [of "row_entry x"]) simp_all
      qed
    next
      case None
      then have none: "m k = None" by (simp add: d1(3) [symmetric] dd_ents_def)
      from passed(3) None c2 have "sql_claim_checked limits k p (int t) c2 = (r, b, c')" by simp
      then show ?thesis
      proof (cases rule: sql_claim_checked_result [OF _ c2 dedup_usage_read [OF d1(2)] key,
            consumes 1, case_names u f s])
        case u
        then show ?thesis using undone by blast
      next
        case f
        with d1 show ?thesis by (intro refused) simp_all
      next
        case s
        have "dedup_wf (cn_data c') \<and> dd_ents (cn_data c') = m(k \<mapsto> fresh_entry k p t) \<and> rows_evolve d1 (cn_data c')"
          using insert_dedup_wf [OF d1(2) claim_row_good(1) [OF key t] _ s(4)] s(1)
            claim_row_good(2,3) [OF key t, of p] valid_dedup_limits_bounds(1) [OF lim] d1(3) by simp
        with s none rows_evolve_trans [OF d1(4)] show ?thesis by (intro stored) simp_all
      qed
    qed
  qed
qed

definition claim_event :: "dedup_key \<Rightarrow> dedup_claim_policy \<Rightarrow> nat \<Rightarrow> dedup_store_error + dedup_claim \<Rightarrow> dedup_event" where
  "claim_event k p t r = (case r of
     Inl e \<Rightarrow> EvRefused t
   | Inr Claimed \<Rightarrow> EvClaimed k p t
   | Inr (Duplicate d) \<Rightarrow> EvDuplicate k d t)"

lemma sql_claim_ok:
  assumes inv: "sql_dedup_inv limits c" and key: "valid_dedup_key k"
    and run: "sql_claim limits c k p t = (r, c')"
  shows "dedup_ok limits (claim_event k p t r) c c'"
proof -
  have wf: "dedup_wf (cn_data c)" "valid_dedup_limits limits" using inv by (simp_all add: sql_dedup_inv_def)
  have same: "dedup_ok limits (claim_event k p t (Err e)) c c1" if "cn_data c1 = cn_data c" for c1 e
    using that wf by (intro dedup_okI [OF inv]) (simp_all add: claim_event_def dedup_step.refused)
  show ?thesis
  proof (cases "dedup_encoded_time t")
    case (Inl e)
    with run have "r = Err e" "c' = c" by (simp_all add: sql_claim_def)
    with same show ?thesis by simp
  next
    case (Inr at)
    then have t: "at = int t" "int t \<le> i64_max" by (simp_all add: dedup_time_Ok)
    from run Inr t have "attempt DsUnavailable c (\<lambda>c.
        transaction DsUnavailable c (sql_claim_body limits k p (int t))) = (r, c')"
      by (simp add: sql_claim_def)
    then show ?thesis
    proof (cases rule: attempt_cases)
      case failed
      with same show ?thesis by simp
    next
      case (passed c1)
      from passed(3) show ?thesis
      proof (cases rule: transaction_cases)
        case failed
        with same passed(1) show ?thesis by simp
      next
        case (rolled_back c2 c3)
        then have "dedup_wf (cn_data c2)" using wf passed(1) by simp
        from this wf(2) key t(2) rolled_back(3) have "\<exists>e. r = Err e"
          by (cases rule: sql_claim_body_result) auto
        with same passed(1) rolled_back(4) show ?thesis by auto
      next
        case (committed c2)
        then have c2: "dedup_wf (cn_data c2)" "cn_data c2 = cn_data c" using wf passed(1) by simp_all
        from c2(1) wf(2) key t(2) committed(3) show ?thesis
        proof (cases rule: sql_claim_body_result)
          case (undone e)
          then show ?thesis by simp
        next
          case (refused e)
          then show ?thesis using c2(2)
            by (intro dedup_okI [OF inv]) (simp_all add: claim_event_def dedup_step.refused)
        next
          case (dup e)
          then show ?thesis using c2(2)
            by (intro dedup_okI [OF inv]) (simp_all add: claim_event_def dedup_step.duplicate)
        next
          case stored
          then show ?thesis using c2(2)
            by (intro dedup_okI [OF inv]) (simp_all add: claim_event_def dedup_step.claimed)
        qed
      qed
    qed
  qed
qed

lemma sql_dedup_store_fields [simp]:
  "dst_claim (sql_dedup_store limits) = sql_claim limits"
  "dst_complete (sql_dedup_store limits) = sql_complete limits"
  "dst_mark_unknown (sql_dedup_store limits) = sql_mark_unknown"
  "dst_release_claim (sql_dedup_store limits) = sql_release_claim"
  "dst_record (sql_dedup_store limits) = sql_dedup_record"
  "dst_recover_in_flight (sql_dedup_store limits) = sql_recover_in_flight"
  "dst_resolve_unknown (sql_dedup_store limits) = sql_resolve_unknown limits"
  "dst_clear_completed_before (sql_dedup_store limits) = sql_clear_completed_before"
  by (simp_all add: sql_dedup_store_def)

lemma sql_dedup_run:
  assumes inv: "sql_dedup_inv limits c" and key: "pred_option valid_dedup_key (dedup_op_key op)"
    and run: "dedup_run (sql_dedup_store limits) op c = (ev, c')"
  shows "dedup_ok limits ev c c'"
proof (cases op)
  case (DoClaim k p t)
  obtain r c1 where r: "sql_claim limits c k p t = (r, c1)" by (cases "sql_claim limits c k p t")
  with run DoClaim have "ev = claim_event k p t r" "c1 = c'"
    by (auto simp: claim_event_def split: sum.splits dedup_claim.splits)
  with sql_claim_ok [OF inv _ r] key DoClaim show ?thesis by simp
next
  case (DoRecord k)
  obtain r c1 where r: "sql_dedup_record c k = (r, c1)" by (cases "sql_dedup_record c k")
  with run DoRecord dedup_ok_nothing [OF inv sql_dedup_record_result(1) [OF inv r]] show ?thesis by simp
next
  case (DoResolve k x t)
  obtain r c1 where r: "sql_resolve_unknown limits c k x t = (r, c1)"
    by (cases "sql_resolve_unknown limits c k x t")
  show ?thesis
    using run DoResolve r sql_resolve_completed_ok [OF inv] sql_resolve_retry_ok [OF inv]
    by (cases x) auto
qed (use run sql_complete_ok [OF inv] sql_mark_unknown_ok [OF inv] sql_release_ok [OF inv]
      sql_recover_in_flight_ok [OF inv] sql_clear_ok [OF inv] in \<open>auto split: prod.splits\<close>)

interpretation sql_dedup: dedup_store_contract "sql_dedup_store limits" "sql_dedup_inv limits"
  sql_dd_ents valid_dedup_key "retention_ms limits" for limits
proof (unfold_locales, goal_cases)
  case 1
  from sql_dedup_run [OF 1] show ?case by (simp add: dedup_ok_def)
next
  case 2
  from sql_dedup_record_result(2) [OF 2(1) 2(2) [unfolded sql_dedup_store_fields] refl] show ?case .
qed

end
