(* ===== verification/Dedup_Scan.thy ===== *)
theory Dedup_Scan
  imports Sql_Dedup
begin

text \<open>
  \<open>visit_unknown\<close> of \<open>bondry-store-sqlcipher/src/dedup.rs\<close>: the scan over uncertain dispatches. The store
  lock is free while the callback runs, so a callback may itself use the store; the scan is bounded by
  the highest sequence number at its start and moves strictly forward in key order.
\<close>

section \<open>The scan\<close>

fun max_sequence :: "dedup_row list \<Rightarrow> int" where
  "max_sequence [] = 0"
| "max_sequence [r] = dd_sequence r"
| "max_sequence (r # rs) = max (dd_sequence r) (max_sequence rs)"

definition unknown_scan_ceiling :: "conn \<Rightarrow> (dedup_store_error + int) \<times> conn" where
  "unknown_scan_ceiling c =
     attempt DsUnavailable c (\<lambda>c. attempt DsUnavailable c (\<lambda>c. attempt DsUnavailable c (\<lambda>c.
       (Ok (max_sequence (db_dedup (cn_data c))), c))))"

text \<open>\<open>ORDER BY\<close> the key columns, \<open>LIMIT 1\<close>.\<close>

fun least_row :: "dedup_row list \<Rightarrow> dedup_row option" where
  "least_row [] = None"
| "least_row (r # rs) =
     (case least_row rs of
        None \<Rightarrow> Some r
      | Some x \<Rightarrow> if row_key r \<le> row_key x then Some r else Some x)"

definition unknown_after :: "dedup_key option \<Rightarrow> int \<Rightarrow> dedup_row \<Rightarrow> bool" where
  "unknown_after after sequence_ceiling r \<longleftrightarrow>
     dd_state r = lit ''unknown'' \<and> dd_sequence r \<le> sequence_ceiling \<and>
     (case after of None \<Rightarrow> True | Some a \<Rightarrow> a < row_key r)"

definition next_unknown ::
    "conn \<Rightarrow> dedup_key option \<Rightarrow> int \<Rightarrow> (dedup_store_error + dedup_record option) \<times> conn" where
  "next_unknown c after sequence_ceiling =
     attempt DsUnavailable c (\<lambda>c. attempt DsUnavailable c (\<lambda>c. attempt DsUnavailable c (\<lambda>c.
       (transposeR RawDedupRecord_validate
          (least_row (filter (unknown_after after sequence_ceiling) (db_dedup (cn_data c)))), c))))"

text \<open>A callback: it gets a record, may use the store, keeps a state and says whether to go on.\<close>

type_synonym 'v visitor = "dedup_record \<Rightarrow> conn \<Rightarrow> 'v \<Rightarrow> bool \<times> conn \<times> 'v"

partial_function (option) visit_loop ::
    "'v visitor \<Rightarrow> int \<Rightarrow> dedup_key option \<Rightarrow> conn \<Rightarrow> 'v
       \<Rightarrow> ((dedup_store_error + unit) \<times> conn \<times> 'v) option" where
  "visit_loop visitor sequence_ceiling cursor c v =
     (case next_unknown c cursor sequence_ceiling of
        (result, c) \<Rightarrow>
          (case result of
             Inl e \<Rightarrow> Some (Err e, c, v)
           | Inr None \<Rightarrow> Some (Ok (), c, v)
           | Inr (Some record) \<Rightarrow>
               (case visitor record c v of
                  (go_on, c, v) \<Rightarrow>
                    if go_on then visit_loop visitor sequence_ceiling (Some (dr_key record)) c v
                    else Some (Ok (), c, v))))"

definition visit_unknown ::
    "'v visitor \<Rightarrow> conn \<Rightarrow> 'v \<Rightarrow> ((dedup_store_error + unit) \<times> conn \<times> 'v) option" where
  "visit_unknown visitor c v =
     (case unknown_scan_ceiling c of
        (Inl e, c) \<Rightarrow> Some (Err e, c, v)
      | (Inr sequence_ceiling, c) \<Rightarrow> visit_loop visitor sequence_ceiling None c v)"

section \<open>Selection of the next record\<close>

lemma least_row_None: "least_row rs = None \<longleftrightarrow> rs = []"
  by (cases rs) (auto split: option.splits)

lemma least_row_Some:
  "least_row rs = Some x \<Longrightarrow> x \<in> set rs \<and> (\<forall>r\<in>set rs. row_key x \<le> row_key r)"
proof (induction rs arbitrary: x)
  case (Cons r rs)
  show ?case
  proof (cases "least_row rs")
    case None
    with Cons.prems show ?thesis by (simp add: least_row_None)
  next
    case (Some y)
    with Cons.IH [OF Some] Cons.prems show ?thesis
      by (auto split: if_splits intro: order.trans)
  qed
qed simp

lemma max_sequence_bound: "\<forall>r\<in>set rs. dd_sequence r \<le> m \<Longrightarrow> 0 \<le> m \<Longrightarrow> max_sequence rs \<le> m"
  by (induction rs rule: max_sequence.induct) auto

lemma max_sequence_ge: "r \<in> set rs \<Longrightarrow> dd_sequence r \<le> max_sequence rs"
  by (induction rs rule: max_sequence.induct) auto

text \<open>The keys a scan can still reach.\<close>

definition low_keys :: "int \<Rightarrow> dedup_key option \<Rightarrow> database \<Rightarrow> dedup_key set" where
  "low_keys ceiling cursor d = {k \<in> row_key ` {r \<in> set (db_dedup d). dd_sequence r \<le> ceiling}.
     (case cursor of None \<Rightarrow> True | Some a \<Rightarrow> a < k)}"

lemma finite_low_keys [simp]: "finite (low_keys ceiling cursor d)"
  by (simp add: low_keys_def)

lemma low_keys_evolve:
  assumes "rows_evolve d d'" and "ceiling \<le> db_seq_dedup d"
  shows "low_keys ceiling cursor d' \<subseteq> low_keys ceiling cursor d"
proof -
  have "row_key ` {r \<in> set (db_dedup d'). dd_sequence r \<le> ceiling}
      \<subseteq> row_key ` {r \<in> set (db_dedup d). dd_sequence r \<le> ceiling}"
  proof clarify
    fix r'
    assume r': "r' \<in> set (db_dedup d')" "dd_sequence r' \<le> ceiling"
    then have "\<not> db_seq_dedup d < dd_sequence r'" using assms(2) by simp
    with assms(1) r'(1) obtain r where r: "r \<in> set (db_dedup d)" "row_key r = row_key r'"
      "dd_sequence r = dd_sequence r'" unfolding rows_evolve_def by blast
    with r'(2) show "row_key r' \<in> row_key ` {r \<in> set (db_dedup d). dd_sequence r \<le> ceiling}"
      by (intro image_eqI [of _ _ r]) simp_all
  qed
  then show ?thesis by (auto simp: low_keys_def)
qed

lemma next_unknown_result:
  assumes "next_unknown c cursor ceiling = (r, c')"
  shows "cn_data c' = cn_data c"
    and "r = Ok (Some x) \<Longrightarrow> \<exists>row\<in>set (db_dedup (cn_data c)). unknown_after cursor ceiling row \<and>
      RawDedupRecord_validate row = Ok x \<and> row_key row = dr_key x \<and>
      (\<forall>r\<in>set (db_dedup (cn_data c)). unknown_after cursor ceiling r \<longrightarrow> dr_key x \<le> row_key r)"
proof -
  show "cn_data c' = cn_data c"
    using assms unfolding next_unknown_def by (auto elim!: attempt_cases)
  assume "r = Ok (Some x)"
  with assms have "transposeR RawDedupRecord_validate
      (least_row (filter (unknown_after cursor ceiling) (db_dedup (cn_data c)))) = Ok (Some x)"
    unfolding next_unknown_def by (auto elim!: attempt_cases)
  then obtain row where row: "least_row (filter (unknown_after cursor ceiling) (db_dedup (cn_data c))) = Some row"
    "RawDedupRecord_validate row = Ok x"
    by (auto simp: transposeR_def split: option.splits sum.splits)
  with least_row_Some [OF row(1)] show "\<exists>row\<in>set (db_dedup (cn_data c)). unknown_after cursor ceiling row \<and>
      RawDedupRecord_validate row = Ok x \<and> row_key row = dr_key x \<and>
      (\<forall>r\<in>set (db_dedup (cn_data c)). unknown_after cursor ceiling r \<longrightarrow> dr_key x \<le> row_key r)"
    by (auto simp: dedup_validate_Ok_iff intro!: bexI [of _ row])
qed

section \<open>Termination\<close>

text \<open>A callback is steady when it leaves the rows behind the scan as the store leaves them.\<close>

definition steady :: "'v visitor \<Rightarrow> bool" where
  "steady visitor \<longleftrightarrow> (\<forall>record c v go_on c' v'.
     dedup_wf (cn_data c) \<longrightarrow> visitor record c v = (go_on, c', v') \<longrightarrow>
     dedup_wf (cn_data c') \<and> rows_evolve (cn_data c) (cn_data c'))"

lemma visit_loop_terminates:
  assumes "steady visitor" and "dedup_wf (cn_data c)" and "ceiling \<le> db_seq_dedup (cn_data c)"
  shows "\<exists>out. visit_loop visitor ceiling cursor c v = Some out"
  using assms(2,3)
proof (induction "card (low_keys ceiling cursor (cn_data c))" arbitrary: cursor c v rule: less_induct)
  case less
  obtain r c1 where n: "next_unknown c cursor ceiling = (r, c1)" by (cases "next_unknown c cursor ceiling")
  show ?case
  proof (cases "\<exists>x. r = Ok (Some x)")
    case False
    show ?thesis
    proof (cases r)
      case (Inl e)
      then show ?thesis by (simp add: visit_loop.simps [of visitor ceiling cursor c v] n)
    next
      case (Inr x)
      with False have "x = None" by (cases x) auto
      with Inr show ?thesis by (simp add: visit_loop.simps [of visitor ceiling cursor c v] n)
    qed
  next
    case True
    then obtain x where x: "r = Ok (Some x)" ..
    obtain go c2 v2 where vis: "visitor x c1 v = (go, c2, v2)" by (cases "visitor x c1 v")
    note res = next_unknown_result [OF n]
    have c2: "dedup_wf (cn_data c2)" "rows_evolve (cn_data c) (cn_data c2)"
      using assms(1) vis less.prems(1) res(1) unfolding steady_def by (metis (lifting))+
    then have seq: "ceiling \<le> db_seq_dedup (cn_data c2)"
      using less.prems(2) by (simp add: rows_evolve_def)
    obtain row where row: "row \<in> set (db_dedup (cn_data c))" "unknown_after cursor ceiling row"
      "row_key row = dr_key x" using res(2) [OF x] by blast
    have "low_keys ceiling (Some (dr_key x)) (cn_data c2) \<subset> low_keys ceiling cursor (cn_data c)"
    proof (rule psubsetI)
      have "low_keys ceiling (Some (dr_key x)) (cn_data c) \<subseteq> low_keys ceiling cursor (cn_data c)"
        using row(2,3) by (cases cursor) (auto simp: low_keys_def unknown_after_def)
      then show "low_keys ceiling (Some (dr_key x)) (cn_data c2) \<subseteq> low_keys ceiling cursor (cn_data c)"
        using low_keys_evolve [OF c2(2) less.prems(2), of "Some (dr_key x)"] by blast
      have "dr_key x \<in> low_keys ceiling cursor (cn_data c)"
        using row(2) imageI [of row "{r \<in> set (db_dedup (cn_data c)). dd_sequence r \<le> ceiling}" row_key] row(1,3)
        by (cases cursor) (simp_all add: low_keys_def unknown_after_def)
      moreover have "dr_key x \<notin> low_keys ceiling (Some (dr_key x)) (cn_data c2)"
        by (auto simp: low_keys_def)
      ultimately show "low_keys ceiling (Some (dr_key x)) (cn_data c2) \<noteq> low_keys ceiling cursor (cn_data c)"
        by blast
    qed
    then have "card (low_keys ceiling (Some (dr_key x)) (cn_data c2))
        < card (low_keys ceiling cursor (cn_data c))"
      by (intro psubset_card_mono) simp_all
    from less.hyps [OF this c2(1) seq] show ?thesis
      by (cases go) (simp_all add: visit_loop.simps [of visitor ceiling cursor c v] n x vis)
  qed
qed

text \<open>A callback that uses the store: for each record it runs operations of its choice.\<close>

definition ops_visitor ::
    "dedup_store_limits \<Rightarrow> (dedup_record \<Rightarrow> 'v \<Rightarrow> dedup_op list) \<Rightarrow> (dedup_record \<Rightarrow> 'v \<Rightarrow> bool \<times> 'v)
       \<Rightarrow> 'v visitor" where
  "ops_visitor limits plan decide record c v =
     (case dedup_trace (sql_dedup_store limits) (plan record v) c of
        (_, c') \<Rightarrow> (case decide record v of (go_on, v') \<Rightarrow> (go_on, c', v')))"

lemma trace_evolves:
  assumes "sql_dedup_inv limits c" and "list_all (\<lambda>op. pred_option valid_dedup_key (dedup_op_key op)) ops"
    and "dedup_trace (sql_dedup_store limits) ops c = (evs, c')"
  shows "sql_dedup_inv limits c' \<and> rows_evolve (cn_data c) (cn_data c')"
  using assms
proof (induction ops arbitrary: c evs)
  case (Cons op ops)
  obtain ev c1 where op: "dedup_run (sql_dedup_store limits) op c = (ev, c1)"
    by (cases "dedup_run (sql_dedup_store limits) op c")
  obtain evs1 c2 where rest: "dedup_trace (sql_dedup_store limits) ops c1 = (evs1, c2)"
    by (cases "dedup_trace (sql_dedup_store limits) ops c1")
  have "sql_dedup_inv limits c1" "rows_evolve (cn_data c) (cn_data c1)"
    using sql_dedup_run [OF Cons.prems(1) _ op] Cons.prems(2) by (simp_all add: dedup_ok_def)
  with Cons.IH [of c1 evs1] Cons.prems op rest show ?case by (auto intro: rows_evolve_trans)
qed simp

lemma steady_ops_visitor:
  assumes "valid_dedup_limits limits"
    and "\<And>record v. list_all (\<lambda>op. pred_option valid_dedup_key (dedup_op_key op)) (plan record v)"
  shows "steady (ops_visitor limits plan decide)"
  unfolding steady_def
proof (intro allI impI)
  fix x c v go_on c' v'
  assume wf: "dedup_wf (cn_data c)" and run: "ops_visitor limits plan decide x c v = (go_on, c', v')"
  obtain evs c1 where "dedup_trace (sql_dedup_store limits) (plan x v) c = (evs, c1)"
    by (cases "dedup_trace (sql_dedup_store limits) (plan x v) c")
  moreover from this run have "c1 = c'" by (simp add: ops_visitor_def split: prod.splits)
  ultimately show "dedup_wf (cn_data c') \<and> rows_evolve (cn_data c) (cn_data c')"
    using trace_evolves [OF _ assms(2), of limits c x v evs c1] wf assms(1) by (simp add: sql_dedup_inv_def)
qed

lemma visit_unknown_terminates:
  assumes "steady visitor" and "dedup_wf (cn_data c)"
  shows "\<exists>out. visit_unknown visitor c v = Some out"
proof -
  obtain r c1 where n: "unknown_scan_ceiling c = (r, c1)" by (cases "unknown_scan_ceiling c")
  have c1: "cn_data c1 = cn_data c"
    using n unfolding unknown_scan_ceiling_def by (auto elim!: attempt_cases)
  show ?thesis
  proof (cases r)
    case (Inl e)
    with n show ?thesis by (simp add: visit_unknown_def)
  next
    case (Inr ceiling)
    with n have "ceiling = max_sequence (db_dedup (cn_data c))"
      unfolding unknown_scan_ceiling_def by (auto elim!: attempt_cases)
    then have "ceiling \<le> db_seq_dedup (cn_data c1)"
      using assms(2) c1 by (auto simp: dedup_wf_def intro: max_sequence_bound)
    with visit_loop_terminates [OF assms(1), of c1 ceiling None v] assms(2) c1 n Inr
    show ?thesis by (simp add: visit_unknown_def)
  qed
qed

section \<open>The records a scan visits\<close>

definition pure_visitor :: "(dedup_record \<Rightarrow> 'v \<Rightarrow> bool \<times> 'v) \<Rightarrow> 'v visitor" where
  "pure_visitor decide record c v = (case decide record v of (go_on, v') \<Rightarrow> (go_on, c, v'))"

fun visit_list :: "(dedup_record \<Rightarrow> 'v \<Rightarrow> bool \<times> 'v) \<Rightarrow> dedup_record list \<Rightarrow> 'v \<Rightarrow> 'v" where
  "visit_list decide [] v = v"
| "visit_list decide (x # xs) v =
     (case decide x v of (go_on, v') \<Rightarrow> if go_on then visit_list decide xs v' else v')"

definition unknown_records :: "database \<Rightarrow> dedup_record list" where
  "unknown_records d =
     map (\<lambda>r. en_record (row_entry r))
       (sort_key row_key (filter (\<lambda>r. dd_state r = lit ''unknown'') (db_dedup d)))"

lemma sorted_step:
  assumes "keyed row_key rows" and "sort_key row_key (filter P rows) = x # xs"
  shows "least_row (filter P rows) = Some x"
    and "sort_key row_key (filter (\<lambda>r. P r \<and> row_key x < row_key r) rows) = xs"
proof -
  have set: "set (x # xs) = {r \<in> set rows. P r}" using assms(2) by (metis set_filter set_sort)
  have dist: "distinct (map row_key (x # xs))"
  proof -
    have "keyed row_key (filter P rows)" using assms(1) by (rule keyed_filter)
    then have "inj_on row_key (set (filter P rows))" "distinct (filter P rows)"
      by (simp_all add: keyed_def distinct_map)
    then have "inj_on row_key (set (x # xs))" "distinct (x # xs)"
      using assms(2) set by (simp_all, metis distinct.simps(2) distinct_sort)
    then show ?thesis by (simp add: distinct_map)
  qed
  have "sorted (map row_key (x # xs))" using assms(2) by (metis sorted_sort_key)
  with dist have less: "\<forall>r\<in>set xs. row_key x < row_key r"
    by (auto simp: less_le)
  have "filter P rows \<noteq> []" using assms(2) by (cases "filter P rows") simp_all
  then obtain y where y: "least_row (filter P rows) = Some y"
    by (cases "least_row (filter P rows)") (auto simp: least_row_None)
  from least_row_Some [OF y] set have "y \<in> set (x # xs)" "row_key y \<le> row_key x" by auto
  with less have "y = x" by auto
  with y show "least_row (filter P rows) = Some x" by simp
  have "sort_key row_key (filter (\<lambda>r. P r \<and> row_key x < row_key r) rows) =
      filter (\<lambda>r. row_key x < row_key r) (sort_key row_key (filter P rows))"
    by (simp add: filter_sort conj_commute)
  also have "\<dots> = xs" using less by (simp add: assms(2) filter_id_conv)
  finally show "sort_key row_key (filter (\<lambda>r. P r \<and> row_key x < row_key r) rows) = xs" .
qed

lemma visit_loop_exact:
  assumes "dedup_wf (cn_data c)" and "cn_plan c = []"
    and "sort_key row_key (filter (unknown_after cursor ceiling) (db_dedup (cn_data c))) = rows"
  shows "visit_loop (pure_visitor decide) ceiling cursor c v =
    Some (Ok (), c, visit_list decide (map (\<lambda>r. en_record (row_entry r)) rows) v)"
  using assms(3)
proof (induction rows arbitrary: cursor v)
  case Nil
  then have "filter (unknown_after cursor ceiling) (db_dedup (cn_data c)) = []"
    by (metis length_0_conv length_sort)
  then have "next_unknown c cursor ceiling = (Ok None, c)"
    using assms(2) by (simp add: next_unknown_def transposeR_def)
  then show ?case by (simp add: visit_loop.simps)
next
  case (Cons x rows)
  have key: "keyed row_key (db_dedup (cn_data c))" using assms(1) by (simp add: dedup_wf_def)
  note step = sorted_step [OF key Cons.prems]
  have "x \<in> set (db_dedup (cn_data c))" "unknown_after cursor ceiling x"
    using least_row_Some [OF step(1)] by auto
  then have good: "good_dedup_row x" using assms(1) by (simp add: dedup_wf_def)
  have nxt: "next_unknown c cursor ceiling = (Ok (Some (en_record (row_entry x))), c)"
    using assms(2) step(1) good_validate [OF good] by (simp add: next_unknown_def transposeR_def)
  have after: "unknown_after (Some (row_key x)) ceiling =
      (\<lambda>r. unknown_after cursor ceiling r \<and> row_key x < row_key r)"
    using \<open>unknown_after cursor ceiling x\<close>
    by (cases cursor) (auto simp: unknown_after_def fun_eq_iff)
  have rest: "visit_loop (pure_visitor decide) ceiling (Some (row_key x)) c v' =
      Some (Ok (), c, visit_list decide (map (\<lambda>r. en_record (row_entry r)) rows) v')" for v'
    using Cons.IH [of "Some (row_key x)"] step(2) by (simp add: after)
  show ?case
    using rest row_entry_state(6) [OF good]
    by (subst visit_loop.simps) (simp add: nxt pure_visitor_def split: prod.split)
qed

lemma visit_unknown_visits:
  assumes "dedup_wf (cn_data c)" and "cn_plan c = []"
  shows "visit_unknown (pure_visitor decide) c v =
    Some (Ok (), c, visit_list decide (unknown_records (cn_data c)) v)"
proof -
  let ?m = "max_sequence (db_dedup (cn_data c))"
  have "filter (unknown_after None ?m) (db_dedup (cn_data c)) =
      filter (\<lambda>r. dd_state r = lit ''unknown'') (db_dedup (cn_data c))"
    by (rule filter_cong) (auto simp: unknown_after_def max_sequence_ge)
  then have "visit_loop (pure_visitor decide) ?m None c v =
      Some (Ok (), c, visit_list decide (unknown_records (cn_data c)) v)"
    using visit_loop_exact [OF assms, of None ?m _ decide v] by (simp add: unknown_records_def)
  then show ?thesis using assms(2) by (simp add: visit_unknown_def unknown_scan_ceiling_def)
qed

end
