(* ===== verification/Host_Dedup.thy ===== *)
theory Host_Dedup
  imports Dedup_Scan Memory_Log
begin

text \<open>
  Properties of the persistent replay protection: how often a delivery may be dispatched over any
  sequence of operations and faults, what a claim returns, and the scan over uncertain dispatches.
\<close>

section \<open>Counting entries\<close>

lemma dedup_card:
  assumes "dedup_wf d"
  shows "card (dom (dd_ents d)) = length (db_dedup d)"
proof -
  have key: "keyed row_key (db_dedup d)" using assms by (simp add: dedup_wf_def)
  have "dom (dd_ents d) = row_key ` set (db_dedup d)"
    by (auto simp: dd_ents_def dom_def tbl_None_iff)
  with key show ?thesis by (simp add: keyed_def distinct_map card_image distinct_card)
qed

definition charged :: "dedup_entries \<Rightarrow> nat" where
  "charged m = (\<Sum>k\<in>dom m. key_charge k)"

lemma dedup_charged:
  assumes "dedup_wf d"
  shows "sum_list (map dd_charged_bytes (db_dedup d)) = int (charged (dd_ents d))"
proof -
  have key: "inj_on row_key (set (db_dedup d))" "distinct (db_dedup d)"
    using assms by (simp_all add: dedup_wf_def keyed_def distinct_map)
  have dom: "dom (dd_ents d) = row_key ` set (db_dedup d)"
    by (auto simp: dd_ents_def dom_def tbl_None_iff)
  have "dd_charged_bytes r = int (key_charge (row_key r))" if "r \<in> set (db_dedup d)" for r
    using assms that by (auto simp: dedup_wf_def good_dedup_row_def key_charge_def row_key_def)
  then have "sum_list (map dd_charged_bytes (db_dedup d)) =
      (\<Sum>r\<in>set (db_dedup d). int (key_charge (row_key r)))"
    using key(2) by (simp add: sum_list_distinct_conv_sum_set)
  also have "\<dots> = (\<Sum>k\<in>row_key ` set (db_dedup d). int (key_charge k))"
    using key(1) by (simp add: sum.reindex)
  finally show ?thesis by (simp add: charged_def dom)
qed

lemma charged_bound:
  assumes "dedup_wf d"
  shows "charged (dd_ents d) \<le> 352 * 1000000"
proof -
  have "key_charge k \<le> 352" if "k \<in> dom (dd_ents d)" for k
  proof -
    from that obtain r where r: "r \<in> set (db_dedup d)" "row_key r = k"
      by (auto simp: dd_ents_def dom_def dest: tbl_SomeD)
    then have "good_dedup_row r" using assms by (simp add: dedup_wf_def)
    from good_validate [OF this] r show ?thesis
      using key_charge_bounds [of k] by (simp add: dedup_validate_Ok_iff)
  qed
  then have "charged (dd_ents d) \<le> card (dom (dd_ents d)) * 352"
    unfolding charged_def using sum_bounded_above [of "dom (dd_ents d)" key_charge 352] by simp
  with dedup_card [OF assms] assms show ?thesis by (simp add: dedup_wf_def)
qed

lemma claim_inserted:
  assumes "dedup_wf d" and "good_dedup_row r" and "db_seq_dedup d < i64_max"
    and "tbl row_key (db_dedup d) (row_key r) = None"
  shows "\<exists>d'. insert_dedup_row r d = Some d'"
proof -
  have chk: "dedup_row_check r" using assms(2) by (simp add: good_dedup_row_def)
  have ok: "charges_ok WebhookDedupTable dd_charged_bytes (db_dedup d @ [r])"
    using assms(1,2) by (intro dedup_charges) (auto simp: dedup_wf_def)
  have "usage_exact dd_charged_bytes (db_dedup d) (db_usage_dedup d)"
    using assms(1) by (simp add: dedup_wf_def)
  then have "\<exists>u. usage_insert WebhookDedupTable (dd_charged_bytes r) (db_usage_dedup d) = Some u"
    using usage_insert_exact [OF ok, of "db_usage_dedup d"] by blast
  with chk assms(3,4) show ?thesis by (auto simp: insert_dedup_row_def)
qed

section \<open>Properties\<close>

text \<open>C21 (safety): at-most-once dispatch. Over any sequence of operations with any faults, a delivery whose
  claims ask to retain completed state, and that is not cleared by the administrator, is claimed at
  most once more than it was released before dispatch or explicitly allowed to retry.\<close>

theorem dispatch_at_most_once:
  assumes "sql_dedup_inv limits c"
    and "list_all (\<lambda>op. pred_option valid_dedup_key (dedup_op_key op)) ops"
    and "dedup_trace (sql_dedup_store limits) ops c = (evs, c')"
    and "sql_dd_ents c k = None" and "list_all (retains k) evs"
  shows "sql_dedup_inv limits c' \<and> claims_of k evs \<le> removals_of k evs + 1"
proof -
  from sql_dedup.trace_steps [OF assms(1-3)] have "sql_dedup_inv limits c'"
    and steps: "dedup_steps (retention_ms limits) evs (sql_dd_ents c) (sql_dd_ents c')" by blast+
  moreover have "claims_of k evs + 0 = removals_of k evs + weight (sql_dd_ents c' k \<noteq> None)"
    using dedup_steps_balance [OF steps, of k] assms(4,5) by (simp add: retained_entry_def weight_def)
  ultimately show ?thesis by (simp add: weight_def split: if_splits)
qed

text \<open>C22 (safety): an uncertain dispatch is never repeated on its own. While a delivery is unknown, no
  sequence of claims, completions, recoveries, clears or faults changes it or lets it be claimed; only
  an explicit resolution of that delivery does.\<close>

theorem unknown_never_redispatched:
  assumes "sql_dedup_inv limits c"
    and "list_all (\<lambda>op. pred_option valid_dedup_key (dedup_op_key op)) ops"
    and "dedup_trace (sql_dedup_store limits) ops c = (evs, c')"
    and "sql_dd_ents c k = Some e" and "en_state e = Unknown"
    and "list_all (\<lambda>ev. \<not> settles k ev) evs"
  shows "sql_dd_ents c' k = Some e \<and> claims_of k evs = 0"
  using sql_dedup.trace_steps [OF assms(1-3)] dedup_steps_unknown assms(4-6) by blast

text \<open>C23 (bounds): a completed delivery is protected for the whole retention. After its completion at
  time \<open>t\<close>, no claim made before \<open>t\<close> plus the retention succeeds, whatever else happens and fails, unless
  the administrator clears completed records.\<close>

theorem completed_until_retention:
  assumes "sql_dedup_inv limits c" and "sql_complete limits c k t = (Ok (), c1)"
    and "list_all (\<lambda>op. pred_option valid_dedup_key (dedup_op_key op)) ops"
    and "dedup_trace (sql_dedup_store limits) ops c1 = (evs, c')"
    and "list_all (\<lambda>ev. ev \<noteq> EvCleared \<and> (\<forall>now. event_time ev = Some now \<longrightarrow>
           int now < saturating_add_i64 (int t) (int (retention_ms limits)))) evs"
  shows "claims_of k evs = 0 \<and> map_option en_state (sql_dd_ents c' k) = Some Completed"
proof -
  have "dedup_ok limits (EvCompleted k t) c c1"
    using sql_complete_ok [OF assms(1,2)] by simp
  then have inv: "sql_dedup_inv limits c1"
    and step: "dedup_step (retention_ms limits) (EvCompleted k t) (sql_dd_ents c) (sql_dd_ents c1)"
    by (simp_all add: dedup_ok_def)
  from step obtain e where e: "sql_dd_ents c1 k = Some e" "en_state e = Completed"
    "\<And>x. en_expires e = Some x \<Longrightarrow> x = saturating_add_i64 (int t) (int (retention_ms limits))"
    by (elim dedup_step_completedE) (auto simp: expiry_def split: if_splits)
  have "list_all (early e) evs"
    using assms(5) e(3) by (fastforce simp: list_all_iff early_def)
  with dedup_steps_completed [of "retention_ms limits" evs "sql_dd_ents c1" "sql_dd_ents c'" k e]
    sql_dedup.trace_steps [OF inv assms(3,4)] e(1,2) show ?thesis by simp
qed

text \<open>C24 (functional): what a claim returns and stores, branch by branch: tombstones that expired go first;
  a key still known is a duplicate with its state; a store at its record or byte limit refuses; otherwise
  the key is in flight with the policy of the claim.\<close>

theorem claim_exact:
  fixes t :: nat
  assumes "sql_dedup_inv limits c" and "cn_plan c = []" and "valid_dedup_key k"
    and "db_seq_dedup (cn_data c) < i64_max"
  defines "m \<equiv> expired_at t (sql_dd_ents c)"
  shows "(fst (sql_claim limits c k p t), sql_dd_ents (snd (sql_claim limits c k p t))) =
    (if i64_max < int t then (Err DsInvalidTransition, sql_dd_ents c)
     else (case m k of
        Some e \<Rightarrow> (Ok (Duplicate (en_state e)), m)
      | None \<Rightarrow>
          if dsl_records limits \<le> card (dom m) \<or> dsl_bytes limits < charged m + key_charge k
          then (Err DsCapacityExhausted, m)
          else (Ok Claimed, m(k \<mapsto> fresh_entry k p t))))"
proof (cases "i64_max < int t")
  case True
  then show ?thesis
    by (simp add: sql_claim_def dedup_encoded_time_def i64_try_from_def in_i64_def ok_or_def)
next
  case False
  have inv: "valid_dedup_limits limits" "dedup_wf (cn_data c)"
    using assms(1) by (simp_all add: sql_dedup_inv_def)
  obtain n d1 where d1: "delete_dedup_rows (\<lambda>r. dd_state r = lit ''completed'' \<and>
      (case dd_expires_at_ms r of None \<Rightarrow> False | Some x \<Rightarrow> x \<le> int t)) (cn_data c) = Some (n, d1)"
    "dedup_wf d1" "dd_ents d1 = m" "db_seq_dedup d1 = db_seq_dedup (cn_data c)"
    unfolding m_def sql_dd_ents_def by (rule expiry_statement [OF inv(2), of t])
  have start: "sql_claim limits c k p t =
      transaction DsUnavailable c (sql_claim_body limits k p (int t))"
    using False assms(2) dedup_time_Ok [of t "int t"] by (simp add: sql_claim_def)
  show ?thesis
  proof (cases "tbl row_key (db_dedup d1) k")
    case (Some r)
    note r = dedup_row_exists [OF d1(2) Some]
    from r(3) d1(3) False Some d1(1) row_entry_state(1) [OF r(1)] assms(2) show ?thesis
      by (simp add: start sql_claim_body_def sql_dd_ents_def)
  next
    case None
    then have none: "m k = None" by (simp add: d1(3) [symmetric] dd_ents_def)
    have usage: "usage_read WebhookDedupTable (db_usage_dedup d1) =
        Some (int (card (dom m)), int (charged m))"
      using dedup_usage_read [OF d1(2)] dedup_card [OF d1(2)] dedup_charged [OF d1(2)] d1(3) by simp
    have sat: "saturating_add_i64 (int (charged m)) (int (key_charge k)) = int (charged m + key_charge k)"
      using charged_bound [OF d1(2)] key_charge_bounds [OF assms(3)] d1(3)
      by (simp add: saturating_add_i64_def i64_min_def i64_max_def)
    have body: "sql_claim_body limits k p (int t) c = sql_claim_checked limits k p (int t) (update_data (\<lambda>_. d1) c)"
      using d1(1) None assms(2) by (simp add: sql_claim_body_def)
    show ?thesis
    proof (cases "dsl_records limits \<le> card (dom m) \<or> dsl_bytes limits < charged m + key_charge k")
      case True
      then have "int (dsl_records limits) \<le> int (card (dom m)) \<or>
          int (dsl_bytes limits) < saturating_add_i64 (int (charged m)) (int (key_charge k))"
        unfolding sat by linarith
      with True False none usage assms(2) d1(3) show ?thesis
        by (simp add: start body sql_claim_checked_def encoded_charge_valid [OF assms(3)] sql_dd_ents_def)
    next
      case room: False
      then have fits: "\<not> (int (dsl_records limits) \<le> int (card (dom m)) \<or>
          int (dsl_bytes limits) < saturating_add_i64 (int (charged m)) (int (key_charge k)))"
        unfolding sat by linarith
      let ?r = "claim_row k p (int t) (int (key_charge k))"
      have row: "good_dedup_row ?r" "row_entry ?r = fresh_entry k p t" "row_key ?r = k"
        using claim_row_good [OF assms(3)] False by simp_all
      obtain d2 where d2: "insert_dedup_row ?r d1 = Some d2"
        using claim_inserted [OF d1(2) row(1)] None row(3) d1(4) assms(4) by auto
      have "length (db_dedup d1) < 1000000"
        using room valid_dedup_limits_bounds(1) [OF inv(1)] dedup_card [OF d1(2)] d1(3) by simp
      then have "dd_ents d2 = m(k \<mapsto> fresh_entry k p t)"
        using insert_dedup_wf [OF d1(2) row(1) _ d2] row d1(3) by simp
      with False none room fits usage assms(2) d2 show ?thesis
        by (simp add: start body sql_claim_checked_def encoded_charge_valid [OF assms(3)] sql_dd_ents_def)
    qed
  qed
qed

text \<open>C25 (termination): the scan over uncertain dispatches always ends, also when its callback runs
  arbitrary operations of the same store, successful or not, on every record it is shown.\<close>

theorem visit_unknown_ends:
  assumes "sql_dedup_inv limits c"
    and "\<And>x v. list_all (\<lambda>op. pred_option valid_dedup_key (dedup_op_key op)) (plan x v)"
  shows "\<exists>r c' v'. visit_unknown (ops_visitor limits plan decide) c v = Some (r, c', v')"
proof -
  have "steady (ops_visitor limits plan decide)"
    using assms by (intro steady_ops_visitor) (simp_all add: sql_dedup_inv_def)
  with visit_unknown_terminates [of "ops_visitor limits plan decide" c v] assms(1) show ?thesis
    by (auto simp: sql_dedup_inv_def)
qed

text \<open>C26 (equivalence): with a callback that leaves the store alone, the scan is the fold over the
  unknown records in key order up to the first refusal, and changes nothing stored.\<close>

theorem visit_unknown_exact:
  assumes "sql_dedup_inv limits c" and "cn_plan c = []"
  shows "visit_unknown (pure_visitor decide) c v =
    Some (Ok (), c, visit_list decide (unknown_records (cn_data c)) v)"
  using visit_unknown_visits [of c decide v] assms by (simp add: sql_dedup_inv_def)

section \<open>Concrete runs\<close>

abbreviation dedup_limits :: dedup_store_limits where
  "dedup_limits \<equiv> DedupStoreLimits_default"

definition sample_key :: dedup_key where
  "sample_key = DedupKey (lit ''r'') (lit ''n'') (replicate 32 0)"

definition dedup_conn :: conn where
  "dedup_conn = \<lparr>cn_data = empty_database, cn_plan = []\<rparr>"

text \<open>A store that holds one delivery in a given state.\<close>

definition held_row :: "string \<Rightarrow> dedup_row" where
  "held_row state =
     \<lparr>dd_sequence = 1, dd_route = lit ''r'', dd_namespace = lit ''n'', dd_hash = replicate 32 0,
      dd_state = lit state, dd_automatic_expiry = 1, dd_updated_at_ms = 5, dd_expires_at_ms = None,
      dd_charged_bytes = 98\<rparr>"

definition held_conn :: "string \<Rightarrow> conn" where
  "held_conn state =
     \<lparr>cn_data = empty_database\<lparr>db_dedup := [held_row state], db_seq_dedup := 1,
        db_usage_dedup := \<lparr>us_records = 1, us_charged_bytes = 98\<rparr>\<rparr>,
      cn_plan = []\<rparr>"

lemma sample_key_valid: "valid_dedup_key sample_key"
  by (simp add: valid_dedup_key_def sample_key_def valid_identifier_def lit_def of_char_def
      is_allowed_def is_ascii_alphanumeric_def)

lemma dedup_conn_inv: "sql_dedup_inv dedup_limits dedup_conn"
  by (simp add: sql_dedup_inv_def dedup_conn_def valid_dedup_limits_default dedup_wf_def
      empty_database_def keyed_def usage_exact_def)

lemma dedup_conn_ents: "sql_dd_ents dedup_conn = Map.empty"
  by (simp add: fun_eq_iff sql_dd_ents_def dd_ents_def dedup_conn_def empty_database_def)

lemma held_row_key: "row_key (held_row state) = sample_key"
  by (simp add: row_key_def held_row_def sample_key_def)

lemma held_row_good:
  assumes "decode_dedup_state (lit state) = Ok st" and "st \<noteq> Completed"
  shows "good_dedup_row (held_row state)"
    "row_entry (held_row state) =
       \<lparr>en_record = DedupRecord_from_stored_parts sample_key st 5, en_policy = ExpireCompleted, en_expires = None\<rparr>"
proof -
  have val: "RawDedupRecord_validate (held_row state) = Ok (DedupRecord_from_stored_parts sample_key st 5)"
    unfolding dedup_validate_Ok_iff held_row_key using sample_key_valid assms(1)
    by (simp add: held_row_def u64_try_from_def u64_max_def DedupRecord_from_stored_parts_def)
  moreover have "dedup_row_check (held_row state)"
    using assms by (auto simp: dedup_row_check_def held_row_def decode_dedup_state_def split: if_splits)
  moreover have "str_len (lit ''r'') = 1" "str_len (lit ''n'') = 1"
    by (simp_all add: lit_def of_char_def str_len_def utf8_len_def)
  ultimately show "good_dedup_row (held_row state)"
    by (simp add: good_dedup_row_def) (simp add: held_row_def)
  show "row_entry (held_row state) =
       \<lparr>en_record = DedupRecord_from_stored_parts sample_key st 5, en_policy = ExpireCompleted, en_expires = None\<rparr>"
    using val by (simp add: row_entry_def) (simp add: held_row_def)
qed

lemma held_conn_facts:
  assumes "decode_dedup_state (lit state) = Ok st" and "st \<noteq> Completed"
  shows "sql_dedup_inv dedup_limits (held_conn state)"
    "sql_dd_ents (held_conn state) sample_key =
       Some \<lparr>en_record = DedupRecord_from_stored_parts sample_key st 5, en_policy = ExpireCompleted, en_expires = None\<rparr>"
  using held_row_good [OF assms] held_row_key [of state]
  by (simp_all add: sql_dedup_inv_def held_conn_def valid_dedup_limits_default dedup_wf_def
      empty_database_def keyed_def usage_exact_def sql_dd_ents_def dd_ents_def tbl_Cons held_row_def)

lemma held_states:
  "decode_dedup_state (lit ''unknown'') = Ok Unknown" "decode_dedup_state (lit ''in_flight'') = Ok InFlight"
  by (simp_all add: decode_dedup_state_def)

lemma claim_run_event:
  "dedup_run (sql_dedup_store limits) (DoClaim k p t) c =
     (claim_event k p t (fst (sql_claim limits c k p t)), snd (sql_claim limits c k p t))"
  by (auto simp: claim_event_def split: sum.splits dedup_claim.splits prod.splits)

lemma claim_event_facts:
  "\<not> settles k' (claim_event k p t r)" "claim_event k p t r \<noteq> EvCleared"
  "event_time (claim_event k p t r) = Some t" "retains k (claim_event k RetainCompleted t r)"
  by (auto simp: claim_event_def settles_def retains_def split: sum.splits dedup_claim.splits)

theorem dispatch_at_most_once_witness:
  "\<exists>evs c'. dedup_trace (sql_dedup_store dedup_limits)
       [DoClaim sample_key RetainCompleted 5, DoClaim sample_key RetainCompleted 6] dedup_conn = (evs, c') \<and>
     claims_of sample_key evs \<le> removals_of sample_key evs + 1"
proof -
  let ?ops = "[DoClaim sample_key RetainCompleted 5, DoClaim sample_key RetainCompleted 6]"
  obtain evs c' where run: "dedup_trace (sql_dedup_store dedup_limits) ?ops dedup_conn = (evs, c')"
    by (cases "dedup_trace (sql_dedup_store dedup_limits) ?ops dedup_conn")
  have "list_all (retains sample_key) evs"
    using run by (auto simp: claim_run_event claim_event_facts simp del: dedup_run.simps)
  with dispatch_at_most_once [OF dedup_conn_inv _ run, of sample_key] sample_key_valid dedup_conn_ents run
  show ?thesis by auto
qed

theorem unknown_never_redispatched_witness:
  "\<exists>evs c'. dedup_trace (sql_dedup_store dedup_limits) [DoClaim sample_key ExpireCompleted 9]
       (held_conn ''unknown'') = (evs, c') \<and> claims_of sample_key evs = 0"
proof -
  let ?ops = "[DoClaim sample_key ExpireCompleted 9]"
  note facts = held_conn_facts [OF held_states(1)]
  obtain evs c' where run: "dedup_trace (sql_dedup_store dedup_limits) ?ops (held_conn ''unknown'') = (evs, c')"
    by (cases "dedup_trace (sql_dedup_store dedup_limits) ?ops (held_conn ''unknown'')")
  have "list_all (\<lambda>ev. \<not> settles sample_key ev) evs"
    using run by (auto simp: claim_run_event claim_event_facts simp del: dedup_run.simps)
  with unknown_never_redispatched [OF facts(1) _ run facts(2)] sample_key_valid run show ?thesis
    by (auto simp: DedupRecord_from_stored_parts_def)
qed

lemma held_completes: "\<exists>c1. sql_complete dedup_limits (held_conn ''in_flight'') sample_key 7 = (Ok (), c1)"
proof -
  let ?c = "held_conn ''in_flight''" and ?ex = "saturating_add_i64 7 (int (retention_ms dedup_limits))"
  have good: "good_dedup_row (held_row ''in_flight'')" using held_row_good(1) [OF held_states(2)] by simp
  have "dedup_row_check (complete_row 7 ?ex (held_row ''in_flight''))"
    using completed_row(1) [OF good, of 7 ?ex] by (simp add: i64_max_def)
  then have "update_dedup_rows (\<lambda>r. row_key r = sample_key \<and> dd_state r = lit ''in_flight'')
      (complete_row 7 ?ex) (cn_data ?c) =
    Some (1, (cn_data ?c)\<lparr>db_dedup := [complete_row 7 ?ex (held_row ''in_flight'')]\<rparr>)"
    by (simp add: update_dedup_rows_def held_conn_def held_row_key count_rows_def update_rows_def)
      (simp add: held_row_def)
  then show ?thesis
    using dedup_expiration_valid [OF valid_dedup_limits_default, of 7] dedup_time_Ok [of 7 7]
    by (simp add: sql_complete_def dedup_transition_def held_conn_def i64_max_def Let_def)
qed

theorem completed_until_retention_witness:
  "\<exists>c1 evs c'. sql_complete dedup_limits (held_conn ''in_flight'') sample_key 7 = (Ok (), c1) \<and>
     dedup_trace (sql_dedup_store dedup_limits) [DoClaim sample_key ExpireCompleted 100] c1 = (evs, c') \<and>
     claims_of sample_key evs = 0"
proof -
  let ?ops = "[DoClaim sample_key ExpireCompleted 100]"
  have inv: "sql_dedup_inv dedup_limits (held_conn ''in_flight'')"
    using held_conn_facts(1) [OF held_states(2)] by simp
  obtain c1 where c1: "sql_complete dedup_limits (held_conn ''in_flight'') sample_key 7 = (Ok (), c1)"
    using held_completes by blast
  obtain evs c' where run: "dedup_trace (sql_dedup_store dedup_limits) ?ops c1 = (evs, c')"
    by (cases "dedup_trace (sql_dedup_store dedup_limits) ?ops c1")
  have "saturating_add_i64 7 (int (retention_ms dedup_limits)) > 100"
    by (simp add: saturating_add_i64_def DedupStoreLimits_default_def from_secs_def as_millis_def
        i64_min_def i64_max_def)
  then have "list_all (\<lambda>ev. ev \<noteq> EvCleared \<and> (\<forall>now. event_time ev = Some now \<longrightarrow>
      int now < saturating_add_i64 (int 7) (int (retention_ms dedup_limits)))) evs"
    using run by (auto simp: claim_run_event claim_event_facts simp del: dedup_run.simps)
  with completed_until_retention [OF inv c1 _ run] sample_key_valid c1 run show ?thesis by auto
qed

theorem claim_exact_witness:
  "fst (sql_claim dedup_limits dedup_conn sample_key ExpireCompleted 9) = Ok Claimed \<and>
   fst (sql_claim dedup_limits (held_conn ''unknown'') sample_key ExpireCompleted 9) = Ok (Duplicate Unknown)"
proof -
  note facts = held_conn_facts [OF held_states(1)]
  have empty: "expired_at 9 (sql_dd_ents dedup_conn) = Map.empty"
    by (simp add: fun_eq_iff expired_at_def dedup_conn_ents)
  have one: "expired_at 9 (sql_dd_ents (held_conn ''unknown'')) sample_key =
      Some \<lparr>en_record = DedupRecord_from_stored_parts sample_key Unknown 5,
        en_policy = ExpireCompleted, en_expires = None\<rparr>"
    using facts(2) by (simp add: expired_at_def has_expired_def)
  have bound: "key_charge sample_key \<le> 352" using key_charge_bounds [OF sample_key_valid] by simp
  have plan: "cn_plan dedup_conn = []" "cn_plan (held_conn ''unknown'') = []"
    "db_seq_dedup (cn_data dedup_conn) < i64_max" "db_seq_dedup (cn_data (held_conn ''unknown'')) < i64_max"
    by (simp_all add: dedup_conn_def held_conn_def empty_database_def i64_max_def)
  show ?thesis
    using claim_exact [OF dedup_conn_inv plan(1) sample_key_valid plan(3), where t = 9 and p = ExpireCompleted]
      claim_exact [OF facts(1) plan(2) sample_key_valid plan(4), where t = 9 and p = ExpireCompleted] bound
    by (simp add: empty one charged_def i64_max_def DedupStoreLimits_default_def
        DedupRecord_from_stored_parts_def)
qed

theorem visit_unknown_ends_witness:
  "\<exists>r c' v'. visit_unknown (ops_visitor dedup_limits (\<lambda>x v. [DoResolve (dr_key x) ResolveRetryAllowed 9])
     (\<lambda>x v. (True, v + 1))) (held_conn ''unknown'') (0 :: nat) = Some (r, c', v')"
  using visit_unknown_ends [OF held_conn_facts(1) [OF held_states(1)],
      of "\<lambda>x v. [DoResolve (dr_key x) ResolveRetryAllowed 9]" "\<lambda>x v. (True, v + 1)" "0 :: nat"]
  by simp

theorem visit_unknown_exact_witness:
  "visit_unknown (pure_visitor (\<lambda>x v. (True, v @ [dr_key x]))) (held_conn ''unknown'') [] =
     Some (Ok (), held_conn ''unknown'', [sample_key])"
proof -
  have "unknown_records (cn_data (held_conn ''unknown'')) =
      [en_record (row_entry (held_row ''unknown''))]"
    by (simp add: unknown_records_def held_conn_def) (simp add: held_row_def)
  moreover have "dr_key (en_record (row_entry (held_row ''unknown''))) = sample_key"
    using held_row_good(2) [OF held_states(1)] by (simp add: DedupRecord_from_stored_parts_def)
  ultimately show ?thesis
    using visit_unknown_exact [OF held_conn_facts(1) [OF held_states(1)],
        of "\<lambda>x v. (True, v @ [dr_key x])" "[]"]
    by (simp add: held_conn_def)
qed

end
