(* ===== verification/Rate_Limit.thy ===== *)
theory Rate_Limit
  imports Prelude
begin

text \<open>
  The two request limiters: \<open>SlidingWindow\<close> of \<open>bondry-http-server/src/rate_limit.rs\<close>, keyed by principal,
  peer or route, and \<open>AuthenticatedRequestLimiter\<close> of \<open>bondry-webhook-ingress/src/limiter.rs\<close>. Both keep, per
  key, the times of the requests they let through and drop those that left the window. A locale states
  what they share: the decision depends on the times still in the window. It carries the comparison
  with a limiter that never forgets, and the bound on requests per window.
\<close>

section \<open>The shared contract\<close>

text \<open>The times still inside a window of length \<open>W\<close> at time \<open>now\<close>.\<close>

definition fresh :: "nat \<Rightarrow> nat \<Rightarrow> nat list \<Rightarrow> nat list" where
  "fresh W now xs = dropWhile (\<lambda>x. x + W \<le> now) xs"

text \<open>A limiter that keeps every time, as the reference.\<close>

type_synonym 'k history = "'k \<Rightarrow> nat list"

definition recent :: "nat \<Rightarrow> nat \<Rightarrow> nat list \<Rightarrow> nat" where
  "recent W now xs = length (filter (\<lambda>x. now < x + W) xs)"

definition ref_step :: "nat \<Rightarrow> nat \<Rightarrow> bool \<Rightarrow> 'k \<Rightarrow> nat \<Rightarrow> 'k history \<Rightarrow> bool \<times> 'k history" where
  "ref_step W limit uses k now h =
     (let ok = recent W now (h k) < limit
      in (ok, if ok \<and> uses then h(k := h k @ [now]) else h))"

fun ref_run :: "nat \<Rightarrow> nat \<Rightarrow> (bool \<times> 'k \<times> nat) list \<Rightarrow> 'k history \<Rightarrow> bool list \<times> 'k history" where
  "ref_run W limit [] h = ([], h)"
| "ref_run W limit ((uses, k, now) # calls) h =
     (case ref_step W limit uses k now h of (ok, h') \<Rightarrow>
        (case ref_run W limit calls h' of (oks, h'') \<Rightarrow> (ok # oks, h'')))"

text \<open>The decisions of any limiter over a sequence of calls; a call may look only, or use up capacity.\<close>

fun calls_run :: "(bool \<Rightarrow> 'k \<Rightarrow> nat \<Rightarrow> 's \<Rightarrow> bool \<times> 's) \<Rightarrow> (bool \<times> 'k \<times> nat) list \<Rightarrow> 's \<Rightarrow> bool list \<times> 's" where
  "calls_run call [] s = ([], s)"
| "calls_run call ((uses, k, now) # calls) s =
     (case call uses k now s of (ok, s') \<Rightarrow>
        (case calls_run call calls s' of (oks, s'') \<Rightarrow> (ok # oks, s'')))"

lemma length_filter_imp:
  "(\<And>x. x \<in> set xs \<Longrightarrow> P x \<Longrightarrow> Q x) \<Longrightarrow> length (filter P xs) \<le> length (filter Q xs)"
  by (induction xs) (auto intro: le_SucI)

lemma fresh_sorted: "sorted xs \<Longrightarrow> fresh W now xs = filter (\<lambda>x. now < x + W) xs"
proof (induction xs)
  case (Cons x xs)
  show ?case
  proof (cases "x + W \<le> now")
    case True
    with Cons show ?thesis by (simp add: fresh_def)
  next
    case False
    with Cons.prems have "\<forall>y\<in>set (x # xs). now < y + W" by fastforce
    with False show ?thesis by (simp add: fresh_def filter_id_conv)
  qed
qed (simp add: fresh_def)

text \<open>The history of a key and its window agree up to times that left the window.\<close>

definition tracks :: "nat \<Rightarrow> nat \<Rightarrow> nat list \<Rightarrow> nat list \<Rightarrow> bool" where
  "tracks W now past win \<longleftrightarrow> sorted past \<and> (\<forall>x\<in>set past. x \<le> now) \<and>
     (\<exists>old. past = old @ win \<and> (\<forall>x\<in>set old. x + W \<le> now))"

lemma tracks_later: "tracks W t past win \<Longrightarrow> t \<le> t' \<Longrightarrow> tracks W t' past win"
  unfolding tracks_def by (elim conjE exE, intro conjI exI) (auto intro: order.trans)

lemma tracks_fresh: "tracks W now past win \<Longrightarrow> tracks W now past (fresh W now win)"
proof -
  assume "tracks W now past win"
  then obtain old where old: "past = old @ win" "\<forall>x\<in>set old. x + W \<le> now" "sorted past"
    "\<forall>x\<in>set past. x \<le> now" by (auto simp: tracks_def)
  have "past = (old @ takeWhile (\<lambda>x. x + W \<le> now) win) @ fresh W now win"
    using old(1) by (simp add: fresh_def)
  moreover have "\<forall>x\<in>set (old @ takeWhile (\<lambda>x. x + W \<le> now) win). x + W \<le> now"
    using old(2) by (auto dest: set_takeWhileD)
  ultimately show ?thesis using old(3,4) unfolding tracks_def by blast
qed

lemma tracks_recent: "tracks W now past win \<Longrightarrow> recent W now past = length (fresh W now win)"
proof -
  assume "tracks W now past win"
  then obtain old where old: "past = old @ win" "\<forall>x\<in>set old. x + W \<le> now" "sorted past"
    by (auto simp: tracks_def)
  from old(3) have "sorted win" by (simp add: old(1) sorted_append)
  moreover have "filter (\<lambda>x. now < x + W) old = []" using old(2) by (auto simp: filter_empty_conv)
  ultimately show ?thesis by (simp add: recent_def old(1) fresh_sorted)
qed

lemma tracks_push: "tracks W now past win \<Longrightarrow> tracks W now (past @ [now]) (win @ [now])"
  by (auto simp: tracks_def sorted_append)

locale window_limiter =
  fixes call :: "bool \<Rightarrow> 'k \<Rightarrow> nat \<Rightarrow> 's \<Rightarrow> bool \<times> 's"
    and win :: "'s \<Rightarrow> 'k \<Rightarrow> nat list"
    and usable :: "bool \<Rightarrow> nat \<Rightarrow> bool"
    and W :: nat and limit :: nat
  assumes call_ok: "usable uses now \<Longrightarrow> (\<forall>j. \<forall>x\<in>set (win s j). usable True x) \<Longrightarrow>
      call uses k now s = (ok, s') \<Longrightarrow> ok = (length (fresh W now (win s k)) < limit)"
    and call_win: "usable uses now \<Longrightarrow> (\<forall>j. \<forall>x\<in>set (win s j). usable True x) \<Longrightarrow>
      call uses k now s = (ok, s') \<Longrightarrow> win s' k = fresh W now (win s k) @ (if ok \<and> uses then [now] else [])"
    and call_others: "usable uses now \<Longrightarrow> (\<forall>j. \<forall>x\<in>set (win s j). usable True x) \<Longrightarrow>
      call uses k now s = (ok, s') \<Longrightarrow> j \<noteq> k \<Longrightarrow> win s' j = win s j \<or> win s' j = fresh W now (win s j)"
begin

lemma run_equiv:
  assumes "sorted (map (snd \<circ> snd) calls)" and "\<forall>(uses, k, now)\<in>set calls. usable uses now \<and> t \<le> now"
    and "\<And>j. tracks W t (h j) (win s j)" and "\<forall>j. \<forall>x\<in>set (win s j). usable True x"
  shows "fst (calls_run call calls s) = fst (ref_run W limit calls h)"
  using assms
proof (induction calls arbitrary: s h t)
  case (Cons c calls)
  obtain uses k now where c: "c = (uses, k, now)" by (cases c)
  obtain ok s1 where run: "call uses k now s = (ok, s1)" by (cases "call uses k now s")
  from Cons.prems(2) c have now: "usable uses now" "t \<le> now" by auto
  have tr: "tracks W now (h j) (win s j)" for j
    using tracks_later [OF Cons.prems(3) now(2)] .
  note law = call_ok [OF now(1) Cons.prems(4) run] call_win [OF now(1) Cons.prems(4) run]
    call_others [OF now(1) Cons.prems(4) run]
  obtain ok' h1 where ref: "ref_step W limit uses k now h = (ok', h1)" by (cases "ref_step W limit uses k now h")
  from ref have ok': "ok' = ok"
    using tracks_recent [OF tr, of k] law(1) by (simp add: ref_step_def Let_def)
  from ref ok' have h1: "h1 = (if ok \<and> uses then h(k := h k @ [now]) else h)"
    by (auto simp: ref_step_def Let_def)
  have tr1: "tracks W now (h1 j) (win s1 j)" for j
  proof (cases "j = k")
    case True
    then show ?thesis
      using tracks_fresh [OF tr [of k]] tracks_push [OF tracks_fresh [OF tr [of k]]] law(2) h1 by simp
  next
    case False
    then have "h1 j = h j" using h1 by simp
    with law(3) [OF False] tr [of j] tracks_fresh [OF tr [of j]] show ?thesis by auto
  qed
  have us1': "usable True x" if "x \<in> set (win s1 j)" for j x
  proof (cases "j = k")
    case True
    with that law(2) Cons.prems(4) now(1) show ?thesis
      by (cases uses) (auto simp: fresh_def dest: set_dropWhileD split: if_splits)
  next
    case False
    with that law(3) [OF False] Cons.prems(4) show ?thesis
      by (auto simp: fresh_def dest!: set_dropWhileD)
  qed
  have "fst (calls_run call calls s1) = fst (ref_run W limit calls h1)"
    by (rule Cons.IH [OF _ _ tr1]) (use Cons.prems(1,2) c us1' in auto)
  then show ?case
    by (cases "calls_run call calls s1"; cases "ref_run W limit calls h1") (simp add: c run ref ok')
qed simp

end

text \<open>No window of the reference limiter holds more than the limit.\<close>

definition bounded :: "nat \<Rightarrow> nat \<Rightarrow> nat list \<Rightarrow> bool" where
  "bounded W limit xs \<longleftrightarrow> (\<forall>t. length (filter (\<lambda>x. x \<le> t \<and> t < x + W) xs) \<le> limit)"

lemma bounded_push:
  assumes "bounded W limit xs" and "\<forall>x\<in>set xs. x \<le> now" and "recent W now xs < limit"
  shows "bounded W limit (xs @ [now])"
  unfolding bounded_def
proof
  fix t
  show "length (filter (\<lambda>x. x \<le> t \<and> t < x + W) (xs @ [now])) \<le> limit"
  proof (cases "now \<le> t \<and> t < now + W")
    case True
    have "length (filter (\<lambda>x. x \<le> t \<and> t < x + W) xs) \<le> length (filter (\<lambda>x. now < x + W) xs)"
    proof (rule length_filter_imp)
      fix x
      assume "x \<in> set xs" "x \<le> t \<and> t < x + W"
      with True show "now < x + W" by linarith
    qed
    with True assms(3) show ?thesis by (simp add: recent_def)
  next
    case False
    with assms(1) show ?thesis by (auto simp: bounded_def)
  qed
qed

lemma ref_run_bounded:
  assumes "sorted (map (snd \<circ> snd) calls)" and "\<forall>(uses, k, now)\<in>set calls. t \<le> now"
    and "\<And>j. bounded W limit (h j)" and "\<And>j x. x \<in> set (h j) \<Longrightarrow> x \<le> t"
  shows "bounded W limit (snd (ref_run W limit calls h) j)"
  using assms
proof (induction calls arbitrary: h t)
  case (Cons c calls)
  obtain uses k now where c: "c = (uses, k, now)" by (cases c)
  obtain ok h1 where ref: "ref_step W limit uses k now h = (ok, h1)" by (cases "ref_step W limit uses k now h")
  from Cons.prems(2) c have now: "t \<le> now" by auto
  have old: "x \<le> now" if "x \<in> set (h j)" for j x using Cons.prems(4) [OF that] now by simp
  have b: "bounded W limit (h1 j)" for j
    using ref Cons.prems(3) [of j] bounded_push [OF Cons.prems(3) [of k], of now] old [of _ k]
    by (auto simp: ref_step_def Let_def split: if_splits)
  have le: "x \<le> now" if "x \<in> set (h1 j)" for j x
    using that ref old by (auto simp: ref_step_def Let_def split: if_splits)
  have "bounded W limit (snd (ref_run W limit calls h1) j)"
    by (rule Cons.IH [OF _ _ b le]) (use Cons.prems(1) c in auto)
  then show ?case by (cases "ref_run W limit calls h1") (simp add: c ref)
qed simp

section \<open>The sliding window of the HTTP server\<close>

text \<open>
  An \<open>Instant\<close> is the number of nanoseconds since the origin of the monotonic clock; subtracting below the
  origin is not representable.
\<close>

definition WINDOW :: nat where
  "WINDOW = 60 * 1000000000"

datatype rate_limit_decision = Allowed | Limited nat

record 'k rate_limit_state =
  rl_windows :: "'k \<rightharpoonup> nat list"
  rl_operations :: "8 word"

definition rate_limit_default :: "'k rate_limit_state" where
  "rate_limit_default = \<lparr>rl_windows = Map.empty, rl_operations = 0\<rparr>"

text \<open>
  An \<open>Instant\<close> is counted from the earliest instant its platform can represent: \<open>checked_sub\<close> gives
  \<open>None\<close> for a time before that. On a platform whose instants are signed that is far in the past, on one
  whose instants are unsigned it is the origin of its clock.
\<close>

definition instant_checked_sub :: "nat \<Rightarrow> nat \<Rightarrow> nat option" where
  "instant_checked_sub now d = (if d \<le> now then Some (now - d) else None)"

definition clean_window :: "nat list \<Rightarrow> nat \<Rightarrow> nat list" where
  "clean_window window now =
     (let cutoff = (case instant_checked_sub now WINDOW of None \<Rightarrow> now | Some c \<Rightarrow> c)
      in dropWhile (\<lambda>recorded. recorded \<le> cutoff) window)"

definition clean_periodically :: "nat \<Rightarrow> 'k rate_limit_state \<Rightarrow> 'k rate_limit_state" where
  "clean_periodically now s =
     (let s = s\<lparr>rl_operations := rl_operations s + 1\<rparr>
      in if rl_operations s \<noteq> 0 then s
         else s\<lparr>rl_windows := (\<lambda>k. case rl_windows s k of None \<Rightarrow> None
             | Some window \<Rightarrow> (let window = clean_window window now
                 in if window \<noteq> [] then Some window else None))\<rparr>)"

definition retry_decision :: "nat list \<Rightarrow> nat \<Rightarrow> rate_limit_decision" where
  "retry_decision window now =
     Limited (case window of [] \<Rightarrow> 1
       | recorded # _ \<Rightarrow> max 1 ((WINDOW - (now - recorded)) div 1000000000))"

definition rate_check ::
    "'k \<Rightarrow> nat \<Rightarrow> nat \<Rightarrow> 'k rate_limit_state \<Rightarrow> rate_limit_decision \<times> 'k rate_limit_state" where
  "rate_check key limit now s =
     (let s = clean_periodically now s
      in case rl_windows s key of
           None \<Rightarrow> (Allowed, s)
         | Some window \<Rightarrow>
             (let window = clean_window window now;
                  s = s\<lparr>rl_windows := (rl_windows s)(key \<mapsto> window)\<rparr>
              in if length window \<ge> limit then (retry_decision window now, s) else (Allowed, s)))"

definition rate_consume ::
    "'k \<Rightarrow> nat \<Rightarrow> nat \<Rightarrow> 'k rate_limit_state \<Rightarrow> rate_limit_decision \<times> 'k rate_limit_state" where
  "rate_consume key limit now s =
     (let s = clean_periodically now s;
          window = clean_window (case rl_windows s key of None \<Rightarrow> [] | Some window \<Rightarrow> window) now
      in if length window \<ge> limit
         then (retry_decision window now, s\<lparr>rl_windows := (rl_windows s)(key \<mapsto> window)\<rparr>)
         else (Allowed, s\<lparr>rl_windows := (rl_windows s)(key \<mapsto> window @ [now])\<rparr>))"

definition sliding_call ::
    "nat \<Rightarrow> bool \<Rightarrow> 'k \<Rightarrow> nat \<Rightarrow> 'k rate_limit_state \<Rightarrow> bool \<times> 'k rate_limit_state" where
  "sliding_call limit uses key now s =
     (case (if uses then rate_consume key limit now s else rate_check key limit now s) of
        (d, s') \<Rightarrow> (d = Allowed, s'))"

definition rl_win :: "'k rate_limit_state \<Rightarrow> 'k \<Rightarrow> nat list" where
  "rl_win s k = (case rl_windows s k of None \<Rightarrow> [] | Some window \<Rightarrow> window)"

lemma clean_window_fresh: "WINDOW \<le> now \<Longrightarrow> clean_window w now = fresh WINDOW now w"
proof -
  assume "WINDOW \<le> now"
  then have "(x \<le> now - WINDOW) = (x + WINDOW \<le> now)" for x by linarith
  with \<open>WINDOW \<le> now\<close> show ?thesis by (simp add: clean_window_def instant_checked_sub_def fresh_def)
qed

lemma fresh_idem [simp]: "fresh W now (fresh W now w) = fresh W now w"
  unfolding fresh_def by (rule dropWhile_idem)

lemma fresh_Nil [simp]: "fresh W now [] = []"
  by (simp add: fresh_def)

lemma rl_win_periodically:
  assumes "WINDOW \<le> now"
  shows "rl_win (clean_periodically now s) k = rl_win s k \<or>
    rl_win (clean_periodically now s) k = fresh WINDOW now (rl_win s k)"
  using assms
  by (auto simp: clean_periodically_def rl_win_def Let_def clean_window_fresh split: option.splits)

lemma fresh_periodically [simp]:
  assumes "WINDOW \<le> now"
  shows "fresh WINDOW now (rl_win (clean_periodically now s) k) = fresh WINDOW now (rl_win s k)"
  using rl_win_periodically [OF assms, of s k] by auto

lemma rl_win_simps:
  "(case rl_windows s k of None \<Rightarrow> [] | Some w \<Rightarrow> w) = rl_win s k"
  "rl_win (s\<lparr>rl_windows := (rl_windows s)(k \<mapsto> w)\<rparr>) j = (if j = k then w else rl_win s j)"
  by (simp_all add: rl_win_def)

lemma consume_result:
  assumes "WINDOW \<le> now" and "sliding_call limit True k now s = (ok, s')"
  shows "ok = (length (fresh WINDOW now (rl_win s k)) < limit)"
    and "rl_win s' k = fresh WINDOW now (rl_win s k) @ (if ok then [now] else [])"
    and "j \<noteq> k \<Longrightarrow> rl_win s' j = rl_win (clean_periodically now s) j"
  using assms
  by (auto simp: sliding_call_def rate_consume_def Let_def rl_win_simps clean_window_fresh
      retry_decision_def split: if_splits)

lemma check_result:
  assumes "WINDOW \<le> now" and "0 < limit" and "sliding_call limit False k now s = (ok, s')"
  shows "ok = (length (fresh WINDOW now (rl_win s k)) < limit)"
    and "rl_win s' k = fresh WINDOW now (rl_win s k)"
    and "j \<noteq> k \<Longrightarrow> rl_win s' j = rl_win (clean_periodically now s) j"
proof -
  have main: "ok = (length (fresh WINDOW now (rl_win s k)) < limit) \<and>
    rl_win s' k = fresh WINDOW now (rl_win s k) \<and>
    (j \<noteq> k \<longrightarrow> rl_win s' j = rl_win (clean_periodically now s) j)"
  proof (cases "rl_windows (clean_periodically now s) k")
    case None
    then have "rl_win (clean_periodically now s) k = []" by (simp add: rl_win_def)
    moreover from this have "fresh WINDOW now (rl_win s k) = []"
      using fresh_periodically [OF assms(1), of s k] by simp
    ultimately show ?thesis
      using assms None by (auto simp: sliding_call_def rate_check_def)
  next
    case (Some w)
    then have "w = rl_win (clean_periodically now s) k" by (simp add: rl_win_def)
    with assms Some show ?thesis
      by (auto simp: sliding_call_def rate_check_def Let_def rl_win_simps clean_window_fresh
          retry_decision_def split: if_splits)
  qed
  then show "ok = (length (fresh WINDOW now (rl_win s k)) < limit)"
    and "rl_win s' k = fresh WINDOW now (rl_win s k)"
    and "j \<noteq> k \<Longrightarrow> rl_win s' j = rl_win (clean_periodically now s) j"
    by simp_all
qed

interpretation sliding: window_limiter "sliding_call (Suc n)" rl_win "\<lambda>_ now. WINDOW \<le> now" WINDOW "Suc n"
  for n
proof (unfold_locales, goal_cases)
  case (1 uses now s k ok s')
  then show ?case
    using consume_result(1) [of now "Suc n" k s ok s'] check_result(1) [of now "Suc n" k s ok s']
    by (cases uses) simp_all
next
  case (2 uses now s k ok s')
  then show ?case
    using consume_result(2) [of now "Suc n" k s ok s'] check_result(2) [of now "Suc n" k s ok s']
    by (cases uses) simp_all
next
  case (3 uses now s k ok s' j)
  then have "rl_win s' j = rl_win (clean_periodically now s) j"
    using consume_result(3) [of now "Suc n" k s ok s' j] check_result(3) [of now "Suc n" k s ok s' j]
    by (cases uses) simp_all
  with rl_win_periodically [OF 3(1), of s j] show ?case by simp
qed

section \<open>The limiter of authenticated webhook principals\<close>

definition WINDOW_MILLISECONDS :: nat where
  "WINDOW_MILLISECONDS = 60000"
definition MAX_REQUESTS_PER_MINUTE :: nat where
  "MAX_REQUESTS_PER_MINUTE = 60000"

record request_limiter =
  ar_requests_per_minute :: nat
  ar_last :: nat
  ar_principals :: "rstr \<rightharpoonup> nat list"

definition AuthenticatedRequestLimiter_new :: "nat \<Rightarrow> unit + request_limiter" where
  "AuthenticatedRequestLimiter_new requests_per_minute =
     (if requests_per_minute = 0 \<or> requests_per_minute > MAX_REQUESTS_PER_MINUTE then Err ()
      else Ok \<lparr>ar_requests_per_minute = requests_per_minute, ar_last = 0, ar_principals = Map.empty\<rparr>)"

definition AuthenticatedRequestLimiter_default :: request_limiter where
  "AuthenticatedRequestLimiter_default =
     \<lparr>ar_requests_per_minute = 120, ar_last = 0, ar_principals = Map.empty\<rparr>"

definition div_ceil :: "nat \<Rightarrow> nat \<Rightarrow> nat" where
  "div_ceil x y = (x + y - 1) div y"

text \<open>\<open>admit\<close> after its clock was clamped.\<close>

definition admit_at :: "rstr \<Rightarrow> nat \<Rightarrow> request_limiter \<Rightarrow> rate_limit_decision \<times> request_limiter" where
  "admit_at p now s =
     (let cutoff = now - WINDOW_MILLISECONDS;
          requests = dropWhile (\<lambda>timestamp. timestamp \<le> cutoff)
            (case ar_principals s p of None \<Rightarrow> [] | Some requests \<Rightarrow> requests)
      in if length requests \<ge> ar_requests_per_minute s
         then (Limited (case requests of [] \<Rightarrow> 60
                 | oldest # _ \<Rightarrow> max 1 (div_ceil (saturating_add_u64 oldest WINDOW_MILLISECONDS - now) 1000)),
               s\<lparr>ar_principals := (ar_principals s)(p \<mapsto> requests)\<rparr>)
         else (Allowed, s\<lparr>ar_principals := (ar_principals s)(p \<mapsto> requests @ [now])\<rparr>))"

definition admit :: "rstr \<Rightarrow> nat \<Rightarrow> request_limiter \<Rightarrow> rate_limit_decision \<times> request_limiter" where
  "admit p now_monotonic_milliseconds s =
     (let now = max now_monotonic_milliseconds (ar_last s)
      in admit_at p now (s\<lparr>ar_last := now\<rparr>))"

definition ar_win :: "request_limiter \<Rightarrow> rstr \<Rightarrow> nat list" where
  "ar_win s p = (case ar_principals s p of None \<Rightarrow> [] | Some requests \<Rightarrow> requests)"

text \<open>One call on a limiter set to a rate, at a clamped time.\<close>

definition admit_call :: "nat \<Rightarrow> bool \<Rightarrow> rstr \<Rightarrow> nat \<Rightarrow> request_limiter \<Rightarrow> bool \<times> request_limiter" where
  "admit_call rate uses p now s =
     (case admit_at p now (s\<lparr>ar_requests_per_minute := rate\<rparr>) of (d, s') \<Rightarrow> (d = Allowed, s'))"

lemma ar_win_simps:
  "(case ar_principals s p of None \<Rightarrow> [] | Some r \<Rightarrow> r) = ar_win s p"
  "ar_win (s\<lparr>ar_principals := m(p \<mapsto> w)\<rparr>) q =
     (if q = p then w else case m q of None \<Rightarrow> [] | Some r \<Rightarrow> r)"
  "ar_win (s\<lparr>ar_requests_per_minute := n\<rparr>) q = ar_win s q" "ar_win (s\<lparr>ar_last := t\<rparr>) q = ar_win s q"
  by (simp_all add: ar_win_def)

lemma cutoff_fresh:
  assumes "\<forall>x\<in>set w. 0 < x"
  shows "dropWhile (\<lambda>x. x \<le> now - W) w = fresh W now w"
  unfolding fresh_def using assms by (intro dropWhile_cong) auto

lemma admit_at_result:
  assumes "\<forall>x\<in>set (ar_win s p). 0 < x" and "admit_call rate True p now s = (ok, s')"
  shows "ok = (length (fresh WINDOW_MILLISECONDS now (ar_win s p)) < rate)"
    and "ar_win s' p = fresh WINDOW_MILLISECONDS now (ar_win s p) @ (if ok then [now] else [])"
    and "q \<noteq> p \<Longrightarrow> ar_win s' q = ar_win s q"
  using assms
  by (auto simp: admit_call_def admit_at_def Let_def ar_win_simps cutoff_fresh split: if_splits)

interpretation admission: window_limiter "admit_call rate" ar_win "\<lambda>uses now. uses \<and> 0 < now"
  WINDOW_MILLISECONDS rate for rate
proof (unfold_locales, goal_cases)
  case (1 uses now s p ok s')
  then show ?case using admit_at_result(1) [of s p rate now ok s'] by simp
next
  case (2 uses now s p ok s')
  then show ?case using admit_at_result(2) [of s p rate now ok s'] by simp
next
  case (3 uses now s p ok s' q)
  then show ?case using admit_at_result(3) [of s p rate now ok s' q] by simp
qed

text \<open>A sequence of raw calls, and the calls at the clamped times the limiter works with.\<close>

fun admit_run :: "(rstr \<times> nat) list \<Rightarrow> request_limiter \<Rightarrow> bool list \<times> request_limiter" where
  "admit_run [] s = ([], s)"
| "admit_run ((p, t) # calls) s =
     (case admit p t s of (d, s') \<Rightarrow>
        (case admit_run calls s' of (ds, s'') \<Rightarrow> ((d = Allowed) # ds, s'')))"

fun clamped :: "nat \<Rightarrow> (rstr \<times> nat) list \<Rightarrow> (bool \<times> rstr \<times> nat) list" where
  "clamped now [] = []"
| "clamped now ((p, t) # calls) = (True, p, max t now) # clamped (max t now) calls"

lemma clamped_sorted: "sorted (map (snd \<circ> snd) (clamped t calls)) \<and> (\<forall>(u, p, now)\<in>set (clamped t calls). u \<and> t \<le> now)"
proof (induction calls arbitrary: t)
  case (Cons c calls)
  obtain p x where c: "c = (p, x)" by (cases c)
  from Cons.IH [of "max x t"] show ?case by (fastforce simp: c)
qed simp

lemma admit_fields:
  "ar_last (snd (admit p t s)) = max t (ar_last s)"
  "ar_requests_per_minute (snd (admit p t s)) = ar_requests_per_minute s"
  by (simp_all add: admit_def admit_at_def Let_def)

lemma admit_as_call:
  assumes "ar_requests_per_minute s = rate" and "ar_principals s = ar_principals s2"
  shows "fst (admit_call rate True p (max t (ar_last s)) s2) = (fst (admit p t s) = Allowed)"
    and "ar_principals (snd (admit_call rate True p (max t (ar_last s)) s2)) = ar_principals (snd (admit p t s))"
  using assms by (auto simp: admit_call_def admit_def admit_at_def Let_def)

lemma admit_run_calls:
  assumes "ar_requests_per_minute s = rate" and "ar_principals s = ar_principals s2"
  shows "fst (admit_run calls s) = fst (calls_run (admit_call rate) (clamped (ar_last s) calls) s2)"
  using assms
proof (induction calls arbitrary: s s2)
  case (Cons c calls)
  obtain p t where c: "c = (p, t)" by (cases c)
  obtain d s1 where a: "admit p t s = (d, s1)" by (cases "admit p t s")
  obtain ok s3 where b: "admit_call rate True p (max t (ar_last s)) s2 = (ok, s3)"
    by (cases "admit_call rate True p (max t (ar_last s)) s2")
  have "ok = (d = Allowed)" "ar_principals s1 = ar_principals s3"
    using admit_as_call [OF Cons.prems, of p t] a b by simp_all
  moreover have "ar_last s1 = max t (ar_last s)" "ar_requests_per_minute s1 = rate"
    using admit_fields [of p t s] a Cons.prems(1) by simp_all
  ultimately show ?case
    using Cons.IH [of s1 s3]
    by (cases "admit_run calls s1"; cases "calls_run (admit_call rate) (clamped (ar_last s1) calls) s3")
      (simp add: c a b)
qed simp

end
