(* ===== verification/Host_Limits.thy ===== *)
theory Host_Limits
  imports Rate_Limit
begin

text \<open>
  Properties of the request limiters: away from the origin of their clocks they decide exactly as a limiter
  that remembers every request and never let more than the limit through in a window; the wait they ask
  for is enough. What happens at the origin is stated at the end.
\<close>

section \<open>State of the admission limiter\<close>

definition limiter_inv :: "request_limiter \<Rightarrow> bool" where
  "limiter_inv s \<longleftrightarrow> 0 < ar_requests_per_minute s \<and>
     (\<forall>p. sorted (ar_win s p) \<and> (\<forall>x\<in>set (ar_win s p). x \<le> ar_last s) \<and>
        length (ar_win s p) \<le> ar_requests_per_minute s)"

lemma limiter_inv_new: "AuthenticatedRequestLimiter_new n = Ok s \<Longrightarrow> limiter_inv s"
  by (auto simp: AuthenticatedRequestLimiter_new_def limiter_inv_def ar_win_def split: if_splits)

lemma sorted_drop: "sorted xs \<Longrightarrow> sorted (dropWhile P xs)"
  by (metis sorted_append takeWhile_dropWhile_id)

lemma length_drop: "length (dropWhile P xs) \<le> length xs"
  by (induction xs) auto

lemma admit_inv:
  assumes "limiter_inv s"
  shows "limiter_inv (snd (admit p t s))"
proof -
  let ?now = "max t (ar_last s)"
  let ?w = "dropWhile (\<lambda>x. x \<le> ?now - WINDOW_MILLISECONDS) (ar_win s p)"
  have w: "sorted ?w" "length ?w \<le> ar_requests_per_minute s" "\<forall>x\<in>set ?w. x \<le> ?now"
    using assms sorted_drop [of "ar_win s p"] le_trans [OF length_drop [of _ "ar_win s p"]]
    by (fastforce simp: limiter_inv_def dest: set_dropWhileD)+
  have others: "sorted (ar_win s q)" "\<forall>x\<in>set (ar_win s q). x \<le> ?now"
    "length (ar_win s q) \<le> ar_requests_per_minute s" for q
    using assms by (fastforce simp: limiter_inv_def)+
  show ?thesis
    using w others assms
    by (auto simp: limiter_inv_def admit_def admit_at_def Let_def ar_win_simps sorted_append
        split: if_splits)
qed

section \<open>Properties\<close>

text \<open>C27 (equivalence): over calls in time order, each at least sixty seconds after the earliest instant the
  platform can represent, the sliding window decides every call, looks and uses alike, exactly as a
  limiter that keeps every admitted request, whatever its periodic clean-up removes, and in no window of
  sixty seconds are more than the limit admitted for a key.\<close>

theorem sliding_window_exact:
  assumes "0 < limit" and "sorted (map (snd \<circ> snd) calls)"
    and "list_all (\<lambda>(uses, k, now). WINDOW \<le> now) calls"
  shows "fst (calls_run (sliding_call limit) calls rate_limit_default) =
      fst (ref_run WINDOW limit calls (\<lambda>_. [])) \<and>
    bounded WINDOW limit (snd (ref_run WINDOW limit calls (\<lambda>_. [])) k)"
proof -
  obtain n where n: "limit = Suc n" using assms(1) by (cases limit) auto
  have "fst (calls_run (sliding_call (Suc n)) calls rate_limit_default) =
      fst (ref_run WINDOW (Suc n) calls (\<lambda>_. []))"
    using assms(2,3)
    by (intro sliding.run_equiv [where t = WINDOW])
      (auto simp: list_all_iff tracks_def rl_win_def rate_limit_default_def)
  moreover have "bounded WINDOW (Suc n) (snd (ref_run WINDOW (Suc n) calls (\<lambda>_. [])) k)"
    using assms(2) by (intro ref_run_bounded [where t = 0]) (auto simp: bounded_def)
  ultimately show ?thesis by (simp add: n)
qed

text \<open>C28 (equivalence): over any calls of which the first carries a time above zero, with a clock that may
  run backwards after that, the admission limiter decides as a limiter that keeps every admitted request at
  the latest time seen so far, and admits no more than its rate in any minute of that time. Requests at
  time zero are left out: they are not counted.\<close>

theorem admission_exact:
  assumes "AuthenticatedRequestLimiter_new rate = Ok s" and "calls \<noteq> []" and "0 < snd (hd calls)"
  shows "fst (admit_run calls s) =
      fst (ref_run WINDOW_MILLISECONDS rate (clamped 0 calls) (\<lambda>_. [])) \<and>
    bounded WINDOW_MILLISECONDS rate
      (snd (ref_run WINDOW_MILLISECONDS rate (clamped 0 calls) (\<lambda>_. [])) p)"
proof -
  obtain q t rest where calls: "calls = (q, t) # rest" "0 < t"
    using assms(2,3) by (cases calls) auto
  from assms(1) have s: "ar_requests_per_minute s = rate" "ar_last s = 0" "ar_principals s = Map.empty"
    by (auto simp: AuthenticatedRequestLimiter_new_def split: if_splits)
  have pos: "\<forall>(u, x, now)\<in>set (clamped 0 calls). (u \<and> 0 < now) \<and> 0 \<le> now"
    using clamped_sorted [of t rest] calls by fastforce
  have sorted: "sorted (map (snd \<circ> snd) (clamped 0 calls))" using clamped_sorted [of 0 calls] by simp
  have "fst (admit_run calls s) = fst (calls_run (admit_call rate) (clamped 0 calls) s)"
    using admit_run_calls [OF s(1) refl, of calls] s(2) by simp
  also have "\<dots> = fst (ref_run WINDOW_MILLISECONDS rate (clamped 0 calls) (\<lambda>_. []))"
    by (rule admission.run_equiv [OF sorted pos]) (simp_all add: tracks_def ar_win_def s(3))
  finally have "fst (admit_run calls s) = \<dots>" .
  moreover have "bounded WINDOW_MILLISECONDS rate
      (snd (ref_run WINDOW_MILLISECONDS rate (clamped 0 calls) (\<lambda>_. [])) p)"
    using sorted by (intro ref_run_bounded [where t = 0]) (auto simp: bounded_def)
  ultimately show ?thesis by simp
qed

text \<open>C29 (liveness): the wait the admission limiter asks for is between one second and a minute and
  enough: a principal that stays away for that long is admitted on its next request.\<close>

theorem retry_after_suffices:
  assumes "limiter_inv s" and "admit p t s = (Limited r, s')"
    and "max t (ar_last s) + WINDOW_MILLISECONDS \<le> u64_max"
  shows "1 \<le> r \<and> r \<le> 60 \<and> limiter_inv s' \<and>
    fst (admit p (max t (ar_last s) + 1000 * r) s') = Allowed"
proof -
  let ?now = "max t (ar_last s)" and ?rate = "ar_requests_per_minute s"
  let ?w = "dropWhile (\<lambda>x. x \<le> ?now - WINDOW_MILLISECONDS) (ar_win s p)"
  have len: "length ?w \<le> ?rate" "0 < ?rate" "\<forall>x\<in>set ?w. x \<le> ?now"
    using assms(1) le_trans [OF length_drop [of _ "ar_win s p"]]
    by (fastforce simp: limiter_inv_def dest: set_dropWhileD)+
  have full: "?rate \<le> length ?w"
    and r: "r = (case ?w of [] \<Rightarrow> 60
      | oldest # _ \<Rightarrow> max 1 (div_ceil (saturating_add_u64 oldest WINDOW_MILLISECONDS - ?now) 1000))"
    and s': "s' = s\<lparr>ar_last := ?now, ar_principals := (ar_principals s)(p \<mapsto> ?w)\<rparr>"
    using assms(2) by (auto simp: admit_def admit_at_def Let_def ar_win_simps split: if_splits)
  then obtain x w where w: "?w = x # w" using len(2) by (cases ?w) auto
  have x: "x \<le> ?now" "\<not> x \<le> ?now - WINDOW_MILLISECONDS"
    using len(3) w hd_dropWhile [of "\<lambda>x. x \<le> ?now - WINDOW_MILLISECONDS" "ar_win s p"] by auto
  have sat: "saturating_add_u64 x WINDOW_MILLISECONDS = x + WINDOW_MILLISECONDS"
    using x(1) assms(3) by (simp add: saturating_add_u64_def)
  have r': "r = max 1 ((x + 60000 - ?now + 999) div 1000)"
    using r w sat by (simp add: div_ceil_def WINDOW_MILLISECONDS_def add.commute)
  have bounds: "1 \<le> r" "r \<le> 60" using r' x(1) by simp_all
  have "x + 60000 - ?now \<le> 1000 * r" unfolding r' by simp
  then have gone: "x \<le> ?now + 1000 * r - WINDOW_MILLISECONDS"
    by (simp add: WINDOW_MILLISECONDS_def)
  let ?later = "?now + 1000 * r"
  have "dropWhile (\<lambda>y. y \<le> ?later - WINDOW_MILLISECONDS) ?w =
      dropWhile (\<lambda>y. y \<le> ?later - WINDOW_MILLISECONDS) w"
    unfolding w using gone by simp
  moreover have "length \<dots> \<le> length w" by (rule length_drop)
  moreover have "length w < ?rate" using w len(1) by simp
  ultimately have "fst (admit p ?later s') = Allowed"
    by (simp add: s' admit_def admit_at_def Let_def)
  moreover have "limiter_inv s'" using admit_inv [OF assms(1), of p t] assms(2) by simp
  ultimately show ?thesis using bounds by simp
qed

section \<open>Where the limiters do not limit\<close>

text \<open>
  Less than one window after the earliest instant that can be represented, the cut-off falls back to the
  present, so every recorded request leaves the window at once and the sliding window lets everything
  through. A host whose instants are unsigned meets this in the first minute of its clock.
\<close>

lemma early_instants_unlimited:
  assumes "now < WINDOW" and "0 < limit" and "\<forall>x\<in>set (rl_win s k). x \<le> now"
  shows "fst (rate_consume k limit now s) = Allowed"
proof -
  have clean: "clean_window w now = []" if "\<forall>x\<in>set w. x \<le> now" for w
    using assms(1) that by (simp add: clean_window_def instant_checked_sub_def dropWhile_eq_Nil_conv)
  have "\<forall>x\<in>set (rl_win (clean_periodically now s) k). x \<le> now"
    using assms(3)
    by (auto simp: clean_periodically_def rl_win_def Let_def clean_window_def split: option.splits if_splits
        dest: set_dropWhileD)
  with clean assms(2) show ?thesis
    by (simp add: rate_consume_def Let_def rl_win_simps)
qed

text \<open>
  While the cut-off saturates at zero it equals a recorded time of zero, so requests admitted at
  millisecond zero are never counted.
\<close>

lemma zero_time_uncounted:
  assumes "AuthenticatedRequestLimiter_new rate = Ok s"
  shows "fst (admit_run (replicate n (p, 0)) s) = replicate n True"
proof -
  have "fst (admit_run (replicate n (p, 0)) s) = replicate n True"
    if "ar_last s = 0" "0 < ar_requests_per_minute s" "\<forall>x\<in>set (ar_win s p). x = 0" for s
    using that
  proof (induction n arbitrary: s)
    case (Suc n)
    have none: "dropWhile (\<lambda>x. x = 0) (ar_win s p) = []"
      using Suc.prems(3) by (simp add: dropWhile_eq_Nil_conv)
    obtain s1 where s1: "admit p 0 s = (Allowed, s1)" "ar_win s1 p = [0]"
      using Suc.prems(1,2) none by (simp add: admit_def admit_at_def Let_def ar_win_simps)
    moreover have "ar_last s1 = 0" "0 < ar_requests_per_minute s1"
      using admit_fields [of p 0 s] s1(1) Suc.prems by simp_all
    ultimately show ?case using Suc.IH [of s1] by (cases "admit_run (replicate n (p, 0)) s1") simp
  qed simp
  with assms show ?thesis
    by (auto simp: AuthenticatedRequestLimiter_new_def ar_win_def split: if_splits)
qed

section \<open>Concrete runs\<close>

theorem sliding_window_exact_witness:
  "fst (calls_run (sliding_call 1) [(True, 3 :: nat, WINDOW), (False, 3, WINDOW + 5)] rate_limit_default) =
     [True, False]"
  using sliding_window_exact [of 1 "[(True, 3 :: nat, WINDOW), (False, 3, WINDOW + 5)]"]
  by (simp add: ref_step_def recent_def WINDOW_def)

definition one_per_minute :: request_limiter where
  "one_per_minute = \<lparr>ar_requests_per_minute = 1, ar_last = 0, ar_principals = Map.empty\<rparr>"

lemma one_per_minute_new: "AuthenticatedRequestLimiter_new 1 = Ok one_per_minute"
  by (simp add: AuthenticatedRequestLimiter_new_def MAX_REQUESTS_PER_MINUTE_def one_per_minute_def)

theorem admission_exact_witness:
  "fst (admit_run [(lit ''a'', 100), (lit ''a'', 99), (lit ''b'', 100)] one_per_minute) = [True, False, True]"
  using admission_exact [OF one_per_minute_new, of "[(lit ''a'', 100), (lit ''a'', 99), (lit ''b'', 100)]"]
  by (simp add: ref_step_def recent_def WINDOW_MILLISECONDS_def lit_def of_char_def)

definition busy_limiter :: request_limiter where
  "busy_limiter = \<lparr>ar_requests_per_minute = 1, ar_last = 100, ar_principals = [lit ''a'' \<mapsto> [100]]\<rparr>"

theorem retry_after_suffices_witness:
  "\<exists>s'. admit (lit ''a'') 200 busy_limiter = (Limited 60, s') \<and>
     fst (admit (lit ''a'') 60200 s') = Allowed"
proof -
  have inv: "limiter_inv busy_limiter"
    by (simp add: limiter_inv_def busy_limiter_def ar_win_def)
  obtain s' where s': "admit (lit ''a'') 200 busy_limiter = (Limited 60, s')"
    by (simp add: admit_def admit_at_def busy_limiter_def Let_def WINDOW_MILLISECONDS_def div_ceil_def
        saturating_add_u64_def u64_max_def)
  from retry_after_suffices [OF inv s'] s' show ?thesis
    by (simp add: busy_limiter_def WINDOW_MILLISECONDS_def u64_max_def)
qed

end
