(* ===== verification/Rust_Text.thy ===== *)
theory Rust_Text
  imports Prelude
begin

text \<open>
  The text functions of the Rust standard library that the transport, webhook and egress code calls
  beyond those of the prelude: ASCII case, suffixes, integer parsing and printing, and the check and
  decoding of UTF-8. Nothing here models a file of the repository.
\<close>

section \<open>Strings\<close>

definition strip_suffix :: "rstr \<Rightarrow> rstr \<Rightarrow> rstr option" where
  "strip_suffix p s = map_option rev (strip_prefix (rev p) (rev s))"

definition ends_with :: "rstr \<Rightarrow> rstr \<Rightarrow> bool" where
  "ends_with p s \<longleftrightarrow> strip_suffix p s \<noteq> None"

definition trim_end_matches :: "nat \<Rightarrow> rstr \<Rightarrow> rstr" where
  "trim_end_matches c s = rev (dropWhile (\<lambda>x. x = c) (rev s))"

definition to_ascii_lowercase :: "nat \<Rightarrow> nat" where
  "to_ascii_lowercase c = (if 65 \<le> c \<and> c \<le> 90 then c + 32 else c)"

definition eq_ignore_ascii_case :: "rstr \<Rightarrow> rstr \<Rightarrow> bool" where
  "eq_ignore_ascii_case a b \<longleftrightarrow> map to_ascii_lowercase a = map to_ascii_lowercase b"

definition is_ascii_digit :: "nat \<Rightarrow> bool" where
  "is_ascii_digit c \<longleftrightarrow> 48 \<le> c \<and> c \<le> 57"

text \<open>\<open>str::parse\<close> to an unsigned integer: an optional plus sign, then digits, no overflow.\<close>

definition parse_unsigned :: "nat \<Rightarrow> rstr \<Rightarrow> nat option" where
  "parse_unsigned maximum s =
     (let digits = (case s of c # cs \<Rightarrow> if c = 43 then cs else s | [] \<Rightarrow> [])
      in if digits = [] \<or> \<not> list_all is_ascii_digit digits then None
         else (let n = foldl (\<lambda>n c. 10 * n + (c - 48)) 0 digits
               in if n \<le> maximum then Some n else None))"

section \<open>Integers as text\<close>

text \<open>\<open>to_string\<close> of an unsigned and of a signed integer.\<close>

fun dec_nat :: "nat \<Rightarrow> rstr" where
  "dec_nat n = (if n < 10 then [48 + n] else dec_nat (n div 10) @ [48 + n mod 10])"

declare dec_nat.simps [simp del]

definition dec_int :: "int \<Rightarrow> rstr" where
  "dec_int i = (if i < 0 then 45 # dec_nat (nat (- i)) else dec_nat (nat i))"

text \<open>\<open>str::parse::<i64>\<close>: an optional sign, then digits, no overflow.\<close>

definition digits_val :: "rstr \<Rightarrow> nat" where
  "digits_val s = foldl (\<lambda>n c. 10 * n + (c - 48)) 0 s"

definition parse_i64 :: "rstr \<Rightarrow> int option" where
  "parse_i64 s =
     (let negative = (s \<noteq> [] \<and> hd s = 45);
          digits = (if s \<noteq> [] \<and> (hd s = 43 \<or> hd s = 45) then tl s else s)
      in if digits = [] \<or> \<not> list_all is_ascii_digit digits then None
         else (let v = (if negative then - int (digits_val digits) else int (digits_val digits))
               in if in_i64 v then Some v else None))"

lemma digits_val_snoc [simp]: "digits_val (s @ [c]) = 10 * digits_val s + (c - 48)"
  by (simp add: digits_val_def)

lemma digits_val_Nil [simp]: "digits_val [] = 0"
  by (simp add: digits_val_def)

lemma dec_nat_digits: "list_all is_ascii_digit (dec_nat n)"
proof (induction n rule: dec_nat.induct)
  case (1 n)
  have "is_ascii_digit (48 + n mod 10)"
    using mod_less_divisor [of 10 n] by (simp add: is_ascii_digit_def)
  moreover have "n < 10 \<Longrightarrow> is_ascii_digit (48 + n)" by (simp add: is_ascii_digit_def)
  ultimately show ?case using 1 by (subst dec_nat.simps) simp
qed

lemma dec_nat_nonempty [simp]: "dec_nat n \<noteq> []"
  by (subst dec_nat.simps) simp

lemma digits_val_dec_nat [simp]: "digits_val (dec_nat n) = n"
proof (induction n rule: dec_nat.induct)
  case (1 n)
  show ?case
  proof (cases "n < 10")
    case True
    then show ?thesis by (subst dec_nat.simps) (simp add: digits_val_def)
  next
    case False
    with 1 show ?thesis by (subst dec_nat.simps) simp
  qed
qed

lemma dec_nat_chars: "c \<in> set (dec_nat n) \<Longrightarrow> 48 \<le> c \<and> c \<le> 57"
  using dec_nat_digits [of n] by (auto simp: list_all_iff is_ascii_digit_def)

lemma dec_nat_eq_iff [simp]: "dec_nat m = dec_nat n \<longleftrightarrow> m = n"
  by (metis digits_val_dec_nat)

lemma dec_int_chars: "c \<in> set (dec_int i) \<Longrightarrow> c = 45 \<or> 48 \<le> c \<and> c \<le> 57"
  by (auto simp: dec_int_def dest: dec_nat_chars split: if_splits)

lemma hd_dec_nat: "48 \<le> hd (dec_nat n) \<and> hd (dec_nat n) \<le> 57"
  using dec_nat_chars [of "hd (dec_nat n)" n] by simp

lemma dec_int_eq_iff [simp]: "dec_int i = dec_int j \<longleftrightarrow> i = j"
proof
  assume eq: "dec_int i = dec_int j"
  show "i = j"
  proof (cases "i < 0"; cases "j < 0")
    assume "i < 0" "j < 0"
    with eq show ?thesis by (simp add: dec_int_def)
  next
    assume "i < 0" "\<not> j < 0"
    with eq have "hd (dec_nat (nat j)) = 45" by (metis dec_int_def list.sel(1))
    with hd_dec_nat [of "nat j"] show ?thesis by simp
  next
    assume "\<not> i < 0" "j < 0"
    with eq have "hd (dec_nat (nat i)) = 45" by (metis dec_int_def list.sel(1))
    with hd_dec_nat [of "nat i"] show ?thesis by simp
  next
    assume "\<not> i < 0" "\<not> j < 0"
    with eq show ?thesis by (simp add: dec_int_def)
  qed
qed simp

lemma parse_dec_int:
  assumes "0 \<le> i" and "i \<le> i64_max"
  shows "parse_i64 (dec_int i) = Some i"
proof -
  have "hd (dec_nat (nat i)) \<noteq> 43" "hd (dec_nat (nat i)) \<noteq> 45"
    using hd_dec_nat [of "nat i"] by auto
  moreover have "in_i64 i" using assms by (auto simp: in_i64_def i64_min_def)
  ultimately show ?thesis
    using assms dec_nat_digits [of "nat i"] by (simp add: parse_i64_def dec_int_def Let_def)
qed

section \<open>UTF-8\<close>

text \<open>
  \<open>str::from_utf8\<close>: the well-formed byte sequences of the Unicode standard, with the code points they
  encode (no overlong form, no surrogate, nothing above U+10FFFF).
\<close>

definition cont :: "u8 \<Rightarrow> bool" where
  "cont b \<longleftrightarrow> 0x80 \<le> unat b \<and> unat b \<le> 0xBF"

definition second3 :: "nat \<Rightarrow> u8 \<Rightarrow> bool" where
  "second3 a b \<longleftrightarrow> cont b \<and> (a = 0xE0 \<longrightarrow> 0xA0 \<le> unat b) \<and> (a = 0xED \<longrightarrow> unat b \<le> 0x9F)"

definition second4 :: "nat \<Rightarrow> u8 \<Rightarrow> bool" where
  "second4 a b \<longleftrightarrow> cont b \<and> (a = 0xF0 \<longrightarrow> 0x90 \<le> unat b) \<and> (a = 0xF4 \<longrightarrow> unat b \<le> 0x8F)"

fun from_utf8 :: "bytes \<Rightarrow> rstr option" where
  "from_utf8 [] = Some []"
| "from_utf8 (x # r) =
     (let a = unat x in
      if a < 0x80 then map_option ((#) a) (from_utf8 r)
      else if 0xC2 \<le> a \<and> a \<le> 0xDF then
        (case r of
           b # r \<Rightarrow> if cont b then map_option ((#) ((a - 0xC0) * 64 + (unat b - 0x80))) (from_utf8 r) else None
         | _ \<Rightarrow> None)
      else if 0xE0 \<le> a \<and> a \<le> 0xEF then
        (case r of
           b # c # r \<Rightarrow>
             if second3 a b \<and> cont c
             then map_option ((#) ((a - 0xE0) * 4096 + (unat b - 0x80) * 64 + (unat c - 0x80))) (from_utf8 r)
             else None
         | _ \<Rightarrow> None)
      else if 0xF0 \<le> a \<and> a \<le> 0xF4 then
        (case r of
           b # c # d # r \<Rightarrow>
             if second4 a b \<and> cont c \<and> cont d
             then map_option ((#) ((a - 0xF0) * 262144 + (unat b - 0x80) * 4096 + (unat c - 0x80) * 64 +
                    (unat d - 0x80))) (from_utf8 r)
             else None
         | _ \<Rightarrow> None)
      else None)"

declare from_utf8.simps(2) [simp del]

text \<open>The bytes of an ASCII string.\<close>

definition ascii_bytes :: "rstr \<Rightarrow> bytes" where
  "ascii_bytes s = map of_nat s"

lemma unat_ascii: "c < 128 \<Longrightarrow> unat (of_nat c :: u8) = c"
  by (simp add: unat_of_nat)

lemma from_utf8_ascii: "\<forall>c\<in>set s. c < 128 \<Longrightarrow> from_utf8 (ascii_bytes s) = Some s"
  by (induction s) (simp_all add: ascii_bytes_def unat_ascii from_utf8.simps(2))

lemma multibyte_head:
  assumes "from_utf8 (x # r) = Some s" and "\<not> unat x < 0x80"
  obtains c t where "s = c # t" and "128 \<le> c"
proof -
  let ?a = "unat x"
  consider "0xC2 \<le> ?a" "?a \<le> 0xDF" | "0xE0 \<le> ?a" "?a \<le> 0xEF" | "0xF0 \<le> ?a" "?a \<le> 0xF4"
    using assms by (auto simp: from_utf8.simps(2) Let_def split: if_splits)
  then show ?thesis
  proof cases
    case 1
    then have "s = ((?a - 0xC0) * 64 + (unat (hd r) - 0x80)) # tl s"
      using assms by (auto simp: from_utf8.simps(2) Let_def split: list.splits if_splits)
    moreover have "128 \<le> (?a - 0xC0) * 64 + (unat (hd r) - 0x80)" using 1 by simp
    ultimately show ?thesis by (rule that)
  next
    case 2
    then have s: "s = ((?a - 0xE0) * 4096 + (unat (hd r) - 0x80) * 64 + (unat (hd (tl r)) - 0x80)) # tl s"
      and b: "second3 ?a (hd r)"
      using assms by (auto simp: from_utf8.simps(2) Let_def split: list.splits if_splits)
    have "?a = 0xE0 \<or> 0xE1 \<le> ?a" using 2 by linarith
    with b have "128 \<le> (?a - 0xE0) * 4096 + (unat (hd r) - 0x80) * 64 + (unat (hd (tl r)) - 0x80)"
      by (auto simp: second3_def)
    with s show ?thesis by (rule that)
  next
    case 3
    then have s: "s = ((?a - 0xF0) * 262144 + (unat (hd r) - 0x80) * 4096 + (unat (hd (tl r)) - 0x80) * 64 +
        (unat (hd (tl (tl r))) - 0x80)) # tl s" and b: "second4 ?a (hd r)"
      using assms by (auto simp: from_utf8.simps(2) Let_def split: list.splits if_splits)
    have "?a = 0xF0 \<or> 0xF1 \<le> ?a" using 3 by linarith
    with b have "128 \<le> (?a - 0xF0) * 262144 + (unat (hd r) - 0x80) * 4096 + (unat (hd (tl r)) - 0x80) * 64 +
        (unat (hd (tl (tl r))) - 0x80)"
      by (auto simp: second4_def)
    with s show ?thesis by (rule that)
  qed
qed

lemma from_utf8_Some_ascii:
  "from_utf8 bs = Some s \<Longrightarrow> \<forall>c\<in>set s. c < 128 \<Longrightarrow> bs = ascii_bytes s"
proof (induction bs arbitrary: s)
  case Nil
  then show ?case by (simp add: ascii_bytes_def)
next
  case (Cons x r)
  show ?case
  proof (cases "unat x < 0x80")
    case True
    with Cons show ?thesis by (auto simp: ascii_bytes_def from_utf8.simps(2))
  next
    case False
    with Cons.prems show ?thesis by (elim multibyte_head) auto
  qed
qed

lemma ascii_bytes_eq_iff:
  assumes "\<forall>c\<in>set s. c < 128" and "\<forall>c\<in>set t. c < 128"
  shows "ascii_bytes s = ascii_bytes t \<longleftrightarrow> s = t"
  by (metis assms from_utf8_ascii option.inject)

lemma length_ascii_bytes [simp]: "length (ascii_bytes s) = length s"
  by (simp add: ascii_bytes_def)

lemma ascii_bytes_append [simp]: "ascii_bytes (s @ t) = ascii_bytes s @ ascii_bytes t"
  by (simp add: ascii_bytes_def)

text \<open>The bytes of any string (\<open>str::as_bytes\<close>).\<close>

definition utf8_char :: "nat \<Rightarrow> bytes" where
  "utf8_char c =
     (if c < 0x80 then [of_nat c]
      else if c < 0x800 then [of_nat (0xC0 + c div 64), of_nat (0x80 + c mod 64)]
      else if c < 0x10000 then
        [of_nat (0xE0 + c div 4096), of_nat (0x80 + c div 64 mod 64), of_nat (0x80 + c mod 64)]
      else
        [of_nat (0xF0 + c div 262144), of_nat (0x80 + c div 4096 mod 64), of_nat (0x80 + c div 64 mod 64),
         of_nat (0x80 + c mod 64)])"

definition utf8_bytes :: "rstr \<Rightarrow> bytes" where
  "utf8_bytes s = concat (map utf8_char s)"

lemma length_utf8_bytes [simp]: "length (utf8_bytes s) = str_len s"
  by (induction s) (simp_all add: utf8_bytes_def utf8_char_def utf8_len_def)

lemma utf8_bytes_ascii: "\<forall>c\<in>set s. c < 128 \<Longrightarrow> utf8_bytes s = ascii_bytes s"
  by (induction s) (simp_all add: utf8_bytes_def utf8_char_def ascii_bytes_def)

text \<open>The last byte of a longer encoding is no ASCII byte.\<close>

lemma utf8_char_tail:
  assumes "128 \<le> c"
  shows "of_nat (0x80 + c mod 64) \<in> set (utf8_char c)" "128 \<le> unat (of_nat (0x80 + c mod 64) :: u8)"
proof -
  show "of_nat (0x80 + c mod 64) \<in> set (utf8_char c)" using assms by (simp add: utf8_char_def)
  have "(0x80 + c mod 64) mod 2 ^ LENGTH(8) = 0x80 + c mod 64" using mod_less_divisor [of 64 c] by simp
  then show "128 \<le> unat (of_nat (0x80 + c mod 64) :: u8)" by (simp only: unat_of_nat)
qed

lemma utf8_bytes_all_ascii: "\<forall>b\<in>set (utf8_bytes s). unat b < 128 \<Longrightarrow> \<forall>c\<in>set s. c < 128"
proof (rule ccontr)
  assume all: "\<forall>b\<in>set (utf8_bytes s). unat b < 128" and "\<not> (\<forall>c\<in>set s. c < 128)"
  then obtain c where c: "c \<in> set s" "128 \<le> c" by auto
  then have "of_nat (0x80 + c mod 64) \<in> set (utf8_bytes s)"
    using utf8_char_tail(1) [of c] by (auto simp: utf8_bytes_def)
  with all utf8_char_tail(2) [of c] c show False by fastforce
qed

end
