(* ===== verification/Transport_Policy.thy ===== *)
theory Transport_Policy
  imports Rust_Text
begin

text \<open>
  The transport contract (\<open>bondry-transport/src/endpoint.rs\<close>, \<open>policy.rs\<close> and \<open>local.rs\<close>): endpoints,
  the evidence a transport reports about an established connection, the classification of peer
  addresses, and the policy that accepts or refuses the connection. The parts a parsed URI offers to
  this code are the fields of a record, since parsing it is the work of another crate.
\<close>

section \<open>Endpoints\<close>

record uri =
  uri_text :: rstr
  uri_scheme :: "rstr option"
  uri_authority :: "rstr option"
  uri_host :: "rstr option"
  uri_port :: "nat option"

datatype network_scheme = SchemeHttp | SchemeHttps | SchemeWebSocket | SchemeWebSocketSecure

fun requires_tls :: "network_scheme \<Rightarrow> bool" where
  "requires_tls SchemeHttps = True"
| "requires_tls SchemeWebSocketSecure = True"
| "requires_tls _ = False"

fun default_port :: "network_scheme \<Rightarrow> nat" where
  "default_port SchemeHttp = 80"
| "default_port SchemeWebSocket = 80"
| "default_port SchemeHttps = 443"
| "default_port SchemeWebSocketSecure = 443"

definition MAX_NETWORK_ENDPOINT_BYTES :: nat where
  "MAX_NETWORK_ENDPOINT_BYTES = 4 * 1024"

datatype endpoint_error =
  EpTooLong | EpUnsupportedScheme | EpMissingAuthority | EpUserInformation | EpInvalidPort

record network_endpoint =
  ne_uri :: uri
  ne_scheme :: network_scheme

definition NetworkEndpoint_new :: "uri \<Rightarrow> endpoint_error + network_endpoint" where
  "NetworkEndpoint_new u =
     (if str_len (uri_text u) > MAX_NETWORK_ENDPOINT_BYTES then Err EpTooLong
      else
        bindR (if uri_scheme u = Some (lit ''http'') then Ok SchemeHttp
               else if uri_scheme u = Some (lit ''https'') then Ok SchemeHttps
               else if uri_scheme u = Some (lit ''ws'') then Ok SchemeWebSocket
               else if uri_scheme u = Some (lit ''wss'') then Ok SchemeWebSocketSecure
               else Err EpUnsupportedScheme) (\<lambda>scheme.
        case uri_authority u of
          None \<Rightarrow> Err EpMissingAuthority
        | Some authority \<Rightarrow>
            if uri_host u = None \<or> uri_host u = Some [] then Err EpMissingAuthority
            else if uri_port u = Some 0 then Err EpInvalidPort
            else if 64 \<in> set authority then Err EpUserInformation
            else Ok \<lparr>ne_uri = u, ne_scheme = scheme\<rparr>))"

definition ne_host :: "network_endpoint \<Rightarrow> rstr" where
  "ne_host e = (case uri_host (ne_uri e) of None \<Rightarrow> [] | Some h \<Rightarrow> h)"

definition ne_port :: "network_endpoint \<Rightarrow> nat" where
  "ne_port e = (case uri_port (ne_uri e) of None \<Rightarrow> default_port (ne_scheme e) | Some p \<Rightarrow> p)"

section \<open>Addresses\<close>

datatype ip_address = V4 bytes | V6 bytes

definition valid_ip :: "ip_address \<Rightarrow> bool" where
  "valid_ip a \<longleftrightarrow> (case a of V4 bs \<Rightarrow> length bs = 4 | V6 bs \<Rightarrow> length bs = 16)"

fun normalized :: "ip_address \<Rightarrow> ip_address" where
  "normalized (V6 bs) =
     (if bs ! 0 = 0 \<and> bs ! 1 = 0 \<and> bs ! 2 = 0 \<and> bs ! 3 = 0 \<and> bs ! 4 = 0 \<and> bs ! 5 = 0 \<and>
         bs ! 6 = 0 \<and> bs ! 7 = 0 \<and> bs ! 8 = 0 \<and> bs ! 9 = 0 \<and> bs ! 10 = 0xff \<and> bs ! 11 = 0xff
      then V4 [bs ! 12, bs ! 13, bs ! 14, bs ! 15] else V6 bs)"
| "normalized (V4 bs) = V4 bs"

datatype ip_address_class =
    Loopback | Private | LinkLocal | CarrierGradeNat | Unspecified | Multicast | Documentation
  | Reserved | Public

definition classify_ipv4 :: "bytes \<Rightarrow> ip_address_class" where
  "classify_ipv4 bs =
     (if bs ! 0 = 127 then Loopback
      else if bs = [0, 0, 0, 0] then Unspecified
      else if bs ! 0 = 10 \<or> (bs ! 0 = 172 \<and> bs ! 1 \<ge> 16 \<and> bs ! 1 \<le> 31) \<or> (bs ! 0 = 192 \<and> bs ! 1 = 168)
      then Private
      else if bs ! 0 = 169 \<and> bs ! 1 = 254 then LinkLocal
      else if bs ! 0 = 100 \<and> bs ! 1 \<ge> 64 \<and> bs ! 1 \<le> 127 then CarrierGradeNat
      else if bs ! 0 \<ge> 224 \<and> bs ! 0 \<le> 239 then Multicast
      else if (bs ! 0 = 192 \<and> bs ! 1 = 0 \<and> bs ! 2 = 2) \<or> (bs ! 0 = 198 \<and> bs ! 1 = 51 \<and> bs ! 2 = 100)
         \<or> (bs ! 0 = 203 \<and> bs ! 1 = 0 \<and> bs ! 2 = 113)
      then Documentation
      else if bs ! 0 = 0 \<or> bs ! 0 \<ge> 240 \<or> (bs ! 0 = 192 \<and> bs ! 1 = 0 \<and> bs ! 2 = 0)
         \<or> (bs ! 0 = 192 \<and> bs ! 1 = 88 \<and> bs ! 2 = 99) \<or> (bs ! 0 = 198 \<and> (bs ! 1 = 18 \<or> bs ! 1 = 19))
      then Reserved
      else Public)"

definition classify_ipv6 :: "bytes \<Rightarrow> ip_address_class" where
  "classify_ipv6 bs =
     (if bs = [0, 0, 0, 0, 0, 0, 0, 0, 0, 0, 0, 0, 0, 0, 0, 1] then Loopback
      else if bs = replicate 16 0 then Unspecified
      else if and (bs ! 0) 0xfe = 0xfc then Private
      else if bs ! 0 = 0xfe \<and> and (bs ! 1) 0xc0 = 0x80 then LinkLocal
      else if bs ! 0 = 0xff then Multicast
      else if (bs ! 0 = 0x20 \<and> bs ! 1 = 0x01 \<and> bs ! 2 = 0x0d \<and> bs ! 3 = 0xb8)
         \<or> (bs ! 0 = 0x3f \<and> bs ! 1 = 0xff \<and> and (bs ! 2) 0xf0 = 0)
      then Documentation
      else if and (bs ! 0) 0xe0 \<noteq> 0x20
         \<or> (bs ! 0 = 0x20 \<and> bs ! 1 = 0x01 \<and> (bs ! 2 = 0x00 \<or> bs ! 2 = 0x02))
      then Reserved
      else Public)"

definition classify_ip :: "ip_address \<Rightarrow> ip_address_class" where
  "classify_ip address =
     (case normalized address of V4 bs \<Rightarrow> classify_ipv4 bs | V6 bs \<Rightarrow> classify_ipv6 bs)"

record peer_address =
  pa_address :: ip_address
  pa_port :: nat
  pa_interface_scope :: "nat option"

definition PeerAddress_new :: "ip_address \<Rightarrow> nat \<Rightarrow> peer_address" where
  "PeerAddress_new ip port = \<lparr>pa_address = ip, pa_port = port, pa_interface_scope = None\<rparr>"

definition with_interface_scope :: "nat \<Rightarrow> peer_address \<Rightarrow> peer_address" where
  "with_interface_scope scope p = (if scope \<noteq> 0 then p\<lparr>pa_interface_scope := Some scope\<rparr> else p)"

definition pa_ip :: "peer_address \<Rightarrow> ip_address" where
  "pa_ip p = normalized (pa_address p)"

datatype connection_evidence = EvMissing | EvTls rstr | EvCleartext peer_address

section \<open>Hosts\<close>

definition server_names_match :: "rstr \<Rightarrow> rstr \<Rightarrow> bool" where
  "server_names_match endpoint verified \<longleftrightarrow>
     eq_ignore_ascii_case (trim_end_matches 46 endpoint) (trim_end_matches 46 verified)"

definition unbracketed_host :: "rstr \<Rightarrow> rstr" where
  "unbracketed_host host =
     (case strip_prefix (lit ''['') host of
        None \<Rightarrow> host
      | Some v \<Rightarrow> (case strip_suffix (lit '']'') v of None \<Rightarrow> host | Some h \<Rightarrow> h))"

text \<open>The loop of \<open>canonical_ipv4\<close> over the octets still to fill.\<close>

fun canonical_octets :: "nat \<Rightarrow> rstr list \<Rightarrow> (u8 list \<times> rstr list) option" where
  "canonical_octets 0 parts = Some ([], parts)"
| "canonical_octets (Suc n) [] = None"
| "canonical_octets (Suc n) (part # parts) =
     (if part = [] \<or> (str_len part > 1 \<and> hd part = 48) then None
      else (case parse_unsigned 255 part of
              None \<Rightarrow> None
            | Some octet \<Rightarrow>
                map_option (map_prod ((#) (of_nat octet)) id) (canonical_octets n parts)))"

definition canonical_ipv4 :: "rstr \<Rightarrow> u8 list option" where
  "canonical_ipv4 host =
     (case canonical_octets 4 (split_on 46 host) of
        Some (address, []) \<Rightarrow> Some address
      | _ \<Rightarrow> None)"

definition loopback_intent :: "rstr \<Rightarrow> bool" where
  "loopback_intent host =
     (let host = unbracketed_host host;
          hostname = (case strip_suffix (lit ''.'') host of None \<Rightarrow> host | Some h \<Rightarrow> h)
      in if \<not> ends_with (lit ''.'') hostname \<and> eq_ignore_ascii_case hostname (lit ''localhost'') then True
         else if host = lit ''::1'' then True
         else (case canonical_ipv4 host of None \<Rightarrow> False | Some address \<Rightarrow> address ! 0 = 127))"

definition looks_like_ip_literal :: "rstr \<Rightarrow> bool" where
  "looks_like_ip_literal host =
     (let host = unbracketed_host host
      in 58 \<in> set host \<or> list_all (\<lambda>c. is_ascii_digit c \<or> c = 46) host)"

section \<open>Policy\<close>

definition MAX_ADDITIONAL_TRUST_ANCHORS :: nat where
  "MAX_ADDITIONAL_TRUST_ANCHORS = 8"
definition MAX_ADDITIONAL_TRUST_ANCHOR_BYTES :: nat where
  "MAX_ADDITIONAL_TRUST_ANCHOR_BYTES = 16 * 1024"
definition MAX_ADDITIONAL_TRUST_ANCHOR_AGGREGATE_BYTES :: nat where
  "MAX_ADDITIONAL_TRUST_ANCHOR_AGGREGATE_BYTES = 64 * 1024"

datatype trust_anchor_error = AnchorEmpty | AnchorTooLong
datatype endpoint_policy_error = TooManyTrustAnchors | TrustAnchorsTooLarge

definition AdditionalTrustAnchor_from_der :: "bytes \<Rightarrow> trust_anchor_error + bytes" where
  "AdditionalTrustAnchor_from_der der =
     (if der = [] then Err AnchorEmpty
      else if length der > MAX_ADDITIONAL_TRUST_ANCHOR_BYTES then Err AnchorTooLong
      else Ok der)"

record endpoint_policy =
  ep_hostname_loopback :: bool
  ep_private :: bool
  ep_link_local :: bool
  ep_anchors :: "bytes list"

definition EndpointPolicy_default :: endpoint_policy where
  "EndpointPolicy_default =
     \<lparr>ep_hostname_loopback = False, ep_private = False, ep_link_local = False, ep_anchors = []\<rparr>"

definition allowing_hostname_loopback_cleartext :: "endpoint_policy \<Rightarrow> endpoint_policy" where
  "allowing_hostname_loopback_cleartext p = p\<lparr>ep_hostname_loopback := True\<rparr>"

definition allowing_private_cleartext :: "endpoint_policy \<Rightarrow> endpoint_policy" where
  "allowing_private_cleartext p = p\<lparr>ep_private := True\<rparr>"

definition allowing_link_local_cleartext :: "endpoint_policy \<Rightarrow> endpoint_policy" where
  "allowing_link_local_cleartext p = p\<lparr>ep_link_local := True\<rparr>"

definition with_additional_trust_anchor ::
    "bytes \<Rightarrow> endpoint_policy \<Rightarrow> endpoint_policy_error + endpoint_policy" where
  "with_additional_trust_anchor anchor p =
     (if length (ep_anchors p) = MAX_ADDITIONAL_TRUST_ANCHORS then Err TooManyTrustAnchors
      else if sum_list (map length (ep_anchors p)) + length anchor
                > MAX_ADDITIONAL_TRUST_ANCHOR_AGGREGATE_BYTES then Err TrustAnchorsTooLarge
      else Ok (p\<lparr>ep_anchors := ep_anchors p @ [anchor]\<rparr>))"

datatype policy_error =
    MissingEvidence | EvidenceMismatch | TlsIdentityMismatch | LoopbackIntentRequired
  | PrivateCleartextDenied | LinkLocalCleartextDenied | LinkLocalScopeRequired | CleartextDenied
  | RedirectDenied

definition verify_connection ::
    "endpoint_policy \<Rightarrow> network_endpoint \<Rightarrow> connection_evidence
       \<Rightarrow> policy_error + connection_evidence" where
  "verify_connection p endpoint evidence =
     (if requires_tls (ne_scheme endpoint)
      then (case evidence of
              EvMissing \<Rightarrow> Err MissingEvidence
            | EvCleartext _ \<Rightarrow> Err EvidenceMismatch
            | EvTls server_name \<Rightarrow>
                if \<not> server_names_match (ne_host endpoint) server_name then Err TlsIdentityMismatch
                else Ok evidence)
      else (case evidence of
              EvMissing \<Rightarrow> Err MissingEvidence
            | EvTls _ \<Rightarrow> Err EvidenceMismatch
            | EvCleartext peer \<Rightarrow>
                if pa_port peer \<noteq> ne_port endpoint then Err EvidenceMismatch
                else (case classify_ip (pa_ip peer) of
                  Loopback \<Rightarrow>
                    if loopback_intent (ne_host endpoint) then Ok evidence
                    else if ep_hostname_loopback p \<and> \<not> looks_like_ip_literal (ne_host endpoint)
                    then Ok evidence
                    else Err LoopbackIntentRequired
                | Private \<Rightarrow> if ep_private p then Ok evidence else Err PrivateCleartextDenied
                | LinkLocal \<Rightarrow>
                    if ep_link_local p \<and> pa_interface_scope peer \<noteq> None then Ok evidence
                    else if ep_link_local p then Err LinkLocalScopeRequired
                    else Err LinkLocalCleartextDenied
                | _ \<Rightarrow> Err CleartextDenied)))"

definition verify_redirect :: "endpoint_policy \<Rightarrow> network_endpoint \<Rightarrow> policy_error + unit" where
  "verify_redirect p target = Err RedirectDenied"

section \<open>Local sockets\<close>

record unix_socket_policy =
  us_owner_user :: nat
  us_owner_group :: "nat option"
  us_forbidden_mode :: "32 word"
  us_peer_user :: nat
  us_peer_group :: "nat option"

definition UnixSocketPolicy_new :: "nat \<Rightarrow> 32 word \<Rightarrow> nat \<Rightarrow> unix_socket_policy" where
  "UnixSocketPolicy_new owner forbidden peer =
     \<lparr>us_owner_user = owner, us_owner_group = None, us_forbidden_mode = forbidden,
      us_peer_user = peer, us_peer_group = None\<rparr>"

definition requiring_owner_group :: "nat \<Rightarrow> unix_socket_policy \<Rightarrow> unix_socket_policy" where
  "requiring_owner_group g p = p\<lparr>us_owner_group := Some g\<rparr>"

definition requiring_peer_group :: "nat \<Rightarrow> unix_socket_policy \<Rightarrow> unix_socket_policy" where
  "requiring_peer_group g p = p\<lparr>us_peer_group := Some g\<rparr>"

record unix_peer =
  up_owner_user :: nat
  up_owner_group :: nat
  up_mode :: "32 word"
  up_peer_user :: nat
  up_peer_group :: "nat option"

datatype local_peer_evidence = UnixEvidence unix_peer | NamedPipeReserved

datatype local_transport_error =
    LtUnsupportedEndpoint | LtEvidenceMismatch | LtOwnershipRejected | LtModeRejected
  | LtPeerCredentialRejected | LtUnavailable | LtDeadlineExceeded | LtInvalidReadBound

definition UnixSocketPolicy_verify ::
    "unix_socket_policy \<Rightarrow> local_peer_evidence \<Rightarrow> local_transport_error + local_peer_evidence" where
  "UnixSocketPolicy_verify p evidence =
     (case evidence of
        NamedPipeReserved \<Rightarrow> Err LtEvidenceMismatch
      | UnixEvidence e \<Rightarrow>
          if up_owner_user e \<noteq> us_owner_user p
             \<or> (case us_owner_group p of None \<Rightarrow> False | Some g \<Rightarrow> g \<noteq> up_owner_group e)
          then Err LtOwnershipRejected
          else if and (up_mode e) (us_forbidden_mode p) \<noteq> 0 then Err LtModeRejected
          else if up_peer_user e \<noteq> us_peer_user p
             \<or> (case us_peer_group p of None \<Rightarrow> False | Some g \<Rightarrow> Some g \<noteq> up_peer_group e)
          then Err LtPeerCredentialRejected
          else Ok evidence)"

section \<open>Signed octets\<close>

text \<open>A plus sign passes the canonical check, and such a host counts as written loopback intent.\<close>

lemma plus_sign_is_canonical:
  "canonical_ipv4 (lit ''127.+0.0.1'') = Some [127, 0, 0, 1]" "loopback_intent (lit ''127.+0.0.1'')"
  by code_simp+

end
