(* ===== verification/Host_Transport.thy ===== *)
theory Host_Transport
  imports Transport_Policy
begin

text \<open>
  Properties of the transport policy: the address classes are the registered address blocks, cleartext
  reaches only local peers the route allows, and the canonical form of an IPv4 host is unique.
\<close>

section \<open>Address blocks\<close>

text \<open>A block: the octets of its first address and the length of its prefix.\<close>

fun in_block :: "nat list \<Rightarrow> nat \<Rightarrow> bytes \<Rightarrow> bool" where
  "in_block [] len [] = True"
| "in_block (b # base) len (x # bs) =
     (unat x div 2 ^ (8 - min 8 len) = b div 2 ^ (8 - min 8 len) \<and> in_block base (len - 8) bs)"
| "in_block _ _ _ = False"

type_synonym block_table = "(ip_address_class \<times> nat list \<times> nat) list"

text \<open>The class of the first block of a table that has the address.\<close>

fun block_class :: "block_table \<Rightarrow> ip_address_class \<Rightarrow> bytes \<Rightarrow> ip_address_class" where
  "block_class [] other bs = other"
| "block_class ((c, base, len) # table) other bs =
     (if in_block base len bs then c else block_class table other bs)"

definition v4_blocks :: block_table where
  "v4_blocks =
     [(Loopback, [127, 0, 0, 0], 8), (Unspecified, [0, 0, 0, 0], 32),
      (Private, [10, 0, 0, 0], 8), (Private, [172, 16, 0, 0], 12), (Private, [192, 168, 0, 0], 16),
      (LinkLocal, [169, 254, 0, 0], 16), (CarrierGradeNat, [100, 64, 0, 0], 10),
      (Multicast, [224, 0, 0, 0], 4),
      (Documentation, [192, 0, 2, 0], 24), (Documentation, [198, 51, 100, 0], 24),
      (Documentation, [203, 0, 113, 0], 24),
      (Reserved, [0, 0, 0, 0], 8), (Reserved, [240, 0, 0, 0], 4), (Reserved, [192, 0, 0, 0], 24),
      (Reserved, [192, 88, 99, 0], 24), (Reserved, [198, 18, 0, 0], 15)]"

definition v6_base :: "nat list \<Rightarrow> nat list" where
  "v6_base prefix = prefix @ replicate (16 - length prefix) 0"

text \<open>
  The classes as their comments in \<open>policy.rs\<close> describe them; protocol-reserved IPv6 space inside 2000::/3 is
  the registered block 2001::/23.
\<close>

definition v6_blocks :: block_table where
  "v6_blocks =
     [(Loopback, replicate 15 0 @ [1], 128), (Unspecified, v6_base [], 128),
      (Private, v6_base [0xfc], 7), (LinkLocal, v6_base [0xfe, 0x80], 10), (Multicast, v6_base [0xff], 8),
      (Documentation, v6_base [0x20, 0x01, 0x0d, 0xb8], 32), (Documentation, v6_base [0x3f, 0xff], 20),
      (Reserved, v6_base [0x20, 0x01], 23), (Public, v6_base [0x20], 3)]"

definition address_class :: "ip_address \<Rightarrow> ip_address_class" where
  "address_class a = (case a of
     V4 bs \<Rightarrow> block_class v4_blocks Public bs
   | V6 bs \<Rightarrow>
       if in_block (replicate 10 0 @ [0xff, 0xff, 0, 0, 0, 0]) 96 bs
       then block_class v4_blocks Public (drop 12 bs)
       else block_class v6_blocks Reserved bs)"

text \<open>
  The two blocks, 2001:100::/24 and 2001:200::/24, on which the tests of the third octet in \<open>classify_ipv6\<close>
  differ from that registration.
\<close>

definition misfiled :: "ip_address \<Rightarrow> bool" where
  "misfiled a = (case a of
     V4 _ \<Rightarrow> False
   | V6 bs \<Rightarrow> in_block (v6_base [0x20, 0x01, 0x01]) 24 bs \<or> in_block (v6_base [0x20, 0x01, 0x02]) 24 bs)"

section \<open>Octets\<close>

lemma octet_less: "unat (x :: u8) < 256"
  using unsigned_less [of x, where ?'a = nat] by simp

lemma octet_div [simp]: "unat (x :: u8) div 256 = 0"
  by (simp add: octet_less)

lemma and_high: "and (n :: nat) (2 ^ k * (2 ^ j - 1)) = 2 ^ k * (n div 2 ^ k mod 2 ^ j)"
proof (induction k arbitrary: n)
  case 0
  show ?case using take_bit_eq_mask [of j n] by (simp add: mask_eq_exp_minus_1 take_bit_eq_mod)
next
  case (Suc k)
  have "and n (2 ^ Suc k * (2 ^ j - 1)) = 2 * and (n div 2) (2 ^ k * (2 ^ j - 1))"
    by (subst and_rec) simp
  also have "\<dots> = 2 ^ Suc k * (n div 2 ^ Suc k mod 2 ^ j)"
    using Suc.IH [of "n div 2"] by (simp add: div_mult2_eq)
  finally show ?case .
qed

lemma octet_fe: "(and x 0xfe = 0xfc) = (unat (x :: u8) div 2 = 126)"
  using octet_less [of x] and_high [of "unat x" 1 7] by (simp add: word_unat_eq_iff unsigned_and_eq)

lemma octet_c0: "(and x 0xc0 = 0x80) = (unat (x :: u8) div 64 = 2)"
  using octet_less [of x] and_high [of "unat x" 6 2] by (simp add: word_unat_eq_iff unsigned_and_eq)

lemma octet_f0: "(and x 0xf0 = 0) = (unat (x :: u8) div 16 = 0)"
  using octet_less [of x] and_high [of "unat x" 4 4] by (simp add: word_unat_eq_iff unsigned_and_eq)

lemma octet_e0: "(and x 0xe0 = 0x20) = (unat (x :: u8) div 32 = 1)"
  using octet_less [of x] and_high [of "unat x" 5 3] by (simp add: word_unat_eq_iff unsigned_and_eq)

lemmas octet_masks = octet_fe octet_c0 octet_f0 octet_e0

lemma div_eq_range:
  fixes n :: nat
  assumes "0 < k"
  shows "n div k = m \<longleftrightarrow> m * k \<le> n \<and> n < m * k + k"
proof
  assume "n div k = m"
  then show "m * k \<le> n \<and> n < m * k + k"
    using assms div_mult_mod_eq [of n k] mod_less_divisor [of k n] by (metis add_less_cancel_left le_add1)
next
  assume "m * k \<le> n \<and> n < m * k + k"
  then show "n div k = m" using div_nat_eqI [of k m n] by (simp add: algebra_simps)
qed

lemma octet_ranges:
  "(16 \<le> (x :: u8) \<and> x \<le> 31) = (unat x div 16 = 1)" "(64 \<le> x \<and> x \<le> 127) = (unat x div 64 = 1)"
  "(224 \<le> x \<and> x \<le> 239) = (unat x div 16 = 14)"
  by (auto simp: word_le_nat_alt div_eq_range)

lemma octet_top: "(240 \<le> x) = (unat (x :: u8) div 16 = 15)"
  using octet_less [of x] by (auto simp: word_le_nat_alt div_eq_range)

lemma half_nine: "n div 2 = 9 \<longleftrightarrow> n = 18 \<or> n = (19 :: nat)"
  by (auto simp: div_eq_range)

lemma length_4: "length xs = 4 \<longleftrightarrow> (\<exists>a b c d. xs = [a, b, c, d])"
  by (auto simp: numeral_eq_Suc length_Suc_conv)

lemma classify_ipv4_blocks:
  assumes "length bs = 4"
  shows "classify_ipv4 bs = block_class v4_blocks Public bs"
proof -
  obtain a b c d where "bs = [a, b, c, d]" using assms by (auto simp: length_4)
  then show ?thesis
    by (simp add: classify_ipv4_def v4_blocks_def octet_ranges octet_top half_nine word_unat_eq_iff) blast
qed

lemma length_16: "length xs = 16 \<longleftrightarrow> (\<exists>a b c d ys. xs = a # b # c # d # ys \<and> length ys = 12)"
  by (auto simp: numeral_eq_Suc length_Suc_conv)

lemma in_block_zero: "in_block (replicate n 0) 0 bs \<longleftrightarrow> length bs = n"
  by (induction n arbitrary: bs) (auto simp: length_Suc_conv elim: in_block.elims)

lemma in_block_exact:
  "8 * length base \<le> len \<Longrightarrow> list_all (\<lambda>n. n < 256) base \<Longrightarrow>
     in_block base len bs \<longleftrightarrow> bs = map of_nat base"
proof (induction base arbitrary: len bs)
  case (Cons b base)
  show ?case
  proof (cases bs)
    case (Cons x xs)
    have "(unat x = b) = (x = of_nat b)"
      using Cons.prems(2) by (auto simp: unat_of_nat)
    with Cons Cons.prems Cons.IH [of "len - 8" xs] show ?thesis by auto
  qed simp
qed (auto elim: in_block.elims)

lemma v6_prefix:
  "in_block (v6_base [p]) n (a # bs) \<longleftrightarrow> (unat a div 2 ^ (8 - min 8 n) = p div 2 ^ (8 - min 8 n) \<and>
     in_block (replicate 15 0) (n - 8) bs)"
  "in_block (v6_base [p, q]) n (a # b # bs) \<longleftrightarrow> (in_block [p, q] n [a, b] \<and>
     in_block (replicate 14 0) (n - 16) bs)"
  "in_block (v6_base [p, q, r]) n (a # b # c # bs) \<longleftrightarrow> (in_block [p, q, r] n [a, b, c] \<and>
     in_block (replicate 13 0) (n - 24) bs)"
  "in_block (v6_base [p, q, r, s]) n (a # b # c # d # bs) \<longleftrightarrow> (in_block [p, q, r, s] n [a, b, c, d] \<and>
     in_block (replicate 12 0) (n - 32) bs)"
  by (simp_all add: v6_base_def diff_diff_left)

lemma in_block_zeros:
  "length bs = 15 \<Longrightarrow> in_block (replicate 15 0) 0 bs" "length bs = 14 \<Longrightarrow> in_block (replicate 14 0) 0 bs"
  "length bs = 13 \<Longrightarrow> in_block (replicate 13 0) 0 bs" "length bs = 12 \<Longrightarrow> in_block (replicate 12 0) 0 bs"
  by (simp_all add: in_block_zero)

lemma in_block_half: "in_block (replicate 14 0) 4 (x # bs) \<longleftrightarrow> unat x div 16 = 0 \<and> length bs = 13"
proof -
  have "replicate 14 0 = 0 # replicate 13 (0 :: nat)" by (simp add: numeral_eq_Suc)
  then show ?thesis by (simp add: in_block_zero)
qed

lemma half_zero: "n div 2 = 0 \<longleftrightarrow> n = 0 \<or> n = (1 :: nat)"
  by (auto simp: div_eq_range)

lemma in_block_seven: "in_block (replicate 14 0) 7 (x # bs) \<longleftrightarrow> unat x div 2 = 0 \<and> length bs = 13"
proof -
  have "replicate 14 0 = 0 # replicate 13 (0 :: nat)" by (simp add: numeral_eq_Suc)
  then show ?thesis by (simp add: in_block_zero)
qed

lemma classify_ipv6_blocks:
  assumes "length bs = 16"
  shows "classify_ipv6 bs = (if misfiled (V6 bs) then (if bs ! 2 = 1 then Public else Reserved)
    else block_class v6_blocks Reserved bs)"
    "misfiled (V6 bs) \<Longrightarrow> block_class v6_blocks Reserved bs = (if bs ! 2 = 1 then Reserved else Public)"
proof -
  obtain a b c d ys where bs: "bs = a # b # c # d # ys" and ys: "length ys = 12"
    using assms by (auto simp: length_16)
  have loop: "in_block (replicate 15 0 @ [1]) 128 bs \<longleftrightarrow>
      bs = [0, 0, 0, 0, 0, 0, 0, 0, 0, 0, 0, 0, 0, 0, 0, 1]"
    by (subst in_block_exact) (simp_all add: numeral_eq_Suc)
  have unsp: "in_block (v6_base []) 128 bs \<longleftrightarrow> bs = replicate 16 0"
    by (subst in_block_exact) (simp_all add: v6_base_def list_all_iff)
  have fc: "in_block (v6_base [0xfc]) 7 bs \<longleftrightarrow> unat a div 2 = 126"
    and ff: "in_block (v6_base [0xff]) 8 bs \<longleftrightarrow> unat a = 255"
    and two: "in_block (v6_base [0x20]) 3 bs \<longleftrightarrow> unat a div 32 = 1"
    using ys by (simp_all add: bs v6_prefix in_block_zeros)
  have fe: "in_block (v6_base [0xfe, 0x80]) 10 bs \<longleftrightarrow> unat a = 254 \<and> unat b div 64 = 2"
    and doc2: "in_block (v6_base [0x3f, 0xff]) 20 bs \<longleftrightarrow> unat a = 63 \<and> unat b = 255 \<and> unat c div 16 = 0"
    using ys by (auto simp: bs v6_prefix in_block_zeros in_block_half)
  have doc1: "in_block (v6_base [0x20, 0x01, 0x0d, 0xb8]) 32 bs \<longleftrightarrow>
      unat a = 32 \<and> unat b = 1 \<and> unat c = 13 \<and> unat d = 184"
    and res: "in_block (v6_base [0x20, 0x01, n]) 24 bs \<longleftrightarrow> unat a = 32 \<and> unat b = 1 \<and> unat c = n" for n
    using ys by (auto simp: bs v6_prefix in_block_zeros)
  have ietf: "in_block (v6_base [0x20, 0x01]) 23 bs \<longleftrightarrow> unat a = 32 \<and> unat b = 1 \<and> (unat c = 0 \<or> unat c = 1)"
    using ys by (auto simp: bs v6_prefix in_block_seven half_zero)
  have mis: "misfiled (V6 bs) \<longleftrightarrow> unat a = 32 \<and> unat b = 1 \<and> (unat c = 1 \<or> unat c = 2)"
    unfolding misfiled_def ip_address.case res by auto
  have bytes: "bs ! 0 = a" "bs ! 1 = b" "bs ! 2 = c" "bs ! 3 = d" by (simp_all add: bs)
  have first: "bs \<noteq> [0, 0, 0, 0, 0, 0, 0, 0, 0, 0, 0, 0, 0, 0, 0, 1]" "bs \<noteq> replicate 16 0" if "unat a = 32"
    using that by (auto simp: bs numeral_eq_Suc)
  show "classify_ipv6 bs = (if misfiled (V6 bs) then (if bs ! 2 = 1 then Public else Reserved)
      else block_class v6_blocks Reserved bs)"
    unfolding mis classify_ipv6_def v6_blocks_def block_class.simps loop unsp fc ff two fe doc1 doc2 ietf bytes
      octet_masks
    using first by (simp add: word_unat_eq_iff)
  show "misfiled (V6 bs) \<Longrightarrow> block_class v6_blocks Reserved bs = (if bs ! 2 = 1 then Reserved else Public)"
    unfolding mis v6_blocks_def block_class.simps loop unsp fc ff two fe doc1 doc2 ietf bytes
    using first by (auto simp: word_unat_eq_iff)
qed

text \<open>The class of an address is that of the blocks it lies in, IPv4-mapped addresses as IPv4.\<close>

lemma in_block_append:
  "length base = length xs \<Longrightarrow>
     in_block (base @ rest) len (xs @ ys) \<longleftrightarrow> in_block base len xs \<and> in_block rest (len - 8 * length base) ys"
  by (induction base xs arbitrary: len rule: list_induct2) (auto simp: diff_diff_left)

lemma mapped_prefix:
  assumes "length bs = 16"
  shows "in_block (replicate 10 0 @ [0xff, 0xff, 0, 0, 0, 0]) 96 bs \<longleftrightarrow>
    take 12 bs = replicate 10 0 @ [0xff, 0xff]"
proof -
  have base: "replicate 10 0 @ [0xff, 0xff, 0, 0, 0, 0] = (replicate 10 0 @ [0xff, 0xff]) @ replicate 4 (0 :: nat)"
    by (simp add: numeral_eq_Suc)
  have "in_block (replicate 10 0 @ [0xff, 0xff, 0, 0, 0, 0]) 96 (take 12 bs @ drop 12 bs) \<longleftrightarrow>
      in_block (replicate 10 0 @ [0xff, 0xff]) 96 (take 12 bs)"
    unfolding base using assms by (subst in_block_append) (simp_all add: in_block_zero)
  also have "\<dots> \<longleftrightarrow> take 12 bs = replicate 10 0 @ [0xff, 0xff]"
    by (subst in_block_exact) (simp_all add: list_all_iff)
  finally show ?thesis by simp
qed

lemma normalized_mapped:
  assumes "length bs = 16"
  shows "normalized (V6 bs) =
    (if take 12 bs = replicate 10 0 @ [0xff, 0xff] then V4 (drop 12 bs) else V6 bs)"
proof -
  have "take 12 bs = replicate 10 0 @ [0xff, 0xff] \<longleftrightarrow> (\<forall>i<12. bs ! i = (replicate 10 0 @ [0xff, 0xff]) ! i)"
    using assms by (simp add: list_eq_iff_nth_eq)
  also have "\<dots> \<longleftrightarrow> bs ! 0 = 0 \<and> bs ! 1 = 0 \<and> bs ! 2 = 0 \<and> bs ! 3 = 0 \<and> bs ! 4 = 0 \<and> bs ! 5 = 0 \<and>
      bs ! 6 = 0 \<and> bs ! 7 = 0 \<and> bs ! 8 = 0 \<and> bs ! 9 = 0 \<and> bs ! 10 = 0xff \<and> bs ! 11 = 0xff"
    by (simp add: numeral_eq_Suc All_less_Suc nth_append ac_simps)
  finally have prefix: "take 12 bs = replicate 10 0 @ [0xff, 0xff] \<longleftrightarrow> bs ! 0 = 0 \<and> bs ! 1 = 0 \<and>
      bs ! 2 = 0 \<and> bs ! 3 = 0 \<and> bs ! 4 = 0 \<and> bs ! 5 = 0 \<and>
      bs ! 6 = 0 \<and> bs ! 7 = 0 \<and> bs ! 8 = 0 \<and> bs ! 9 = 0 \<and> bs ! 10 = 0xff \<and> bs ! 11 = 0xff" .
  have "drop 12 bs = [bs ! 12, bs ! 13, bs ! 14, bs ! 15]"
    using assms by (simp add: list_eq_iff_nth_eq numeral_eq_Suc All_less_Suc)
  then show ?thesis unfolding prefix by simp
qed

lemma misfiled_not_mapped:
  assumes "misfiled (V6 bs)" and "length bs = 16"
  shows "take 12 bs \<noteq> replicate 10 0 @ [0xff, 0xff]"
proof -
  obtain a ys where bs: "bs = a # ys" using assms(2) by (cases bs) auto
  with assms(1) have "unat a = 32" by (auto simp: misfiled_def v6_base_def)
  then show ?thesis by (auto simp: bs numeral_eq_Suc)
qed

lemma classify_ip_address_class:
  assumes "valid_ip a"
  shows "\<not> misfiled a \<Longrightarrow> classify_ip a = address_class a"
    "misfiled a \<Longrightarrow> {classify_ip a, address_class a} = {Public, Reserved}"
proof -
  show "classify_ip a = address_class a" if "\<not> misfiled a"
  proof (cases a)
    case (V4 bs)
    with assms show ?thesis
      by (simp add: classify_ip_def address_class_def valid_ip_def classify_ipv4_blocks)
  next
    case (V6 bs)
    with assms have "length bs = 16" by (simp add: valid_ip_def)
    with V6 that show ?thesis
      by (simp add: classify_ip_def address_class_def normalized_mapped mapped_prefix
          classify_ipv4_blocks classify_ipv6_blocks del: normalized.simps)
  qed
  show "{classify_ip a, address_class a} = {Public, Reserved}" if "misfiled a"
  proof (cases a)
    case (V4 bs)
    with that show ?thesis by (simp add: misfiled_def)
  next
    case (V6 bs)
    with assms have "length bs = 16" by (simp add: valid_ip_def)
    with V6 that misfiled_not_mapped [of bs] show ?thesis
      by (auto simp: classify_ip_def address_class_def normalized_mapped mapped_prefix
          classify_ipv6_blocks simp del: normalized.simps)
  qed
qed

section \<open>Canonical IPv4 hosts\<close>

text \<open>The decimal spelling of an octet and the dotted form of an address.\<close>

definition octet_text :: "u8 \<Rightarrow> rstr" where
  "octet_text x =
     (if unat x < 10 then [48 + unat x]
      else if unat x < 100 then [48 + unat x div 10, 48 + unat x mod 10]
      else [48 + unat x div 100, 48 + unat x div 10 mod 10, 48 + unat x mod 10])"

definition dotted :: "u8 list \<Rightarrow> rstr" where
  "dotted a = join_on 46 (map octet_text a)"

definition canonical_part :: "rstr \<Rightarrow> u8 \<Rightarrow> bool" where
  "canonical_part p x \<longleftrightarrow> p \<noteq> [] \<and> \<not> (str_len p > 1 \<and> hd p = 48) \<and> parse_unsigned 255 p = Some (unat x)"

lemma digits_value:
  "foldl (\<lambda>n c. 10 * n + (c - 48)) k cs \<ge> k * 10 ^ length (cs :: nat list)"
proof (induction cs arbitrary: k)
  case (Cons c cs)
  have "k * 10 ^ length (c # cs) \<le> (10 * k + (c - 48)) * 10 ^ length cs" by (simp add: algebra_simps)
  also have "\<dots> \<le> foldl (\<lambda>n c. 10 * n + (c - 48)) (10 * k + (c - 48)) cs" by (rule Cons.IH)
  finally show ?case by simp
qed simp

lemma ascii_digits_len: "list_all is_ascii_digit cs \<Longrightarrow> str_len cs = length cs"
  by (induction cs) (auto simp: is_ascii_digit_def utf8_len_def)

lemma digit_arith:
  fixes i j k :: nat
  assumes "j \<le> 9" and "k \<le> 9"
  shows "(10 * i + j) div 10 = i" "(10 * i + j) mod 10 = j"
    "(10 * (10 * i + j) + k) div 100 = i" "(10 * (10 * i + j) + k) div 10 mod 10 = j"
    "(10 * (10 * i + j) + k) mod 10 = k"
proof -
  show two: "(10 * i + j) div 10 = i" "(10 * i + j) mod 10 = j" using assms by simp_all
  have ten: "(10 * (10 * i + j) + k) div 10 = 10 * i + j" using assms by simp
  then show "(10 * (10 * i + j) + k) div 10 mod 10 = j" using two by simp
  have "(10 * (10 * i + j) + k) div (10 * 10) = (10 * i + j) div 10"
    unfolding div_mult2_eq ten by simp
  with two show "(10 * (10 * i + j) + k) div 100 = i" by simp
  have "(10 * m + k) mod 10 = k" for m using assms by simp
  then show "(10 * (10 * i + j) + k) mod 10 = k" .
qed

lemma digit_cases: "is_ascii_digit c \<Longrightarrow> \<exists>i\<le>9. c = 48 + i"
  by (rule exI [of _ "c - 48"]) (auto simp: is_ascii_digit_def)

lemma canonical_part_text:
  assumes "43 \<notin> set p" and "canonical_part p x"
  shows "p = octet_text x"
proof -
  let ?f = "\<lambda>n c. 10 * n + (c - 48)"
  from assms obtain c cs where p: "p = c # cs" "c \<noteq> 43" by (cases p) (auto simp: canonical_part_def)
  with assms have digits: "list_all is_ascii_digit (c # cs)" and val: "foldl ?f 0 (c # cs) = unat x"
    and lead: "cs = [] \<or> c \<noteq> 48"
    using ascii_digits_len [of cs]
    by (auto simp: canonical_part_def parse_unsigned_def Let_def utf8_len_def split: if_splits)
  have small: "length cs \<le> 2"
  proof (rule ccontr)
    assume "\<not> length cs \<le> 2"
    then have len: "length cs \<ge> 3" and "cs \<noteq> []" by auto
    with lead digits have "1 \<le> c - 48" by (auto simp: is_ascii_digit_def)
    then have "1 * 10 ^ 3 \<le> (c - 48) * 10 ^ length cs"
      using len by (intro mult_mono power_increasing) auto
    also have "\<dots> \<le> unat x" using digits_value [of "c - 48" cs] val by simp
    finally show False using octet_less [of x] by simp
  qed
  consider "cs = []" | d where "cs = [d]" | d e where "cs = [d, e]"
    using small by (cases cs; cases "tl cs"; cases "tl (tl cs)") auto
  then show ?thesis
  proof cases
    case 1
    from digits obtain i where "c = 48 + i" "i \<le> 9" using digit_cases [of c] by auto
    with val 1 show ?thesis by (simp add: p octet_text_def)
  next
    case (2 d)
    from digits 2 obtain i j where v: "c = 48 + i" "i \<le> 9" "d = 48 + j" "j \<le> 9"
      using digit_cases [of c] digit_cases [of d] by auto
    with val lead 2 have "unat x = 10 * i + j" "1 \<le> i" by auto
    with v digit_arith(1,2) [of j 0 i] 2 show ?thesis by (simp add: p octet_text_def)
  next
    case (3 d e)
    from digits 3 obtain i j k where v: "c = 48 + i" "i \<le> 9" "d = 48 + j" "j \<le> 9" "e = 48 + k" "k \<le> 9"
      using digit_cases [of c] digit_cases [of d] digit_cases [of e] by auto
    with val lead 3 have "unat x = 10 * (10 * i + j) + k" "1 \<le> i" by auto
    with v digit_arith(3,4,5) [of j k i] 3 show ?thesis by (simp add: p octet_text_def)
  qed
qed

lemma parse_digits:
  assumes "list_all is_ascii_digit (c # cs)" and "foldl (\<lambda>n c. 10 * n + (c - 48)) 0 (c # cs) = n"
    and "n \<le> 255" and "cs = [] \<or> c \<noteq> 48" and "unat x = n"
  shows "canonical_part (c # cs) x"
proof -
  have "c \<noteq> 43" using assms(1) by (auto simp: is_ascii_digit_def)
  moreover have "str_len (c # cs) = length (c # cs)" using assms(1) by (rule ascii_digits_len)
  ultimately show ?thesis using assms by (auto simp: canonical_part_def parse_unsigned_def Let_def)
qed

lemma octet_text_canonical: "canonical_part (octet_text x) x"
proof -
  let ?n = "unat x"
  have n: "?n < 256" by (rule octet_less)
  have d: "is_ascii_digit (48 + m)" if "m \<le> 9" for m using that by (simp add: is_ascii_digit_def)
  have mod: "?n mod 10 \<le> 9" "?n div 10 mod 10 \<le> 9"
    using mod_less_divisor [of 10 ?n] mod_less_divisor [of 10 "?n div 10"] by linarith+
  have val2: "10 * (?n div 10) + ?n mod 10 = ?n" by simp
  have "10 * (?n div 10 div 10) + ?n div 10 mod 10 = ?n div 10" by simp
  then have val3: "10 * (10 * (?n div 100) + ?n div 10 mod 10) + ?n mod 10 = ?n"
    using val2 div_mult2_eq [of ?n 10 10] by simp
  consider "?n < 10" | "10 \<le> ?n" "?n < 100" | "100 \<le> ?n" by linarith
  then show ?thesis
  proof cases
    case 1
    have "canonical_part [48 + ?n] x"
      by (rule parse_digits [where n = ?n]) (use 1 d [of ?n] in simp_all)
    with 1 show ?thesis by (simp add: octet_text_def)
  next
    case 2
    then have hi: "1 \<le> ?n div 10" "?n div 10 \<le> 9" by simp_all
    have "canonical_part [48 + ?n div 10, 48 + ?n mod 10] x"
    proof (rule parse_digits [where n = ?n])
      show "list_all is_ascii_digit [48 + ?n div 10, 48 + ?n mod 10]" using d hi mod by simp
      show "foldl (\<lambda>n c. 10 * n + (c - 48)) 0 [48 + ?n div 10, 48 + ?n mod 10] = ?n" using val2 by simp
    qed (use hi n in simp_all)
    with 2 show ?thesis by (simp add: octet_text_def)
  next
    case 3
    then have hi: "1 \<le> ?n div 100" "?n div 100 \<le> 9" using n by simp_all
    have "canonical_part [48 + ?n div 100, 48 + ?n div 10 mod 10, 48 + ?n mod 10] x"
    proof (rule parse_digits [where n = ?n])
      show "list_all is_ascii_digit [48 + ?n div 100, 48 + ?n div 10 mod 10, 48 + ?n mod 10]"
        using d hi mod by simp
      show "foldl (\<lambda>n c. 10 * n + (c - 48)) 0
          [48 + ?n div 100, 48 + ?n div 10 mod 10, 48 + ?n mod 10] = ?n"
        using val3 by simp
    qed (use hi n in simp_all)
    with 3 show ?thesis by (simp add: octet_text_def)
  qed
qed

lemma octet_text_no_dot: "46 \<notin> set (octet_text x)" "43 \<notin> set (octet_text x)"
  by (auto simp: octet_text_def)

text \<open>The loop reads exactly the parts of a split host.\<close>

lemma canonical_part_parse:
  "canonical_part p x \<longleftrightarrow> p \<noteq> [] \<and> \<not> (str_len p > 1 \<and> hd p = 48) \<and>
     map_option of_nat (parse_unsigned 255 p) = Some x"
proof (cases "parse_unsigned 255 p")
  case None
  then show ?thesis by (simp add: canonical_part_def)
next
  case (Some k)
  then have "k \<le> 255" by (auto simp: parse_unsigned_def Let_def split: if_splits)
  then have "unat (of_nat k :: u8) = k" by (simp add: unat_of_nat)
  then have "k = unat x \<longleftrightarrow> of_nat k = x" by auto
  with Some show ?thesis by (simp add: canonical_part_def)
qed

lemma canonical_octets_Suc:
  "canonical_octets (Suc n) (p # ps) = Some (a, rest) \<longleftrightarrow>
     (\<exists>x b. a = x # b \<and> canonical_part p x \<and> canonical_octets n ps = Some (b, rest))"
proof (cases "parse_unsigned 255 p")
  case None
  then show ?thesis by (simp add: canonical_part_def)
next
  case (Some k)
  then show ?thesis
    by (cases "canonical_octets n ps") (auto simp: canonical_part_parse)
qed

lemma canonical_octets_iff:
  "canonical_octets n parts = Some (a, rest) \<longleftrightarrow>
     length a = n \<and> (\<exists>ps. parts = ps @ rest \<and> list_all2 canonical_part ps a)"
proof (induction n arbitrary: parts a)
  case 0
  then show ?case by (cases a) auto
next
  case (Suc n)
  show ?case
  proof (cases parts)
    case Nil
    then show ?thesis by (cases a) auto
  next
    case (Cons p ps)
    show ?thesis
    proof (cases a)
      case Nil
      then show ?thesis unfolding Cons canonical_octets_Suc by simp
    next
      case a: (Cons x b)
      have "(\<exists>qs. p # ps = qs @ rest \<and> list_all2 canonical_part qs (x # b)) \<longleftrightarrow>
          canonical_part p x \<and> (\<exists>qs. ps = qs @ rest \<and> list_all2 canonical_part qs b)"
        by (auto simp: list_all2_Cons2)
      then show ?thesis unfolding Cons canonical_octets_Suc a Suc.IH by auto
    qed
  qed
qed

lemma split_on_subset: "p \<in> set (split_on d s) \<Longrightarrow> set p \<subseteq> set s"
proof (induction s arbitrary: p)
  case (Cons c s)
  then show ?case by (cases "split_on d s") (fastforce split: if_splits)+
qed simp

lemma split_on_join_on:
  "ps \<noteq> [] \<Longrightarrow> \<forall>p\<in>set ps. d \<notin> set p \<Longrightarrow> split_on d (join_on d ps) = ps"
  by (induction d ps rule: join_on.induct) (auto simp: split_on_no_delim split_on_append)

lemma canonical_ipv4_parts:
  "canonical_ipv4 h = Some a \<longleftrightarrow> length a = 4 \<and> list_all2 canonical_part (split_on 46 h) a"
  using canonical_octets_iff [of 4 "split_on 46 h" a "[]"]
  by (auto simp: canonical_ipv4_def split: option.splits list.splits)

lemma canonical_ipv4_dotted: "length a = 4 \<Longrightarrow> canonical_ipv4 (dotted a) = Some a"
proof -
  assume len: "length a = 4"
  then have "split_on 46 (dotted a) = map octet_text a"
    unfolding dotted_def by (intro split_on_join_on) (auto simp: octet_text_no_dot)
  then show ?thesis
    by (simp add: canonical_ipv4_parts len list_all2_conv_all_nth octet_text_canonical)
qed

lemma canonical_ipv4_unsigned:
  assumes "43 \<notin> set h" and "canonical_ipv4 h = Some a"
  shows "h = dotted a"
proof -
  from assms(2) have parts: "list_all2 canonical_part (split_on 46 h) a"
    by (simp add: canonical_ipv4_parts)
  have "43 \<notin> set p" if "p \<in> set (split_on 46 h)" for p
    using that assms(1) split_on_subset by blast
  with parts have "list_all2 (\<lambda>p x. p = octet_text x) (split_on 46 h) a"
    by (auto simp: list_all2_conv_all_nth intro: canonical_part_text)
  then have "split_on 46 h = map octet_text a" by (auto simp: list_all2_conv_all_nth intro: nth_equalityI)
  then show ?thesis using join_on_split_on [of 46 h] by (simp add: dotted_def)
qed

section \<open>Properties\<close>

text \<open>C31: on addresses of the right length, the byte comparisons of \<open>classify_ip\<close> (masks included) find the
  class of the first block with the address in the table of address blocks, an IPv4-mapped IPv6 address
  taking the class of the IPv4 address it carries. The IPv6 blocks 2001:100::/24 and 2001:200::/24, on
  which the code departs from the documented classes, are left out.
\<close>

theorem classify_exact:
  assumes "valid_ip a" and "\<not> misfiled a"
  shows "classify_ip a = address_class a"
  using assms by (rule classify_ip_address_class(1))

theorem classify_exact_witness:
  "classify_ip (V6 ([0, 0, 0, 0, 0, 0, 0, 0, 0, 0, 255, 255, 172, 31, 0, 9])) = Private"
proof -
  let ?a = "V6 [0, 0, 0, 0, 0, 0, 0, 0, 0, 0, 255, 255, 172, 31, 0, 9]"
  have "classify_ip ?a = address_class ?a" by (rule classify_exact) (simp_all add: valid_ip_def misfiled_def v6_base_def)
  also have "\<dots> = Private"
    using replicate_eqI [of "[0, 0, 0, 0, 0, 0, 0, 0, 0, 0 :: u8]" 10 0] mapped_prefix [of "[0, 0, 0, 0, 0, 0, 0, 0, 0, 0, 255, 255, 172, 31, 0, 9]"]
    by (simp add: address_class_def v4_blocks_def)
  finally show ?thesis .
qed

text \<open>Membership of an address in one of the given IPv4 or IPv6 blocks.\<close>

definition within :: "(nat list \<times> nat) list \<Rightarrow> (nat list \<times> nat) list \<Rightarrow> ip_address \<Rightarrow> bool" where
  "within v4 v6 a = (case a of
     V4 bs \<Rightarrow> list_ex (\<lambda>(base, len). in_block base len bs) v4
   | V6 bs \<Rightarrow>
       if in_block (replicate 10 0 @ [0xff, 0xff, 0, 0, 0, 0]) 96 bs
       then list_ex (\<lambda>(base, len). in_block base len (drop 12 bs)) v4
       else list_ex (\<lambda>(base, len). in_block base len bs) v6)"

text \<open>The blocks of the three local classes have no address in common with any block before them.\<close>

abbreviation loopback_peer :: "ip_address \<Rightarrow> bool" where
  "loopback_peer \<equiv> within [([127, 0, 0, 0], 8)] [(replicate 15 0 @ [1], 128)]"

abbreviation private_peer :: "ip_address \<Rightarrow> bool" where
  "private_peer \<equiv> within [([10, 0, 0, 0], 8), ([172, 16, 0, 0], 12), ([192, 168, 0, 0], 16)]
     [(0xfc # replicate 15 0, 7)]"

abbreviation link_local_peer :: "ip_address \<Rightarrow> bool" where
  "link_local_peer \<equiv> within [([169, 254, 0, 0], 16)] [([0xfe, 0x80] @ replicate 14 0, 10)]"

lemma v4_local:
  assumes "length bs = 4"
  shows "block_class v4_blocks Public bs = Loopback \<longleftrightarrow> loopback_peer (V4 bs)"
    "block_class v4_blocks Public bs = Private \<longleftrightarrow> private_peer (V4 bs)"
    "block_class v4_blocks Public bs = LinkLocal \<longleftrightarrow> link_local_peer (V4 bs)"
proof -
  obtain a b c d where "bs = [a, b, c, d]" using assms by (auto simp: length_4)
  then show "block_class v4_blocks Public bs = Loopback \<longleftrightarrow> loopback_peer (V4 bs)"
    "block_class v4_blocks Public bs = Private \<longleftrightarrow> private_peer (V4 bs)"
    "block_class v4_blocks Public bs = LinkLocal \<longleftrightarrow> link_local_peer (V4 bs)"
    by (auto simp: v4_blocks_def within_def)
qed

lemma v6_local:
  assumes "length bs = 16"
  shows "block_class v6_blocks Reserved bs = Loopback \<longleftrightarrow> in_block (replicate 15 0 @ [1]) 128 bs"
    "block_class v6_blocks Reserved bs = Private \<longleftrightarrow> in_block (0xfc # replicate 15 0) 7 bs"
    "block_class v6_blocks Reserved bs = LinkLocal \<longleftrightarrow> in_block ([0xfe, 0x80] @ replicate 14 0) 10 bs"
proof -
  obtain a b c d ys where bs: "bs = a # b # c # d # ys" and ys: "length ys = 12"
    using assms by (auto simp: length_16)
  have loop: "\<not> in_block (replicate 15 0 @ [1]) 128 bs" if "unat a \<noteq> 0"
    using that by (simp add: bs numeral_eq_Suc)
  have unsp: "\<not> in_block (v6_base []) 128 bs" if "unat a \<noteq> 0"
    using that by (simp add: bs v6_base_def numeral_eq_Suc)
  have fc: "in_block (v6_base [0xfc]) 7 bs \<longleftrightarrow> unat a div 2 = 126"
    using ys by (simp_all add: bs v6_prefix in_block_zeros)
  have fe: "in_block (v6_base [0xfe, 0x80]) 10 bs \<Longrightarrow> unat a = 254"
    by (simp add: bs v6_prefix)
  show "block_class v6_blocks Reserved bs = Loopback \<longleftrightarrow> in_block (replicate 15 0 @ [1]) 128 bs"
    by (simp add: v6_blocks_def)
  show "block_class v6_blocks Reserved bs = Private \<longleftrightarrow> in_block (0xfc # replicate 15 0) 7 bs"
    using loop unsp fc by (auto simp: v6_blocks_def v6_base_def)
  show "block_class v6_blocks Reserved bs = LinkLocal \<longleftrightarrow> in_block ([0xfe, 0x80] @ replicate 14 0) 10 bs"
    using loop unsp fc fe by (auto simp: v6_blocks_def v6_base_def)
qed

lemma address_class_local:
  assumes "valid_ip a"
  shows "address_class a = Loopback \<longleftrightarrow> loopback_peer a" "address_class a = Private \<longleftrightarrow> private_peer a"
    "address_class a = LinkLocal \<longleftrightarrow> link_local_peer a"
proof -
  have "(address_class a = Loopback \<longleftrightarrow> loopback_peer a) \<and> (address_class a = Private \<longleftrightarrow> private_peer a) \<and>
    (address_class a = LinkLocal \<longleftrightarrow> link_local_peer a)"
  proof (cases a)
    case (V4 bs)
    with assms v4_local [of bs] show ?thesis by (simp add: address_class_def valid_ip_def)
  next
    case (V6 bs)
    with assms v4_local [of "drop 12 bs"] v6_local [of bs] show ?thesis
      by (simp add: address_class_def valid_ip_def within_def)
  qed
  then show "address_class a = Loopback \<longleftrightarrow> loopback_peer a" "address_class a = Private \<longleftrightarrow> private_peer a"
    "address_class a = LinkLocal \<longleftrightarrow> link_local_peer a" by simp_all
qed

lemma pa_ip_local:
  assumes "valid_ip (pa_address q)"
  shows "classify_ip (pa_ip q) = Loopback \<longleftrightarrow> loopback_peer (pa_address q)"
    "classify_ip (pa_ip q) = Private \<longleftrightarrow> private_peer (pa_address q)"
    "classify_ip (pa_ip q) = LinkLocal \<longleftrightarrow> link_local_peer (pa_address q)"
proof -
  have same: "classify_ip (pa_ip q) = classify_ip (pa_address q)"
    by (cases "pa_address q") (simp_all add: classify_ip_def pa_ip_def)
  have "classify_ip (pa_ip q) = address_class (pa_address q) \<or>
      classify_ip (pa_ip q) \<in> {Public, Reserved} \<and> address_class (pa_address q) \<in> {Public, Reserved}"
    unfolding same using classify_ip_address_class [OF assms] by blast
  then show "classify_ip (pa_ip q) = Loopback \<longleftrightarrow> loopback_peer (pa_address q)"
    "classify_ip (pa_ip q) = Private \<longleftrightarrow> private_peer (pa_address q)"
    "classify_ip (pa_ip q) = LinkLocal \<longleftrightarrow> link_local_peer (pa_address q)"
    unfolding address_class_local [OF assms, symmetric] by auto
qed

lemma verify_cleartext:
  assumes "valid_ip (pa_address q)"
  shows "verify_connection p e (EvCleartext q) = Ok (EvCleartext q) \<longleftrightarrow>
    \<not> requires_tls (ne_scheme e) \<and> pa_port q = ne_port e \<and>
    (loopback_peer (pa_address q) \<and>
       (loopback_intent (ne_host e) \<or> ep_hostname_loopback p \<and> \<not> looks_like_ip_literal (ne_host e))
     \<or> private_peer (pa_address q) \<and> ep_private p
     \<or> link_local_peer (pa_address q) \<and> ep_link_local p \<and> pa_interface_scope q \<noteq> None)"
  unfolding pa_ip_local [OF assms, symmetric] verify_connection_def
  by (auto split: ip_address_class.splits)

lemma verify_same: "verify_connection p e ev = Ok r \<Longrightarrow> r = ev"
  by (auto simp: verify_connection_def split: connection_evidence.splits if_splits ip_address_class.splits)

text \<open>
  The comments of \<open>policy.rs\<close> ask for an explicit loopback intent, and so does the code: a loopback peer of
  an endpoint without it is refused. The overview in \<open>docs/transport.md\<close> allows every loopback peer.
\<close>

lemma loopback_intent_required:
  assumes "valid_ip (pa_address q)" and "loopback_peer (pa_address q)" and "\<not> loopback_intent (ne_host e)"
    and "\<not> ep_hostname_loopback p" and "\<not> requires_tls (ne_scheme e)" and "pa_port q = ne_port e"
  shows "verify_connection p e (EvCleartext q) = Err LoopbackIntentRequired"
proof -
  have "classify_ip (pa_ip q) = Loopback" using assms(2) by (simp only: pa_ip_local(1) [OF assms(1)])
  with assms(3-6) show ?thesis by (simp add: verify_connection_def)
qed

text \<open>C30: which connections the endpoint policy accepts. Without evidence none. TLS evidence exactly on a
  TLS scheme and for the endpoint's own server name. Cleartext evidence only on a cleartext scheme and for
  the endpoint's port; of the peers outside 127.0.0.0/8 and ::1 exactly those in 10/8, 172.16/12,
  192.168/16 or fc00::/7 when the route opted in, and those in 169.254/16 or fe80::/10 when the route
  opted in and the peer carries its interface scope; a loopback peer whenever the host is written as
  loopback. No other address is ever reached in cleartext.
\<close>

theorem cleartext_peers_local:
  assumes "valid_ip (pa_address q)"
  shows "\<not> is_ok (verify_connection p e EvMissing) \<and>
    (verify_connection p e (EvTls name) = Ok r \<longleftrightarrow>
       requires_tls (ne_scheme e) \<and> server_names_match (ne_host e) name \<and> r = EvTls name) \<and>
    (\<not> loopback_peer (pa_address q) \<longrightarrow>
       (verify_connection p e (EvCleartext q) = Ok r \<longleftrightarrow>
          \<not> requires_tls (ne_scheme e) \<and> pa_port q = ne_port e \<and> r = EvCleartext q \<and>
          (private_peer (pa_address q) \<and> ep_private p \<or>
           link_local_peer (pa_address q) \<and> ep_link_local p \<and> pa_interface_scope q \<noteq> None))) \<and>
    (loopback_peer (pa_address q) \<longrightarrow>
       (verify_connection p e (EvCleartext q) = Ok r \<longrightarrow>
          \<not> requires_tls (ne_scheme e) \<and> pa_port q = ne_port e \<and> r = EvCleartext q) \<and>
       (\<not> requires_tls (ne_scheme e) \<and> pa_port q = ne_port e \<and> loopback_intent (ne_host e) \<longrightarrow>
          verify_connection p e (EvCleartext q) = Ok (EvCleartext q)))"
proof -
  have "\<not> is_ok (verify_connection p e EvMissing)" by (simp add: verify_connection_def)
  moreover have "verify_connection p e (EvTls name) = Ok r \<longleftrightarrow>
      requires_tls (ne_scheme e) \<and> server_names_match (ne_host e) name \<and> r = EvTls name"
    by (auto simp: verify_connection_def)
  ultimately show ?thesis
    using verify_cleartext [OF assms, of p e] verify_same [of p e "EvCleartext q" r] by blast
qed

definition lan_endpoint :: network_endpoint where
  "lan_endpoint =
     \<lparr>ne_uri = \<lparr>uri_text = lit ''http://nas.local:8080/'', uri_scheme = Some (lit ''http''),
        uri_authority = Some (lit ''nas.local:8080''), uri_host = Some (lit ''nas.local''),
        uri_port = Some 8080\<rparr>, ne_scheme = SchemeHttp\<rparr>"

theorem cleartext_peers_local_witness:
  "verify_connection (EndpointPolicy_default\<lparr>ep_private := True\<rparr>) lan_endpoint
     (EvCleartext (PeerAddress_new (V4 [192, 168, 1, 20]) 8080)) =
       Ok (EvCleartext (PeerAddress_new (V4 [192, 168, 1, 20]) 8080)) \<and>
   (\<forall>r. verify_connection (EndpointPolicy_default\<lparr>ep_private := True\<rparr>) lan_endpoint
     (EvCleartext (PeerAddress_new (V4 [198, 41, 0, 4]) 8080)) \<noteq> Ok r)"
proof -
  let ?q = "PeerAddress_new (V4 [192, 168, 1, 20]) 8080" and ?w = "PeerAddress_new (V4 [198, 41, 0, 4]) 8080"
  let ?p = "EndpointPolicy_default\<lparr>ep_private := True\<rparr>"
  have v: "valid_ip (pa_address ?q)" "valid_ip (pa_address ?w)" by (simp_all add: valid_ip_def PeerAddress_new_def)
  have "verify_connection ?p lan_endpoint (EvCleartext ?q) = Ok (EvCleartext ?q)"
    using cleartext_peers_local [OF v(1), of ?p lan_endpoint _ "EvCleartext ?q"]
    by (simp add: PeerAddress_new_def within_def lan_endpoint_def ne_port_def)
  moreover have "verify_connection ?p lan_endpoint (EvCleartext ?w) \<noteq> Ok r" for r
    using cleartext_peers_local [OF v(2), of ?p lan_endpoint _ r]
    by (simp add: PeerAddress_new_def within_def)
  ultimately show ?thesis by simp
qed

text \<open>C32: \<open>canonical_ipv4\<close> is the inverse of dotted decimal printing: it accepts the printed form of
  every address and returns that address, and apart from spellings with a plus sign it accepts
  nothing else, so a host has one spelling per address (no octal, no short and no padded forms).
\<close>

theorem canonical_ipv4_roundtrip:
  assumes "length a = 4" and "43 \<notin> set h"
  shows "canonical_ipv4 (dotted a) = Some a \<and> (canonical_ipv4 h = Some a \<longleftrightarrow> h = dotted a)"
  using assms canonical_ipv4_dotted canonical_ipv4_unsigned by blast

theorem canonical_ipv4_roundtrip_witness:
  "canonical_ipv4 (dotted [192, 168, 0, 10]) = Some [192, 168, 0, 10] \<and>
   canonical_ipv4 (lit ''192.168.0.010'') \<noteq> Some [192, 168, 0, 10]"
proof -
  let ?h = "lit ''192.168.0.010''" and ?a = "[192, 168, 0, 10] :: u8 list"
  have "?h \<noteq> dotted ?a" by (simp add: dotted_def octet_text_def lit_def)
  then show ?thesis
    using canonical_ipv4_roundtrip [of ?a ?h] by (simp add: lit_def)
qed

end
