(* ===== verification/Secrets_Model.thy ===== *)
theory Secrets_Model
  imports Rust_Text
begin

unbundle bit_operations_syntax

text \<open>
  The secrets contract (\<open>bondry-secrets/src\<close>): bounded references and values, the canonical bytes a
  Bondry webhook signs, hexadecimal signatures, and signing and verifying during a rotation overlap.
  HMAC-SHA-256 is the parameter \<open>hmac\<close>, from a key and the whole message (its \<open>update\<close> calls append).
  Comparing in constant time is comparing.
\<close>

section \<open>References and values\<close>

definition MAX_SECRET_BYTES :: nat where
  "MAX_SECRET_BYTES = 1024"
definition MAX_SECRET_REF_BYTES :: nat where
  "MAX_SECRET_REF_BYTES = 1024"
definition MAX_CREDENTIAL_ID_BYTES :: nat where
  "MAX_CREDENTIAL_ID_BYTES = 255"
definition MAX_CREDENTIAL_BYTES :: nat where
  "MAX_CREDENTIAL_BYTES = 64 * 1024"

type_synonym secret_ref = rstr
type_synonym secret_value = bytes
type_synonym credential_id = rstr

datatype secret_ref_error = SecretRefEmpty | SecretRefTooLong
datatype secret_value_error = SecretEmpty | SecretTooLong
datatype credential_id_error = CredentialIdEmpty | CredentialIdTooLong | CredentialIdInvalidCharacter
datatype credential_value_error = CredentialEmpty | CredentialTooLong

definition SecretRef_new :: "rstr \<Rightarrow> secret_ref_error + secret_ref" where
  "SecretRef_new v =
     (if v = [] then Err SecretRefEmpty
      else if str_len v > MAX_SECRET_REF_BYTES then Err SecretRefTooLong
      else Ok v)"

definition SecretValue_new :: "bytes \<Rightarrow> secret_value_error + secret_value" where
  "SecretValue_new bs =
     (if bs = [] then Err SecretEmpty
      else if length bs > MAX_SECRET_BYTES then Err SecretTooLong
      else Ok bs)"

definition CredentialId_new :: "rstr \<Rightarrow> credential_id_error + credential_id" where
  "CredentialId_new v =
     (if v = [] then Err CredentialIdEmpty
      else if str_len v > MAX_CREDENTIAL_ID_BYTES then Err CredentialIdTooLong
      else if v = lit ''.'' \<or> v = lit ''..''
         \<or> \<not> list_all (\<lambda>c. is_ascii_alphanumeric c \<or> c = 46 \<or> c = 95 \<or> c = 45) v
      then Err CredentialIdInvalidCharacter
      else Ok v)"

definition CredentialValue_new :: "bytes \<Rightarrow> credential_value_error + bytes" where
  "CredentialValue_new bs =
     (if bs = [] then Err CredentialEmpty
      else if length bs > MAX_CREDENTIAL_BYTES then Err CredentialTooLong
      else Ok bs)"

record resolved_secret =
  rs_current :: secret_value
  rs_previous :: "secret_value option"

datatype secret_provider_error = SecretNotFound | SecretUnavailable | SecretInvalidMaterial

text \<open>The trait \<open>SecretProvider\<close>.\<close>

type_synonym secret_provider = "secret_ref \<Rightarrow> secret_provider_error + resolved_secret"

section \<open>Canonical bytes\<close>

definition WEBHOOK_CANONICAL_PREFIX :: bytes where
  "WEBHOOK_CANONICAL_PREFIX = ascii_bytes (lit ''bondry-webhook-v1'' @ [10])"

record webhook_signing_input =
  wsi_timestamp :: int
  wsi_delivery_id :: bytes
  wsi_body :: bytes

definition canonical_webhook_bytes :: "webhook_signing_input \<Rightarrow> bytes" where
  "canonical_webhook_bytes i =
     WEBHOOK_CANONICAL_PREFIX
     @ ascii_bytes (dec_int (wsi_timestamp i)) @ [10]
     @ ascii_bytes (dec_nat (length (wsi_delivery_id i))) @ [10]
     @ wsi_delivery_id i @ [10]
     @ ascii_bytes (dec_nat (length (wsi_body i))) @ [10]
     @ wsi_body i"

section \<open>Signatures\<close>

definition HMAC_SHA256_BYTES :: nat where
  "HMAC_SHA256_BYTES = 32"
definition HMAC_SHA256_HEX_BYTES :: nat where
  "HMAC_SHA256_HEX_BYTES = HMAC_SHA256_BYTES * 2"

type_synonym hmac_signature = bytes

datatype hmac_signature_error = InvalidEncoding

definition decode_nibble :: "u8 \<Rightarrow> u8 option" where
  "decode_nibble v =
     (if 48 \<le> v \<and> v \<le> 57 then Some (v - 48)
      else if 97 \<le> v \<and> v \<le> 102 then Some (v - 97 + 10)
      else if 65 \<le> v \<and> v \<le> 70 then Some (v - 65 + 10)
      else None)"

text \<open>The loop over \<open>chunks_exact(2)\<close>.\<close>

fun decode_pairs :: "bytes \<Rightarrow> hmac_signature_error + bytes" where
  "decode_pairs (x # y # rest) =
     (case (decode_nibble x, decode_nibble y) of
        (Some high, Some low) \<Rightarrow>
          bindR (decode_pairs rest) (\<lambda>bs. Ok ((push_bit 4 high OR low) # bs))
      | _ \<Rightarrow> Err InvalidEncoding)"
| "decode_pairs _ = Ok []"

definition from_hex :: "rstr \<Rightarrow> hmac_signature_error + hmac_signature" where
  "from_hex v =
     (if str_len v \<noteq> HMAC_SHA256_HEX_BYTES then Err InvalidEncoding
      else decode_pairs (utf8_bytes v))"

definition HEX :: rstr where
  "HEX = lit ''0123456789abcdef''"

definition to_hex :: "hmac_signature \<Rightarrow> rstr" where
  "to_hex s = concat (map (\<lambda>b. [HEX ! unat (drop_bit 4 b), HEX ! unat (b AND 0x0f)]) s)"

definition constant_time_eq :: "bytes \<Rightarrow> bytes \<Rightarrow> bool" where
  "constant_time_eq left right \<longleftrightarrow> length left = length right \<and> left = right"

definition sign_components :: "(bytes \<Rightarrow> bytes \<Rightarrow> bytes) \<Rightarrow> secret_value \<Rightarrow> bytes list \<Rightarrow> hmac_signature" where
  "sign_components hmac secret components = hmac secret (concat components)"

definition sign_input :: "(bytes \<Rightarrow> bytes \<Rightarrow> bytes) \<Rightarrow> secret_value \<Rightarrow> webhook_signing_input \<Rightarrow> hmac_signature" where
  "sign_input hmac secret i =
     sign_components hmac secret
       [ascii_bytes (lit ''bondry-webhook-v1'' @ [10]), ascii_bytes (dec_int (wsi_timestamp i)), [10],
        ascii_bytes (dec_nat (length (wsi_delivery_id i))), [10], wsi_delivery_id i, [10],
        ascii_bytes (dec_nat (length (wsi_body i))), [10], wsi_body i]"

definition sign_webhook :: "(bytes \<Rightarrow> bytes \<Rightarrow> bytes) \<Rightarrow> secret_value \<Rightarrow> webhook_signing_input \<Rightarrow> hmac_signature" where
  "sign_webhook hmac secret i = sign_input hmac secret i"

definition verify_webhook ::
    "(bytes \<Rightarrow> bytes \<Rightarrow> bytes) \<Rightarrow> resolved_secret \<Rightarrow> webhook_signing_input \<Rightarrow> hmac_signature \<Rightarrow> bool" where
  "verify_webhook hmac secrets i candidate \<longleftrightarrow>
     (let current = sign_input hmac (rs_current secrets) i;
          matched = (current = candidate)
      in case rs_previous secrets of
           Some previous \<Rightarrow> matched \<or> sign_input hmac previous i = candidate
         | None \<Rightarrow> matched \<or> False)"

definition verify_hmac_sha256 ::
    "(bytes \<Rightarrow> bytes \<Rightarrow> bytes) \<Rightarrow> resolved_secret \<Rightarrow> bytes list \<Rightarrow> hmac_signature list \<Rightarrow> bool" where
  "verify_hmac_sha256 hmac secrets components candidates \<longleftrightarrow>
     (let current = sign_components hmac (rs_current secrets) components;
          matched = list_ex (\<lambda>c. current = c) candidates
      in case rs_previous secrets of
           Some previous \<Rightarrow>
             matched \<or> list_ex (\<lambda>c. sign_components hmac previous components = c) candidates
         | None \<Rightarrow> matched)"

section \<open>The canonical form is unambiguous\<close>

lemma sign_canonical: "sign_input hmac secret i = hmac secret (canonical_webhook_bytes i)"
  by (simp add: sign_input_def sign_components_def canonical_webhook_bytes_def WEBHOOK_CANONICAL_PREFIX_def)

lemma digits_no_newline: "10 \<notin> set (ascii_bytes (dec_nat n))" "10 \<notin> set (ascii_bytes (dec_int i))"
proof -
  have key: "of_nat c \<noteq> (10 :: u8)" if "45 \<le> c" "c \<le> 57" for c
  proof
    assume "of_nat c = (10 :: u8)"
    then have "unat (of_nat c :: u8) = 10" by simp
    with that show False by (simp add: unat_of_nat)
  qed
  show "10 \<notin> set (ascii_bytes (dec_nat n))"
    using key by (auto simp: ascii_bytes_def dest!: dec_nat_chars)
  show "10 \<notin> set (ascii_bytes (dec_int i))"
    using key by (auto simp: ascii_bytes_def dest!: dec_int_chars)
qed

lemma ascii_dec_eq [simp]:
  "ascii_bytes (dec_nat m) = ascii_bytes (dec_nat n) \<longleftrightarrow> m = n"
  "ascii_bytes (dec_int i) = ascii_bytes (dec_int j) \<longleftrightarrow> i = j"
proof -
  have "\<forall>c\<in>set (dec_nat n). c < 128" "\<forall>c\<in>set (dec_int i). c < 128" for n i
    using dec_nat_chars dec_int_chars by fastforce+
  then show "ascii_bytes (dec_nat m) = ascii_bytes (dec_nat n) \<longleftrightarrow> m = n"
    "ascii_bytes (dec_int i) = ascii_bytes (dec_int j) \<longleftrightarrow> i = j"
    by (simp_all add: ascii_bytes_eq_iff)
qed

lemma cut_at_newline:
  "x \<notin> set xs \<Longrightarrow> x \<notin> set ys \<Longrightarrow> xs @ x # us = ys @ x # vs \<longleftrightarrow> xs = ys \<and> us = vs"
proof (induction xs arbitrary: ys)
  case Nil
  then show ?case by (cases ys) auto
next
  case (Cons a xs)
  then show ?case by (cases ys) auto
qed

lemma canonical_injective: "canonical_webhook_bytes a = canonical_webhook_bytes b \<longleftrightarrow> a = b"
proof
  assume "canonical_webhook_bytes a = canonical_webhook_bytes b"
  then have "wsi_timestamp a = wsi_timestamp b \<and> length (wsi_delivery_id a) = length (wsi_delivery_id b) \<and>
      wsi_delivery_id a @ 10 # ascii_bytes (dec_nat (length (wsi_body a))) @ 10 # wsi_body a =
      wsi_delivery_id b @ 10 # ascii_bytes (dec_nat (length (wsi_body b))) @ 10 # wsi_body b"
    by (simp add: canonical_webhook_bytes_def cut_at_newline digits_no_newline)
  then show "a = b" by (auto simp: cut_at_newline digits_no_newline)
qed simp

section \<open>Hexadecimal\<close>

lemma nibbles_join: "push_bit 4 (drop_bit 4 b) OR (b AND 0x0f) = (b :: u8)"
proof -
  have "b AND 0x0f = take_bit 4 b" by (simp add: take_bit_eq_mask mask_eq_exp_minus_1)
  then show ?thesis by (simp add: bit_eq_iff bit_simps) auto
qed

lemma nibbles_split:
  assumes "unat h < 16" and "unat l < 16"
  shows "drop_bit 4 (push_bit 4 h OR l) = (h :: u8)" "(push_bit 4 h OR l) AND 0x0f = (l :: u8)"
proof -
  have small: "take_bit 4 x = x" if "unat x < 16" for x :: u8
    using that by (simp add: word_unat_eq_iff unsigned_take_bit_eq take_bit_nat_eq_self)
  have bits: "\<not> bit x n" if "unat x < 16" "4 \<le> n" for x :: u8 and n
    using small [OF that(1)] that(2) by (metis bit_take_bit_iff not_le)
  have "drop_bit 4 (push_bit 4 h OR l) = h"
    using bits [OF assms(1)] bits [OF assms(2)]
    by (auto simp: bit_eq_iff bit_simps) (metis add.commute add_leD1 bit_imp_le_length not_less nat_less_le)
  then show "drop_bit 4 (push_bit 4 h OR l) = h" .
  have "(push_bit 4 h OR l) AND 0x0f = take_bit 4 (push_bit 4 h OR l)"
    by (simp add: take_bit_eq_mask mask_eq_exp_minus_1)
  also have "\<dots> = take_bit 4 l" by (auto simp: bit_eq_iff bit_simps)
  finally show "(push_bit 4 h OR l) AND 0x0f = l" using small [OF assms(2)] by simp
qed

lemma hex_digit_decodes: "n < 16 \<Longrightarrow> decode_nibble (of_nat (HEX ! n)) = Some (of_nat n) \<and> HEX ! n < 128"
proof -
  assume "n < 16"
  moreover have "\<forall>n\<in>set [0..<16]. decode_nibble (of_nat (HEX ! n)) = Some (of_nat n) \<and> HEX ! n < 128"
    by code_simp
  ultimately show ?thesis by simp
qed

lemma decode_nibble_Some:
  assumes "decode_nibble x = Some h"
  shows "unat x < 128 \<and> unat h < 16 \<and> HEX ! unat h = to_ascii_lowercase (unat x)"
proof -
  have all: "\<forall>n\<in>set ([48..<58] @ [97..<103] @ [65..<71]). case decode_nibble (of_nat n) of None \<Rightarrow> True
      | Some h \<Rightarrow> n < 128 \<and> unat h < 16 \<and> HEX ! unat h = to_ascii_lowercase n"
    by code_simp
  have mem: "unat x \<in> set ([48..<58] @ [97..<103] @ [65..<71])"
    unfolding set_append set_upt
    using assms by (auto simp: decode_nibble_def word_le_nat_alt split: if_splits)
  from bspec [OF all mem] assms show ?thesis by simp
qed

lemma unat_nibbles: "unat (drop_bit 4 (b :: u8)) < 16" "unat (b AND 0x0f) < 16"
proof -
  have "unat b < 256" using unsigned_less [of b, where ?'a = nat] by simp
  then show "unat (drop_bit 4 b) < 16" by (simp add: drop_bit_eq_div unat_div)
  have "b AND 0x0f = take_bit 4 b" by (simp add: take_bit_eq_mask mask_eq_exp_minus_1)
  then show "unat (b AND 0x0f) < 16" by (simp add: take_bit_eq_mod unat_mod)
qed

lemma to_hex_ascii: "\<forall>c\<in>set (to_hex s). c < 128"
  using hex_digit_decodes unat_nibbles by (auto simp: to_hex_def)

lemma length_to_hex: "length (to_hex s) = 2 * length s"
  by (induction s) (simp_all add: to_hex_def)

lemma decode_to_hex: "decode_pairs (ascii_bytes (to_hex s)) = Ok s"
proof (induction s)
  case (Cons b s)
  have "decode_nibble (of_nat (HEX ! unat (drop_bit 4 b))) = Some (drop_bit 4 b)"
    "decode_nibble (of_nat (HEX ! unat (b AND 0x0f))) = Some (b AND 0x0f)"
    using hex_digit_decodes unat_nibbles [of b] by simp_all
  with Cons show ?case by (simp add: to_hex_def ascii_bytes_def nibbles_join)
qed (simp add: to_hex_def ascii_bytes_def)

lemma from_to_hex: "length s = 32 \<Longrightarrow> from_hex (to_hex s) = Ok s"
proof -
  assume "length s = 32"
  moreover have "str_len (to_hex s) = length (to_hex s)" using to_hex_ascii by (auto intro: str_len_ascii)
  ultimately show ?thesis
    using decode_to_hex [of s] utf8_bytes_ascii [OF to_hex_ascii]
    by (simp add: from_hex_def length_to_hex HMAC_SHA256_HEX_BYTES_def HMAC_SHA256_BYTES_def)
qed

lemma decode_pairs_Ok:
  "decode_pairs bs = Ok s \<Longrightarrow> even (length bs) \<Longrightarrow>
     length bs = 2 * length s \<and> (\<forall>b\<in>set bs. unat b < 128) \<and>
     to_hex s = map (to_ascii_lowercase \<circ> unat) bs"
proof (induction bs arbitrary: s rule: decode_pairs.induct)
  case (1 x y rest)
  then obtain h l t where d: "decode_nibble x = Some h" "decode_nibble y = Some l"
    "decode_pairs rest = Ok t" "s = (push_bit 4 h OR l) # t"
    by (auto simp: bindR_Ok_iff split: option.splits)
  note facts = decode_nibble_Some [OF d(1)] decode_nibble_Some [OF d(2)]
  with 1 d nibbles_split [of h l] show ?case by (simp add: to_hex_def)
qed (simp_all add: to_hex_def)

lemma from_hex_Ok:
  assumes "from_hex v = Ok s"
  shows "length s = 32 \<and> (\<forall>c\<in>set v. c < 128) \<and> to_hex s = map to_ascii_lowercase v"
proof -
  from assms have len: "str_len v = 64" and dec: "decode_pairs (utf8_bytes v) = Ok s"
    by (auto simp: from_hex_def HMAC_SHA256_HEX_BYTES_def HMAC_SHA256_BYTES_def split: if_splits)
  note ok = decode_pairs_Ok [OF dec]
  with len have facts: "length s = 32" "\<forall>b\<in>set (utf8_bytes v). unat b < 128"
    "to_hex s = map (to_ascii_lowercase \<circ> unat) (utf8_bytes v)" by auto
  have ascii: "\<forall>c\<in>set v. c < 128" using facts(2) by (rule utf8_bytes_all_ascii)
  with facts utf8_bytes_ascii [OF ascii] show ?thesis by (auto simp: ascii_bytes_def unat_ascii)
qed

end
