(* ===== verification/Webhook_Verify.thy ===== *)
theory Webhook_Verify
  imports Secrets_Model Delivery_Model
begin

text \<open>
  Webhook verification (\<open>bondry-webhook-verify/src\<close>): requests with their exact header bytes, trusted
  delivery identities, the trait \<open>WebhookVerifier\<close> as a record, and the four verifiers of
  \<open>provider.rs\<close>. HMAC-SHA-256 and SHA-256 are the parameters \<open>hmac\<close> and \<open>sha\<close>; the host's secret
  provider is a function.
\<close>

section \<open>Requests\<close>

type_synonym header_name = rstr

record verification_peer =
  vp_family :: nat
  vp_bytes :: bytes
  vp_port :: nat
  vp_interface_scope :: "nat option"

definition VerificationPeer_v4 :: "bytes \<Rightarrow> nat \<Rightarrow> verification_peer" where
  "VerificationPeer_v4 bs port =
     \<lparr>vp_family = 4, vp_bytes = [bs ! 0, bs ! 1, bs ! 2, bs ! 3] @ replicate 12 0, vp_port = port,
      vp_interface_scope = None\<rparr>"

definition VerificationPeer_v6 :: "bytes \<Rightarrow> nat \<Rightarrow> nat option \<Rightarrow> verification_peer" where
  "VerificationPeer_v6 bs port scope =
     \<lparr>vp_family = 6, vp_bytes = bs, vp_port = port, vp_interface_scope = scope\<rparr>"

record verification_request =
  vr_method :: rstr
  vr_target :: rstr
  vr_headers :: "(header_name \<times> bytes) list"
  vr_body :: bytes
  vr_peer :: verification_peer

definition header_values :: "verification_request \<Rightarrow> header_name \<Rightarrow> bytes list" where
  "header_values r name = map snd (filter (\<lambda>h. fst h = name) (vr_headers r))"

section \<open>Identities\<close>

definition MIN_FRESHNESS_TOLERANCE :: duration where
  "MIN_FRESHNESS_TOLERANCE = from_secs 30"
definition MAX_FRESHNESS_TOLERANCE :: duration where
  "MAX_FRESHNESS_TOLERANCE = from_secs (15 * 60)"

datatype identity_guarantee = GuaranteeNever | GuaranteeOptional | GuaranteeRequired

record verified_freshness =
  vf_signed_at :: int
  vf_tolerance :: duration

datatype verified_freshness_error = VerifiedFreshnessError

definition VerifiedFreshness_new :: "int \<Rightarrow> duration \<Rightarrow> verified_freshness_error + verified_freshness" where
  "VerifiedFreshness_new signed_at tolerance =
     (if \<not> (MIN_FRESHNESS_TOLERANCE \<le> tolerance \<and> tolerance \<le> MAX_FRESHNESS_TOLERANCE)
      then Err VerifiedFreshnessError
      else Ok \<lparr>vf_signed_at = signed_at, vf_tolerance = tolerance\<rparr>)"

record trusted_identity =
  ti_namespace :: verifier_namespace
  ti_hash :: bytes
  ti_freshness :: "verified_freshness option"

datatype trusted_identity_error = TrustedDeliveryIdentityError

definition from_normalized ::
    "(bytes \<Rightarrow> bytes) \<Rightarrow> verifier_namespace \<Rightarrow> bytes \<Rightarrow> verified_freshness option
       \<Rightarrow> trusted_identity_error + trusted_identity" where
  "from_normalized sha namespace normalized_identifier freshness =
     (if normalized_identifier = [] then Err TrustedDeliveryIdentityError
      else Ok \<lparr>ti_namespace = namespace, ti_hash = sha normalized_identifier, ti_freshness = freshness\<rparr>)"

section \<open>The trait\<close>

datatype verification_error = VerificationRejected | VerificationUnavailable

text \<open>A \<open>VerificationResult\<close> is its optional identity.\<close>

record webhook_verifier =
  wv_selected_headers :: "header_name list"
  wv_credential_headers :: "header_name list"
  wv_guarantee :: identity_guarantee
  wv_verify :: "verification_request \<Rightarrow> int \<Rightarrow> verification_error + trusted_identity option"

section \<open>Shared steps\<close>

fun one_header_loop ::
    "header_name \<Rightarrow> bytes option \<Rightarrow> (header_name \<times> bytes) list \<Rightarrow> verification_error + bytes" where
  "one_header_loop name found [] = ok_or VerificationRejected found"
| "one_header_loop name found ((n, v) # hs) =
     (if n = name
      then (if found \<noteq> None then Err VerificationRejected else one_header_loop name (Some v) hs)
      else one_header_loop name found hs)"

definition exactly_one_header :: "verification_request \<Rightarrow> header_name \<Rightarrow> verification_error + bytes" where
  "exactly_one_header r name = one_header_loop name None (vr_headers r)"

definition parse_signature :: "bytes \<Rightarrow> verification_error + hmac_signature" where
  "parse_signature value =
     (case from_utf8 value of
        None \<Rightarrow> Err VerificationRejected
      | Some s \<Rightarrow> map_err (\<lambda>_. VerificationRejected) (from_hex s))"

definition parse_canonical_timestamp :: "bytes \<Rightarrow> verification_error + int" where
  "parse_canonical_timestamp value =
     (case from_utf8 value of
        None \<Rightarrow> Err VerificationRejected
      | Some s \<Rightarrow>
          (case parse_i64 s of
             None \<Rightarrow> Err VerificationRejected
           | Some t \<Rightarrow> if t < 0 \<or> dec_int t \<noteq> s then Err VerificationRejected else Ok t))"

definition as_secs :: "duration \<Rightarrow> nat" where
  "as_secs d = d div 1000000000"

definition verify_freshness :: "int \<Rightarrow> int \<Rightarrow> duration \<Rightarrow> verification_error + unit" where
  "verify_freshness now signed_at tolerance =
     (if now < 0 \<or> nat \<bar>now - signed_at\<bar> > as_secs tolerance then Err VerificationRejected else Ok ())"

definition matches_secret :: "resolved_secret \<Rightarrow> bytes \<Rightarrow> bool" where
  "matches_secret secrets candidate \<longleftrightarrow>
     (let matched = constant_time_eq (rs_current secrets) candidate
      in case rs_previous secrets of
           Some previous \<Rightarrow> matched \<or> constant_time_eq previous candidate
         | None \<Rightarrow> matched)"

definition body_identity ::
    "(bytes \<Rightarrow> bytes) \<Rightarrow> verifier_namespace \<Rightarrow> bytes \<Rightarrow> verified_freshness option
       \<Rightarrow> verification_error + trusted_identity" where
  "body_identity sha namespace body freshness =
     map_err (\<lambda>_. VerificationUnavailable) (from_normalized sha namespace (sha body) freshness)"

text \<open>\<open>SecretSource::resolve\<close> with \<open>map_secret_error\<close>.\<close>

definition source_resolve :: "secret_provider \<Rightarrow> secret_ref \<Rightarrow> verification_error + resolved_secret" where
  "source_resolve provider reference =
     map_err (\<lambda>_. VerificationUnavailable) (provider reference)"

datatype provider_verifier_error =
  InvalidNamespace | InvalidTimestampTolerance verified_freshness_error

definition provider_namespace :: "rstr \<Rightarrow> provider_verifier_error + verifier_namespace" where
  "provider_namespace v = map_err (\<lambda>_. InvalidNamespace) (VerifierNamespace_new v)"

definition validate_tolerance :: "duration \<Rightarrow> provider_verifier_error + unit" where
  "validate_tolerance tolerance =
     (case VerifiedFreshness_new 0 tolerance of
        Inl e \<Rightarrow> Err (InvalidTimestampTolerance e)
      | Inr _ \<Rightarrow> Ok ())"

section \<open>Bearer secrets\<close>

definition AUTHORIZATION :: header_name where
  "AUTHORIZATION = lit ''authorization''"

definition is_ascii_whitespace :: "u8 \<Rightarrow> bool" where
  "is_ascii_whitespace b \<longleftrightarrow> b = 9 \<or> b = 10 \<or> b = 12 \<or> b = 13 \<or> b = 32"

definition bearer_verify ::
    "secret_provider \<Rightarrow> secret_ref \<Rightarrow> verification_request \<Rightarrow> int
       \<Rightarrow> verification_error + trusted_identity option" where
  "bearer_verify provider reference r now =
     bindR (exactly_one_header r AUTHORIZATION) (\<lambda>authorization.
       if 32 \<notin> set authorization then Err VerificationRejected
       else
         let scheme = takeWhile (\<lambda>b. b \<noteq> 32) authorization;
             token = tl (dropWhile (\<lambda>b. b \<noteq> 32) authorization)
         in if \<not> eq_ignore_ascii_case (map unat scheme) (lit ''Bearer'') \<or> token = []
               \<or> list_ex is_ascii_whitespace token
            then Err VerificationRejected
            else bindR (source_resolve provider reference) (\<lambda>secrets.
              if \<not> matches_secret secrets token then Err VerificationRejected else Ok None))"

definition BearerSecretVerifier :: "secret_provider \<Rightarrow> secret_ref \<Rightarrow> webhook_verifier" where
  "BearerSecretVerifier provider reference =
     \<lparr>wv_selected_headers = [AUTHORIZATION], wv_credential_headers = [AUTHORIZATION],
      wv_guarantee = GuaranteeNever, wv_verify = bearer_verify provider reference\<rparr>"

section \<open>Bondry signatures\<close>

definition PROVIDER_SIGNATURE_TIMESTAMP_TOLERANCE :: duration where
  "PROVIDER_SIGNATURE_TIMESTAMP_TOLERANCE = from_secs (5 * 60)"
definition BONDRY_HMAC_NAMESPACE :: rstr where
  "BONDRY_HMAC_NAMESPACE = lit ''bondry:hmac-sha256:v1''"
definition GITHUB_HMAC_NAMESPACE :: rstr where
  "GITHUB_HMAC_NAMESPACE = lit ''github:hmac-sha256:v1''"
definition STRIPE_HMAC_NAMESPACE :: rstr where
  "STRIPE_HMAC_NAMESPACE = lit ''stripe:hmac-sha256:v1''"
definition BONDRY_WEBHOOK_DELIVERY_ID_HEADER :: header_name where
  "BONDRY_WEBHOOK_DELIVERY_ID_HEADER = lit ''x-bondry-delivery-id''"
definition BONDRY_WEBHOOK_TIMESTAMP_HEADER :: header_name where
  "BONDRY_WEBHOOK_TIMESTAMP_HEADER = lit ''x-bondry-timestamp''"
definition BONDRY_WEBHOOK_SIGNATURE_HEADER :: header_name where
  "BONDRY_WEBHOOK_SIGNATURE_HEADER = lit ''x-bondry-signature''"
definition GITHUB_SIGNATURE_HEADER :: header_name where
  "GITHUB_SIGNATURE_HEADER = lit ''x-hub-signature-256''"
definition STRIPE_SIGNATURE_HEADER :: header_name where
  "STRIPE_SIGNATURE_HEADER = lit ''stripe-signature''"

text \<open>The fields of the three HMAC verifiers (GitHub's has no tolerance).\<close>

record hmac_verifier =
  hv_reference :: secret_ref
  hv_namespace :: verifier_namespace
  hv_tolerance :: duration

definition BondryHmac_with_tolerance ::
    "secret_ref \<Rightarrow> duration \<Rightarrow> provider_verifier_error + hmac_verifier" where
  "BondryHmac_with_tolerance reference tolerance =
     bindR (validate_tolerance tolerance) (\<lambda>_.
     bindR (provider_namespace BONDRY_HMAC_NAMESPACE) (\<lambda>namespace.
       Ok \<lparr>hv_reference = reference, hv_namespace = namespace, hv_tolerance = tolerance\<rparr>))"

definition BondryHmac_new :: "secret_ref \<Rightarrow> provider_verifier_error + hmac_verifier" where
  "BondryHmac_new reference = BondryHmac_with_tolerance reference PROVIDER_SIGNATURE_TIMESTAMP_TOLERANCE"

definition bondry_verify ::
    "(bytes \<Rightarrow> bytes \<Rightarrow> bytes) \<Rightarrow> (bytes \<Rightarrow> bytes) \<Rightarrow> secret_provider \<Rightarrow> hmac_verifier
       \<Rightarrow> verification_request \<Rightarrow> int \<Rightarrow> verification_error + trusted_identity option" where
  "bondry_verify hmac sha provider v r now =
     bindR (exactly_one_header r BONDRY_WEBHOOK_DELIVERY_ID_HEADER) (\<lambda>delivery_id.
     if delivery_id = [] \<or> length delivery_id > MAX_DELIVERY_ID_BYTES then Err VerificationRejected
     else
     bindR (exactly_one_header r BONDRY_WEBHOOK_TIMESTAMP_HEADER) (\<lambda>header.
     bindR (parse_canonical_timestamp header) (\<lambda>timestamp.
     bindR (verify_freshness now timestamp (hv_tolerance v)) (\<lambda>_.
     bindR (exactly_one_header r BONDRY_WEBHOOK_SIGNATURE_HEADER) (\<lambda>header.
     bindR (parse_signature header) (\<lambda>signature.
     bindR (source_resolve provider (hv_reference v)) (\<lambda>secrets.
     if \<not> verify_webhook hmac secrets
            \<lparr>wsi_timestamp = timestamp, wsi_delivery_id = delivery_id, wsi_body = vr_body r\<rparr> signature
     then Err VerificationRejected
     else
     bindR (map_err (\<lambda>_. VerificationUnavailable)
              (VerifiedFreshness_new timestamp (hv_tolerance v))) (\<lambda>freshness.
     bindR (map_err (\<lambda>_. VerificationRejected)
              (from_normalized sha (hv_namespace v) delivery_id (Some freshness))) (\<lambda>identity.
       Ok (Some identity))))))))))"

definition BondryHmacSha256Verifier ::
    "(bytes \<Rightarrow> bytes \<Rightarrow> bytes) \<Rightarrow> (bytes \<Rightarrow> bytes) \<Rightarrow> secret_provider \<Rightarrow> hmac_verifier \<Rightarrow> webhook_verifier" where
  "BondryHmacSha256Verifier hmac sha provider v =
     \<lparr>wv_selected_headers = [BONDRY_WEBHOOK_DELIVERY_ID_HEADER, BONDRY_WEBHOOK_TIMESTAMP_HEADER,
        BONDRY_WEBHOOK_SIGNATURE_HEADER],
      wv_credential_headers = [BONDRY_WEBHOOK_SIGNATURE_HEADER],
      wv_guarantee = GuaranteeRequired, wv_verify = bondry_verify hmac sha provider v\<rparr>"

section \<open>GitHub signatures\<close>

definition GitHubHmac_new :: "secret_ref \<Rightarrow> provider_verifier_error + hmac_verifier" where
  "GitHubHmac_new reference =
     bindR (provider_namespace GITHUB_HMAC_NAMESPACE) (\<lambda>namespace.
       Ok \<lparr>hv_reference = reference, hv_namespace = namespace, hv_tolerance = 0\<rparr>)"

definition bytes_strip_prefix :: "bytes \<Rightarrow> bytes \<Rightarrow> bytes option" where
  "bytes_strip_prefix p s = (if take (length p) s = p then Some (drop (length p) s) else None)"

definition github_verify ::
    "(bytes \<Rightarrow> bytes \<Rightarrow> bytes) \<Rightarrow> (bytes \<Rightarrow> bytes) \<Rightarrow> secret_provider \<Rightarrow> hmac_verifier
       \<Rightarrow> verification_request \<Rightarrow> int \<Rightarrow> verification_error + trusted_identity option" where
  "github_verify hmac sha provider v r now =
     bindR (exactly_one_header r GITHUB_SIGNATURE_HEADER) (\<lambda>value.
     bindR (ok_or VerificationRejected (bytes_strip_prefix (ascii_bytes (lit ''sha256='')) value)) (\<lambda>encoded.
     bindR (parse_signature encoded) (\<lambda>candidate.
     bindR (source_resolve provider (hv_reference v)) (\<lambda>secrets.
     if \<not> verify_hmac_sha256 hmac secrets [vr_body r] [candidate] then Err VerificationRejected
     else
     bindR (body_identity sha (hv_namespace v) (vr_body r) None) (\<lambda>identity.
       Ok (Some identity))))))"

definition GitHubHmacSha256Verifier ::
    "(bytes \<Rightarrow> bytes \<Rightarrow> bytes) \<Rightarrow> (bytes \<Rightarrow> bytes) \<Rightarrow> secret_provider \<Rightarrow> hmac_verifier \<Rightarrow> webhook_verifier" where
  "GitHubHmacSha256Verifier hmac sha provider v =
     \<lparr>wv_selected_headers = [GITHUB_SIGNATURE_HEADER], wv_credential_headers = [GITHUB_SIGNATURE_HEADER],
      wv_guarantee = GuaranteeRequired, wv_verify = github_verify hmac sha provider v\<rparr>"

section \<open>Stripe signatures\<close>

definition StripeHmac_with_tolerance ::
    "secret_ref \<Rightarrow> duration \<Rightarrow> provider_verifier_error + hmac_verifier" where
  "StripeHmac_with_tolerance reference tolerance =
     bindR (validate_tolerance tolerance) (\<lambda>_.
     bindR (provider_namespace STRIPE_HMAC_NAMESPACE) (\<lambda>namespace.
       Ok \<lparr>hv_reference = reference, hv_namespace = namespace, hv_tolerance = tolerance\<rparr>))"

definition StripeHmac_new :: "secret_ref \<Rightarrow> provider_verifier_error + hmac_verifier" where
  "StripeHmac_new reference = StripeHmac_with_tolerance reference PROVIDER_SIGNATURE_TIMESTAMP_TOLERANCE"

record stripe_header =
  sh_timestamp :: int
  sh_timestamp_bytes :: bytes
  sh_signatures :: "hmac_signature list"

text \<open>\<open>slice::split\<close> at a byte.\<close>

fun split_byte :: "u8 \<Rightarrow> bytes \<Rightarrow> bytes list" where
  "split_byte d [] = [[]]"
| "split_byte d (c # cs) =
     (if c = d then [] # split_byte d cs
      else (case split_byte d cs of [] \<Rightarrow> [[c]] | p # ps \<Rightarrow> (c # p) # ps))"

fun stripe_loop ::
    "bytes list \<Rightarrow> (int \<times> bytes) option \<Rightarrow> hmac_signature list
       \<Rightarrow> verification_error + (int \<times> bytes) option \<times> hmac_signature list" where
  "stripe_loop [] timestamp signatures = Ok (timestamp, signatures)"
| "stripe_loop (component # cs) timestamp signatures =
     (if 61 \<notin> set component then Err VerificationRejected
      else
        let key = takeWhile (\<lambda>b. b \<noteq> 61) component;
            value = tl (dropWhile (\<lambda>b. b \<noteq> 61) component)
        in if key = ascii_bytes (lit ''t'') then
             (if timestamp \<noteq> None \<or> 61 \<in> set value then Err VerificationRejected
              else bindR (parse_canonical_timestamp value) (\<lambda>t.
                     stripe_loop cs (Some (t, value)) signatures))
           else if key = ascii_bytes (lit ''v1'') then
             (if 61 \<in> set value then Err VerificationRejected
              else bindR (parse_signature value) (\<lambda>s. stripe_loop cs timestamp (signatures @ [s])))
           else stripe_loop cs timestamp signatures)"

definition parse_stripe_header :: "bytes \<Rightarrow> verification_error + stripe_header" where
  "parse_stripe_header value =
     bindR (stripe_loop (split_byte 44 value) None []) (\<lambda>(timestamp, signatures).
     bindR (ok_or VerificationRejected timestamp) (\<lambda>(t, t_bytes).
     if signatures = [] then Err VerificationRejected
     else Ok \<lparr>sh_timestamp = t, sh_timestamp_bytes = t_bytes, sh_signatures = signatures\<rparr>))"

definition stripe_verify ::
    "(bytes \<Rightarrow> bytes \<Rightarrow> bytes) \<Rightarrow> (bytes \<Rightarrow> bytes) \<Rightarrow> secret_provider \<Rightarrow> hmac_verifier
       \<Rightarrow> verification_request \<Rightarrow> int \<Rightarrow> verification_error + trusted_identity option" where
  "stripe_verify hmac sha provider v r now =
     bindR (exactly_one_header r STRIPE_SIGNATURE_HEADER) (\<lambda>header.
     bindR (parse_stripe_header header) (\<lambda>parsed.
     bindR (verify_freshness now (sh_timestamp parsed) (hv_tolerance v)) (\<lambda>_.
     bindR (source_resolve provider (hv_reference v)) (\<lambda>secrets.
     if \<not> verify_hmac_sha256 hmac secrets
            [sh_timestamp_bytes parsed, ascii_bytes (lit ''.''), vr_body r] (sh_signatures parsed)
     then Err VerificationRejected
     else
     bindR (map_err (\<lambda>_. VerificationUnavailable)
              (VerifiedFreshness_new (sh_timestamp parsed) (hv_tolerance v))) (\<lambda>freshness.
     bindR (body_identity sha (hv_namespace v) (vr_body r) (Some freshness)) (\<lambda>identity.
       Ok (Some identity)))))))"

definition StripeHmacSha256Verifier ::
    "(bytes \<Rightarrow> bytes \<Rightarrow> bytes) \<Rightarrow> (bytes \<Rightarrow> bytes) \<Rightarrow> secret_provider \<Rightarrow> hmac_verifier \<Rightarrow> webhook_verifier" where
  "StripeHmacSha256Verifier hmac sha provider v =
     \<lparr>wv_selected_headers = [STRIPE_SIGNATURE_HEADER], wv_credential_headers = [STRIPE_SIGNATURE_HEADER],
      wv_guarantee = GuaranteeRequired, wv_verify = stripe_verify hmac sha provider v\<rparr>"

section \<open>What a verifier promises\<close>

text \<open>
  The route relies on three things: credentials are selected, a required identity is always there, and
  a verifier that never identifies does not.
\<close>

locale webhook_verifier_contract =
  fixes v :: webhook_verifier
  assumes credentials_selected: "set (wv_credential_headers v) \<subseteq> set (wv_selected_headers v)"
    and required_identity: "wv_guarantee v = GuaranteeRequired \<Longrightarrow> wv_verify v r now = Ok i \<Longrightarrow> i \<noteq> None"
    and never_identity: "wv_guarantee v = GuaranteeNever \<Longrightarrow> wv_verify v r now = Ok i \<Longrightarrow> i = None"
begin

text \<open>The two checks a route makes after verification never fail.\<close>

lemma guarantee_kept:
  assumes "wv_verify v r now = Ok i"
  shows "\<not> (wv_guarantee v = GuaranteeRequired \<and> i = None)"
    "\<not> (wv_guarantee v = GuaranteeNever \<and> i \<noteq> None)"
  using assms required_identity never_identity by blast+

end

interpretation bearer: webhook_verifier_contract "BearerSecretVerifier provider reference"
  for provider reference
  by unfold_locales
    (auto simp: BearerSecretVerifier_def bearer_verify_def Let_def bindR_Ok_iff split: if_splits)

interpretation bondry: webhook_verifier_contract "BondryHmacSha256Verifier hmac sha provider v"
  for hmac sha provider v
  by unfold_locales
    (auto simp: BondryHmacSha256Verifier_def bondry_verify_def bindR_Ok_iff split: if_splits)

interpretation github: webhook_verifier_contract "GitHubHmacSha256Verifier hmac sha provider v"
  for hmac sha provider v
  by unfold_locales
    (auto simp: GitHubHmacSha256Verifier_def github_verify_def bindR_Ok_iff split: if_splits)

interpretation stripe: webhook_verifier_contract "StripeHmacSha256Verifier hmac sha provider v"
  for hmac sha provider v
  by unfold_locales
    (auto simp: StripeHmacSha256Verifier_def stripe_verify_def bindR_Ok_iff split: if_splits)

end
