(* ===== verification/Webhook_Payload.thy ===== *)
theory Webhook_Payload
  imports Webhook_Verify
begin

text \<open>
  Limits, responses and payload mapping of webhook ingress (\<open>bondry-webhook-ingress/src/limits.rs\<close>,
  \<open>response.rs\<close>, \<open>payload.rs\<close> and the mapping type of \<open>route.rs\<close>). JSON values are those of another
  crate: parsing and the three constructors the mapping uses are the fields of \<open>json_api\<close>.
\<close>

section \<open>Limits\<close>

definition DEFAULT_WEBHOOK_BODY_BYTES :: nat where
  "DEFAULT_WEBHOOK_BODY_BYTES = 1048576"
definition MIN_WEBHOOK_BODY_BYTES :: nat where
  "MIN_WEBHOOK_BODY_BYTES = 1024"
definition MAX_WEBHOOK_BODY_BYTES :: nat where
  "MAX_WEBHOOK_BODY_BYTES = 4 * 1048576"
definition DEFAULT_WEBHOOK_RETAINED_BYTES :: nat where
  "DEFAULT_WEBHOOK_RETAINED_BYTES = 3 * 1048576"
definition MAX_WEBHOOK_RETAINED_BYTES :: nat where
  "MAX_WEBHOOK_RETAINED_BYTES = 10 * 1048576"
definition DEFAULT_WEBHOOK_SELECTED_HEADERS :: nat where
  "DEFAULT_WEBHOOK_SELECTED_HEADERS = 16"
definition MAX_WEBHOOK_SELECTED_HEADERS :: nat where
  "MAX_WEBHOOK_SELECTED_HEADERS = 32"

record webhook_ingress_limits =
  wl_body_bytes :: nat
  wl_retained_bytes :: nat
  wl_selected_headers :: nat

datatype webhook_ingress_limit_error = InvalidBodyBytes | InvalidRetainedBytes | InvalidSelectedHeaders

definition WebhookIngressLimits_new :: "nat \<Rightarrow> nat \<Rightarrow> webhook_ingress_limit_error + webhook_ingress_limits" where
  "WebhookIngressLimits_new body_bytes retained_bytes =
     (if body_bytes < MIN_WEBHOOK_BODY_BYTES \<or> body_bytes > MAX_WEBHOOK_BODY_BYTES then Err InvalidBodyBytes
      else if retained_bytes < body_bytes \<or> retained_bytes > MAX_WEBHOOK_RETAINED_BYTES
      then Err InvalidRetainedBytes
      else Ok \<lparr>wl_body_bytes = body_bytes, wl_retained_bytes = retained_bytes,
        wl_selected_headers = DEFAULT_WEBHOOK_SELECTED_HEADERS\<rparr>)"

definition with_selected_headers ::
    "nat \<Rightarrow> webhook_ingress_limits \<Rightarrow> webhook_ingress_limit_error + webhook_ingress_limits" where
  "with_selected_headers n l =
     (if n = 0 \<or> n > MAX_WEBHOOK_SELECTED_HEADERS then Err InvalidSelectedHeaders
      else Ok (l\<lparr>wl_selected_headers := n\<rparr>))"

definition WebhookIngressLimits_default :: webhook_ingress_limits where
  "WebhookIngressLimits_default =
     \<lparr>wl_body_bytes = DEFAULT_WEBHOOK_BODY_BYTES, wl_retained_bytes = DEFAULT_WEBHOOK_RETAINED_BYTES,
      wl_selected_headers = DEFAULT_WEBHOOK_SELECTED_HEADERS\<rparr>"

section \<open>Responses\<close>

record webhook_response =
  wr_status :: nat
  wr_retry_after :: "nat option"
  wr_error_code :: "rstr option"

definition response_success :: "nat \<Rightarrow> webhook_response" where
  "response_success status = \<lparr>wr_status = status, wr_retry_after = None, wr_error_code = None\<rparr>"

definition response_error :: "nat \<Rightarrow> string \<Rightarrow> webhook_response" where
  "response_error status code =
     \<lparr>wr_status = status, wr_retry_after = None, wr_error_code = Some (lit code)\<rparr>"

definition response_retryable :: "nat \<Rightarrow> string \<Rightarrow> nat \<Rightarrow> webhook_response" where
  "response_retryable status code seconds =
     \<lparr>wr_status = status, wr_retry_after = Some seconds, wr_error_code = Some (lit code)\<rparr>"

section \<open>Counting JSON values\<close>

text \<open>The bytes that separate tokens, and the position after a string (\<open>string_end\<close>).\<close>

definition is_separator :: "u8 \<Rightarrow> bool" where
  "is_separator b \<longleftrightarrow> b = 32 \<or> b = 9 \<or> b = 13 \<or> b = 10 \<or> b = 125 \<or> b = 93 \<or> b = 44 \<or> b = 58"

fun string_end :: "bytes \<Rightarrow> bytes option" where
  "string_end [] = None"
| "string_end (b # rest) =
     (if b = 34 then Some rest
      else if b = 92 then (case rest of [] \<Rightarrow> None | _ # rest' \<Rightarrow> string_end rest')
      else string_end rest)"

lemma string_end_shorter: "string_end bs = Some rest \<Longrightarrow> length rest < length bs"
  by (induction bs rule: string_end.induct) (auto split: if_splits list.splits)

text \<open>The loop of \<open>count_json_values\<close> on the input that is left.\<close>

function count_loop :: "nat \<Rightarrow> bytes \<Rightarrow> nat option" where
  "count_loop n [] = Some n"
| "count_loop n (b # rest) =
     (if is_separator b then count_loop n rest
      else (case checked_add_u64 n 1 of
              None \<Rightarrow> None
            | Some n \<Rightarrow>
                if b = 123 \<or> b = 91 then count_loop n rest
                else if b = 34 then
                  (case string_end rest of None \<Rightarrow> None | Some rest \<Rightarrow> count_loop n rest)
                else count_loop n (dropWhile (\<lambda>c. \<not> is_separator c) rest)))"
  by pat_completeness auto
termination
  by (relation "measure (\<lambda>(_, bs). length bs)")
    (auto simp: less_Suc_eq_le length_dropWhile_le dest: string_end_shorter)

declare count_loop.simps(2) [simp del]

definition count_json_values :: "bytes \<Rightarrow> nat option" where
  "count_json_values input = count_loop 0 input"

section \<open>Mapping\<close>

datatype payload_mapping = JsonBody | Envelope "header_name list"

fun metadata_headers :: "payload_mapping \<Rightarrow> header_name list" where
  "metadata_headers JsonBody = []"
| "metadata_headers (Envelope names) = names"

definition VALUE_ALLOCATION_CHARGE :: nat where
  "VALUE_ALLOCATION_CHARGE = 128"

definition checked_mul_u64 :: "nat \<Rightarrow> nat \<Rightarrow> nat option" where
  "checked_mul_u64 x y = (if x * y \<le> u64_max then Some (x * y) else None)"

definition charge_value :: "nat option \<Rightarrow> bytes \<Rightarrow> nat option" where
  "charge_value charge value =
     Option.bind charge (\<lambda>c. Option.bind (checked_add_u64 c (length value)) (\<lambda>c.
       checked_add_u64 c VALUE_ALLOCATION_CHARGE))"

definition charge_header :: "verification_request \<Rightarrow> nat option \<Rightarrow> header_name \<Rightarrow> nat option" where
  "charge_header r charge name =
     (let values = header_values r name;
          charge = foldl charge_value charge values
      in if values \<noteq> []
         then Option.bind charge (\<lambda>c. Option.bind (checked_add_u64 c (str_len name)) (\<lambda>c.
                checked_add_u64 c VALUE_ALLOCATION_CHARGE))
         else charge)"

definition metadata_charge :: "payload_mapping \<Rightarrow> verification_request \<Rightarrow> nat option" where
  "metadata_charge mapping r =
     (case mapping of
        JsonBody \<Rightarrow> Some 0
      | Envelope names \<Rightarrow> foldl (charge_header r) (checked_mul_u64 VALUE_ALLOCATION_CHARGE 2) names)"

definition retained_charge :: "payload_mapping \<Rightarrow> verification_request \<Rightarrow> nat option" where
  "retained_charge mapping r =
     Option.bind (checked_mul_u64 (length (vr_body r)) 2) (\<lambda>body_bytes.
     Option.bind (count_json_values (vr_body r)) (\<lambda>json_values.
     Option.bind (checked_mul_u64 json_values VALUE_ALLOCATION_CHARGE) (\<lambda>json_charge.
     Option.bind (metadata_charge mapping r) (\<lambda>metadata_charge.
     Option.bind (checked_add_u64 body_bytes json_charge) (\<lambda>sum.
       checked_add_u64 sum metadata_charge)))))"

record 'v json_api =
  ja_from_slice :: "bytes \<Rightarrow> 'v option"
  ja_string :: "rstr \<Rightarrow> 'v"
  ja_array :: "'v list \<Rightarrow> 'v"
  ja_object :: "(rstr \<rightharpoonup> 'v) \<Rightarrow> 'v"

definition capacity_response :: webhook_response where
  "capacity_response = response_error 413 ''retained_capacity''"

fun envelope_metadata ::
    "'v json_api \<Rightarrow> verification_request \<Rightarrow> (rstr \<rightharpoonup> 'v) \<Rightarrow> header_name list
       \<Rightarrow> webhook_response + (rstr \<rightharpoonup> 'v)" where
  "envelope_metadata api r metadata [] = Ok metadata"
| "envelope_metadata api r metadata (name # names) =
     bindR (collectR (\<lambda>value. map_err (\<lambda>_. response_error 400 ''invalid_metadata'')
              (map_sum id (ja_string api) (ok_or () (from_utf8 value)))) (header_values r name)) (\<lambda>values.
       envelope_metadata api r
         (if values \<noteq> [] then metadata(name \<mapsto> ja_array api values) else metadata) names)"

definition map_payload ::
    "'v json_api \<Rightarrow> payload_mapping \<Rightarrow> verification_request \<Rightarrow> webhook_ingress_limits
       \<Rightarrow> webhook_response + 'v" where
  "map_payload api mapping r limits =
     (if length (vr_body r) > wl_body_bytes limits then Err (response_error 413 ''body_too_large'')
      else
        bindR (ok_or capacity_response (retained_charge mapping r)) (\<lambda>charge.
        if charge > wl_retained_bytes limits then Err capacity_response
        else
        bindR (ok_or (response_error 400 ''invalid_json'') (ja_from_slice api (vr_body r))) (\<lambda>body.
          case mapping of
            JsonBody \<Rightarrow> Ok body
          | Envelope names \<Rightarrow>
              bindR (envelope_metadata api r Map.empty names) (\<lambda>metadata.
                Ok (ja_object api [lit ''body'' \<mapsto> body, lit ''metadata'' \<mapsto> ja_object api metadata])))))"

definition has_json_content_type :: "verification_request \<Rightarrow> header_name \<Rightarrow> bool" where
  "has_json_content_type r content_type =
     (case header_values r content_type of
        [value] \<Rightarrow>
          (case from_utf8 value of
             None \<Rightarrow> False
           | Some value \<Rightarrow>
               eq_ignore_ascii_case (trim (hd (split_on 59 value))) (lit ''application/json''))
      | _ \<Rightarrow> False)"

end
