(* ===== verification/Webhook_Route.thy ===== *)
theory Webhook_Route
  imports Webhook_Payload Dedup_Model Core_Dispatch Rate_Limit
begin

text \<open>
  Webhook routes (\<open>bondry-webhook-ingress/src/route.rs\<close>): configuration and its checks, the preparation
  of a delivery (verification, admission, mapping, replay claim) and its completion, with the guard that
  settles the claim. The dispatcher and the replay store may share one connection, so both work on the
  state \<open>'s\<close>; the admission limiter is a state of its own. A dropped dispatch settles its claim as
  unknown. The step relation interleaves any number of deliveries, cancellations, process crashes and
  operator actions on the store.
\<close>

section \<open>Configuration\<close>

definition MAX_SELECTED_HEADERS :: nat where
  "MAX_SELECTED_HEADERS = 32"

datatype capability_semantics = SemReadOnly | SemIdempotentMutation | SemNonIdempotentMutation

datatype webhook_route_error =
    RouteInvalidAdapter | RoutePolicyUnavailable | RouteCapabilityUnavailable
  | RouteCapabilityEffectMismatch | RouteTrustedIdentityRequired | RoutePersistentStoreRequired
  | RouteTooManySelectedHeaders | RouteDuplicateSelectedHeader | RouteCredentialHeaderNotSelected
  | RouteCredentialMetadataOverlap | RouteInvalidSuccessStatus

definition PayloadMapping_envelope :: "header_name list \<Rightarrow> webhook_route_error + payload_mapping" where
  "PayloadMapping_envelope names =
     (if length names > MAX_SELECTED_HEADERS then Err RouteTooManySelectedHeaders
      else if \<not> distinct names then Err RouteDuplicateSelectedHeader
      else Ok (Envelope names))"

record route_configuration =
  wc_id :: route_id
  wc_principal :: principal
  wc_capability :: capability_id
  wc_semantics :: capability_semantics
  wc_mapping :: payload_mapping
  wc_success_status :: nat
  wc_limits :: webhook_ingress_limits

definition WebhookRouteConfiguration_new ::
    "route_id \<Rightarrow> principal \<Rightarrow> capability_id \<Rightarrow> capability_semantics \<Rightarrow> route_configuration" where
  "WebhookRouteConfiguration_new i p c semantics =
     \<lparr>wc_id = i, wc_principal = p, wc_capability = c, wc_semantics = semantics, wc_mapping = JsonBody,
      wc_success_status = 204, wc_limits = WebhookIngressLimits_default\<rparr>"

definition with_mapping :: "payload_mapping \<Rightarrow> route_configuration \<Rightarrow> route_configuration" where
  "with_mapping m c = c\<lparr>wc_mapping := m\<rparr>"

definition with_success_status :: "nat \<Rightarrow> route_configuration \<Rightarrow> webhook_route_error + route_configuration" where
  "with_success_status status c =
     (if \<not> (200 \<le> status \<and> status < 300) then Err RouteInvalidSuccessStatus
      else Ok (c\<lparr>wc_success_status := status\<rparr>))"

definition with_limits :: "webhook_ingress_limits \<Rightarrow> route_configuration \<Rightarrow> route_configuration" where
  "with_limits l c = c\<lparr>wc_limits := l\<rparr>"

section \<open>Routes\<close>

definition CONTENT_TYPE :: header_name where
  "CONTENT_TYPE = lit ''content-type''"

definition validate_semantics :: "capability_semantics \<Rightarrow> capability_effect \<Rightarrow> webhook_route_error + unit" where
  "validate_semantics semantics effect =
     (case (semantics, effect) of
        (SemReadOnly, ReadOnly) \<Rightarrow> Ok ()
      | (SemIdempotentMutation, Mutating) \<Rightarrow> Ok ()
      | (SemNonIdempotentMutation, Mutating) \<Rightarrow> Ok ()
      | _ \<Rightarrow> Err RouteCapabilityEffectMismatch)"

text \<open>The loop that keeps the first occurrence of every name.\<close>

fun select_loop :: "header_name list \<Rightarrow> header_name set \<Rightarrow> header_name list \<Rightarrow> header_name list" where
  "select_loop selected unique [] = selected"
| "select_loop selected unique (name # names) =
     (if name \<notin> unique then select_loop (selected @ [name]) (insert name unique) names
      else select_loop selected unique names)"

definition selected_headers :: "payload_mapping \<Rightarrow> webhook_verifier \<Rightarrow> webhook_route_error + header_name list" where
  "selected_headers mapping v =
     (if \<not> distinct (metadata_headers mapping) then Err RouteDuplicateSelectedHeader
      else
        let selected = select_loop [] {} (wv_selected_headers v @ [CONTENT_TYPE] @ metadata_headers mapping)
        in if length selected > MAX_SELECTED_HEADERS then Err RouteTooManySelectedHeaders
           else if list_ex (\<lambda>c. c \<notin> set (wv_selected_headers v)) (wv_credential_headers v)
           then Err RouteCredentialHeaderNotSelected
           else if list_ex (\<lambda>m. m \<in> set (wv_credential_headers v)) (metadata_headers mapping)
           then Err RouteCredentialMetadataOverlap
           else Ok selected)"

record ('v, 'w, 's) ingress_context =
  ic_service :: "('v, 'w, 's) dispatcher"
  ic_store :: "'s dedup_store"
  ic_json :: "'v json_api"

record webhook_route =
  rt_configuration :: route_configuration
  rt_verifier :: webhook_verifier
  rt_adapter :: adapter_id
  rt_selected_headers :: "header_name list"

definition WebhookRoute_new ::
    "route_configuration \<Rightarrow> webhook_verifier \<Rightarrow> ('v, 'w, 's) ingress_context \<Rightarrow> 's
       \<Rightarrow> (webhook_route_error + webhook_route) \<times> 's" where
  "WebhookRoute_new cfg v ctx s =
     (case map_err (\<lambda>_. RouteInvalidAdapter) (identifier_new (lit ''webhook'')) of
        Inl e \<Rightarrow> (Err e, s)
      | Inr adapter \<Rightarrow>
          (case capabilities (ic_service ctx) s (wc_principal cfg) adapter of
             (Inl _, s') \<Rightarrow> (Err RoutePolicyUnavailable, s')
           | (Inr offered, s') \<Rightarrow>
               (bindR (ok_or RouteCapabilityUnavailable
                        (map_option cd_effect (find (\<lambda>d. cd_id d = wc_capability cfg) offered))) (\<lambda>effect.
                bindR (validate_semantics (wc_semantics cfg) effect) (\<lambda>_.
                if wc_semantics cfg = SemNonIdempotentMutation \<and> wv_guarantee v \<noteq> GuaranteeRequired
                then Err RouteTrustedIdentityRequired
                else if wc_semantics cfg = SemNonIdempotentMutation \<and> dst_durability (ic_store ctx) \<noteq> Persistent
                then Err RoutePersistentStoreRequired
                else
                bindR (selected_headers (wc_mapping cfg) v) (\<lambda>selected.
                if length selected > wl_selected_headers (wc_limits cfg)
                then Err RouteTooManySelectedHeaders
                else Ok \<lparr>rt_configuration = cfg, rt_verifier = v, rt_adapter = adapter,
                  rt_selected_headers = selected\<rparr>))), s')))"

section \<open>The replay guard\<close>

record dedup_guard =
  dg_key :: "dedup_key option"
  dg_updated_at :: nat

definition DedupGuard_new :: "dedup_key \<Rightarrow> nat \<Rightarrow> dedup_guard" where
  "DedupGuard_new key t = \<lparr>dg_key = Some key, dg_updated_at = t\<rparr>"

definition guard_complete :: "'s dedup_store \<Rightarrow> dedup_guard \<Rightarrow> 's \<Rightarrow> bool \<times> dedup_guard \<times> 's" where
  "guard_complete st g s =
     (case dg_key g of
        None \<Rightarrow> (True, g, s)
      | Some key \<Rightarrow>
          (case dst_complete st s key (dg_updated_at g) of
             (Inl _, s') \<Rightarrow> (False, g, s')
           | (Inr _, s') \<Rightarrow> (True, g\<lparr>dg_key := None\<rparr>, s')))"

definition guard_mark_unknown :: "'s dedup_store \<Rightarrow> dedup_guard \<Rightarrow> 's \<Rightarrow> bool \<times> dedup_guard \<times> 's" where
  "guard_mark_unknown st g s =
     (case dg_key g of
        None \<Rightarrow> (True, g, s)
      | Some key \<Rightarrow>
          (case dst_mark_unknown st s key (dg_updated_at g) of
             (Inl _, s') \<Rightarrow> (False, g, s')
           | (Inr _, s') \<Rightarrow> (True, g\<lparr>dg_key := None\<rparr>, s')))"

definition guard_release :: "'s dedup_store \<Rightarrow> dedup_guard \<Rightarrow> 's \<Rightarrow> bool \<times> dedup_guard \<times> 's" where
  "guard_release st g s =
     (case dg_key g of
        None \<Rightarrow> (True, g, s)
      | Some key \<Rightarrow>
          (case dst_release_claim st s key of
             (Inl _, s') \<Rightarrow> (False, g, s')
           | (Inr _, s') \<Rightarrow> (True, g\<lparr>dg_key := None\<rparr>, s')))"

text \<open>\<open>Drop\<close> of an optional guard.\<close>

definition guard_drop :: "'s dedup_store \<Rightarrow> dedup_guard option \<Rightarrow> 's \<Rightarrow> 's" where
  "guard_drop st claim s =
     (case claim of
        None \<Rightarrow> s
      | Some g \<Rightarrow>
          (case dg_key g of
             None \<Rightarrow> s
           | Some key \<Rightarrow> snd (dst_mark_unknown st s key (dg_updated_at g))))"

section \<open>Preparing a delivery\<close>

record ingress_time =
  it_unix_milliseconds :: nat
  it_monotonic_milliseconds :: nat

text \<open>An accepted delivery; its future is the dispatch of \<open>wd_invocation\<close>, not yet polled.\<close>

record 'v webhook_dispatch =
  wd_invocation :: "'v invocation"
  wd_claim :: "dedup_guard option"
  wd_success_status :: nat

definition route_retryable :: "string \<Rightarrow> webhook_response" where
  "route_retryable code = response_retryable 503 code 1"

definition claim_policy :: "route_configuration \<Rightarrow> trusted_identity \<Rightarrow> dedup_claim_policy" where
  "claim_policy cfg i =
     (if wc_semantics cfg = SemNonIdempotentMutation \<and> ti_freshness i = None
      then RetainCompleted else ExpireCompleted)"

definition route_key :: "route_configuration \<Rightarrow> trusted_identity \<Rightarrow> dedup_key" where
  "route_key cfg i = DedupKey (wc_id cfg) (ti_namespace i) (ti_hash i)"

text \<open>The claim of a verified identity, as the guard to hold or the response to return.\<close>

definition claim_identity ::
    "'s dedup_store \<Rightarrow> route_configuration \<Rightarrow> nat \<Rightarrow> trusted_identity option \<Rightarrow> 's
       \<Rightarrow> (webhook_response + dedup_guard option) \<times> 's" where
  "claim_identity st cfg now identity s =
     (case identity of
        None \<Rightarrow> (Ok None, s)
      | Some i \<Rightarrow>
          (case dst_claim st s (route_key cfg i) (claim_policy cfg i) now of
             (Inr Claimed, s') \<Rightarrow> (Ok (Some (DedupGuard_new (route_key cfg i) now)), s')
           | (Inr (Duplicate InFlight), s') \<Rightarrow> (Err (response_retryable 503 ''delivery_in_flight'' 1), s')
           | (Inr (Duplicate Completed), s') \<Rightarrow> (Err (response_success (wc_success_status cfg)), s')
           | (Inr (Duplicate Unknown), s') \<Rightarrow> (Err (response_success (wc_success_status cfg)), s')
           | (Inl DsCapacityExhausted, s') \<Rightarrow> (Err (route_retryable ''dedup_capacity''), s')
           | (Inl DsNotFound, s') \<Rightarrow> (Err (route_retryable ''dedup_store_unavailable''), s')
           | (Inl DsInvalidTransition, s') \<Rightarrow> (Err (route_retryable ''dedup_store_unavailable''), s')
           | (Inl DsUnavailable, s') \<Rightarrow> (Err (route_retryable ''dedup_store_unavailable''), s')))"

text \<open>The checks of \<open>prepare\<close> before the replay claim: the mapped input and the verified identity.\<close>

definition check_request ::
    "webhook_route \<Rightarrow> 'v json_api \<Rightarrow> verification_request \<Rightarrow> ingress_time \<Rightarrow> request_limiter
       \<Rightarrow> (webhook_response + 'v \<times> trusted_identity option) \<times> request_limiter" where
  "check_request route api r now lim =
     (let cfg = rt_configuration route; v = rt_verifier route in
      if vr_method r \<noteq> lit ''POST'' then (Err (response_error 405 ''method_not_allowed''), lim)
      else
      case i64_try_from (int (it_unix_milliseconds now div 1000)) of
        None \<Rightarrow> (Err (route_retryable ''clock_unavailable''), lim)
      | Some now_unix_seconds \<Rightarrow>
      case wv_verify v r now_unix_seconds of
        Inl VerificationRejected \<Rightarrow> (Err (response_error 401 ''authentication_rejected''), lim)
      | Inl VerificationUnavailable \<Rightarrow> (Err (route_retryable ''verification_unavailable''), lim)
      | Inr identity \<Rightarrow>
      if wv_guarantee v = GuaranteeRequired \<and> identity = None
      then (Err (route_retryable ''verification_unavailable''), lim)
      else if wv_guarantee v = GuaranteeNever \<and> identity \<noteq> None
      then (Err (route_retryable ''verification_unavailable''), lim)
      else
      case admit (pr_id (wc_principal cfg)) (it_monotonic_milliseconds now) lim of
        (Limited retry_after, lim') \<Rightarrow> (Err (response_retryable 429 ''rate_limited'' retry_after), lim')
      | (Allowed, lim') \<Rightarrow>
      if \<not> has_json_content_type r CONTENT_TYPE
      then (Err (response_error 415 ''unsupported_media_type''), lim')
      else (bindR (map_payload api (wc_mapping cfg) r (wc_limits cfg)) (\<lambda>input. Ok (input, identity)), lim'))"

text \<open>
  \<open>prepare\<close>, which is also \<open>begin\<close>. \<open>generated\<close> is what the invocation identifier generator returned;
  the guard is dropped on the early return after a failed release.
\<close>

definition prepare ::
    "webhook_route \<Rightarrow> ('v, 'w, 's) ingress_context \<Rightarrow> invocation_id_generation_error + invocation_id
       \<Rightarrow> verification_request \<Rightarrow> ingress_time \<Rightarrow> request_limiter \<Rightarrow> 's
       \<Rightarrow> (webhook_response + 'v webhook_dispatch) \<times> request_limiter \<times> 's" where
  "prepare route ctx generated r now lim s =
     (case check_request route (ic_json ctx) r now lim of
        (Inl response, lim') \<Rightarrow> (Err response, lim', s)
      | (Inr (input, identity), lim') \<Rightarrow>
          (case claim_identity (ic_store ctx) (rt_configuration route) (it_unix_milliseconds now) identity s of
             (Inl response, s') \<Rightarrow> (Err response, lim', s')
           | (Inr claim, s') \<Rightarrow>
               (case generated of
                  Inl _ \<Rightarrow>
                    (case claim of
                       None \<Rightarrow> (Err (route_retryable ''identifier_generation_unavailable''), lim', s')
                     | Some g \<Rightarrow>
                         (case guard_release (ic_store ctx) g s' of
                            (released, g', s'') \<Rightarrow>
                              (Err (if \<not> released then route_retryable ''dedup_store_unavailable''
                                    else route_retryable ''identifier_generation_unavailable''),
                               lim', guard_drop (ic_store ctx) (Some g') s'')))
                | Inr i \<Rightarrow>
                    (Ok \<lparr>wd_invocation = \<lparr>inv_id = i, inv_adapter = rt_adapter route,
                           inv_principal = wc_principal (rt_configuration route),
                           inv_capability = wc_capability (rt_configuration route), inv_input = input\<rparr>,
                         wd_claim = claim, wd_success_status = wc_success_status (rt_configuration route)\<rparr>,
                     lim', s'))))"

section \<open>Completing a delivery\<close>

text \<open>The persistence step of \<open>complete\<close> after the dispatch returned.\<close>

definition settle_claim ::
    "'s dedup_store \<Rightarrow> dispatch_error + 'v \<Rightarrow> dedup_guard option \<Rightarrow> 's \<Rightarrow> bool \<times> dedup_guard option \<times> 's" where
  "settle_claim st result claim s =
     (case claim of
        None \<Rightarrow> (True, None, s)
      | Some g \<Rightarrow>
          (case (case result of
                   Inl (DispatchAudit _) \<Rightarrow> guard_mark_unknown st g s
                 | Inl (DispatchCapabilityNotFound _) \<Rightarrow> guard_release st g s
                 | Inl (DispatchAccessDenied _) \<Rightarrow> guard_release st g s
                 | Inl DispatchInvalidInput \<Rightarrow> guard_release st g s
                 | _ \<Rightarrow> guard_complete st g s) of
             (persisted, g', s') \<Rightarrow> (persisted, Some g', s')))"

fun dispatch_response :: "nat \<Rightarrow> dispatch_error + 'v \<Rightarrow> webhook_response" where
  "dispatch_response status (Inr _) = response_success status"
| "dispatch_response status (Inl (DispatchCapabilityNotFound _)) = response_error 404 ''route_unavailable''"
| "dispatch_response status (Inl (DispatchAccessDenied NotGranted)) = response_error 404 ''route_unavailable''"
| "dispatch_response status (Inl DispatchInvalidInput) = response_error 422 ''invalid_input''"
| "dispatch_response status (Inl (DispatchHandler _)) = response_error 422 ''capability_failed''"
| "dispatch_response status (Inl (DispatchAccessDenied PolicyUnavailable)) = route_retryable ''policy_unavailable''"
| "dispatch_response status (Inl (DispatchAudit _)) = route_retryable ''audit_unavailable''"

text \<open>The rest of \<open>complete\<close> once the future is ready, with the drop of the guard at its end.\<close>

definition finish_delivery ::
    "'s dedup_store \<Rightarrow> nat \<Rightarrow> dispatch_error + 'v \<Rightarrow> dedup_guard option \<Rightarrow> 's \<Rightarrow> webhook_response \<times> 's" where
  "finish_delivery st status result claim s =
     (case settle_claim st result claim s of
        (persisted, claim', s') \<Rightarrow>
          (if \<not> persisted then route_retryable ''dedup_store_unavailable''
           else dispatch_response status result,
           guard_drop st claim' s'))"

text \<open>\<open>complete\<close> and \<open>handle\<close> with nothing interleaved.\<close>

definition complete_dispatch ::
    "('v, 'w, 's) ingress_context \<Rightarrow> (nat \<Rightarrow> system_time) \<Rightarrow> 'v webhook_dispatch \<Rightarrow> 's \<Rightarrow> 'w
       \<Rightarrow> webhook_response \<times> 's \<times> 'w" where
  "complete_dispatch ctx clock d s w =
     (case dispatch (ic_service ctx) clock s w (wd_invocation d) of
        (result, s', w') \<Rightarrow>
          (case finish_delivery (ic_store ctx) (wd_success_status d) result (wd_claim d) s' of
             (response, s'') \<Rightarrow> (response, s'', w')))"

definition handle_webhook ::
    "webhook_route \<Rightarrow> ('v, 'w, 's) ingress_context \<Rightarrow> invocation_id_generation_error + invocation_id
       \<Rightarrow> (nat \<Rightarrow> system_time) \<Rightarrow> verification_request \<Rightarrow> ingress_time \<Rightarrow> request_limiter \<Rightarrow> 's \<Rightarrow> 'w
       \<Rightarrow> webhook_response \<times> request_limiter \<times> 's \<times> 'w" where
  "handle_webhook route ctx generated clock r now lim s w =
     (case prepare route ctx generated r now lim s of
        (Inl response, lim', s') \<Rightarrow> (response, lim', s', w)
      | (Inr d, lim', s') \<Rightarrow>
          (case complete_dispatch ctx clock d s' w of
             (response, s'', w') \<Rightarrow> (response, lim', s'', w')))"

end
