(* ===== verification/Webhook_System.thy ===== *)
theory Webhook_System
  imports Webhook_Route
begin

text \<open>
  Many webhook deliveries at once. A delivery is a task from the moment \<open>prepare\<close> accepts it: first
  not yet polled, then awaiting its handler. Between any two steps other deliveries arrive, tasks are
  cancelled, the process crashes (its tasks vanish without running their guards), administrators change
  grants and operators act on the replay store. The locale \<open>webhook_host\<close> says what the composition of
  a dispatcher and a replay store must satisfy, and proves how often a handler starts per delivery.
\<close>

section \<open>Tasks and steps\<close>

datatype ('v, 'w) web_task =
    Unpolled (task_dispatch: "'v webhook_dispatch")
  | Awaiting invocation_context "('v, 'w) handler" 'v "dedup_guard option" nat

fun task_claim :: "('v, 'w) web_task \<Rightarrow> dedup_guard option" where
  "task_claim (Unpolled d) = wd_claim d"
| "task_claim (Awaiting _ _ _ claim _) = claim"

definition claim_key :: "dedup_guard option \<Rightarrow> dedup_key option" where
  "claim_key claim = Option.bind claim dg_key"

record ('v, 'w, 's) web_system =
  web_state :: 's
  web_host :: 'w
  web_limiter :: request_limiter
  web_tasks :: "('v, 'w) web_task list"

text \<open>What a step shows: the start of a handler with the claim it holds, or an operator's action.\<close>

datatype web_label = Quiet | Started "dedup_key option" | Operated dedup_event

definition is_operator :: "dedup_op \<Rightarrow> bool" where
  "is_operator op = (case op of DoRecord _ \<Rightarrow> True | DoRecover _ \<Rightarrow> True | DoResolve _ _ _ \<Rightarrow> True
     | DoClear _ \<Rightarrow> True | _ \<Rightarrow> False)"

inductive web_step ::
    "('v, 'w, 's) ingress_context \<Rightarrow> (webhook_route \<Rightarrow> bool) \<Rightarrow> ('s \<Rightarrow> 's \<Rightarrow> bool)
       \<Rightarrow> ('v, 'w, 's) web_system \<Rightarrow> web_label \<Rightarrow> ('v, 'w, 's) web_system \<Rightarrow> bool"
  for ctx served admin where
  refuse: "served route \<Longrightarrow>
     prepare route ctx generated r now (web_limiter c) (web_state c) = (Err response, lim', s') \<Longrightarrow>
     web_step ctx served admin c Quiet (c\<lparr>web_state := s', web_limiter := lim'\<rparr>)"
| accept: "served route \<Longrightarrow>
     prepare route ctx generated r now (web_limiter c) (web_state c) = (Ok d, lim', s') \<Longrightarrow>
     web_step ctx served admin c Quiet
       (c\<lparr>web_state := s', web_limiter := lim', web_tasks := web_tasks c @ [Unpolled d]\<rparr>)"
| reject: "n < length (web_tasks c) \<Longrightarrow> web_tasks c ! n = Unpolled d \<Longrightarrow>
     dispatch_begin (ic_service ctx) now (web_state c) (wd_invocation d) = (Finished result, s') \<Longrightarrow>
     finish_delivery (ic_store ctx) (wd_success_status d) result (wd_claim d) s' = (response, s'') \<Longrightarrow>
     web_step ctx served admin c Quiet (c\<lparr>web_state := s'', web_tasks := remove_nth n (web_tasks c)\<rparr>)"
| start: "n < length (web_tasks c) \<Longrightarrow> web_tasks c ! n = Unpolled d \<Longrightarrow>
     dispatch_begin (ic_service ctx) now (web_state c) (wd_invocation d) = (AwaitHandler cx h inp, s') \<Longrightarrow>
     web_step ctx served admin c (Started (claim_key (wd_claim d)))
       (c\<lparr>web_state := s',
          web_tasks := (web_tasks c)[n := Awaiting cx h inp (wd_claim d) (wd_success_status d)]\<rparr>)"
| finish: "n < length (web_tasks c) \<Longrightarrow> web_tasks c ! n = Awaiting cx h inp claim status \<Longrightarrow>
     h cx inp (web_host c) = (outcome, w') \<Longrightarrow>
     dispatch_finish (ic_service ctx) now (web_state c) cx outcome = (result, s') \<Longrightarrow>
     finish_delivery (ic_store ctx) status result claim s' = (response, s'') \<Longrightarrow>
     web_step ctx served admin c Quiet
       (c\<lparr>web_state := s'', web_host := w', web_tasks := remove_nth n (web_tasks c)\<rparr>)"
| cancel: "n < length (web_tasks c) \<Longrightarrow>
     web_step ctx served admin c Quiet
       (c\<lparr>web_state := guard_drop (ic_store ctx) (task_claim (web_tasks c ! n)) (web_state c),
          web_tasks := remove_nth n (web_tasks c)\<rparr>)"
| crash: "web_step ctx served admin c Quiet (c\<lparr>web_limiter := lim', web_tasks := []\<rparr>)"
| operate: "is_operator op \<Longrightarrow> dedup_run (ic_store ctx) op (web_state c) = (ev, s') \<Longrightarrow>
     web_step ctx served admin c (Operated ev) (c\<lparr>web_state := s'\<rparr>)"
| administer: "admin (web_state c) s' \<Longrightarrow> web_step ctx served admin c Quiet (c\<lparr>web_state := s'\<rparr>)"

inductive web_run ::
    "('v, 'w, 's) ingress_context \<Rightarrow> (webhook_route \<Rightarrow> bool) \<Rightarrow> ('s \<Rightarrow> 's \<Rightarrow> bool)
       \<Rightarrow> ('v, 'w, 's) web_system \<Rightarrow> web_label list \<Rightarrow> ('v, 'w, 's) web_system \<Rightarrow> bool"
  for ctx served admin where
  run_done: "web_run ctx served admin c [] c"
| run_more: "web_step ctx served admin c l c1 \<Longrightarrow> web_run ctx served admin c1 ls c2 \<Longrightarrow>
     web_run ctx served admin c (l # ls) c2"

section \<open>Counting\<close>

definition starts_of :: "dedup_key \<Rightarrow> web_label list \<Rightarrow> nat" where
  "starts_of k ls = length (filter (\<lambda>l. l = Started (Some k)) ls)"

text \<open>Operator decisions that let \<open>k\<close> be delivered again.\<close>

definition reopens :: "dedup_key \<Rightarrow> web_label \<Rightarrow> bool" where
  "reopens k l \<longleftrightarrow> l = Operated (EvRetried k) \<or> l = Operated EvCleared"

definition reopenings_of :: "dedup_key \<Rightarrow> web_label list \<Rightarrow> nat" where
  "reopenings_of k ls = length (filter (reopens k) ls)"

definition waiting :: "dedup_key \<Rightarrow> ('v, 'w) web_task list \<Rightarrow> nat" where
  "waiting k ts = length (filter (\<lambda>t. is_Unpolled t \<and> claim_key (task_claim t) = Some k) ts)"

text \<open>
  A route that keeps replay state of \<open>k\<close> for good: its keys can be stored, and claims of \<open>k\<close> ask to
  retain completed state.
\<close>

definition keeps :: "(dedup_key \<Rightarrow> bool) \<Rightarrow> dedup_key \<Rightarrow> webhook_route \<Rightarrow> bool" where
  "keeps usable k route \<longleftrightarrow>
     (\<forall>r now i. wv_verify (rt_verifier route) r now = Ok (Some i) \<longrightarrow>
        usable (route_key (rt_configuration route) i) \<and>
        (route_key (rt_configuration route) i = k \<longrightarrow>
           claim_policy (rt_configuration route) i = RetainCompleted))"

lemma waiting_append [simp]: "waiting k (xs @ ys) = waiting k xs + waiting k ys"
  by (simp add: waiting_def)

lemma waiting_Nil [simp]: "waiting k [] = 0"
  by (simp add: waiting_def)

lemma waiting_Unpolled: "waiting k [Unpolled d] = weight (claim_key (wd_claim d) = Some k)"
  by (simp add: waiting_def weight_def)

lemma waiting_remove:
  "n < length ts \<Longrightarrow>
     waiting k ts = waiting k (remove_nth n ts) +
       weight (is_Unpolled (ts ! n) \<and> claim_key (task_claim (ts ! n)) = Some k)"
  unfolding waiting_def weight_def by (rule filter_remove_nth)

lemma waiting_update:
  assumes "n < length ts" and "\<not> is_Unpolled t"
  shows "waiting k ts = waiting k (ts[n := t]) +
     weight (is_Unpolled (ts ! n) \<and> claim_key (task_claim (ts ! n)) = Some k)"
proof -
  have "remove_nth n (ts[n := t]) = remove_nth n ts"
    using assms(1) by (simp add: remove_nth_def drop_update_cancel)
  with waiting_remove [of n ts k] waiting_remove [of n "ts[n := t]" k] assms show ?thesis
    by (simp add: weight_def)
qed

text \<open>Results after which the claim is given back: the handler has not run.\<close>

fun gives_back :: "dispatch_error + 'v \<Rightarrow> bool" where
  "gives_back (Inl (DispatchCapabilityNotFound _)) = True"
| "gives_back (Inl (DispatchAccessDenied _)) = True"
| "gives_back (Inl DispatchInvalidInput) = True"
| "gives_back _ = False"

section \<open>A dispatcher and a replay store\<close>

locale webhook_host = dedup_store_contract st inv ents usable ret
  for st :: "'s dedup_store" and inv ents usable ret +
  fixes policy :: "('s, 'v) policy"
    and sink :: "'s audit_sink"
    and admin :: "'s \<Rightarrow> 's \<Rightarrow> bool"
  assumes policy_frame: "inv s \<Longrightarrow> inv (snd (policy s q)) \<and> ents (snd (policy s q)) = ents s"
    and sink_frame: "inv s \<Longrightarrow> inv (snd (sink s e)) \<and> ents (snd (sink s e)) = ents s"
    and admin_frame: "inv s \<Longrightarrow> admin s s' \<Longrightarrow> inv s' \<and> ents s' = ents s"
begin

abbreviation host :: "('v, 'w) registry \<Rightarrow> 'v json_api \<Rightarrow> ('v, 'w, 's) ingress_context" where
  "host reg api \<equiv>
     \<lparr>ic_service = \<lparr>dp_registry = reg, dp_policy = policy, dp_audit = sink\<rparr>, ic_store = st, ic_json = api\<rparr>"

definition good :: "dedup_key \<Rightarrow> 's \<Rightarrow> bool" where
  "good k s \<longleftrightarrow> inv s \<and> retained_entry (ents s k)"

definition held :: "dedup_key \<Rightarrow> 's \<Rightarrow> nat" where
  "held k s = weight (ents s k \<noteq> None)"

lemma op_effect:
  assumes "good k s" and "pred_option usable (dedup_op_key op)" and "dedup_run st op s = (ev, s')"
    and "retains k ev"
  shows "good k s' \<and>
    weight (\<exists>p t. ev = EvClaimed k p t) + held k s = weight (ev = EvReleased k \<or> ev = EvRetried k) + held k s'"
  using run_step [OF _ assms(2,3)] dedup_step_balance [of ret ev "ents s" "ents s'" k] assms(1,4)
  by (auto simp: good_def held_def)

lemma complete_effect:
  "good k s \<Longrightarrow> dst_complete st s key t = (r, s') \<Longrightarrow> good k s' \<and> held k s' = held k s"
  using op_effect [of k s "DoComplete key t" "if is_ok r then EvCompleted key t else EvNothing" s']
  by (cases "is_ok r") (auto simp: retains_def weight_def)

lemma unknown_effect:
  "good k s \<Longrightarrow> dst_mark_unknown st s key t = (r, s') \<Longrightarrow> good k s' \<and> held k s' = held k s"
  using op_effect [of k s "DoMarkUnknown key t" "if is_ok r then EvUnknown key else EvNothing" s']
  by (cases "is_ok r") (auto simp: retains_def weight_def)

lemma release_effect:
  "good k s \<Longrightarrow> dst_release_claim st s key = (r, s') \<Longrightarrow>
     good k s' \<and> held k s \<le> held k s' + weight (key = k)"
  using op_effect [of k s "DoRelease key" "if is_ok r then EvReleased key else EvNothing" s']
  by (cases "is_ok r") (auto simp: retains_def weight_def)

lemma drop_effect: "good k s \<Longrightarrow> good k (guard_drop st claim s) \<and> held k (guard_drop st claim s) = held k s"
  using unknown_effect [of k s]
  by (auto simp: guard_drop_def split: option.split) (metis prod.collapse)+

lemma settle_effect:
  assumes "good k s" and "settle_claim st result claim s = (ok, claim', s')"
  shows "good k s' \<and> held k s \<le> held k s' + weight (claim_key claim = Some k \<and> gives_back result)"
proof (cases "claim_key claim")
  case None
  with assms show ?thesis
    by (auto simp: settle_claim_def claim_key_def guard_complete_def guard_mark_unknown_def guard_release_def
        split: option.splits sum.splits dispatch_error.splits)
next
  case (Some key)
  then obtain g where g: "claim = Some g" "dg_key g = Some key" by (cases claim) (auto simp: claim_key_def)
  let ?t = "dg_updated_at g"
  consider "gives_back result" "s' = snd (dst_release_claim st s key)"
    | "\<not> gives_back result" "s' = snd (dst_complete st s key ?t) \<or> s' = snd (dst_mark_unknown st s key ?t)"
    using assms(2) g
    by (auto simp: settle_claim_def guard_complete_def guard_mark_unknown_def guard_release_def
        split: sum.splits dispatch_error.splits prod.splits)
  then show ?thesis
  proof cases
    case 1
    with release_effect [OF assms(1), of key] Some show ?thesis
      by (cases "dst_release_claim st s key") auto
  next
    case 2
    with complete_effect [OF assms(1), of key ?t] unknown_effect [OF assms(1), of key ?t] show ?thesis
      by (cases "dst_complete st s key ?t"; cases "dst_mark_unknown st s key ?t") (auto simp: weight_def)
  qed
qed

lemma finish_delivery_effect:
  assumes "good k s" and "finish_delivery st status result claim s = (response, s')"
  shows "good k s' \<and> held k s \<le> held k s' + weight (claim_key claim = Some k \<and> gives_back result)"
proof -
  obtain ok claim' s1 where settle: "settle_claim st result claim s = (ok, claim', s1)"
    by (cases "settle_claim st result claim s")
  with assms(2) have "s' = guard_drop st claim' s1" by (auto simp: finish_delivery_def)
  with settle_effect [OF assms(1) settle] drop_effect [of k s1 claim'] show ?thesis by simp
qed

lemma audit_frame:
  "inv s \<Longrightarrow> audit_then_fail sink s e x = (y, s') \<Longrightarrow> inv s' \<and> ents s' = ents s"
  using sink_frame [of s e] by (auto simp: audit_then_fail_def split: prod.splits sum.splits)

lemma begin_frame:
  assumes "inv s" and "dispatch_begin \<lparr>dp_registry = reg, dp_policy = policy, dp_audit = sink\<rparr> now s i = (p, s')"
  shows "inv s' \<and> ents s' = ents s"
proof (cases "resolve reg (inv_capability i)")
  case None
  with assms audit_frame [of s] show ?thesis by (auto simp: dispatch_begin_def split: prod.splits)
next
  case (Some dh)
  obtain d h where dh: "dh = (d, h)" by (cases dh)
  let ?q = "\<lparr>req_principal = inv_principal i, req_adapter = inv_adapter i, req_capability = d\<rparr>"
  obtain decision s1 where pol: "policy s ?q = (decision, s1)" by (cases "policy s ?q")
  with policy_frame [OF assms(1), of ?q] have s1: "inv s1" "ents s1 = ents s" by simp_all
  have "inv s' \<and> ents s' = ents s1"
    using assms(2) Some dh pol audit_frame [OF s1(1)] sink_frame [OF s1(1)]
    by (auto simp: dispatch_begin_def Let_def split: authorization_decision.splits prod.splits sum.splits if_splits)
      (metis snd_conv)+
  with s1 show ?thesis by simp
qed

lemma finish_frame:
  assumes "inv s" and "dispatch_finish \<lparr>dp_registry = reg, dp_policy = policy, dp_audit = sink\<rparr> now s cx out = (r, s')"
  shows "inv s' \<and> ents s' = ents s \<and> \<not> gives_back r"
  using assms audit_frame [OF assms(1)] sink_frame [OF assms(1)]
  by (auto simp: dispatch_finish_def audit_then_fail_def split: sum.splits prod.splits) (metis snd_conv)+

lemma claim_effect:
  assumes "good k s" and "usable key" and "key = k \<Longrightarrow> p = RetainCompleted"
    and "dst_claim st s key p t = (r, s')"
  shows "good k s' \<and> held k s' = held k s + weight (r = Ok Claimed \<and> key = k)"
proof -
  define ev where "ev = (case r of Inl _ \<Rightarrow> EvRefused t | Inr Claimed \<Rightarrow> EvClaimed key p t
    | Inr (Duplicate d) \<Rightarrow> EvDuplicate key d t)"
  have run: "dedup_run st (DoClaim key p t) s = (ev, s')"
    using assms(4) by (auto simp: ev_def split: sum.split dedup_claim.split)
  have "retains k ev" using assms(3) by (auto simp: retains_def ev_def split: sum.splits dedup_claim.splits)
  moreover have "(\<exists>p' t'. ev = EvClaimed k p' t') \<longleftrightarrow> r = Ok Claimed \<and> key = k"
    "\<not> (ev = EvReleased k \<or> ev = EvRetried k)"
    by (auto simp: ev_def split: sum.splits dedup_claim.splits)
  ultimately show ?thesis using op_effect [OF assms(1) _ run] assms(2) by (simp add: weight_def)
qed

lemma claim_identity_effect:
  assumes "good k s" and "keeps usable k route"
    and "identity = None \<or> (\<exists>r now. wv_verify (rt_verifier route) r now = Ok identity)"
    and "claim_identity st (rt_configuration route) t identity s = (r, s')"
  shows "good k s' \<and>
    held k s' = held k s + weight (\<exists>claim. r = Ok claim \<and> claim_key claim = Some k)"
proof (cases identity)
  case None
  with assms show ?thesis by (auto simp: claim_identity_def claim_key_def weight_def)
next
  case (Some i)
  let ?key = "route_key (rt_configuration route) i" and ?p = "claim_policy (rt_configuration route) i"
  have u: "usable ?key" "?key = k \<Longrightarrow> ?p = RetainCompleted"
    using assms(2,3) Some unfolding keeps_def by blast+
  obtain x s1 where c: "dst_claim st s ?key ?p t = (x, s1)" by (cases "dst_claim st s ?key ?p t")
  have "s1 = s'" "(\<exists>claim. r = Ok claim \<and> claim_key claim = Some k) \<longleftrightarrow> x = Ok Claimed \<and> ?key = k"
    using assms(4) c Some
    by (auto simp: claim_identity_def claim_key_def DedupGuard_new_def
        split: sum.splits dedup_claim.splits dedup_state.splits dedup_store_error.splits)
  with claim_effect [OF assms(1) u c] show ?thesis by simp
qed

lemma check_request_identity:
  assumes "check_request route api r now lim = (Ok (input, identity), lim')"
  shows "\<exists>r now. wv_verify (rt_verifier route) r now = Ok identity"
  using assms
  by (auto simp: check_request_def Let_def bindR_Ok_iff split: if_splits option.splits sum.splits
      verification_error.splits prod.splits rate_limit_decision.splits)

lemma prepare_effect:
  assumes "good k s" and "keeps usable k route"
    and "prepare route (host reg api) generated r now lim s = (x, lim', s')"
  shows "good k s' \<and> held k s + weight (\<exists>d. x = Ok d \<and> claim_key (wd_claim d) = Some k) \<le> held k s'"
proof -
  obtain y lim1 where chk: "check_request route api r now lim = (y, lim1)" by (cases "check_request route api r now lim")
  show ?thesis
  proof (cases y)
    case (Inl response)
    with assms chk show ?thesis by (auto simp: prepare_def weight_def)
  next
    case (Inr yi)
    then obtain input identity where y: "y = Ok (input, identity)" by (cases yi) auto
    obtain z s1 where cl: "claim_identity st (rt_configuration route) (it_unix_milliseconds now) identity s = (z, s1)"
      by (cases "claim_identity st (rt_configuration route) (it_unix_milliseconds now) identity s")
    note ce = claim_identity_effect [OF assms(1,2) _ cl] check_request_identity [OF chk [unfolded y]]
    show ?thesis
    proof (cases "\<exists>claim i. z = Ok claim \<and> generated = Ok i")
      case True
      with assms(3) chk y cl ce show ?thesis by (auto simp: prepare_def)
    next
      case False
      then consider e where "z = Err e" "s' = s1" "\<exists>e. x = Err e"
        | "z = Ok None" "s' = s1" "\<exists>e. x = Err e"
        | g ok g' s2 where "z = Ok (Some g)" "guard_release st g s1 = (ok, g', s2)"
            "s' = guard_drop st (Some g') s2" "\<exists>e. x = Err e"
        using assms(3) chk y cl by (auto simp: prepare_def split: sum.splits option.splits prod.splits)
      then show ?thesis
      proof cases
        case (3 g ok g' s2)
        have "good k s1" and h1: "held k s1 = held k s + weight (dg_key g = Some k)"
          using ce 3(1) by (auto simp: claim_key_def)
        moreover have "good k s2 \<and> held k s1 \<le> held k s2 + weight (dg_key g = Some k)"
          using 3(2) \<open>good k s1\<close> release_effect [OF \<open>good k s1\<close>]
          by (auto simp: guard_release_def split: option.splits prod.splits sum.splits)
        ultimately show ?thesis using 3(3,4) drop_effect [of k s2 "Some g'"] by (auto simp: weight_def)
      qed (use ce in \<open>auto simp: weight_def claim_key_def\<close>)
    qed
  qed
qed

text \<open>The invariant of a run: what has started or may still start is covered.\<close>

definition covered :: "dedup_key \<Rightarrow> nat \<Rightarrow> nat \<Rightarrow> ('v, 'w, 's) web_system \<Rightarrow> bool" where
  "covered k started reopened c \<longleftrightarrow>
     good k (web_state c) \<and> started + waiting k (web_tasks c) \<le> reopened + held k (web_state c)"

lemma operator_effect:
  assumes "good k s" and "is_operator op" and "dedup_run st op s = (ev, s')"
  shows "good k s' \<and> held k s \<le> held k s' + weight (reopens k (Operated ev))"
proof (cases "ev = EvCleared")
  case True
  have "dedup_op_key op = None" using assms(2) by (cases op) (simp_all add: is_operator_def)
  then have "inv s'" "dedup_step ret EvCleared (ents s) (ents s')"
    using run_step [OF _ _ assms(3)] assms(1) True by (auto simp: good_def)
  then show ?thesis using assms(1) True
    by (auto simp: good_def held_def weight_def reopens_def retained_entry_def cleared_before_def
        elim: dedup_step.cases split: option.splits if_splits)
next
  case False
  have "dedup_op_key op = None" using assms(2) by (cases op) (simp_all add: is_operator_def)
  moreover have "ev \<noteq> EvReleased k \<and> (\<forall>p t. ev \<noteq> EvClaimed k p t)"
  proof (cases op)
    case (DoResolve key res t)
    with assms(3) show ?thesis by (cases res) (auto split: prod.splits if_splits)
  qed (use assms(2,3) in \<open>auto simp: is_operator_def split: prod.splits if_splits\<close>)
  ultimately show ?thesis
    using op_effect [OF assms(1) _ assms(3)] False by (auto simp: retains_def weight_def reopens_def)
qed

lemma covered_removed:
  assumes "good k s'" and "n < length ts" and "S + waiting k ts \<le> R + held k s"
    and "held k s \<le> held k s' + weight (claim_key (task_claim (ts ! n)) = Some k \<and> given)"
    and "given \<Longrightarrow> is_Unpolled (ts ! n)"
  shows "S + waiting k (remove_nth n ts) \<le> R + held k s'"
  using assms waiting_remove [OF assms(2), of k] by (auto simp: weight_def split: if_splits)

lemma step_covered:
  assumes "web_step (host reg api) (keeps usable k) admin c l c'" and "covered k S R c"
  shows "covered k (S + weight (l = Started (Some k))) (R + weight (reopens k l)) c'"
proof -
  have good: "good k (web_state c)" "inv (web_state c)"
    and le: "S + waiting k (web_tasks c) \<le> R + held k (web_state c)"
    using assms(2) by (auto simp: covered_def good_def)
  have same: "good k s'" "held k s' = held k (web_state c)"
    if "inv s' \<and> ents s' = ents (web_state c)" for s'
    using that good(1) by (auto simp: good_def held_def)
  show ?thesis
    using assms(1)
  proof cases
    case (refuse route generated r now response lim' s')
    with prepare_effect [OF good(1) refuse(3,4)] le show ?thesis
      by (auto simp: covered_def weight_def reopens_def)
  next
    case (accept route generated r now d lim' s')
    with prepare_effect [OF good(1) accept(3,4)] le show ?thesis
      by (auto simp: covered_def weight_def reopens_def waiting_Unpolled split: if_splits)
  next
    case (reject n d now result s' response s'')
    note frame = same [OF begin_frame [OF good(2) reject(5) [simplified]]]
    have fin: "good k s'' \<and> held k s' \<le> held k s'' + weight (claim_key (wd_claim d) = Some k \<and> gives_back result)"
      by (rule finish_delivery_effect [OF frame(1)]) (use reject(6) in simp)
    have "S + waiting k (remove_nth n (web_tasks c)) \<le> R + held k s''"
      by (rule covered_removed [OF conjunct1 [OF fin] reject(3) le, where given = "gives_back result"])
        (use fin frame(2) reject(4) in simp_all)
    with fin reject show ?thesis by (auto simp: covered_def weight_def reopens_def)
  next
    case (start n d now cx h inp s')
    note frame = same [OF begin_frame [OF good(2) start(5) [simplified]]]
    with start le waiting_update [OF start(3), of "Awaiting cx h inp (wd_claim d) (wd_success_status d)" k]
    show ?thesis by (auto simp: covered_def weight_def reopens_def split: if_splits)
  next
    case (finish n cx h inp claim status outcome w' now result s' response s'')
    note frm = finish_frame [OF good(2) finish(6) [simplified]]
    note frame = same [OF conjI [OF conjunct1 [OF frm] conjunct1 [OF conjunct2 [OF frm]]]]
    have fin: "good k s'' \<and> held k s' \<le> held k s'' + weight (claim_key claim = Some k \<and> gives_back result)"
      by (rule finish_delivery_effect [OF frame(1)]) (use finish(7) in simp)
    have "S + waiting k (remove_nth n (web_tasks c)) \<le> R + held k s''"
      by (rule covered_removed [OF conjunct1 [OF fin] finish(3) le, where given = False])
        (use fin frm frame(2) in \<open>simp_all add: weight_def\<close>)
    with fin finish show ?thesis by (auto simp: covered_def weight_def reopens_def)
  next
    case (cancel n)
    note dr = drop_effect [OF good(1), of "task_claim (web_tasks c ! n)"]
    have "S + waiting k (remove_nth n (web_tasks c)) \<le>
        R + held k (guard_drop st (task_claim (web_tasks c ! n)) (web_state c))"
      by (rule covered_removed [OF conjunct1 [OF dr] cancel(3) le, where given = False])
        (use dr in \<open>simp_all add: weight_def\<close>)
    with dr cancel show ?thesis by (auto simp: covered_def weight_def reopens_def)
  next
    case (crash lim')
    with good(1) le show ?thesis by (auto simp: covered_def weight_def reopens_def)
  next
    case (operate op ev s')
    with operator_effect [OF good(1) operate(3), of ev s'] le show ?thesis
      by (auto simp: covered_def weight_def)
  next
    case (administer s')
    with same [OF admin_frame [OF good(2) administer(3)]] le show ?thesis
      by (auto simp: covered_def weight_def reopens_def)
  qed
qed

lemma run_covered:
  assumes "web_run (host reg api) (keeps usable k) admin c ls c'" and "covered k S R c"
  shows "covered k (S + starts_of k ls) (R + reopenings_of k ls) c'"
  using assms
proof (induction arbitrary: S R rule: web_run.induct)
  case (run_done c)
  then show ?case by (simp add: starts_of_def reopenings_of_def)
next
  case (run_more c l c1 ls c2)
  from run_more.IH [OF step_covered [OF run_more(1) run_more.prems]] show ?case
    by (simp add: starts_of_def reopenings_of_def weight_def ac_simps split: if_splits)
qed

lemma at_most_once:
  assumes "web_run (host reg api) (keeps usable k) admin c ls c'"
    and "inv (web_state c)" and "ents (web_state c) k = None" and "waiting k (web_tasks c) = 0"
  shows "starts_of k ls \<le> reopenings_of k ls + 1"
proof -
  have "covered k 0 0 c"
    using assms(2-4) by (simp add: covered_def good_def held_def retained_entry_def)
  from run_covered [OF assms(1) this] have "starts_of k ls \<le> reopenings_of k ls + held k (web_state c')"
    by (simp add: covered_def)
  also have "held k (web_state c') \<le> 1" by (simp add: held_def weight_def)
  finally show ?thesis by simp
qed

end

end
