(* ===== verification/Host_Signatures.thy ===== *)
theory Host_Signatures
  imports Webhook_Verify Dedup_Model
begin

text \<open>
  Properties of webhook signatures: what the verifiers accept, in terms of the secret, the bytes that
  were signed and the clock; that the signed form is unambiguous; and that a signed request cannot be
  replayed for longer than replay state is kept.
\<close>

section \<open>Reading headers\<close>

lemma one_header_loop_Ok:
  "one_header_loop n found hs = Ok v \<longleftrightarrow>
     (case found of None \<Rightarrow> map snd (filter (\<lambda>h. fst h = n) hs) = [v]
      | Some w \<Rightarrow> w = v \<and> filter (\<lambda>h. fst h = n) hs = [])"
  by (induction n found hs rule: one_header_loop.induct) (auto simp: ok_or_Ok_iff split: option.splits)

lemma exactly_one_header_Ok: "exactly_one_header r n = Ok v \<longleftrightarrow> header_values r n = [v]"
  by (simp add: exactly_one_header_def one_header_loop_Ok header_values_def)

lemma dec_int_ascii: "\<forall>c\<in>set (dec_int i). c < 128"
  using dec_int_chars by fastforce

lemma parse_canonical_timestamp_Ok:
  "parse_canonical_timestamp v = Ok t \<longleftrightarrow> 0 \<le> t \<and> t \<le> i64_max \<and> v = ascii_bytes (dec_int t)"
proof
  assume "parse_canonical_timestamp v = Ok t"
  then obtain s where s: "from_utf8 v = Some s" "parse_i64 s = Some t" "0 \<le> t" "dec_int t = s"
    by (auto simp: parse_canonical_timestamp_def split: option.splits if_splits)
  moreover have "t \<le> i64_max"
    using s(2) by (auto simp: parse_i64_def Let_def in_i64_def split: if_splits)
  moreover have "v = ascii_bytes s" using from_utf8_Some_ascii [OF s(1)] s(4) dec_int_ascii by blast
  ultimately show "0 \<le> t \<and> t \<le> i64_max \<and> v = ascii_bytes (dec_int t)" by simp
next
  assume "0 \<le> t \<and> t \<le> i64_max \<and> v = ascii_bytes (dec_int t)"
  then show "parse_canonical_timestamp v = Ok t"
    by (simp add: parse_canonical_timestamp_def from_utf8_ascii [OF dec_int_ascii] parse_dec_int)
qed

text \<open>A signature header: 64 hexadecimal digits in either case.\<close>

definition hex_of :: "bytes \<Rightarrow> hmac_signature \<Rightarrow> bool" where
  "hex_of v s \<longleftrightarrow> length s = 32 \<and> (\<exists>x. v = ascii_bytes x \<and> map to_ascii_lowercase x = to_hex s)"

lemma decode_nibble_lowercase: "decode_nibble (of_nat (to_ascii_lowercase c)) = decode_nibble (of_nat c)"
proof (cases "65 \<le> c \<and> c \<le> 90")
  case True
  then have mem: "c \<in> set [65..<91]" unfolding set_upt by simp
  have "\<forall>c\<in>set [65..<91]. decode_nibble (of_nat (to_ascii_lowercase c)) = decode_nibble (of_nat c)"
    by code_simp
  from bspec [OF this mem] show ?thesis .
next
  case False
  then show ?thesis by (auto simp: to_ascii_lowercase_def)
qed

lemma decode_pairs_lowercase:
  "decode_pairs (ascii_bytes (map to_ascii_lowercase x)) = decode_pairs (ascii_bytes x)"
  by (induction x rule: induct_list012) (simp_all add: ascii_bytes_def decode_nibble_lowercase split: option.split)

lemma lowercase_ascii: "c < 128 \<longleftrightarrow> to_ascii_lowercase c < 128"
  by (auto simp: to_ascii_lowercase_def)

lemma parse_signature_Ok: "parse_signature v = Ok s \<longleftrightarrow> hex_of v s"
proof
  assume "parse_signature v = Ok s"
  then obtain x where x: "from_utf8 v = Some x" "from_hex x = Ok s"
    by (auto simp: parse_signature_def map_err_Ok_iff split: option.splits)
  from from_hex_Ok [OF x(2)] have "length s = 32" "\<forall>c\<in>set x. c < 128" "to_hex s = map to_ascii_lowercase x"
    by auto
  with from_utf8_Some_ascii [OF x(1)] show "hex_of v s" unfolding hex_of_def by metis
next
  assume "hex_of v s"
  then obtain x where x: "length s = 32" "v = ascii_bytes x" "map to_ascii_lowercase x = to_hex s"
    by (auto simp: hex_of_def)
  have "\<forall>c\<in>set (map to_ascii_lowercase x). c < 128" using x(3) to_hex_ascii by simp
  then have ascii: "\<forall>c\<in>set x. c < 128" using lowercase_ascii by auto
  have "length x = 64" using arg_cong [OF x(3), of length] x(1) by (simp add: length_to_hex)
  moreover have "str_len x = length x" using ascii by (auto intro: str_len_ascii)
  moreover have "decode_pairs (ascii_bytes x) = Ok s"
    using decode_pairs_lowercase [of x] decode_to_hex [of s] x(3) by simp
  ultimately have "from_hex x = Ok s"
    by (simp add: from_hex_def utf8_bytes_ascii [OF ascii] HMAC_SHA256_HEX_BYTES_def HMAC_SHA256_BYTES_def)
  with x(2) from_utf8_ascii [OF ascii] show "parse_signature v = Ok s"
    by (simp add: parse_signature_def)
qed

lemma verify_freshness_Ok:
  "verify_freshness now t tol = Ok u \<longleftrightarrow> 0 \<le> now \<and> \<bar>now - t\<bar> \<le> int (as_secs tol)"
  by (auto simp: verify_freshness_def)

definition accepted_secrets :: "resolved_secret \<Rightarrow> secret_value set" where
  "accepted_secrets s = insert (rs_current s) (set_option (rs_previous s))"

lemma verify_webhook_iff:
  "verify_webhook hmac s i c \<longleftrightarrow> (\<exists>k\<in>accepted_secrets s. c = hmac k (canonical_webhook_bytes i))"
  by (auto simp: verify_webhook_def Let_def accepted_secrets_def sign_canonical split: option.splits)

lemma source_resolve_Ok: "source_resolve provider ref = Ok s \<longleftrightarrow> provider ref = Ok s"
  by (simp add: source_resolve_def map_err_Ok_iff)

lemma verifier_namespace_ok:
  "provider_namespace BONDRY_HMAC_NAMESPACE = Ok n \<longleftrightarrow> n = BONDRY_HMAC_NAMESPACE"
  "provider_namespace GITHUB_HMAC_NAMESPACE = Ok n \<longleftrightarrow> n = GITHUB_HMAC_NAMESPACE"
  "provider_namespace STRIPE_HMAC_NAMESPACE = Ok n \<longleftrightarrow> n = STRIPE_HMAC_NAMESPACE"
proof -
  have "provider_namespace BONDRY_HMAC_NAMESPACE = Ok BONDRY_HMAC_NAMESPACE"
    "provider_namespace GITHUB_HMAC_NAMESPACE = Ok GITHUB_HMAC_NAMESPACE"
    "provider_namespace STRIPE_HMAC_NAMESPACE = Ok STRIPE_HMAC_NAMESPACE"
    by code_simp+
  then show "provider_namespace BONDRY_HMAC_NAMESPACE = Ok n \<longleftrightarrow> n = BONDRY_HMAC_NAMESPACE"
    "provider_namespace GITHUB_HMAC_NAMESPACE = Ok n \<longleftrightarrow> n = GITHUB_HMAC_NAMESPACE"
    "provider_namespace STRIPE_HMAC_NAMESPACE = Ok n \<longleftrightarrow> n = STRIPE_HMAC_NAMESPACE" by auto
qed

lemma tolerance_bounds:
  assumes "VerifiedFreshness_new t tol = Ok f"
  shows "f = \<lparr>vf_signed_at = t, vf_tolerance = tol\<rparr>" "30 \<le> as_secs tol" "as_secs tol \<le> 900"
    "VerifiedFreshness_new u tol = Ok \<lparr>vf_signed_at = u, vf_tolerance = tol\<rparr>"
proof -
  from assms have tol: "30000000000 \<le> tol" "tol \<le> 900000000000"
    by (auto simp: VerifiedFreshness_new_def MIN_FRESHNESS_TOLERANCE_def MAX_FRESHNESS_TOLERANCE_def
        from_secs_def split: if_splits)
  from div_le_mono [OF tol(1), of 1000000000] div_le_mono [OF tol(2), of 1000000000]
  show "30 \<le> as_secs tol" "as_secs tol \<le> 900" by (simp_all add: as_secs_def)
  show "f = \<lparr>vf_signed_at = t, vf_tolerance = tol\<rparr>"
    "VerifiedFreshness_new u tol = Ok \<lparr>vf_signed_at = u, vf_tolerance = tol\<rparr>"
    using assms by (auto simp: VerifiedFreshness_new_def split: if_splits)
qed

lemma hmac_new_Ok:
  assumes "BondryHmac_with_tolerance ref tol = Ok v \<or> StripeHmac_with_tolerance ref tol = Ok v"
  shows "hv_reference v = ref" "hv_tolerance v = tol" "\<exists>f. VerifiedFreshness_new 0 tol = Ok f"
  using assms
  by (auto simp: BondryHmac_with_tolerance_def StripeHmac_with_tolerance_def validate_tolerance_def
      bindR_Ok_iff split: sum.splits)

section \<open>Properties\<close>

text \<open>C3 (equivalence): the Bondry verifier accepts a request exactly when it carries one delivery
  identifier of 1 to 128 bytes, one canonical decimal timestamp within the tolerance of the clock, and
  one hexadecimal signature equal to the HMAC, under the current or the previous secret, of the
  canonical bytes of that timestamp, identifier and the exact body; the identity it returns is the
  hashed identifier with that timestamp as freshness.\<close>

theorem bondry_accepts_exactly:
  assumes "BondryHmac_with_tolerance ref tol = Ok v"
  shows "wv_verify (BondryHmacSha256Verifier hmac sha provider v) r now = Ok i \<longleftrightarrow>
    (\<exists>delivery t header secrets k.
       header_values r BONDRY_WEBHOOK_DELIVERY_ID_HEADER = [delivery] \<and>
       1 \<le> length delivery \<and> length delivery \<le> 128 \<and>
       header_values r BONDRY_WEBHOOK_TIMESTAMP_HEADER = [ascii_bytes (dec_int t)] \<and>
       0 \<le> t \<and> t \<le> i64_max \<and> 0 \<le> now \<and> \<bar>now - t\<bar> \<le> int (as_secs tol) \<and>
       header_values r BONDRY_WEBHOOK_SIGNATURE_HEADER = [header] \<and>
       provider ref = Ok secrets \<and> k \<in> accepted_secrets secrets \<and>
       hex_of header (hmac k (canonical_webhook_bytes
         \<lparr>wsi_timestamp = t, wsi_delivery_id = delivery, wsi_body = vr_body r\<rparr>)) \<and>
       i = Some \<lparr>ti_namespace = BONDRY_HMAC_NAMESPACE, ti_hash = sha delivery,
         ti_freshness = Some \<lparr>vf_signed_at = t, vf_tolerance = tol\<rparr>\<rparr>)"
proof -
  note v = hmac_new_Ok [OF disjI1 [OF assms]]
  have ns: "hv_namespace v = BONDRY_HMAC_NAMESPACE"
    using assms by (auto simp: BondryHmac_with_tolerance_def bindR_Ok_iff verifier_namespace_ok)
  from v(3) have fresh: "VerifiedFreshness_new t tol = Ok \<lparr>vf_signed_at = t, vf_tolerance = tol\<rparr>" for t
    using tolerance_bounds(4) by blast
  note iffs = exactly_one_header_Ok parse_canonical_timestamp_Ok parse_signature_Ok verify_freshness_Ok
    verify_webhook_iff source_resolve_Ok
  show ?thesis (is "?verify = Ok i \<longleftrightarrow> ?accepted")
  proof
    assume "?verify = Ok i"
    then show ?accepted
      unfolding BondryHmacSha256Verifier_def webhook_verifier.simps bondry_verify_def
      by (auto simp: bindR_Ok_iff iffs v(1,2) ns fresh from_normalized_def MAX_DELIVERY_ID_BYTES_def
          Suc_le_eq split: if_splits)
  next
    assume ?accepted
    then obtain delivery t header secrets k where
      a: "exactly_one_header r BONDRY_WEBHOOK_DELIVERY_ID_HEADER = Ok delivery" "delivery \<noteq> []"
        "length delivery \<le> 128"
      and b: "exactly_one_header r BONDRY_WEBHOOK_TIMESTAMP_HEADER = Ok (ascii_bytes (dec_int t))"
        "parse_canonical_timestamp (ascii_bytes (dec_int t)) = Ok t" "verify_freshness now t tol = Ok ()"
      and c: "exactly_one_header r BONDRY_WEBHOOK_SIGNATURE_HEADER = Ok header"
        "source_resolve provider ref = Ok secrets" "k \<in> accepted_secrets secrets"
        "parse_signature header = Ok (hmac k (canonical_webhook_bytes
           \<lparr>wsi_timestamp = t, wsi_delivery_id = delivery, wsi_body = vr_body r\<rparr>))"
      and i: "i = Some \<lparr>ti_namespace = BONDRY_HMAC_NAMESPACE, ti_hash = sha delivery,
         ti_freshness = Some \<lparr>vf_signed_at = t, vf_tolerance = tol\<rparr>\<rparr>"
      unfolding iffs by (auto simp: Suc_le_eq)
    with verify_webhook_iff [of hmac secrets] show "?verify = Ok i"
      by (auto simp: BondryHmacSha256Verifier_def bondry_verify_def v(1,2) ns fresh from_normalized_def
          MAX_DELIVERY_ID_BYTES_def)
  qed
qed

text \<open>C33 (safety): a signature covers one reading of a request. What \<open>sign_webhook\<close> feeds to the HMAC
  piece by piece is the canonical encoding, and no two different triples of timestamp, delivery
  identifier and body have the same canonical bytes, whatever newlines or digits they contain.\<close>

theorem signing_unambiguous:
  "sign_webhook hmac k a = hmac k (canonical_webhook_bytes a) \<and>
   (canonical_webhook_bytes a = canonical_webhook_bytes b \<longleftrightarrow> a = b)"
  by (simp add: sign_webhook_def sign_canonical canonical_injective)

text \<open>C34 (bounds): a timestamped request cannot outlive replay protection. If the Bondry or the Stripe
  verifier accepts one request at two times, whatever the secrets were then, it returned the same
  identity both times and the times are at most twice the tolerance apart, which is below half an hour
  and below the shortest retention a deduplication store can be configured with.\<close>

theorem replay_window:
  assumes "(V = BondryHmacSha256Verifier hmac sha \<and> BondryHmac_with_tolerance ref tol = Ok v) \<or>
      (V = StripeHmacSha256Verifier hmac sha \<and> StripeHmac_with_tolerance ref tol = Ok v)"
    and "wv_verify (V provider v) r now = Ok i" and "wv_verify (V provider' v) r now' = Ok i'"
  shows "i = i' \<and> \<bar>now - now'\<bar> \<le> 2 * int (as_secs tol) \<and>
    2 * int (as_secs tol) \<le> 1800 \<and> 1000 * (2 * as_secs tol) < as_millis MIN_DEDUP_STORE_RETENTION"
proof -
  have new: "BondryHmac_with_tolerance ref tol = Ok v \<or> StripeHmac_with_tolerance ref tol = Ok v"
    using assms(1) by blast
  note tol = hmac_new_Ok [OF new]
  have bound: "as_secs tol \<le> 900" using tol(3) tolerance_bounds(3) by blast
  have near: "i = i' \<and> (\<exists>t. \<bar>now - t\<bar> \<le> int (as_secs tol) \<and> \<bar>now' - t\<bar> \<le> int (as_secs tol))"
    using assms
    by (auto simp: BondryHmacSha256Verifier_def bondry_verify_def StripeHmacSha256Verifier_def stripe_verify_def
        bindR_Ok_iff map_err_Ok_iff verify_freshness_Ok body_identity_def tol(2) split: if_splits)
  then obtain t where "\<bar>now - t\<bar> \<le> int (as_secs tol)" "\<bar>now' - t\<bar> \<le> int (as_secs tol)" by blast
  then have "\<bar>now - now'\<bar> \<le> 2 * int (as_secs tol)" by linarith
  with near bound show ?thesis
    by (simp add: as_millis_def MIN_DEDUP_STORE_RETENTION_def from_secs_def)
qed

section \<open>Witnesses\<close>

text \<open>A signed request, under a toy HMAC and digest.\<close>

definition toy_hmac :: "bytes \<Rightarrow> bytes \<Rightarrow> bytes" where
  "toy_hmac k m = replicate 32 (of_nat (length m))"

definition toy_sha :: "bytes \<Rightarrow> bytes" where
  "toy_sha x = take 32 (x @ replicate 32 0)"

definition toy_provider :: secret_provider where
  "toy_provider ref = Ok \<lparr>rs_current = [1, 2], rs_previous = None\<rparr>"

definition toy_verifier :: hmac_verifier where
  "toy_verifier = \<lparr>hv_reference = lit ''hook'', hv_namespace = BONDRY_HMAC_NAMESPACE,
     hv_tolerance = PROVIDER_SIGNATURE_TIMESTAMP_TOLERANCE\<rparr>"

definition toy_input :: webhook_signing_input where
  "toy_input = \<lparr>wsi_timestamp = 1000, wsi_delivery_id = [97], wsi_body = ascii_bytes (lit ''{}'')\<rparr>"

definition signed_request :: verification_request where
  "signed_request =
     \<lparr>vr_method = lit ''POST'', vr_target = lit ''/hook'',
      vr_headers = [(BONDRY_WEBHOOK_DELIVERY_ID_HEADER, [97]),
        (BONDRY_WEBHOOK_TIMESTAMP_HEADER, ascii_bytes (dec_int 1000)),
        (BONDRY_WEBHOOK_SIGNATURE_HEADER, ascii_bytes (to_hex (sign_webhook toy_hmac [1, 2] toy_input)))],
      vr_body = ascii_bytes (lit ''{}''), vr_peer = VerificationPeer_v4 [127, 0, 0, 1] 9000\<rparr>"

definition toy_identity :: trusted_identity where
  "toy_identity = \<lparr>ti_namespace = BONDRY_HMAC_NAMESPACE, ti_hash = toy_sha [97],
     ti_freshness = Some \<lparr>vf_signed_at = 1000, vf_tolerance = PROVIDER_SIGNATURE_TIMESTAMP_TOLERANCE\<rparr>\<rparr>"

lemma toy_verifier_new:
  "BondryHmac_with_tolerance (lit ''hook'') PROVIDER_SIGNATURE_TIMESTAMP_TOLERANCE = Ok toy_verifier"
  by (simp add: BondryHmac_with_tolerance_def validate_tolerance_def VerifiedFreshness_new_def
      MIN_FRESHNESS_TOLERANCE_def MAX_FRESHNESS_TOLERANCE_def PROVIDER_SIGNATURE_TIMESTAMP_TOLERANCE_def
      from_secs_def verifier_namespace_ok [THEN iffD2, OF refl] toy_verifier_def)

lemma header_names_distinct:
  "BONDRY_WEBHOOK_DELIVERY_ID_HEADER \<noteq> BONDRY_WEBHOOK_TIMESTAMP_HEADER"
  "BONDRY_WEBHOOK_DELIVERY_ID_HEADER \<noteq> BONDRY_WEBHOOK_SIGNATURE_HEADER"
  "BONDRY_WEBHOOK_TIMESTAMP_HEADER \<noteq> BONDRY_WEBHOOK_SIGNATURE_HEADER"
  by (simp_all add: BONDRY_WEBHOOK_DELIVERY_ID_HEADER_def BONDRY_WEBHOOK_TIMESTAMP_HEADER_def
      BONDRY_WEBHOOK_SIGNATURE_HEADER_def)

lemma signed_request_headers:
  "header_values signed_request BONDRY_WEBHOOK_DELIVERY_ID_HEADER = [[97]]"
  "header_values signed_request BONDRY_WEBHOOK_TIMESTAMP_HEADER = [ascii_bytes (dec_int 1000)]"
  "header_values signed_request BONDRY_WEBHOOK_SIGNATURE_HEADER =
     [ascii_bytes (to_hex (sign_webhook toy_hmac [1, 2] toy_input))]"
  using header_names_distinct
  by (simp_all add: header_values_def signed_request_def)

lemma to_hex_lowercase: "map to_ascii_lowercase (to_hex s) = to_hex s"
proof -
  have "\<forall>n\<in>set [0..<16]. to_ascii_lowercase (HEX ! n) = HEX ! n" by code_simp
  then have "to_ascii_lowercase (HEX ! n) = HEX ! n" if "n < 16" for n using that by (metis atLeast_upt lessThan_iff)
  then show ?thesis using unat_nibbles by (induction s) (simp_all add: to_hex_def)
qed

lemma signed_request_hex: "hex_of (ascii_bytes (to_hex (toy_hmac k m))) (toy_hmac k m)"
  unfolding hex_of_def using to_hex_lowercase by (auto simp: toy_hmac_def)

theorem bondry_accepts_exactly_witness:
  "wv_verify (BondryHmacSha256Verifier toy_hmac toy_sha toy_provider toy_verifier) signed_request 1100 =
     Ok (Some toy_identity)"
proof -
  let ?input = "\<lparr>wsi_timestamp = 1000, wsi_delivery_id = [97], wsi_body = vr_body signed_request\<rparr>"
  have "?input = toy_input" by (simp add: toy_input_def signed_request_def)
  then have "hex_of (ascii_bytes (to_hex (sign_webhook toy_hmac [1, 2] toy_input)))
      (toy_hmac [1, 2] (canonical_webhook_bytes ?input))"
    using signed_request_hex by (simp add: sign_webhook_def sign_canonical)
  moreover have "[1, 2] \<in> accepted_secrets \<lparr>rs_current = [1, 2], rs_previous = None\<rparr>"
    by (simp add: accepted_secrets_def)
  moreover have "\<bar>1100 - 1000\<bar> \<le> int (as_secs PROVIDER_SIGNATURE_TIMESTAMP_TOLERANCE)"
    by (simp add: as_secs_def PROVIDER_SIGNATURE_TIMESTAMP_TOLERANCE_def from_secs_def)
  ultimately show ?thesis
    unfolding bondry_accepts_exactly [OF toy_verifier_new] signed_request_headers
    by (intro exI conjI) (auto simp: toy_provider_def toy_identity_def i64_max_def)
qed

lemma signed_request_accepted:
  assumes "900 \<le> now" and "now \<le> 1200"
  shows "bondry_verify toy_hmac toy_sha toy_provider toy_verifier signed_request now = Ok (Some toy_identity)"
proof -
  have v: "hv_tolerance toy_verifier = PROVIDER_SIGNATURE_TIMESTAMP_TOLERANCE"
    "hv_namespace toy_verifier = BONDRY_HMAC_NAMESPACE" by (simp_all add: toy_verifier_def)
  have t: "parse_canonical_timestamp (ascii_bytes (dec_int 1000)) = Ok 1000"
    by (simp add: parse_canonical_timestamp_Ok i64_max_def)
  have f: "verify_freshness now 1000 PROVIDER_SIGNATURE_TIMESTAMP_TOLERANCE = Ok ()"
    using assms by (simp add: verify_freshness_Ok as_secs_def PROVIDER_SIGNATURE_TIMESTAMP_TOLERANCE_def from_secs_def)
  have s: "parse_signature (ascii_bytes (to_hex (sign_webhook toy_hmac [1, 2] toy_input))) =
      Ok (sign_webhook toy_hmac [1, 2] toy_input)"
    using signed_request_hex by (simp add: parse_signature_Ok sign_webhook_def sign_canonical)
  have w: "verify_webhook toy_hmac \<lparr>rs_current = [1, 2], rs_previous = None\<rparr>
      \<lparr>wsi_timestamp = 1000, wsi_delivery_id = [97], wsi_body = vr_body signed_request\<rparr>
      (sign_webhook toy_hmac [1, 2] toy_input)"
    by (simp add: verify_webhook_def sign_webhook_def toy_input_def signed_request_def)
  have n: "VerifiedFreshness_new 1000 PROVIDER_SIGNATURE_TIMESTAMP_TOLERANCE =
      Ok \<lparr>vf_signed_at = 1000, vf_tolerance = PROVIDER_SIGNATURE_TIMESTAMP_TOLERANCE\<rparr>"
    by (simp add: VerifiedFreshness_new_def MIN_FRESHNESS_TOLERANCE_def MAX_FRESHNESS_TOLERANCE_def
        PROVIDER_SIGNATURE_TIMESTAMP_TOLERANCE_def from_secs_def)
  show ?thesis
    unfolding bondry_verify_def
    using signed_request_headers [folded exactly_one_header_Ok] t f s w n
    by (simp add: v source_resolve_def toy_provider_def from_normalized_def toy_identity_def
        MAX_DELIVERY_ID_BYTES_def)
qed

theorem replay_window_witness: "\<bar>1100 - (950 :: int)\<bar> \<le> 2 * int (as_secs PROVIDER_SIGNATURE_TIMESTAMP_TOLERANCE)"
proof -
  have acc: "wv_verify (BondryHmacSha256Verifier toy_hmac toy_sha toy_provider toy_verifier) signed_request now =
      Ok (Some toy_identity)" if "900 \<le> now" "now \<le> 1200" for now
    using signed_request_accepted [OF that] by (simp add: BondryHmacSha256Verifier_def)
  note first = acc [of 1100] and second = acc [of 950]
  show ?thesis
    using replay_window [OF disjI1 [OF conjI [OF refl toy_verifier_new]] first second] by simp
qed

end
