(* ===== verification/Host_Webhook.thy ===== *)
theory Host_Webhook
  imports Webhook_System Sql_Dedup Host_Dispatch Host_Signatures
begin

text \<open>
  Webhook ingress as the host runs it: the dispatcher with the grants and the audit log of the encrypted
  database, and the replay store in the same database. The locale \<open>webhook_host\<close> is interpreted on
  these; the properties of a route and of its deliveries are stated for them.
\<close>

section \<open>The database behind a route\<close>

definition dedup_part :: "conn \<Rightarrow> dedup_row list \<times> int \<times> usage_row" where
  "dedup_part c = (db_dedup (cn_data c), db_seq_dedup (cn_data c), db_usage_dedup (cn_data c))"

lemma dedup_part_frame:
  assumes "sql_dedup_inv limits c" and "dedup_part c' = dedup_part c"
  shows "sql_dedup_inv limits c' \<and> sql_dd_ents c' = sql_dd_ents c"
  using assms by (auto simp: sql_dedup_inv_def dedup_wf_def dedup_part_def sql_dd_ents_def dd_ents_def fun_eq_iff)

lemma policy_dedup_part: "dedup_part (snd (sql_policy c q)) = dedup_part c"
  using sql_policy_result(1) [of c q] by (cases "sql_policy c q") (simp add: dedup_part_def)

lemma audit_dedup_part: "dedup_part (snd (sql_audit_record c e)) = dedup_part c"
proof -
  obtain r c' where run: "sql_audit_record c e = (r, c')" by (cases "sql_audit_record c e")
  then have "dedup_part c' = dedup_part c"
    by (cases rule: sql_audit_record_result) (simp_all add: dedup_part_def)
  with run show ?thesis by simp
qed

lemma admin_dedup_part: "sql_admin c c' \<Longrightarrow> dedup_part c' = dedup_part c"
proof -
  have "dedup_part (snd (sql_add_grant c g)) = dedup_part c" for g
    by (cases "sql_add_grant c g")
      (auto simp: sql_add_grant_def dedup_part_def elim!: attempt_cases split: if_splits)
  moreover have "dedup_part (snd (sql_remove_grant c g)) = dedup_part c" for g
    by (cases "sql_remove_grant c g")
      (auto simp: sql_remove_grant_def dedup_part_def elim!: attempt_cases)
  ultimately show "sql_admin c c' \<Longrightarrow> dedup_part c' = dedup_part c"
    by (auto simp: sql_admin_def)
qed

interpretation sql_webhook: webhook_host "sql_dedup_store limits" "sql_dedup_inv limits"
  sql_dd_ents valid_dedup_key "retention_ms limits" sql_policy sql_audit_record sql_admin for limits
  by unfold_locales
    (rule dedup_part_frame, assumption, simp add: policy_dedup_part audit_dedup_part admin_dedup_part)+

definition sql_ingress :: "dedup_store_limits \<Rightarrow> ('v, 'w) registry \<Rightarrow> 'v json_api \<Rightarrow> ('v, 'w, conn) ingress_context" where
  "sql_ingress limits reg api =
     \<lparr>ic_service = sql_host reg, ic_store = sql_dedup_store limits, ic_json = api\<rparr>"

section \<open>Header selection\<close>

lemma select_loop_spec:
  assumes "distinct selected" and "unique = set selected"
  shows "distinct (select_loop selected unique names) \<and>
    set (select_loop selected unique names) = set selected \<union> set names"
  using assms by (induction selected unique names rule: select_loop.induct) (simp_all, blast+)

lemma find_SomeD: "find P xs = Some x \<Longrightarrow> x \<in> set xs \<and> P x"
  by (auto simp: find_Some_iff)

lemma validate_semantics_Ok:
  "validate_semantics semantics effect = Ok () \<longleftrightarrow> (effect = ReadOnly \<longleftrightarrow> semantics = SemReadOnly)"
  by (cases semantics; cases effect) (simp_all add: validate_semantics_def)

lemma selected_headers_Ok:
  assumes "selected_headers mapping v = Ok selected"
  shows "distinct selected \<and> length selected \<le> 32 \<and>
    set selected = set (wv_selected_headers v) \<union> {CONTENT_TYPE} \<union> set (metadata_headers mapping) \<and>
    set (wv_credential_headers v) \<subseteq> set (wv_selected_headers v) \<and>
    set (wv_credential_headers v) \<inter> set (metadata_headers mapping) = {}"
  using assms select_loop_spec [of "[]" "{}" "wv_selected_headers v @ [CONTENT_TYPE] @ metadata_headers mapping"]
  by (auto simp: selected_headers_def Let_def MAX_SELECTED_HEADERS_def list_ex_iff split: if_splits)

section \<open>Settling a claim\<close>

definition settled_state :: "dispatch_error + 'v \<Rightarrow> dedup_state option" where
  "settled_state result = (if gives_back result then None
     else if \<exists>a. result = Err (DispatchAudit a) then Some Unknown else Some Completed)"

lemma dedup_ok_own:
  assumes "dedup_ok limits ev c c'" and "ev \<in> {EvCompleted k t, EvUnknown k, EvReleased k, EvNothing}"
  shows "sql_dedup_inv limits c' \<and> (\<forall>k'. k' \<noteq> k \<longrightarrow> sql_dd_ents c' k' = sql_dd_ents c k') \<and>
    map_option en_state (sql_dd_ents c' k) =
      (case ev of EvCompleted _ _ \<Rightarrow> Some Completed | EvUnknown _ \<Rightarrow> Some Unknown | EvReleased _ \<Rightarrow> None
       | _ \<Rightarrow> map_option en_state (sql_dd_ents c k))"
proof -
  have "dedup_step (retention_ms limits) ev (sql_dd_ents c) (sql_dd_ents c')" "sql_dedup_inv limits c'"
    using assms(1) by (simp_all add: dedup_ok_def)
  then show ?thesis using assms(2) by (auto elim: dedup_step.cases)
qed

lemma settle_claim_ok:
  assumes "sql_dedup_inv limits c"
    and "settle_claim (sql_dedup_store limits) result (Some (DedupGuard_new k t)) c = (ok, Some g', c1)"
  shows "dg_key g' = (if ok then None else Some k) \<and> dg_updated_at g' = t \<and>
    dedup_ok limits (if \<not> ok then EvNothing else if gives_back result then EvReleased k
      else if \<exists>a. result = Err (DispatchAudit a) then EvUnknown k else EvCompleted k t) c c1"
proof -
  let ?st = "sql_dedup_store limits" and ?g = "DedupGuard_new k t"
  consider "gives_back result" "guard_release ?st ?g c = (ok, g', c1)"
    | "\<not> gives_back result" "\<exists>a. result = Err (DispatchAudit a)" "guard_mark_unknown ?st ?g c = (ok, g', c1)"
    | "\<not> gives_back result" "\<nexists>a. result = Err (DispatchAudit a)" "guard_complete ?st ?g c = (ok, g', c1)"
    using assms(2) by (cases result rule: gives_back.cases) (auto simp: settle_claim_def split: prod.splits)
  then show ?thesis
  proof cases
    case 1
    then show ?thesis using sql_release_ok [OF assms(1), of k]
      by (auto simp: guard_release_def DedupGuard_new_def split: prod.splits sum.splits)
  next
    case 2
    then show ?thesis using sql_mark_unknown_ok [OF assms(1), of k t]
      by (auto simp: guard_mark_unknown_def DedupGuard_new_def split: prod.splits sum.splits)
  next
    case 3
    then show ?thesis using sql_complete_ok [OF assms(1), of k t]
      by (auto simp: guard_complete_def DedupGuard_new_def split: prod.splits sum.splits)
  qed
qed

lemma foldl_header_cong:
  assumes "\<And>name. name \<in> set names \<Longrightarrow> header_values r name = header_values r' name"
  shows "foldl (charge_header r) x names = foldl (charge_header r') x names"
    "envelope_metadata api r m names = envelope_metadata api r' m names"
  using assms by (induction names arbitrary: x m) (simp_all add: charge_header_def)

lemma map_payload_cong:
  assumes "vr_body r = vr_body r'"
    and "\<And>name. name \<in> set (metadata_headers mapping) \<Longrightarrow> header_values r name = header_values r' name"
  shows "map_payload api mapping r limits = map_payload api mapping r' limits"
  using assms foldl_header_cong(1) [of "metadata_headers mapping" r r']
    foldl_header_cong(2) [of "metadata_headers mapping" r r' api]
  by (cases mapping) (simp_all add: map_payload_def retained_charge_def metadata_charge_def cong: if_cong)

section \<open>Properties\<close>

text \<open>C2 (safety): end to end, a webhook delivery whose replay state is kept for good starts its handler at
  most once. The state of \<open>k\<close> is kept for good when the routes that can yield the identity \<open>k\<close> claim it with
  \<open>RetainCompleted\<close>: mutations that are not idempotent, verified by a scheme whose identities carry no
  freshness (claims with \<open>ExpireCompleted\<close> may be dispatched again after their retention and are not
  covered). However many requests arrive on however many such routes, whatever is cancelled, crashes, fails
  in the database or is changed by an administrator in between, the handler starts for \<open>k\<close> at most once
  more than an operator allowed a retry of \<open>k\<close> or cleared completed records.\<close>

theorem webhook_at_most_once:
  assumes "web_run (sql_ingress limits reg api) (keeps valid_dedup_key k) sql_admin c ls c'"
    and "sql_dedup_inv limits (web_state c)" and "sql_dd_ents (web_state c) k = None"
    and "waiting k (web_tasks c) = 0"
  shows "starts_of k ls \<le> reopenings_of k ls + 1"
  by (rule sql_webhook.at_most_once [OF assms(1) [unfolded sql_ingress_def from_shared_def] assms(2-4)])

text \<open>C4 (type): what the type of a constructed route guarantees. A route exists only for a registered
  capability that the route's principal is granted on the webhook adapter and whose effect agrees with the
  declared semantics; a mutation that is not idempotent has a verifier that always yields an identity and
  a persistent replay store; the selected headers are those of the verifier, the content type and the
  metadata, without repetition and within the limits; credential headers are selected and are never
  metadata.\<close>

theorem route_well_formed:
  assumes "WebhookRoute_new cfg v (sql_ingress limits reg api) c = (Ok route, c')"
  shows "rt_configuration route = cfg \<and> rt_verifier route = v \<and> rt_adapter route = lit ''webhook'' \<and>
    (\<exists>d\<in>set (descriptors reg). cd_id d = wc_capability cfg \<and>
       (pr_id (wc_principal cfg), lit ''webhook'', cd_id d) \<in> sql_grants c \<and>
       (cd_effect d = ReadOnly \<longleftrightarrow> wc_semantics cfg = SemReadOnly)) \<and>
    (wc_semantics cfg = SemNonIdempotentMutation \<longrightarrow> wv_guarantee v = GuaranteeRequired) \<and>
    distinct (rt_selected_headers route) \<and>
    set (rt_selected_headers route) =
      set (wv_selected_headers v) \<union> {CONTENT_TYPE} \<union> set (metadata_headers (wc_mapping cfg)) \<and>
    length (rt_selected_headers route) \<le> min 32 (wl_selected_headers (wc_limits cfg)) \<and>
    set (wv_credential_headers v) \<subseteq> set (wv_selected_headers v) \<and>
    set (wv_credential_headers v) \<inter> set (metadata_headers (wc_mapping cfg)) = {}"
proof -
  define adapter where adapter: "adapter = lit ''webhook''"
  have a: "identifier_new (lit ''webhook'') = Ok adapter"
    by (simp add: adapter identifier_new_Ok_iff valid_identifier_def lit_def of_char_def is_allowed_def
        is_ascii_alphanumeric_def)
  obtain offered where off: "fst (capabilities (sql_host reg) c (wc_principal cfg) adapter) = Ok offered"
    and eff: "\<exists>d. find (\<lambda>d. cd_id d = wc_capability cfg) offered = Some d \<and>
      validate_semantics (wc_semantics cfg) (cd_effect d) = Ok ()"
    and rest: "wc_semantics cfg = SemNonIdempotentMutation \<longrightarrow> wv_guarantee v = GuaranteeRequired"
      "selected_headers (wc_mapping cfg) v = Ok (rt_selected_headers route)"
      "length (rt_selected_headers route) \<le> wl_selected_headers (wc_limits cfg)"
      "rt_configuration route = cfg" "rt_verifier route = v" "rt_adapter route = adapter"
    using assms a
    by (auto simp: WebhookRoute_new_def sql_ingress_def bindR_Ok_iff ok_or_Ok_iff split: sum.splits prod.splits if_splits)
  have "offered = filter (\<lambda>d. (pr_id (wc_principal cfg), adapter, cd_id d) \<in> sql_grants c) (descriptors reg)"
    using sql_dispatch.capabilities_exact(1) [where reg = reg and s = c and prin = "wc_principal cfg" and adapter = adapter] off
    by (auto simp: from_shared_def)
  with eff have "\<exists>d\<in>set (descriptors reg). cd_id d = wc_capability cfg \<and>
       (pr_id (wc_principal cfg), lit ''webhook'', cd_id d) \<in> sql_grants c \<and>
       (cd_effect d = ReadOnly \<longleftrightarrow> wc_semantics cfg = SemReadOnly)"
    by (auto simp: adapter validate_semantics_Ok dest!: find_SomeD)
  with rest adapter selected_headers_Ok [OF rest(2)] show ?thesis by simp
qed

text \<open>C35 (functional): how a claim ends. Whatever faults the database has, once the dispatch of a claimed
  delivery has returned, a response other than \<open>dedup_store_unavailable\<close> is the one the result calls for
  and the claim is settled accordingly: given back when the handler never ran, unknown when the audit
  log failed, completed otherwise. With that response the claim is in flight or unknown, never forgotten.
  No other delivery is touched.\<close>

theorem delivery_settled:
  assumes "sql_dedup_inv limits c" and "sql_dd_ents c k = Some e" and "en_state e = InFlight"
    and "finish_delivery (sql_dedup_store limits) status result (Some (DedupGuard_new k t)) c = (response, c')"
  shows "sql_dedup_inv limits c' \<and> (\<forall>k'. k' \<noteq> k \<longrightarrow> sql_dd_ents c' k' = sql_dd_ents c k') \<and>
    (if response = route_retryable ''dedup_store_unavailable''
     then map_option en_state (sql_dd_ents c' k) \<in> {Some InFlight, Some Unknown}
     else response = dispatch_response status result \<and>
       map_option en_state (sql_dd_ents c' k) = settled_state result)"
proof -
  let ?st = "sql_dedup_store limits"
  obtain ok g' c1 where settle: "settle_claim ?st result (Some (DedupGuard_new k t)) c = (ok, Some g', c1)"
    and fin: "response = (if ok then dispatch_response status result else route_retryable ''dedup_store_unavailable'')"
      "c' = guard_drop ?st (Some g') c1"
    using assms(4) by (auto simp: finish_delivery_def settle_claim_def split: prod.splits if_splits)
  have neq: "dispatch_response status result \<noteq> route_retryable ''dedup_store_unavailable''"
    by (cases "(status, result)" rule: dispatch_response.cases)
      (simp_all add: route_retryable_def response_success_def response_error_def response_retryable_def)
  define ev where "ev = (if \<not> ok then EvNothing else if gives_back result then EvReleased k
    else if \<exists>a. result = Err (DispatchAudit a) then EvUnknown k else EvCompleted k t)"
  have g': "dg_key g' = (if ok then None else Some k)" "dg_updated_at g' = t"
    and own: "dedup_ok limits ev c c1"
    using settle settle_claim_ok [OF assms(1) settle] by (simp_all add: ev_def)
  have evs: "ev \<in> {EvCompleted k t, EvUnknown k, EvReleased k, EvNothing}" by (simp add: ev_def)
  note after = dedup_ok_own [OF own evs]
  show ?thesis
  proof (cases ok)
    case True
    with after fin g' neq show ?thesis
      by (auto simp: ev_def settled_state_def guard_drop_def)
  next
    case False
    obtain r c2 where unk: "sql_mark_unknown c1 k t = (r, c2)" by (cases "sql_mark_unknown c1 k t")
    have "c' = c2" using fin(2) g' False unk by (simp add: guard_drop_def)
    with dedup_ok_own [OF sql_mark_unknown_ok [OF _ unk, of limits], of k t] after False fin assms(2,3)
    show ?thesis by (cases "is_ok r") (auto simp: ev_def)
  qed
qed

text \<open>C36 (safety): a credential never reaches a capability. Two requests on a route that differ only in
  the values of the verifier's credential headers are mapped to the same input or refused alike.\<close>

theorem credentials_not_forwarded:
  assumes "WebhookRoute_new cfg v (sql_ingress limits reg api) c = (Ok route, c')"
    and "vr_body r = vr_body r'"
    and "\<And>name. name \<notin> set (wv_credential_headers v) \<Longrightarrow> header_values r name = header_values r' name"
  shows "map_payload api (wc_mapping (rt_configuration route)) r (wc_limits cfg) =
     map_payload api (wc_mapping (rt_configuration route)) r' (wc_limits cfg)"
proof -
  have sel: "rt_configuration route = cfg" "selected_headers (wc_mapping cfg) v = Ok (rt_selected_headers route)"
    using assms(1)
    by (auto simp: WebhookRoute_new_def bindR_Ok_iff split: sum.splits prod.splits if_splits)
  have "header_values r name = header_values r' name" if "name \<in> set (metadata_headers (wc_mapping cfg))" for name
    using that assms(3) selected_headers_Ok [OF sel(2)] by blast
  from map_payload_cong [OF assms(2) this] show ?thesis by (simp add: sel(1))
qed

section \<open>A route and a delivery\<close>

text \<open>A GitHub route to the counting capability, and a request signed for it under the toy HMAC.\<close>

definition hook_verifier :: webhook_verifier where
  "hook_verifier = GitHubHmacSha256Verifier toy_hmac toy_sha toy_provider
     \<lparr>hv_reference = lit ''hook'', hv_namespace = GITHUB_HMAC_NAMESPACE, hv_tolerance = 0\<rparr>"

definition hook_configuration :: route_configuration where
  "hook_configuration = WebhookRouteConfiguration_new (lit ''r'')
     \<lparr>pr_id = lit ''alice'', pr_kind = Application\<rparr> (lit ''notes.count'') SemNonIdempotentMutation"

definition hook_route :: webhook_route where
  "hook_route = \<lparr>rt_configuration = hook_configuration, rt_verifier = hook_verifier,
     rt_adapter = lit ''webhook'', rt_selected_headers = [GITHUB_SIGNATURE_HEADER, CONTENT_TYPE]\<rparr>"

definition hook_json :: "nat json_api" where
  "hook_json = \<lparr>ja_from_slice = (\<lambda>bs. Some (length bs)), ja_string = (\<lambda>_. 0), ja_array = (\<lambda>_. 0),
     ja_object = (\<lambda>_. 0)\<rparr>"

definition hook_conn :: conn where
  "hook_conn =
     \<lparr>cn_data = empty_database\<lparr>db_grants := [\<lparr>gw_principal = lit ''alice'', gw_adapter = lit ''webhook'',
        gw_capability = lit ''notes.count''\<rparr>]\<rparr>, cn_plan = []\<rparr>"

abbreviation hook_ingress :: "(nat, nat, conn) ingress_context" where
  "hook_ingress \<equiv> sql_ingress DedupStoreLimits_default counter_registry hook_json"

definition hook_request :: verification_request where
  "hook_request =
     \<lparr>vr_method = lit ''POST'', vr_target = lit ''/hook'',
      vr_headers = [(GITHUB_SIGNATURE_HEADER,
          ascii_bytes (lit ''sha256='' @ to_hex (toy_hmac [1, 2] (ascii_bytes (lit ''{}''))))),
        (CONTENT_TYPE, ascii_bytes (lit ''application/json''))],
      vr_body = ascii_bytes (lit ''{}''), vr_peer = VerificationPeer_v4 [127, 0, 0, 1] 9000\<rparr>"

definition hook_identity :: trusted_identity where
  "hook_identity = \<lparr>ti_namespace = GITHUB_HMAC_NAMESPACE, ti_hash = toy_sha (toy_sha (ascii_bytes (lit ''{}''))),
     ti_freshness = None\<rparr>"

lemma hook_headers_distinct: "GITHUB_SIGNATURE_HEADER \<noteq> CONTENT_TYPE"
  by (simp add: GITHUB_SIGNATURE_HEADER_def CONTENT_TYPE_def)

lemma hook_route_new:
  "WebhookRoute_new hook_configuration hook_verifier hook_ingress hook_conn = (Ok hook_route, hook_conn)"
proof -
  have caps: "capabilities (sql_host counter_registry) hook_conn \<lparr>pr_id = lit ''alice'', pr_kind = Application\<rparr>
      (lit ''webhook'') = (Ok [counter_descriptor], hook_conn)"
    by (simp add: capabilities_def from_shared_def descriptors_def sql_policy_def stored_grant_evaluate_def
        sql_grant_store_def sql_contains_grant_def hook_conn_def counter_simps)
  have adapter: "identifier_new (lit ''webhook'') = Ok (lit ''webhook'')"
    by (simp add: identifier_new_Ok_iff valid_identifier_def lit_def of_char_def is_allowed_def
        is_ascii_alphanumeric_def)
  have "selected_headers JsonBody hook_verifier = Ok [GITHUB_SIGNATURE_HEADER, CONTENT_TYPE]"
    using hook_headers_distinct
    by (simp add: selected_headers_def hook_verifier_def GitHubHmacSha256Verifier_def MAX_SELECTED_HEADERS_def)
  then show ?thesis
    using caps adapter
    by (simp add: WebhookRoute_new_def sql_ingress_def hook_configuration_def WebhookRouteConfiguration_new_def
        validate_semantics_def counter_descriptor_def hook_verifier_def GitHubHmacSha256Verifier_def
        sql_dedup_store_def WebhookIngressLimits_default_def DEFAULT_WEBHOOK_SELECTED_HEADERS_def ok_or_def hook_route_def)
qed

theorem route_well_formed_witness:
  "distinct (rt_selected_headers hook_route) \<and>
   (pr_id (wc_principal hook_configuration), lit ''webhook'', wc_capability hook_configuration) \<in> sql_grants hook_conn"
  using route_well_formed [OF hook_route_new] by auto

lemma length_toy_sha [simp]: "length (toy_sha x) = 32"
  by (simp add: toy_sha_def)

lemma hook_verified: "wv_verify hook_verifier hook_request now = Ok (Some hook_identity)"
proof -
  let ?mac = "toy_hmac [1, 2] (ascii_bytes (lit ''{}''))"
  have one: "exactly_one_header hook_request GITHUB_SIGNATURE_HEADER =
      Ok (ascii_bytes (lit ''sha256='' @ to_hex ?mac))"
    using hook_headers_distinct by (simp add: exactly_one_header_Ok header_values_def hook_request_def)
  have pre: "bytes_strip_prefix (ascii_bytes (lit ''sha256='')) (ascii_bytes (lit ''sha256='' @ to_hex ?mac)) =
      Some (ascii_bytes (to_hex ?mac))"
    by (simp add: bytes_strip_prefix_def ascii_bytes_def)
  have sig: "parse_signature (ascii_bytes (to_hex ?mac)) = Ok ?mac"
    using signed_request_hex by (simp add: parse_signature_Ok)
  have body: "vr_body hook_request = ascii_bytes (lit ''{}'')" by (simp add: hook_request_def)
  have mac: "verify_hmac_sha256 toy_hmac \<lparr>rs_current = [1, 2], rs_previous = None\<rparr> [ascii_bytes (lit ''{}'')] [?mac]"
    by (simp add: verify_hmac_sha256_def sign_components_def constant_time_eq_def)
  have ident: "body_identity toy_sha GITHUB_HMAC_NAMESPACE (ascii_bytes (lit ''{}'')) None = Ok hook_identity"
    using length_toy_sha [of "ascii_bytes (lit ''{}'')"]
    by (auto simp: body_identity_def from_normalized_def hook_identity_def simp del: length_toy_sha)
  show ?thesis
    using one pre sig mac ident
    by (simp add: hook_verifier_def GitHubHmacSha256Verifier_def github_verify_def source_resolve_def
        toy_provider_def body ok_or_def)
qed


definition hook_time :: ingress_time where
  "hook_time = \<lparr>it_unix_milliseconds = 5, it_monotonic_milliseconds = 5\<rparr>"

definition hook_limiter :: request_limiter where
  "hook_limiter = \<lparr>ar_requests_per_minute = 120, ar_last = 5, ar_principals = [lit ''alice'' \<mapsto> [5]]\<rparr>"

lemma hook_checked:
  "check_request hook_route hook_json hook_request hook_time AuthenticatedRequestLimiter_default =
     (Ok (2, Some hook_identity), hook_limiter)"
proof -
  have admitted: "admit (lit ''alice'') 5 AuthenticatedRequestLimiter_default = (Allowed, hook_limiter)"
    by (simp add: admit_def admit_at_def AuthenticatedRequestLimiter_default_def Let_def WINDOW_MILLISECONDS_def
        hook_limiter_def)
  have json: "has_json_content_type hook_request CONTENT_TYPE"
  proof -
    have "eq_ignore_ascii_case (trim (hd (split_on 59 (lit ''application/json'')))) (lit ''application/json'')"
      by code_simp
    moreover have "from_utf8 (ascii_bytes (lit ''application/json'')) = Some (lit ''application/json'')"
      by (rule from_utf8_ascii) (simp add: lit_def of_char_def)
    ultimately show ?thesis
      using hook_headers_distinct by (simp add: has_json_content_type_def header_values_def hook_request_def)
  qed
  have count: "count_json_values (ascii_bytes (lit ''{}'')) = Some 1"
    by (simp add: count_json_values_def ascii_bytes_def lit_def of_char_def count_loop.simps is_separator_def
        checked_add_u64_def u64_max_def)
  have payload: "map_payload hook_json JsonBody hook_request WebhookIngressLimits_default = Ok 2"
  proof -
    have "length (ascii_bytes (lit ''{}'')) = 2" by (simp add: ascii_bytes_def lit_def)
    with count show ?thesis
      by (simp add: map_payload_def retained_charge_def metadata_charge_def hook_request_def checked_mul_u64_def
          checked_add_u64_def u64_max_def VALUE_ALLOCATION_CHARGE_def WebhookIngressLimits_default_def
          DEFAULT_WEBHOOK_BODY_BYTES_def DEFAULT_WEBHOOK_RETAINED_BYTES_def hook_json_def ok_or_def)
  qed
  show ?thesis
    using admitted json payload hook_verified
    by (simp add: check_request_def hook_route_def hook_configuration_def WebhookRouteConfiguration_new_def
        hook_time_def hook_request_def hook_verifier_def GitHubHmacSha256Verifier_def i64_try_from_def in_i64_def i64_min_def i64_max_def)
qed


definition hook_key :: dedup_key where
  "hook_key = route_key hook_configuration hook_identity"

lemma hook_conn_inv: "sql_dedup_inv DedupStoreLimits_default hook_conn"
  by (simp add: sql_dedup_inv_def hook_conn_def valid_dedup_limits_default dedup_wf_def
      empty_database_def keyed_def usage_exact_def)

lemma hook_key_valid: "valid_dedup_key hook_key"
  by (simp add: valid_dedup_key_def hook_key_def route_key_def hook_configuration_def hook_identity_def
      WebhookRouteConfiguration_new_def GITHUB_HMAC_NAMESPACE_def valid_identifier_def lit_def of_char_def
      is_allowed_def is_ascii_alphanumeric_def)

lemma hook_claimed:
  "\<exists>c. sql_claim DedupStoreLimits_default hook_conn hook_key RetainCompleted 5 = (Ok Claimed, c) \<and>
     cn_plan c = [] \<and> db_grants (cn_data c) = db_grants (cn_data hook_conn) \<and> db_seq_audit (cn_data c) = 0"
proof -
  let ?r = "claim_row hook_key RetainCompleted 5 (int (key_charge hook_key))"
  have "good_dedup_row ?r"
    using claim_row_good(1) [OF hook_key_valid, of 5 RetainCompleted] by (simp add: i64_max_def)
  then have row: "dedup_row_check ?r" unfolding good_dedup_row_def by (rule conjunct1)
  show ?thesis
    using row key_charge_bounds [OF hook_key_valid] encoded_charge_valid [OF hook_key_valid]
    by (simp add: sql_claim_def dedup_encoded_time_def i64_try_from_def in_i64_def i64_min_def i64_max_def ok_or_def
        sql_claim_body_def sql_claim_checked_def hook_conn_def empty_database_def delete_dedup_rows_def count_rows_def
        usage_read_def usage_insert_def usage_check_def insert_dedup_row_def
        DedupStoreLimits_default_def saturating_add_i64_def checked_mul_i64_def)
qed


lemma hook_route_keeps: "keeps valid_dedup_key hook_key hook_route"
  using hook_key_valid
  by (auto simp: keeps_def hook_key_def hook_route_def hook_verifier_def GitHubHmacSha256Verifier_def github_verify_def
      body_identity_def from_normalized_def bindR_Ok_iff map_err_Ok_iff valid_dedup_key_def route_key_def
      hook_identity_def claim_policy_def hook_configuration_def WebhookRouteConfiguration_new_def
      split: if_splits)

definition hook_invocation :: "nat invocation" where
  "hook_invocation =
     \<lparr>inv_id = lit ''i1'', inv_adapter = lit ''webhook'',
      inv_principal = \<lparr>pr_id = lit ''alice'', pr_kind = Application\<rparr>,
      inv_capability = lit ''notes.count'', inv_input = 2\<rparr>"

definition hook_dispatch :: "nat webhook_dispatch" where
  "hook_dispatch = \<lparr>wd_invocation = hook_invocation, wd_claim = Some (DedupGuard_new hook_key 5),
     wd_success_status = 204\<rparr>"

lemma hook_prepared:
  "\<exists>c. prepare hook_route hook_ingress (Ok (lit ''i1'')) hook_request hook_time
       AuthenticatedRequestLimiter_default hook_conn = (Ok hook_dispatch, hook_limiter, c) \<and>
     cn_plan c = [] \<and> db_grants (cn_data c) = db_grants (cn_data hook_conn) \<and> db_seq_audit (cn_data c) = 0"
proof -
  obtain c where c: "sql_claim DedupStoreLimits_default hook_conn hook_key RetainCompleted 5 = (Ok Claimed, c)"
    "cn_plan c = []" "db_grants (cn_data c) = db_grants (cn_data hook_conn)" "db_seq_audit (cn_data c) = 0"
    using hook_claimed by blast
  have "claim_policy hook_configuration hook_identity = RetainCompleted"
    by (simp add: claim_policy_def hook_configuration_def WebhookRouteConfiguration_new_def hook_identity_def)
  with c(1) have "claim_identity (sql_dedup_store DedupStoreLimits_default) hook_configuration 5 (Some hook_identity) hook_conn =
      (Ok (Some (DedupGuard_new hook_key 5)), c)"
    by (simp add: claim_identity_def hook_key_def)
  then show ?thesis
    using c(2-4) hook_checked
    by (simp add: prepare_def sql_ingress_def hook_route_def hook_dispatch_def hook_invocation_def hook_time_def
        hook_configuration_def WebhookRouteConfiguration_new_def)
qed

lemma hook_started:
  assumes "cn_plan c = []" and "db_grants (cn_data c) = db_grants (cn_data hook_conn)"
    and "db_seq_audit (cn_data c) = 0"
  shows "\<exists>c'. dispatch_begin (sql_host counter_registry) 0 c hook_invocation =
     (AwaitHandler (from_invocation hook_invocation) counter_handler 2, c')"
proof -
  let ?q = "\<lparr>req_principal = inv_principal hook_invocation, req_adapter = inv_adapter hook_invocation,
     req_capability = counter_descriptor\<rparr>"
  have pol: "sql_policy c ?q = (Allow, c)"
    using assms(1,2)
    by (simp add: sql_policy_def stored_grant_evaluate_def sql_grant_store_def sql_contains_grant_def
        hook_invocation_def hook_conn_def counter_descriptor_def empty_database_def)
  have res: "resolve counter_registry (inv_capability hook_invocation) = Some (counter_descriptor, counter_handler)"
    by (simp add: counter_simps resolve_def hook_invocation_def)
  have acc: "accepts_input counter_descriptor (inv_input hook_invocation)" "inv_input hook_invocation = 2"
    by (simp_all add: accepts_input_def schema_accepts_def counter_simps hook_invocation_def)
  let ?e = "audit_event_new 0 (from_invocation hook_invocation) AuditStarted"
  have t: "ev_occurred_at ?e = 0" by (simp add: audit_event_new_def audit_event_from_parts_def)
  obtain r c' where rc: "sql_audit_record c ?e = (r, c')" by (cases "sql_audit_record c ?e")
  with sql_audit_record_clear(1) [of c ?e] assms t have "r = Ok ()" by simp
  with rc pol res acc show ?thesis by (simp add: dispatch_begin_def from_shared_def)
qed

definition hook_system :: "(nat, nat, conn) web_system" where
  "hook_system = \<lparr>web_state = hook_conn, web_host = 4, web_limiter = AuthenticatedRequestLimiter_default,
     web_tasks = []\<rparr>"

theorem webhook_at_most_once_witness:
  "\<exists>c'. web_run hook_ingress (keeps valid_dedup_key hook_key) sql_admin hook_system
       [Quiet, Started (Some hook_key)] c' \<and>
     starts_of hook_key [Quiet, Started (Some hook_key)] \<le> reopenings_of hook_key [Quiet, Started (Some hook_key)] + 1"
proof -
  let ?served = "keeps valid_dedup_key hook_key"
  obtain c where c: "prepare hook_route hook_ingress (Ok (lit ''i1'')) hook_request hook_time
      AuthenticatedRequestLimiter_default hook_conn = (Ok hook_dispatch, hook_limiter, c)"
    "cn_plan c = []" "db_grants (cn_data c) = db_grants (cn_data hook_conn)" "db_seq_audit (cn_data c) = 0"
    using hook_prepared by blast
  obtain c' where c': "dispatch_begin (sql_host counter_registry) 0 c hook_invocation =
     (AwaitHandler (from_invocation hook_invocation) counter_handler 2, c')"
    using hook_started [OF c(2-4)] by blast
  let ?s1 = "hook_system\<lparr>web_state := c, web_limiter := hook_limiter, web_tasks := [Unpolled hook_dispatch]\<rparr>"
  have one: "web_step hook_ingress ?served sql_admin hook_system Quiet ?s1"
    using web_step.accept [where served = ?served and route = hook_route and ctx = hook_ingress and
        generated = "Ok (lit ''i1'')" and r = hook_request and now = hook_time and c = hook_system] hook_route_keeps c(1)
    by (simp add: hook_system_def)
  have key: "claim_key (wd_claim hook_dispatch) = Some hook_key"
    by (simp add: claim_key_def hook_dispatch_def DedupGuard_new_def)
  have "\<exists>s2. web_step hook_ingress ?served sql_admin ?s1 (Started (Some hook_key)) s2"
    using web_step.start [of 0 ?s1 hook_dispatch hook_ingress 0, unfolded key] c'
    by (fastforce simp: sql_ingress_def hook_dispatch_def)
  then obtain s2 where "web_run hook_ingress ?served sql_admin hook_system [Quiet, Started (Some hook_key)] s2"
    using one by (blast intro: run_done run_more)
  moreover from this have "starts_of hook_key [Quiet, Started (Some hook_key)]
      \<le> reopenings_of hook_key [Quiet, Started (Some hook_key)] + 1"
    by (rule webhook_at_most_once)
      (simp_all add: hook_system_def hook_conn_inv, simp add: hook_conn_def empty_database_def sql_dd_ents_def dd_ents_def)
  ultimately show ?thesis by blast
qed

theorem delivery_settled_witness:
  "\<exists>c response c'.
     sql_claim DedupStoreLimits_default hook_conn hook_key RetainCompleted 5 = (Ok Claimed, c) \<and>
     finish_delivery (sql_dedup_store DedupStoreLimits_default) 204 (Ok (6 :: nat)) (Some (DedupGuard_new hook_key 5)) c =
       (response, c') \<and>
     map_option en_state (sql_dd_ents c' hook_key) \<in> {Some Completed, Some InFlight, Some Unknown}"
proof -
  obtain c where c: "sql_claim DedupStoreLimits_default hook_conn hook_key RetainCompleted 5 = (Ok Claimed, c)"
    using hook_claimed by blast
  have "dedup_ok DedupStoreLimits_default (EvClaimed hook_key RetainCompleted 5) hook_conn c"
    using sql_claim_ok [OF hook_conn_inv hook_key_valid c] by (simp add: claim_event_def)
  then have inv: "sql_dedup_inv DedupStoreLimits_default c"
    and ent: "\<exists>e. sql_dd_ents c hook_key = Some e \<and> en_state e = InFlight"
    by (auto simp: dedup_ok_def elim: dedup_step.cases)
  obtain response c' where fin: "finish_delivery (sql_dedup_store DedupStoreLimits_default) 204 (Ok (6 :: nat))
      (Some (DedupGuard_new hook_key 5)) c = (response, c')" by fastforce
  from delivery_settled [OF inv _ _ fin] ent
  have "map_option en_state (sql_dd_ents c' hook_key) \<in> {Some Completed, Some InFlight, Some Unknown}"
    by (auto simp: settled_state_def split: if_splits)
  with c fin show ?thesis by blast
qed

theorem credentials_not_forwarded_witness:
  "map_payload hook_json JsonBody hook_request WebhookIngressLimits_default =
   map_payload hook_json JsonBody
     (hook_request\<lparr>vr_headers := [(GITHUB_SIGNATURE_HEADER, [1]), (CONTENT_TYPE, ascii_bytes (lit ''application/json''))]\<rparr>)
     WebhookIngressLimits_default"
proof -
  let ?r' = "hook_request\<lparr>vr_headers := [(GITHUB_SIGNATURE_HEADER, [1]), (CONTENT_TYPE, ascii_bytes (lit ''application/json''))]\<rparr>"
  have "header_values hook_request name = header_values ?r' name" if "name \<notin> set (wv_credential_headers hook_verifier)" for name
    using that by (simp add: header_values_def hook_request_def hook_verifier_def GitHubHmacSha256Verifier_def)
  with credentials_not_forwarded [OF hook_route_new, of hook_request ?r'] show ?thesis
    by (simp add: hook_route_def hook_configuration_def WebhookRouteConfiguration_new_def)
qed

end
