(* ===== verification/Egress_Model.thy ===== *)
theory Egress_Model
  imports Delivery_Model Rust_Text
begin

unbundle bit_operations_syntax

text \<open>
  The pure part of egress delivery (\<open>bondry-egress/src\<close>: \<open>time.rs\<close>, \<open>limits.rs\<close>, \<open>delivery.rs\<close>): instants,
  the validated limits with their ranges inlined, and the lifecycle of one accepted delivery with its
  retry schedule. An \<open>EgressInstant\<close> is the number of nanoseconds since the origin of the runtime.
\<close>

section \<open>Time\<close>

type_synonym egress_instant = duration

definition duration_max :: duration where
  "duration_max = 2 ^ 64 * 1000000000 - 1"

definition instant_saturating_add :: "egress_instant \<Rightarrow> duration \<Rightarrow> egress_instant" where
  "instant_saturating_add i d = min duration_max (i + d)"

record transition_time =
  tt_monotonic :: egress_instant
  tt_unix_ms :: nat

section \<open>Limits\<close>

datatype limit_error =
    LimRouteRegistry | LimPayload | LimGlobalAdmission | LimRouteAdmission
  | LimRetryAttempts | LimRetryBase | LimRetryCap | LimRequestTimeout

definition RouteRegistryLimit_new :: "nat \<Rightarrow> limit_error + nat" where
  "RouteRegistryLimit_new v = (if v < 1 \<or> v > 256 then Err LimRouteRegistry else Ok v)"

definition PayloadLimit_new :: "nat \<Rightarrow> limit_error + nat" where
  "PayloadLimit_new v = (if v < 1024 \<or> v > 224 * 1024 then Err LimPayload else Ok v)"

record admission_limit =
  al_refill_per_second :: nat
  al_capacity :: nat

definition GlobalAdmissionLimit_new :: "nat \<Rightarrow> nat \<Rightarrow> limit_error + admission_limit" where
  "GlobalAdmissionLimit_new refill capacity =
     (if refill < 1 \<or> refill > 1000 \<or> capacity < 64 \<or> capacity > 1024 then Err LimGlobalAdmission
      else Ok \<lparr>al_refill_per_second = refill, al_capacity = capacity\<rparr>)"

definition RouteAdmissionLimit_new :: "nat \<Rightarrow> nat \<Rightarrow> limit_error + admission_limit" where
  "RouteAdmissionLimit_new refill capacity =
     (if refill < 1 \<or> refill > 500 \<or> capacity < 8 \<or> capacity > 256 then Err LimRouteAdmission
      else Ok \<lparr>al_refill_per_second = refill, al_capacity = capacity\<rparr>)"

record retry_policy =
  rp_retries :: nat
  rp_base :: duration
  rp_cap :: duration

definition RetryPolicy_new :: "nat \<Rightarrow> duration \<Rightarrow> duration \<Rightarrow> limit_error + retry_policy" where
  "RetryPolicy_new retries base cap =
     (if retries > 16 then Err LimRetryAttempts
      else if \<not> (500 * 1000000 \<le> base \<and> base \<le> from_secs 5) then Err LimRetryBase
      else if \<not> (from_secs 30 \<le> cap \<and> cap \<le> from_secs 300) then Err LimRetryCap
      else Ok \<lparr>rp_retries = retries, rp_base = base, rp_cap = cap\<rparr>)"

definition without_retries :: retry_policy where
  "without_retries = \<lparr>rp_retries = 0, rp_base = from_secs 1, rp_cap = from_secs 60\<rparr>"

definition RequestTimeout_new :: "duration \<Rightarrow> limit_error + duration" where
  "RequestTimeout_new v = (if \<not> (from_secs 1 \<le> v \<and> v \<le> from_secs 120) then Err LimRequestTimeout else Ok v)"

section \<open>The lifecycle of a delivery\<close>

datatype life_state = LsReady | LsInFlight | LsWaitingRetry egress_instant | LsTerminal

record delivery_lifecycle =
  lc_route :: route_id
  lc_delivery :: delivery_id
  lc_retry :: retry_policy
  lc_attempts :: nat
  lc_state :: life_state

definition DeliveryLifecycle_new :: "route_id \<Rightarrow> delivery_id \<Rightarrow> retry_policy \<Rightarrow> delivery_lifecycle" where
  "DeliveryLifecycle_new route delivery retry =
     \<lparr>lc_route = route, lc_delivery = delivery, lc_retry = retry, lc_attempts = 0, lc_state = LsReady\<rparr>"

datatype retryable_failure =
    RfDeadlineExceeded | RfSecretUnavailable | RfTransportUnavailable | RfReceiverRejected

fun failure_of :: "retryable_failure \<Rightarrow> delivery_failure" where
  "failure_of RfDeadlineExceeded = DfDeadlineExceeded"
| "failure_of RfSecretUnavailable = DfSecretUnavailable"
| "failure_of RfTransportUnavailable = DfTransportUnavailable"
| "failure_of RfReceiverRejected = DfReceiverRejected"

datatype delivery_event =
    EvDrive
  | EvDelivered "delivery_result_metadata option"
  | EvRetryable retryable_failure
  | EvFailed delivery_failure
  | EvFailedWithResult delivery_failure delivery_result_metadata
  | EvCancel
  | EvShutdownDeadline

datatype delivery_action =
    ActNone
  | ActStartAttempt nat
  | ActWait
  | ActTerminal delivery_outcome "delivery_result_metadata option"

datatype persistence_action =
    InsertIntent delivery_intent
  | RecordAttempt delivery_id nat nat
  | RecordOutcome delivery_id delivery_outcome nat "delivery_result_metadata option"

record delivery_step =
  sp_persistence :: "persistence_action option"
  sp_action :: delivery_action
  sp_next_deadline :: "egress_instant option"

definition u128_max :: nat where
  "u128_max = 2 ^ 128 - 1"

text \<open>\<open>stable_jitter\<close>: FNV-1a on 64-bit words over the identifier and the two bytes of the count.\<close>

definition fnv_step :: "64 word \<Rightarrow> u8 \<Rightarrow> 64 word" where
  "fnv_step hash byte = (hash XOR ucast byte) * 0x100000001b3"

definition stable_jitter :: "delivery_id \<Rightarrow> nat \<Rightarrow> nat" where
  "stable_jitter delivery attempts =
     unat (foldl fnv_step 0xcbf29ce484222325
       (utf8_bytes delivery @ [of_nat (attempts mod 256), of_nat (attempts div 256)])) mod 4001"

definition retry_delay :: "delivery_lifecycle \<Rightarrow> nat \<Rightarrow> duration" where
  "retry_delay lc attempts =
     (let shift = min (attempts - 1) 31;
          exponential = min (min u128_max (rp_base (lc_retry lc) * 2 ^ shift)) (rp_cap (lc_retry lc));
          multiplier = 8000 + stable_jitter (lc_delivery lc) attempts;
          jittered = min (min u128_max (exponential * multiplier) div 10000) (rp_cap (lc_retry lc))
      in min u64_max jittered)"

definition life_start_attempt :: "delivery_lifecycle \<Rightarrow> transition_time \<Rightarrow> delivery_step \<times> delivery_lifecycle" where
  "life_start_attempt lc time =
     (let attempts = min u16_max (lc_attempts lc + 1) in
      (\<lparr>sp_persistence = Some (RecordAttempt (lc_delivery lc) attempts (tt_unix_ms time)),
        sp_action = ActStartAttempt attempts, sp_next_deadline = None\<rparr>,
       lc\<lparr>lc_attempts := attempts, lc_state := LsInFlight\<rparr>))"

definition life_terminal ::
    "delivery_lifecycle \<Rightarrow> transition_time \<Rightarrow> delivery_outcome \<Rightarrow> delivery_result_metadata option
       \<Rightarrow> delivery_step \<times> delivery_lifecycle" where
  "life_terminal lc time outcome result =
     (\<lparr>sp_persistence = Some (RecordOutcome (lc_delivery lc) outcome (tt_unix_ms time) result),
       sp_action = ActTerminal outcome result, sp_next_deadline = None\<rparr>,
      lc\<lparr>lc_state := LsTerminal\<rparr>)"

abbreviation step_none :: delivery_step where
  "step_none \<equiv> \<lparr>sp_persistence = None, sp_action = ActNone, sp_next_deadline = None\<rparr>"

abbreviation step_wait :: "egress_instant \<Rightarrow> delivery_step" where
  "step_wait deadline \<equiv> \<lparr>sp_persistence = None, sp_action = ActWait, sp_next_deadline = Some deadline\<rparr>"

text \<open>A transition returns \<open>None\<close> for \<open>DeliveryLifecycleError\<close>; the lifecycle is then unchanged.\<close>

definition life_drive :: "delivery_lifecycle \<Rightarrow> transition_time \<Rightarrow> (delivery_step \<times> delivery_lifecycle) option" where
  "life_drive lc time =
     (case lc_state lc of
        LsReady \<Rightarrow> Some (life_start_attempt lc time)
      | LsWaitingRetry deadline \<Rightarrow>
          if tt_monotonic time \<ge> deadline then Some (life_start_attempt lc time)
          else Some (step_wait deadline, lc)
      | LsInFlight \<Rightarrow> None
      | LsTerminal \<Rightarrow> Some (step_none, lc))"

definition life_transition ::
    "delivery_lifecycle \<Rightarrow> transition_time \<Rightarrow> delivery_event \<Rightarrow> (delivery_step \<times> delivery_lifecycle) option" where
  "life_transition lc time event =
     (if lc_state lc = LsTerminal then Some (step_none, lc)
      else case event of
        EvDrive \<Rightarrow> life_drive lc time
      | EvDelivered result \<Rightarrow>
          if lc_state lc \<noteq> LsInFlight then None
          else Some (life_terminal lc time Delivered result)
      | EvRetryable failure \<Rightarrow>
          if lc_state lc \<noteq> LsInFlight then None
          else if lc_attempts lc \<le> rp_retries (lc_retry lc) then
            (let deadline = instant_saturating_add (tt_monotonic time) (retry_delay lc (lc_attempts lc))
             in Some (step_wait deadline, lc\<lparr>lc_state := LsWaitingRetry deadline\<rparr>))
          else Some (life_terminal lc time (DeliveryFailed (failure_of failure)) None)
      | EvFailed failure \<Rightarrow>
          if lc_state lc \<noteq> LsInFlight then None
          else Some (life_terminal lc time (DeliveryFailed failure) None)
      | EvFailedWithResult failure result \<Rightarrow>
          if lc_state lc \<noteq> LsInFlight then None
          else Some (life_terminal lc time (DeliveryFailed failure) (Some result))
      | EvCancel \<Rightarrow> Some (life_terminal lc time (DeliveryFailed DfCancelled) None)
      | EvShutdownDeadline \<Rightarrow> Some (life_terminal lc time LostOnShutdown None))"

definition life_next_deadline :: "delivery_lifecycle \<Rightarrow> egress_instant option" where
  "life_next_deadline lc = (case lc_state lc of LsWaitingRetry deadline \<Rightarrow> Some deadline | _ \<Rightarrow> None)"

section \<open>The retry schedule\<close>

lemma stable_jitter_le: "stable_jitter d n \<le> 4000"
  by (simp add: stable_jitter_def less_Suc_eq_le [symmetric])

text \<open>The delay before a retry lies within a fifth of the capped exponential, and below the cap.\<close>

lemma retry_delay_bounds:
  fixes n :: nat
  assumes "RetryPolicy_new retries base cap = Ok (lc_retry lc)" and "1 \<le> n" and "n \<le> 17"
  defines "e \<equiv> min (base * 2 ^ (n - 1)) cap"
  shows "e * 4 div 5 \<le> retry_delay lc n" "retry_delay lc n \<le> min cap (e * 6 div 5)"
proof -
  have p: "lc_retry lc = \<lparr>rp_retries = retries, rp_base = base, rp_cap = cap\<rparr>"
    and cap: "cap \<le> 300 * 1000000000" and base: "base \<le> 5 * 1000000000"
    using assms(1) by (auto simp: RetryPolicy_new_def from_secs_def split: if_splits)
  then have rp: "rp_base (lc_retry lc) = base" "rp_cap (lc_retry lc) = cap" by simp_all
  have sh: "min (n - 1) 31 = n - 1" using assms(3) by simp
  have "(2 :: nat) ^ (n - 1) \<le> 2 ^ 16" using assms(3) by (intro power_increasing) simp_all
  then have "base * 2 ^ (n - 1) \<le> 5 * 1000000000 * 2 ^ 16" using base by (intro mult_le_mono) simp_all
  then have "base * 2 ^ (n - 1) \<le> u128_max" by (rule order_trans) (simp add: u128_max_def)
  then have e: "min (min u128_max (base * 2 ^ (n - 1))) cap = e" by (simp add: e_def)
  let ?j = "stable_jitter (lc_delivery lc) n"
  have j: "8000 + ?j \<le> 12000" using stable_jitter_le [of "lc_delivery lc" n] by simp
  have ecap: "e \<le> cap" by (simp add: e_def)
  have "e * (8000 + ?j) \<le> 300 * 1000000000 * 12000" using ecap cap j by (intro mult_le_mono) simp_all
  then have sat: "min u128_max (e * (8000 + ?j)) = e * (8000 + ?j)" by (simp add: u128_max_def)
  have "cap \<le> u64_max" using cap by (simp add: u64_max_def)
  then have r: "retry_delay lc n = min (e * (8000 + ?j) div 10000) cap"
    unfolding retry_delay_def Let_def rp sh e sat by (intro min.absorb2 min.coboundedI2)
  have lo: "e * 4 div 5 \<le> e * (8000 + ?j) div 10000"
  proof -
    have "e * 4 div 5 = e * 8000 div 10000" by (simp add: div_mult2_eq [symmetric])
    also have "\<dots> \<le> e * (8000 + ?j) div 10000" by (intro div_le_mono mult_le_mono) simp_all
    finally show ?thesis .
  qed
  have hi: "e * (8000 + ?j) div 10000 \<le> e * 6 div 5"
  proof -
    have "e * (8000 + ?j) div 10000 \<le> e * 12000 div 10000" using j by (intro div_le_mono mult_le_mono) simp_all
    also have "\<dots> = e * 6 div 5" by (simp add: div_mult2_eq [symmetric])
    finally show ?thesis .
  qed
  have "e * 4 div 5 \<le> cap" using ecap by linarith
  with r lo hi show "e * 4 div 5 \<le> retry_delay lc n" "retry_delay lc n \<le> min cap (e * 6 div 5)"
    by (simp_all add: min.coboundedI1)
qed

end
