(* ===== verification/Egress_Route.thy ===== *)
theory Egress_Route
  imports Egress_Model "HOL-Library.Finite_Map"
begin

text \<open>
  Payload contracts and the route registry (\<open>bondry-egress/src\<close>: \<open>payload.rs\<close>, \<open>route.rs\<close>, the traits of
  \<open>kind.rs\<close>). The JSON deserializer is a parameter that presents a document as a tree with its members in
  order, repeated keys included; the visitors of \<open>payload.rs\<close> run over that tree. A delivery kind is a
  record of the answers the registry asks it for. A \<open>BTreeMap\<close> is a finite map; its iteration order is the
  order of its keys.
\<close>

section \<open>Payload contracts\<close>

datatype json = JNull | JBool bool | JNumber | JString rstr | JArray "json list" | JObject "(rstr \<times> json) list"

datatype payload_field_type = FtAny | FtNull | FtBoolean | FtNumber | FtString | FtArray | FtObject

record payload_field =
  pf_name :: rstr
  pf_type :: payload_field_type
  pf_required :: bool

record payload_contract =
  pc_fields :: "(rstr, payload_field) fmap"
  pc_limit :: nat

datatype payload_error =
    PeEmptyFieldName | PeFieldNameTooLong | PeInvalidFieldName | PeTooManyFields | PeDuplicateContractField
  | PeTooLarge | PeInvalidJson | PeUndeclaredField | PeMissingRequiredField | PeFieldTypeMismatch

definition PayloadFieldName_new :: "rstr \<Rightarrow> payload_error + rstr" where
  "PayloadFieldName_new v =
     (if v = [] then Err PeEmptyFieldName
      else if str_len v > 128 then Err PeFieldNameTooLong
      else if \<not> list_all (\<lambda>c. is_ascii_alphanumeric c \<or> c = 46 \<or> c = 58 \<or> c = 95 \<or> c = 45) v
      then Err PeInvalidFieldName
      else Ok v)"

fun declare_fields ::
    "(rstr, payload_field) fmap \<Rightarrow> payload_field list \<Rightarrow> payload_error + (rstr, payload_field) fmap" where
  "declare_fields declared [] = Ok declared"
| "declare_fields declared (f # fs) =
     (if fcard (fmdom declared) \<ge> 64 then Err PeTooManyFields
      else if fmlookup declared (pf_name f) \<noteq> None then Err PeDuplicateContractField
      else declare_fields (fmupd (pf_name f) f declared) fs)"

definition PayloadContract_new :: "payload_field list \<Rightarrow> nat \<Rightarrow> payload_error + payload_contract" where
  "PayloadContract_new fs limit =
     bindR (declare_fields fmempty fs) (\<lambda>declared. Ok \<lparr>pc_fields = declared, pc_limit = limit\<rparr>)"

text \<open>The visitor of a value at a depth; \<open>None\<close> is a deserialization error.\<close>

fun visit_value :: "nat \<Rightarrow> json \<Rightarrow> payload_field_type option"
  and visit_elements :: "nat \<Rightarrow> json list \<Rightarrow> bool"
  and visit_members :: "nat \<Rightarrow> rstr set \<Rightarrow> (rstr \<times> json) list \<Rightarrow> bool" where
  "visit_value depth JNull = Some FtNull"
| "visit_value depth (JBool _) = Some FtBoolean"
| "visit_value depth JNumber = Some FtNumber"
| "visit_value depth (JString _) = Some FtString"
| "visit_value depth (JArray vs) =
     (if depth > 32 \<or> \<not> visit_elements (depth + 1) vs then None else Some FtArray)"
| "visit_value depth (JObject ms) =
     (if depth > 32 \<or> \<not> visit_members (depth + 1) {} ms then None else Some FtObject)"
| "visit_elements depth [] = True"
| "visit_elements depth (v # vs) \<longleftrightarrow> visit_value depth v \<noteq> None \<and> visit_elements depth vs"
| "visit_members depth names [] = True"
| "visit_members depth names ((name, v) # ms) \<longleftrightarrow>
     name \<notin> names \<and> visit_value depth v \<noteq> None \<and> visit_members depth (insert name names) ms"

fun visit_document ::
    "(rstr, payload_field_type) fmap \<Rightarrow> (rstr \<times> json) list \<Rightarrow> (rstr, payload_field_type) fmap option" where
  "visit_document seen [] = Some seen"
| "visit_document seen ((name, v) # ms) =
     (if fcard (fmdom seen) \<ge> 64 then None
      else if fmlookup seen name \<noteq> None then None
      else (case visit_value 2 v of
              None \<Rightarrow> None
            | Some t \<Rightarrow> visit_document (fmupd name t seen) ms))"

fun check_fields ::
    "payload_contract \<Rightarrow> (rstr \<times> payload_field_type) list \<Rightarrow> payload_error + unit" where
  "check_fields contract [] = Ok ()"
| "check_fields contract ((name, t) # rest) =
     (case fmlookup (pc_fields contract) name of
        None \<Rightarrow> Err PeUndeclaredField
      | Some declared \<Rightarrow>
          if pf_type declared \<noteq> FtAny \<and> pf_type declared \<noteq> t then Err PeFieldTypeMismatch
          else check_fields contract rest)"

abbreviation fm_keys :: "('k :: linorder, 'v) fmap \<Rightarrow> 'k list" where
  "fm_keys m \<equiv> sorted_list_of_fset (fmdom m)"

definition payload_validate :: "(bytes \<Rightarrow> json option) \<Rightarrow> payload_contract \<Rightarrow> bytes \<Rightarrow> payload_error + bytes" where
  "payload_validate parse contract bs =
     (if length bs > pc_limit contract then Err PeTooLarge
      else
        bindR (ok_or PeInvalidJson (case parse bs of Some (JObject ms) \<Rightarrow> visit_document fmempty ms | _ \<Rightarrow> None))
          (\<lambda>actual.
           bindR (check_fields contract (map (\<lambda>n. (n, the (fmlookup actual n))) (fm_keys actual))) (\<lambda>_.
             if list_ex (\<lambda>n. case fmlookup (pc_fields contract) n of
                   None \<Rightarrow> False | Some f \<Rightarrow> pf_required f \<and> fmlookup actual (pf_name f) = None)
                 (fm_keys (pc_fields contract))
             then Err PeMissingRequiredField else Ok bs)))"

section \<open>Delivery kinds and routes\<close>

datatype operation_mode = ModeEmit | ModeCall

datatype kind_operation_error = KindUnsupportedOperation | KindInvalidEvent | KindUnavailable

record delivery_kind =
  dk_name :: rstr
  dk_target_summary :: rstr
  dk_supports_call :: bool
  dk_permits_automatic_retry :: bool
  dk_max_payload_bytes :: nat
  dk_validate_payload :: "operation_mode \<Rightarrow> bytes \<Rightarrow> kind_operation_error + unit"

record egress_route =
  er_id :: route_id
  er_enabled :: bool
  er_payload :: payload_contract
  er_timeout :: duration
  er_retry :: retry_policy
  er_admission :: admission_limit
  er_kind :: delivery_kind

section \<open>Token buckets\<close>

record token_bucket =
  tb_refill_per_second :: nat
  tb_capacity_units :: nat
  tb_available_units :: nat
  tb_last_refill :: egress_instant

definition TOKEN_UNITS :: nat where
  "TOKEN_UNITS = 1000000000"

definition TokenBucket_new :: "nat \<Rightarrow> nat \<Rightarrow> token_bucket" where
  "TokenBucket_new refill capacity =
     \<lparr>tb_refill_per_second = refill, tb_capacity_units = capacity * TOKEN_UNITS,
      tb_available_units = capacity * TOKEN_UNITS, tb_last_refill = 0\<rparr>"

definition bucket_refill :: "egress_instant \<Rightarrow> token_bucket \<Rightarrow> token_bucket" where
  "bucket_refill now b =
     (if now \<le> tb_last_refill b then b
      else
        let elapsed = now - tb_last_refill b;
            added = min u128_max (elapsed * tb_refill_per_second b)
        in b\<lparr>tb_available_units := min (min u128_max (tb_available_units b + added)) (tb_capacity_units b),
             tb_last_refill := now\<rparr>)"

definition has_token :: "token_bucket \<Rightarrow> bool" where
  "has_token b \<longleftrightarrow> tb_available_units b \<ge> TOKEN_UNITS"

definition bucket_take :: "token_bucket \<Rightarrow> token_bucket" where
  "bucket_take b = b\<lparr>tb_available_units := tb_available_units b - TOKEN_UNITS\<rparr>"

section \<open>The registry\<close>

record route_registry =
  rr_limit :: nat
  rr_global_admission :: token_bucket
  rr_routes :: "(route_id, egress_route \<times> token_bucket) fmap"

datatype route_registry_error =
    RouteAlreadyExists | RouteCapacityExhausted | RoutePayloadLimitUnsupported | RouteNotFound

datatype admission_error =
    AdmRouteNotFound | AdmRouteDisabled | AdmUnsupportedOperation | AdmPayload payload_error
  | AdmGlobalRateLimited | AdmRouteRateLimited | AdmKind kind_operation_error

definition RouteRegistry_new :: "nat \<Rightarrow> admission_limit \<Rightarrow> route_registry" where
  "RouteRegistry_new limit admission =
     \<lparr>rr_limit = limit,
      rr_global_admission = TokenBucket_new (al_refill_per_second admission) (al_capacity admission),
      rr_routes = fmempty\<rparr>"

definition route_register :: "egress_route \<Rightarrow> route_registry \<Rightarrow> (route_registry_error + unit) \<times> route_registry" where
  "route_register route reg =
     (if fmlookup (rr_routes reg) (er_id route) \<noteq> None then (Err RouteAlreadyExists, reg)
      else if fcard (fmdom (rr_routes reg)) \<ge> rr_limit reg then (Err RouteCapacityExhausted, reg)
      else if pc_limit (er_payload route) > dk_max_payload_bytes (er_kind route)
      then (Err RoutePayloadLimitUnsupported, reg)
      else (Ok (), reg\<lparr>rr_routes := fmupd (er_id route)
              (route, TokenBucket_new (al_refill_per_second (er_admission route)) (al_capacity (er_admission route)))
              (rr_routes reg)\<rparr>))"

definition route_set_enabled :: "route_id \<Rightarrow> bool \<Rightarrow> route_registry \<Rightarrow> (route_registry_error + unit) \<times> route_registry" where
  "route_set_enabled i enabled reg =
     (case fmlookup (rr_routes reg) i of
        None \<Rightarrow> (Err RouteNotFound, reg)
      | Some (route, b) \<Rightarrow> (Ok (), reg\<lparr>rr_routes := fmupd i (route\<lparr>er_enabled := enabled\<rparr>, b) (rr_routes reg)\<rparr>))"

definition route_unregister :: "route_id \<Rightarrow> route_registry \<Rightarrow> route_registry" where
  "route_unregister i reg = reg\<lparr>rr_routes := fmdrop i (rr_routes reg)\<rparr>"

record route_summary =
  rs_id :: route_id
  rs_enabled :: bool
  rs_kind :: rstr
  rs_target :: rstr

definition route_summaries :: "route_registry \<Rightarrow> route_summary list" where
  "route_summaries reg =
     map (\<lambda>i. let route = fst (the (fmlookup (rr_routes reg) i)) in
            \<lparr>rs_id = er_id route, rs_enabled = er_enabled route, rs_kind = dk_name (er_kind route),
             rs_target = dk_target_summary (er_kind route)\<rparr>) (fm_keys (rr_routes reg))"

definition validate_call_route :: "route_registry \<Rightarrow> route_id \<Rightarrow> admission_error + unit" where
  "validate_call_route reg i =
     (case fmlookup (rr_routes reg) i of
        None \<Rightarrow> Err AdmRouteNotFound
      | Some (route, _) \<Rightarrow>
          if \<not> er_enabled route then Err AdmRouteDisabled
          else if \<not> dk_supports_call (er_kind route) then Err AdmUnsupportedOperation
          else Ok ())"

text \<open>An admitted delivery, which is also the \<open>AdmittedDeliveryParts\<close> the runtime keeps.\<close>

record admitted_delivery =
  ap_route :: route_id
  ap_delivery :: delivery_id
  ap_mode :: operation_mode
  ap_payload :: bytes
  ap_timeout :: duration
  ap_retry :: retry_policy
  ap_kind :: delivery_kind

text \<open>The token buckets are refilled, and stay refilled, also when one of them is empty.\<close>

definition route_admit ::
    "(bytes \<Rightarrow> json option) \<Rightarrow> route_id \<Rightarrow> delivery_id \<Rightarrow> bytes \<Rightarrow> operation_mode \<Rightarrow> egress_instant
       \<Rightarrow> route_registry \<Rightarrow> (admission_error + admitted_delivery) \<times> route_registry" where
  "route_admit parse i delivery payload mode now reg =
     (case fmlookup (rr_routes reg) i of
        None \<Rightarrow> (Err AdmRouteNotFound, reg)
      | Some (route, bucket) \<Rightarrow>
          if \<not> er_enabled route then (Err AdmRouteDisabled, reg)
          else if mode = ModeCall \<and> \<not> dk_supports_call (er_kind route) then (Err AdmUnsupportedOperation, reg)
          else
          case payload_validate parse (er_payload route) payload of
            Inl e \<Rightarrow> (Err (AdmPayload e), reg)
          | Inr payload \<Rightarrow>
          case dk_validate_payload (er_kind route) mode payload of
            Inl e \<Rightarrow> (Err (AdmKind e), reg)
          | Inr _ \<Rightarrow>
          let admitted = \<lparr>ap_route = i, ap_delivery = delivery, ap_mode = mode, ap_payload = payload,
                ap_timeout = er_timeout route,
                ap_retry = (if mode = ModeCall then without_retries else er_retry route),
                ap_kind = er_kind route\<rparr>
          in if mode = ModeEmit then
               let global = bucket_refill now (rr_global_admission reg);
                   local = bucket_refill now bucket;
                   refilled = reg\<lparr>rr_global_admission := global, rr_routes := fmupd i (route, local) (rr_routes reg)\<rparr>
               in if \<not> has_token global then (Err AdmGlobalRateLimited, refilled)
                  else if \<not> has_token local then (Err AdmRouteRateLimited, refilled)
                  else (Ok admitted,
                        reg\<lparr>rr_global_admission := bucket_take global,
                            rr_routes := fmupd i (route, bucket_take local) (rr_routes reg)\<rparr>)
             else (Ok admitted, reg))"

definition admitted_intent :: "admitted_delivery \<Rightarrow> nat \<Rightarrow> delivery_intent" where
  "admitted_intent a accepted_at =
     \<lparr>di_route = ap_route a, di_delivery = ap_delivery a, di_accepted_at = accepted_at\<rparr>"

end
