(* ===== verification/Egress_Engine.thy ===== *)
theory Egress_Engine
  imports Egress_Route Secrets_Model
begin

text \<open>
  The egress runtime (\<open>bondry-egress-runtime/src\<close>: \<open>limits.rs\<close>, \<open>attempt.rs\<close>, \<open>runtime.rs\<close>). The engine runs
  on one thread and handles one event at a time, so it is a state machine: the state is the record
  \<open>engine\<close>, every method of \<open>Engine\<close> is a function on it, and one turn of \<open>run\<close> is \<open>loop_select\<close>
  after \<open>loop_top\<close>. What the environment decides is in the events: commands, finished, cancelled or
  panicked attempts, timers and shutdown. A spawned attempt is known by its abort handle only; a completion may arrive for any identifier
  at any time, as a task that finished before it was aborted does. Answers go to the list \<open>en_sent\<close>, each
  with the handle of the command it answers. Every reading of the clocks takes the next value of
  \<open>ee_clock\<close>. The counters are naturals: that they stay below their limits, and hence within their widths,
  is part of the invariant of \<open>Egress_Run\<close>, which \<open>Egress_Life\<close> shows to hold in every run.
\<close>

section \<open>Attempts\<close>

datatype attempt_disposition =
    DispDelivered "delivery_result_metadata option"
  | DispRetryable retryable_failure
  | DispFailed delivery_failure
  | DispFailedWithResult delivery_failure delivery_result_metadata

record attempt_completion =
  cp_disposition :: attempt_disposition
  cp_result :: "bytes option"

definition completion :: "bool \<Rightarrow> attempt_disposition \<Rightarrow> attempt_completion" where
  "completion permits_retry disposition =
     \<lparr>cp_disposition = (case disposition of
          DispRetryable failure \<Rightarrow> if \<not> permits_retry then DispFailed (failure_of failure) else disposition
        | _ \<Rightarrow> disposition),
      cp_result = None\<rparr>"

datatype 'q kind_transition = KtHttp 'q | KtComplete attempt_disposition | KtCompleteWithResult attempt_disposition bytes

record ('o, 'q, 'p) operation_api =
  oa_operation :: "operation_mode \<Rightarrow> delivery_id \<Rightarrow> bytes \<Rightarrow> kind_operation_error + 'o"
  oa_secret_references :: "'o \<Rightarrow> secret_ref list"
  oa_start :: "'o \<Rightarrow> nat \<Rightarrow> resolved_secret list \<Rightarrow> 'q kind_transition \<times> 'o"
  oa_resume :: "'o \<Rightarrow> nat \<Rightarrow> 'p \<Rightarrow> 'q kind_transition \<times> 'o"

text \<open>What happens to a request: the deadline is over, it times out, or an answer arrives at a time.\<close>

datatype 'p send_event = DeadlinePassed | SendTimedOut | SendCompleted 'p nat

text \<open>The loop over the answers of the transport; \<open>None\<close> while it waits for the next one.\<close>

fun attempt_loop ::
    "('o, 'q, 'p) operation_api \<Rightarrow> bool \<Rightarrow> 'o \<Rightarrow> 'q kind_transition \<Rightarrow> 'p send_event list \<Rightarrow> attempt_completion option" where
  "attempt_loop api permits_retry op (KtComplete disposition) evs = Some (completion permits_retry disposition)"
| "attempt_loop api permits_retry op (KtCompleteWithResult disposition result) evs =
     Some (case disposition of
             DispDelivered (Some m) \<Rightarrow>
               if rm_bytes m = length result then \<lparr>cp_disposition = disposition, cp_result = Some result\<rparr>
               else completion permits_retry (DispFailed DfInternal)
           | _ \<Rightarrow> completion permits_retry (DispFailed DfInternal))"
| "attempt_loop api permits_retry op (KtHttp request) [] = None"
| "attempt_loop api permits_retry op (KtHttp request) (DeadlinePassed # evs) =
     Some (completion permits_retry (DispRetryable RfDeadlineExceeded))"
| "attempt_loop api permits_retry op (KtHttp request) (SendTimedOut # evs) =
     Some (completion permits_retry (DispRetryable RfDeadlineExceeded))"
| "attempt_loop api permits_retry op (KtHttp request) (SendCompleted answer unix_ms # evs) =
     (case oa_resume api op unix_ms answer of
        (transition, op') \<Rightarrow> attempt_loop api permits_retry op' transition evs)"

definition execute_attempt ::
    "('o, 'q, 'p) operation_api \<Rightarrow> delivery_kind \<Rightarrow> operation_mode \<Rightarrow> delivery_id \<Rightarrow> bytes \<Rightarrow> secret_provider
       \<Rightarrow> nat \<Rightarrow> 'p send_event list \<Rightarrow> attempt_completion option" where
  "execute_attempt api kind mode delivery payload secrets unix_ms evs =
     (let permits_retry = dk_permits_automatic_retry kind in
      case oa_operation api mode delivery payload of
        Inl _ \<Rightarrow> Some (completion permits_retry (DispFailed DfInternal))
      | Inr op \<Rightarrow>
          (case collectR secrets (oa_secret_references api op) of
             Inl SecretUnavailable \<Rightarrow> Some (completion permits_retry (DispRetryable RfSecretUnavailable))
           | Inl _ \<Rightarrow> Some (completion permits_retry (DispFailed DfSecretUnavailable))
           | Inr resolved \<Rightarrow>
               (case oa_start api op unix_ms resolved of
                  (transition, op') \<Rightarrow> attempt_loop api permits_retry op' transition evs)))"

section \<open>Limits\<close>

record runtime_limits =
  rl_global_pending_deliveries :: nat
  rl_route_pending_deliveries :: nat
  rl_global_pending_bytes :: nat
  rl_route_pending_bytes :: nat
  rl_global_in_flight :: nat
  rl_route_in_flight :: nat
  rl_call_in_flight :: nat
  rl_drain_timeout :: duration

datatype runtime_limit_error =
    RlGlobalPendingDeliveries | RlRoutePendingDeliveries | RlGlobalPendingBytes | RlRoutePendingBytes
  | RlGlobalInFlight | RlRouteInFlight | RlCallInFlight | RlDrainTimeout

definition EgressRuntimeLimits_new ::
    "nat \<Rightarrow> nat \<Rightarrow> nat \<Rightarrow> nat \<Rightarrow> nat \<Rightarrow> nat \<Rightarrow> nat \<Rightarrow> duration \<Rightarrow> runtime_limit_error + runtime_limits" where
  "EgressRuntimeLimits_new gp rp gb rb gi ri ci drain =
     (if \<not> (16 \<le> gp \<and> gp \<le> 4096) then Err RlGlobalPendingDeliveries
      else if \<not> (1 \<le> rp \<and> rp \<le> 256) \<or> rp > gp then Err RlRoutePendingDeliveries
      else if \<not> (1024 * 1024 \<le> gb \<and> gb \<le> 32 * 1024 * 1024) then Err RlGlobalPendingBytes
      else if \<not> (64 * 1024 \<le> rb \<and> rb \<le> 4 * 1024 * 1024) \<or> rb > gb then Err RlRoutePendingBytes
      else if \<not> (1 \<le> gi \<and> gi \<le> 16) then Err RlGlobalInFlight
      else if ri < 1 \<or> ri > gi then Err RlRouteInFlight
      else if \<not> (1 \<le> ci \<and> ci \<le> 16) then Err RlCallInFlight
      else if \<not> (from_secs 1 \<le> drain \<and> drain \<le> from_secs 60) then Err RlDrainTimeout
      else Ok \<lparr>rl_global_pending_deliveries = gp, rl_route_pending_deliveries = rp, rl_global_pending_bytes = gb,
        rl_route_pending_bytes = rb, rl_global_in_flight = gi, rl_route_in_flight = ri, rl_call_in_flight = ci,
        rl_drain_timeout = drain\<rparr>)"

section \<open>State\<close>

type_synonym reply_handle = nat

datatype egress_runtime_error =
    RtBusy | RtStopped | RtRoute route_registry_error | RtAdmission admission_error | RtRouteDraining
  | RtPendingCapacity | RtPendingBytes | RtCallCapacity | RtCallFailed delivery_failure
  | RtDeliveryLog delivery_log_error

record call_result =
  cr_delivery :: delivery_id
  cr_metadata :: delivery_result_metadata
  cr_json :: bytes

datatype runtime_reply =
    ReplyUnit "egress_runtime_error + unit"
  | ReplyRoutes "egress_runtime_error + route_summary list"
  | ReplyReceipt "egress_runtime_error + delivery_id"
  | ReplyCall "egress_runtime_error + call_result"
  | ReplyDelivery "egress_runtime_error + delivery_record option"

datatype runtime_command =
    CmdRegister egress_route reply_handle
  | CmdEnable route_id reply_handle
  | CmdDrain route_id bool reply_handle
  | CmdRoutes reply_handle
  | CmdEmit route_id delivery_id bytes reply_handle
  | CmdCall route_id delivery_id bytes reply_handle
  | CmdDelivery delivery_id reply_handle

record route_usage =
  us_pending :: nat
  us_bytes :: nat
  us_in_flight :: nat
  us_calls :: nat

abbreviation usage_default :: route_usage where
  "usage_default \<equiv> \<lparr>us_pending = 0, us_bytes = 0, us_in_flight = 0, us_calls = 0\<rparr>"

definition usage_is_idle :: "route_usage \<Rightarrow> bool" where
  "usage_is_idle u \<longleftrightarrow> us_pending u = 0 \<and> us_in_flight u = 0 \<and> us_calls u = 0"

record active_delivery =
  ad_accepted_at :: nat
  ad_parts :: admitted_delivery
  ad_lifecycle :: delivery_lifecycle
  ad_abort :: bool

record active_call = active_delivery +
  ac_reply :: reply_handle

record route_drain =
  rd_deadline :: egress_instant
  rd_remove :: bool
  rd_reply :: reply_handle

text \<open>The heap of retries is the sorted list of its elements.\<close>

record 'l engine =
  en_registry :: route_registry
  en_log :: 'l
  en_ticks :: nat
  en_active :: "(delivery_id, active_delivery) fmap"
  en_usage :: "(route_id, route_usage) fmap"
  en_ready :: "(route_id, delivery_id list) fmap"
  en_ready_routes :: "route_id list"
  en_retries :: "(egress_instant \<times> delivery_id) list"
  en_calls :: "(delivery_id, active_call) fmap"
  en_drains :: "(route_id, route_drain) fmap"
  en_overrides :: "(delivery_id, delivery_record) fmap"
  en_degraded :: bool
  en_global_pending :: nat
  en_global_bytes :: nat
  en_global_in_flight :: nat
  en_call_in_flight :: nat
  en_sent :: "(reply_handle \<times> runtime_reply) list"

record 'l engine_env =
  ee_limits :: runtime_limits
  ee_log :: "'l delivery_log"
  ee_parse :: "bytes \<Rightarrow> json option"
  ee_clock :: "nat \<Rightarrow> transition_time"

definition Engine_new :: "route_registry \<Rightarrow> 'l \<Rightarrow> 'l engine" where
  "Engine_new reg l =
     \<lparr>en_registry = reg, en_log = l, en_ticks = 0, en_active = fmempty, en_usage = fmempty, en_ready = fmempty,
      en_ready_routes = [], en_retries = [], en_calls = fmempty, en_drains = fmempty, en_overrides = fmempty,
      en_degraded = False, en_global_pending = 0, en_global_bytes = 0, en_global_in_flight = 0,
      en_call_in_flight = 0, en_sent = []\<rparr>"

definition read_clock :: "'l engine_env \<Rightarrow> 'l engine \<Rightarrow> transition_time \<times> 'l engine" where
  "read_clock v s = (ee_clock v (en_ticks s), s\<lparr>en_ticks := en_ticks s + 1\<rparr>)"

definition send :: "reply_handle \<Rightarrow> runtime_reply \<Rightarrow> 'l engine \<Rightarrow> 'l engine" where
  "send h r s = s\<lparr>en_sent := en_sent s @ [(h, r)]\<rparr>"

definition usage_of :: "'l engine \<Rightarrow> route_id \<Rightarrow> route_usage" where
  "usage_of s route = (case fmlookup (en_usage s) route of None \<Rightarrow> usage_default | Some u \<Rightarrow> u)"

text \<open>\<open>get_mut\<close> on the usage of a route: nothing happens when it has none.\<close>

definition adjust_usage :: "route_id \<Rightarrow> (route_usage \<Rightarrow> route_usage) \<Rightarrow> 'l engine \<Rightarrow> 'l engine" where
  "adjust_usage route f s =
     (case fmlookup (en_usage s) route of None \<Rightarrow> s | Some u \<Rightarrow> s\<lparr>en_usage := fmupd route (f u) (en_usage s)\<rparr>)"

definition with_lifecycle :: "delivery_id \<Rightarrow> delivery_lifecycle \<Rightarrow> 'l engine \<Rightarrow> 'l engine" where
  "with_lifecycle d lc s =
     (case fmlookup (en_active s) d of
        None \<Rightarrow> s | Some a \<Rightarrow> s\<lparr>en_active := fmupd d (a\<lparr>ad_lifecycle := lc\<rparr>) (en_active s)\<rparr>)"

definition with_call_lifecycle :: "delivery_id \<Rightarrow> delivery_lifecycle \<Rightarrow> 'l engine \<Rightarrow> 'l engine" where
  "with_call_lifecycle d lc s =
     (case fmlookup (en_calls s) d of
        None \<Rightarrow> s | Some a \<Rightarrow> s\<lparr>en_calls := fmupd d (a\<lparr>ad_lifecycle := lc\<rparr>) (en_calls s)\<rparr>)"

section \<open>Persistence\<close>

definition persist ::
    "'l engine_env \<Rightarrow> persistence_action \<Rightarrow> 'l engine \<Rightarrow> (delivery_log_error + unit) \<times> 'l engine" where
  "persist v action s =
     (case (case action of
              InsertIntent i \<Rightarrow> dlog_insert_intent (ee_log v) (en_log s) i
            | RecordAttempt d n t \<Rightarrow> dlog_record_attempt (ee_log v) (en_log s) d n t
            | RecordOutcome d out t res \<Rightarrow> dlog_record_outcome (ee_log v) (en_log s) d out t res) of
        (r, l) \<Rightarrow> (r, s\<lparr>en_log := l\<rparr>))"

definition persisted_terminal_matches ::
    "'l engine_env \<Rightarrow> delivery_id \<Rightarrow> delivery_outcome \<Rightarrow> delivery_result_metadata option \<Rightarrow> 'l engine
       \<Rightarrow> bool \<times> 'l engine" where
  "persisted_terminal_matches v d out res s =
     (case dlog_delivery (ee_log v) (en_log s) d of
        (r, l) \<Rightarrow>
          (case r of Inr (Some x) \<Rightarrow> dr_state x = Terminal out \<and> dr_result x = res | _ \<Rightarrow> False,
           s\<lparr>en_log := l\<rparr>))"

definition override_record ::
    "'a active_delivery_scheme \<Rightarrow> delivery_id \<Rightarrow> delivery_outcome \<Rightarrow> nat \<Rightarrow> delivery_result_metadata option
       \<Rightarrow> delivery_record" where
  "override_record a d out unix_ms res =
     DeliveryRecord_from_stored_parts
       \<lparr>di_route = ap_route (ad_parts a), di_delivery = d, di_accepted_at = ad_accepted_at a\<rparr>
       (lc_attempts (ad_lifecycle a)) (Terminal out) unix_ms res"

definition insert_override ::
    "'l engine_env \<Rightarrow> delivery_id \<Rightarrow> delivery_outcome \<Rightarrow> delivery_result_metadata option \<Rightarrow> 'l engine \<Rightarrow> 'l engine" where
  "insert_override v d out res s =
     (case fmlookup (en_active s) d of
        None \<Rightarrow> s
      | Some a \<Rightarrow>
          (case read_clock v s of (time, s) \<Rightarrow>
             s\<lparr>en_overrides := fmupd d (override_record a d out (tt_unix_ms time) res) (en_overrides s)\<rparr>))"

definition insert_call_override ::
    "'l engine_env \<Rightarrow> delivery_id \<Rightarrow> delivery_outcome \<Rightarrow> delivery_result_metadata option \<Rightarrow> 'l engine \<Rightarrow> 'l engine" where
  "insert_call_override v d out res s =
     (case fmlookup (en_calls s) d of
        None \<Rightarrow> s
      | Some a \<Rightarrow>
          (case read_clock v s of (time, s) \<Rightarrow>
             s\<lparr>en_overrides := fmupd d (override_record a d out (tt_unix_ms time) res) (en_overrides s)\<rparr>))"

section \<open>The end of a delivery\<close>

definition finish_active :: "delivery_id \<Rightarrow> 'l engine \<Rightarrow> 'l engine" where
  "finish_active d s =
     (case fmlookup (en_active s) d of
        None \<Rightarrow> s
      | Some a \<Rightarrow>
          let route = ap_route (ad_parts a);
              bs = length (ap_payload (ad_parts a));
              s = s\<lparr>en_active := fmdrop d (en_active s)\<rparr>;
              s = (if ad_abort a
                   then adjust_usage route (\<lambda>u. u\<lparr>us_in_flight := us_in_flight u - 1\<rparr>)
                          (s\<lparr>en_global_in_flight := en_global_in_flight s - 1\<rparr>)
                   else s);
              s = s\<lparr>en_global_pending := en_global_pending s - 1, en_global_bytes := en_global_bytes s - bs\<rparr>
          in case fmlookup (en_usage s) route of
               None \<Rightarrow> s
             | Some u \<Rightarrow>
                 let u = u\<lparr>us_pending := us_pending u - 1, us_bytes := us_bytes u - bs\<rparr>
                 in if usage_is_idle u then s\<lparr>en_usage := fmdrop route (en_usage s)\<rparr>
                    else s\<lparr>en_usage := fmupd route u (en_usage s)\<rparr>)"

definition finish_call :: "delivery_id \<Rightarrow> egress_runtime_error + call_result \<Rightarrow> 'l engine \<Rightarrow> 'l engine" where
  "finish_call d response s =
     (case fmlookup (en_calls s) d of
        None \<Rightarrow> s
      | Some a \<Rightarrow>
          let route = ap_route (ad_parts a);
              s = s\<lparr>en_calls := fmdrop d (en_calls s)\<rparr>;
              s = (if ad_abort a then s\<lparr>en_call_in_flight := en_call_in_flight s - 1\<rparr> else s);
              s = (case fmlookup (en_usage s) route of
                     None \<Rightarrow> s
                   | Some u \<Rightarrow>
                       let u = u\<lparr>us_calls := us_calls u - 1\<rparr>
                       in if usage_is_idle u then s\<lparr>en_usage := fmdrop route (en_usage s)\<rparr>
                          else s\<lparr>en_usage := fmupd route u (en_usage s)\<rparr>)
          in send (ac_reply a) (ReplyCall response) s)"

text \<open>The shared test of the four functions below: keep an override unless the log has the outcome.\<close>

definition keep_override ::
    "'l engine_env \<Rightarrow> ('l engine \<Rightarrow> 'l engine) \<Rightarrow> bool \<Rightarrow> delivery_id \<Rightarrow> delivery_outcome
       \<Rightarrow> delivery_result_metadata option \<Rightarrow> 'l engine \<Rightarrow> 'l engine" where
  "keep_override v insert_it persisted d out res s =
     (if persisted then s
      else case persisted_terminal_matches v d out res s of
             (True, s) \<Rightarrow> s
           | (False, s) \<Rightarrow> insert_it (s\<lparr>en_degraded := True\<rparr>))"

definition persist_terminal ::
    "'l engine_env \<Rightarrow> delivery_id \<Rightarrow> delivery_outcome \<Rightarrow> delivery_result_metadata option
       \<Rightarrow> persistence_action option \<Rightarrow> 'l engine \<Rightarrow> 'l engine" where
  "persist_terminal v d out res action s =
     (let (persisted, s) = (case action of None \<Rightarrow> (False, s)
            | Some p \<Rightarrow> map_prod is_ok id (persist v p s))
      in finish_active d (keep_override v (insert_override v d out res) persisted d out res s))"

definition persist_call_terminal ::
    "'l engine_env \<Rightarrow> delivery_id \<Rightarrow> delivery_outcome \<Rightarrow> delivery_result_metadata option
       \<Rightarrow> persistence_action option \<Rightarrow> 'l engine \<Rightarrow> 'l engine" where
  "persist_call_terminal v d out res action s =
     (let (persisted, s) = (case action of None \<Rightarrow> (False, s)
            | Some p \<Rightarrow> map_prod is_ok id (persist v p s))
      in keep_override v (insert_call_override v d out res) persisted d out res s)"

definition force_terminal ::
    "'l engine_env \<Rightarrow> delivery_id \<Rightarrow> delivery_outcome \<Rightarrow> delivery_result_metadata option \<Rightarrow> 'l engine \<Rightarrow> 'l engine" where
  "force_terminal v d out res s =
     (let (time, s) = read_clock v s;
          (r, s) = persist v (RecordOutcome d out (tt_unix_ms time) res) s
      in finish_active d (keep_override v (insert_override v d out res) (is_ok r) d out res s))"

definition force_call_terminal ::
    "'l engine_env \<Rightarrow> delivery_id \<Rightarrow> delivery_outcome \<Rightarrow> delivery_result_metadata option
       \<Rightarrow> egress_runtime_error + call_result \<Rightarrow> 'l engine \<Rightarrow> 'l engine" where
  "force_call_terminal v d out res response s =
     (let (time, s) = read_clock v s;
          (r, s) = persist v (RecordOutcome d out (tt_unix_ms time) res) s
      in finish_call d response (keep_override v (insert_call_override v d out res) (is_ok r) d out res s))"

abbreviation internal_failure :: delivery_outcome where
  "internal_failure \<equiv> DeliveryFailed DfInternal"

definition apply_terminal_event :: "'l engine_env \<Rightarrow> delivery_id \<Rightarrow> delivery_event \<Rightarrow> 'l engine \<Rightarrow> 'l engine" where
  "apply_terminal_event v d event s =
     (let (time, s) = read_clock v s in
      case Option.bind (fmlookup (en_active s) d) (\<lambda>a. life_transition (ad_lifecycle a) time event) of
        None \<Rightarrow> force_terminal v d internal_failure None s
      | Some (step, lc) \<Rightarrow>
          let s = with_lifecycle d lc s in
          (case sp_action step of
             ActTerminal out res \<Rightarrow> persist_terminal v d out res (sp_persistence step) s
           | _ \<Rightarrow> force_terminal v d internal_failure None s))"

definition apply_call_terminal_event ::
    "'l engine_env \<Rightarrow> delivery_id \<Rightarrow> delivery_event \<Rightarrow> egress_runtime_error + call_result \<Rightarrow> 'l engine \<Rightarrow> 'l engine" where
  "apply_call_terminal_event v d event response s =
     (let (time, s) = read_clock v s in
      case Option.bind (fmlookup (en_calls s) d) (\<lambda>a. life_transition (ad_lifecycle a) time event) of
        None \<Rightarrow> force_call_terminal v d internal_failure None (Err (RtCallFailed DfInternal)) s
      | Some (step, lc) \<Rightarrow>
          let s = with_call_lifecycle d lc s in
          (case sp_action step of
             ActTerminal out res \<Rightarrow>
               finish_call d response (persist_call_terminal v d out res (sp_persistence step) s)
           | _ \<Rightarrow> force_call_terminal v d internal_failure None (Err (RtCallFailed DfInternal)) s))"

section \<open>Queues and attempts\<close>

definition enqueue_ready :: "route_id \<Rightarrow> delivery_id \<Rightarrow> 'l engine \<Rightarrow> 'l engine" where
  "enqueue_ready route d s =
     (let queue = (case fmlookup (en_ready s) route of None \<Rightarrow> [] | Some q \<Rightarrow> q)
      in s\<lparr>en_ready := fmupd route (queue @ [d]) (en_ready s),
           en_ready_routes := (if queue = [] then en_ready_routes s @ [route] else en_ready_routes s)\<rparr>)"

definition start_attempt :: "'l engine_env \<Rightarrow> delivery_id \<Rightarrow> 'l engine \<Rightarrow> 'l engine" where
  "start_attempt v d s =
     (let (time, s) = read_clock v s in
      case Option.bind (fmlookup (en_active s) d) (\<lambda>a. life_transition (ad_lifecycle a) time EvDrive) of
        None \<Rightarrow> force_terminal v d internal_failure None s
      | Some (step, lc) \<Rightarrow>
          let s = with_lifecycle d lc s in
          (case sp_persistence step of
             None \<Rightarrow> s
           | Some p \<Rightarrow>
               (case persist v p s of
                  (Inl _, s) \<Rightarrow> apply_terminal_event v d (EvFailed DfInternal) (s\<lparr>en_degraded := True\<rparr>)
                | (Inr _, s) \<Rightarrow>
                    (case sp_action step of
                       ActStartAttempt _ \<Rightarrow>
                         (case fmlookup (en_active s) d of
                            None \<Rightarrow> s
                          | Some a \<Rightarrow>
                              let route = ap_route (ad_parts a); u = usage_of s route
                              in s\<lparr>en_active := fmupd d (a\<lparr>ad_abort := True\<rparr>) (en_active s),
                                   en_global_in_flight := en_global_in_flight s + 1,
                                   en_usage := fmupd route (u\<lparr>us_in_flight := us_in_flight u + 1\<rparr>) (en_usage s)\<rparr>)
                     | _ \<Rightarrow> force_terminal v d internal_failure None s))))"

definition start_call :: "'l engine_env \<Rightarrow> delivery_id \<Rightarrow> 'l engine \<Rightarrow> 'l engine" where
  "start_call v d s =
     (let (time, s) = read_clock v s;
          fail = force_call_terminal v d internal_failure None (Err (RtCallFailed DfInternal))
      in
      case Option.bind (fmlookup (en_calls s) d) (\<lambda>a. life_transition (ad_lifecycle a) time EvDrive) of
        None \<Rightarrow> fail s
      | Some (step, lc) \<Rightarrow>
          let s = with_call_lifecycle d lc s in
          (case sp_persistence step of
             None \<Rightarrow> fail s
           | Some p \<Rightarrow>
               (case persist v p s of
                  (Inl _, s) \<Rightarrow>
                    force_call_terminal v d internal_failure None (Err (RtDeliveryLog DlUnavailable))
                      (s\<lparr>en_degraded := True\<rparr>)
                | (Inr _, s) \<Rightarrow>
                    (case sp_action step of
                       ActStartAttempt _ \<Rightarrow>
                         (case fmlookup (en_calls s) d of
                            None \<Rightarrow> s
                          | Some a \<Rightarrow>
                              s\<lparr>en_calls := fmupd d (a\<lparr>ad_abort := True\<rparr>) (en_calls s),
                                en_call_in_flight := en_call_in_flight s + 1\<rparr>)
                     | _ \<Rightarrow> fail s))))"

section \<open>Admission\<close>

definition check_pending_capacity :: "'l engine_env \<Rightarrow> route_id \<Rightarrow> nat \<Rightarrow> 'l engine \<Rightarrow> egress_runtime_error + unit" where
  "check_pending_capacity v route bs s =
     (let u = usage_of s route; l = ee_limits v in
      if en_global_pending s \<ge> rl_global_pending_deliveries l \<or> us_pending u \<ge> rl_route_pending_deliveries l
      then Err RtPendingCapacity
      else if en_global_bytes s + bs > rl_global_pending_bytes l \<or> us_bytes u + bs > rl_route_pending_bytes l
      then Err RtPendingBytes
      else Ok ())"

definition admit_emit ::
    "'l engine_env \<Rightarrow> route_id \<Rightarrow> delivery_id \<Rightarrow> bytes \<Rightarrow> 'l engine \<Rightarrow> (egress_runtime_error + delivery_id) \<times> 'l engine" where
  "admit_emit v route d payload s =
     (if en_degraded s then (Err (RtDeliveryLog DlUnavailable), s)
      else
        let (time, s) = read_clock v s in
        case route_admit (ee_parse v) route d payload ModeEmit (tt_monotonic time) (en_registry s) of
          (Inl e, reg) \<Rightarrow> (Err (RtAdmission e), s\<lparr>en_registry := reg\<rparr>)
        | (Inr parts, reg) \<Rightarrow>
            let s = s\<lparr>en_registry := reg\<rparr>; bs = length (ap_payload parts) in
            (case check_pending_capacity v route bs s of
               Inl e \<Rightarrow> (Err e, s)
             | Inr _ \<Rightarrow>
                 (case persist v (InsertIntent (admitted_intent parts (tt_unix_ms time))) s of
                    (Inl e, s) \<Rightarrow> (Err (RtDeliveryLog e), s)
                  | (Inr _, s) \<Rightarrow>
                      let u = usage_of s route;
                          lc = DeliveryLifecycle_new (ap_route parts) (ap_delivery parts) (ap_retry parts);
                          a = \<lparr>ad_accepted_at = tt_unix_ms time, ad_parts = parts, ad_lifecycle = lc, ad_abort = False\<rparr>
                      in (Ok d, enqueue_ready route d
                            (s\<lparr>en_active := fmupd d a (en_active s),
                               en_global_pending := en_global_pending s + 1,
                               en_global_bytes := en_global_bytes s + bs,
                               en_usage := fmupd route (u\<lparr>us_pending := us_pending u + 1, us_bytes := us_bytes u + bs\<rparr>)
                                 (en_usage s)\<rparr>)))))"

definition prepare_call ::
    "'l engine_env \<Rightarrow> route_id \<Rightarrow> delivery_id \<Rightarrow> bytes \<Rightarrow> reply_handle \<Rightarrow> 'l engine
       \<Rightarrow> (egress_runtime_error + unit) \<times> 'l engine" where
  "prepare_call v route d payload reply s =
     (if en_degraded s then (Err (RtDeliveryLog DlUnavailable), s)
      else case validate_call_route (en_registry s) route of
        Inl e \<Rightarrow> (Err (RtAdmission e), s)
      | Inr _ \<Rightarrow>
          if fcard (fmdom (en_calls s)) \<ge> rl_call_in_flight (ee_limits v) then (Err RtCallCapacity, s)
          else
            let (time, s) = read_clock v s in
            case route_admit (ee_parse v) route d payload ModeCall (tt_monotonic time) (en_registry s) of
              (Inl e, reg) \<Rightarrow> (Err (RtAdmission e), s\<lparr>en_registry := reg\<rparr>)
            | (Inr parts, reg) \<Rightarrow>
                let s = s\<lparr>en_registry := reg\<rparr> in
                (case persist v (InsertIntent (admitted_intent parts (tt_unix_ms time))) s of
                   (Inl e, s) \<Rightarrow> (Err (RtDeliveryLog e), s)
                 | (Inr _, s) \<Rightarrow>
                     let u = usage_of s route;
                         lc = DeliveryLifecycle_new (ap_route parts) (ap_delivery parts) (ap_retry parts);
                         a = \<lparr>ad_accepted_at = tt_unix_ms time, ad_parts = parts, ad_lifecycle = lc, ad_abort = False,
                               ac_reply = reply\<rparr>
                     in (Ok (), start_call v d
                           (s\<lparr>en_calls := fmupd d a (en_calls s),
                              en_usage := fmupd route (u\<lparr>us_calls := us_calls u + 1\<rparr>) (en_usage s)\<rparr>))))"

definition admit_call ::
    "'l engine_env \<Rightarrow> route_id \<Rightarrow> delivery_id \<Rightarrow> bytes \<Rightarrow> reply_handle \<Rightarrow> 'l engine \<Rightarrow> 'l engine" where
  "admit_call v route d payload reply s =
     (case prepare_call v route d payload reply s of
        (Inl e, s) \<Rightarrow> send reply (ReplyCall (Err e)) s
      | (Inr _, s) \<Rightarrow> s)"

definition delivery_status ::
    "'l engine_env \<Rightarrow> delivery_id \<Rightarrow> 'l engine \<Rightarrow> (egress_runtime_error + delivery_record option) \<times> 'l engine" where
  "delivery_status v d s =
     (case fmlookup (en_overrides s) d of
        Some x \<Rightarrow> (Ok (Some x), s)
      | None \<Rightarrow>
          (case dlog_delivery (ee_log v) (en_log s) d of
             (r, l) \<Rightarrow> (map_err RtDeliveryLog r, s\<lparr>en_log := l\<rparr>)))"

definition begin_drain :: "'l engine_env \<Rightarrow> route_id \<Rightarrow> bool \<Rightarrow> reply_handle \<Rightarrow> 'l engine \<Rightarrow> 'l engine" where
  "begin_drain v route remove reply s =
     (if fmlookup (en_drains s) route \<noteq> None then send reply (ReplyUnit (Err RtRouteDraining)) s
      else case route_set_enabled route False (en_registry s) of
        (Inl e, reg) \<Rightarrow> send reply (ReplyUnit (Err (RtRoute e))) (s\<lparr>en_registry := reg\<rparr>)
      | (Inr _, reg) \<Rightarrow>
          let s = s\<lparr>en_registry := reg\<rparr> in
          if usage_is_idle (usage_of s route)
          then send reply (ReplyUnit (Ok ()))
                 (if remove then s\<lparr>en_registry := route_unregister route (en_registry s)\<rparr> else s)
          else case read_clock v s of (time, s) \<Rightarrow>
            s\<lparr>en_drains := fmupd route
                \<lparr>rd_deadline = instant_saturating_add (tt_monotonic time) (rl_drain_timeout (ee_limits v)),
                 rd_remove = remove, rd_reply = reply\<rparr> (en_drains s)\<rparr>)"

definition handle_command :: "'l engine_env \<Rightarrow> runtime_command \<Rightarrow> 'l engine \<Rightarrow> 'l engine" where
  "handle_command v c s =
     (case c of
        CmdRegister route reply \<Rightarrow>
          (case route_register route (en_registry s) of
             (r, reg) \<Rightarrow> send reply (ReplyUnit (map_err RtRoute r)) (s\<lparr>en_registry := reg\<rparr>))
      | CmdEnable route reply \<Rightarrow>
          if fmlookup (en_drains s) route \<noteq> None then send reply (ReplyUnit (Err RtRouteDraining)) s
          else (case route_set_enabled route True (en_registry s) of
                  (r, reg) \<Rightarrow> send reply (ReplyUnit (map_err RtRoute r)) (s\<lparr>en_registry := reg\<rparr>))
      | CmdDrain route remove reply \<Rightarrow> begin_drain v route remove reply s
      | CmdRoutes reply \<Rightarrow> send reply (ReplyRoutes (Ok (route_summaries (en_registry s)))) s
      | CmdEmit route d payload reply \<Rightarrow>
          (case admit_emit v route d payload s of (r, s) \<Rightarrow> send reply (ReplyReceipt r) s)
      | CmdCall route d payload reply \<Rightarrow> admit_call v route d payload reply s
      | CmdDelivery d reply \<Rightarrow>
          (case delivery_status v d s of (r, s) \<Rightarrow> send reply (ReplyDelivery r) s))"

end
