(* ===== verification/Egress_Loop.thy ===== *)
theory Egress_Loop
  imports Egress_Engine
begin

text \<open>
  The scheduler of the egress runtime (\<open>bondry-egress-runtime/src/runtime.rs\<close>): fair dispatch, completions,
  deadlines, drains, shutdown, and one turn of the event loop.
\<close>

section \<open>Fair dispatch\<close>

definition startable :: "'l engine \<Rightarrow> delivery_id \<Rightarrow> bool" where
  "startable s d = (case fmlookup (en_active s) d of None \<Rightarrow> False | Some a \<Rightarrow> \<not> ad_abort a)"

text \<open>The loop of \<open>take_fair_ready\<close> over the routes that were ready when it began.\<close>

fun fair_loop :: "'l engine_env \<Rightarrow> nat \<Rightarrow> 'l engine \<Rightarrow> delivery_id option \<times> 'l engine" where
  "fair_loop v 0 s = (None, s)"
| "fair_loop v (Suc n) s =
     (case en_ready_routes s of
        [] \<Rightarrow> (None, s)
      | route # routes \<Rightarrow>
          if us_in_flight (usage_of s route) \<ge> rl_route_in_flight (ee_limits v)
          then fair_loop v n (s\<lparr>en_ready_routes := routes @ [route]\<rparr>)
          else (case fmlookup (en_ready s) route of
             None \<Rightarrow> fair_loop v n (s\<lparr>en_ready_routes := routes @ [route]\<rparr>)
           | Some queue \<Rightarrow>
               let rest = dropWhile (\<lambda>d. \<not> startable s d) queue;
                   s' = (if tl rest = []
                         then s\<lparr>en_ready_routes := routes, en_ready := fmdrop route (en_ready s)\<rparr>
                         else s\<lparr>en_ready_routes := routes @ [route], en_ready := fmupd route (tl rest) (en_ready s)\<rparr>)
               in (case rest of [] \<Rightarrow> fair_loop v n s' | d # _ \<Rightarrow> (Some d, s'))))"

definition take_fair_ready :: "'l engine_env \<Rightarrow> 'l engine \<Rightarrow> delivery_id option \<times> 'l engine" where
  "take_fair_ready v s = fair_loop v (length (en_ready_routes s)) s"

text \<open>Sums over the values of a finite map.\<close>

definition fm_sum :: "('v \<Rightarrow> nat) \<Rightarrow> ('k, 'v) fmap \<Rightarrow> nat" where
  "fm_sum g m = (\<Sum>k\<in>fset (fmdom m). g (the (fmlookup m k)))"

lemma fm_sum_empty [simp]: "fm_sum g fmempty = 0"
  by (simp add: fm_sum_def)

lemma fm_sum_drop: "fmlookup m k = Some u \<Longrightarrow> fm_sum g m = fm_sum g (fmdrop k m) + g u"
proof -
  assume u: "fmlookup m k = Some u"
  then have k: "k \<in> fset (fmdom m)" by (rule fmdomI)
  have "fm_sum g m = g (the (fmlookup m k)) + (\<Sum>j\<in>fset (fmdom m) - {k}. g (the (fmlookup m j)))"
    unfolding fm_sum_def by (rule sum.remove [OF _ k]) simp
  moreover have "fset (fmdom (fmdrop k m)) = fset (fmdom m) - {k}" by simp
  moreover have "(\<Sum>j\<in>fset (fmdom m) - {k}. g (the (fmlookup m j))) =
      (\<Sum>j\<in>fset (fmdom m) - {k}. g (the (fmlookup (fmdrop k m) j)))"
    by (rule sum.cong) (auto simp only: fmlookup_drop Diff_iff singleton_iff if_True simp_thms)
  ultimately show ?thesis using u by (simp only: fm_sum_def option.sel add.commute)
qed

lemma fmdrop_fmupd_self: "fmdrop k (fmupd k x m) = fmdrop k m"
  by (rule fmap_ext) simp

lemma fmdrop_absent: "fmlookup m k = None \<Longrightarrow> fmdrop k m = m"
  by (rule fmap_ext) simp

lemma fm_sum_upd: "fm_sum g (fmupd k x m) = fm_sum g (fmdrop k m) + g x"
  using fm_sum_drop [of "fmupd k x m" k x g] by (simp add: fmdrop_fmupd_self)

lemma fm_sum_new: "fmlookup m k = None \<Longrightarrow> fm_sum g (fmupd k x m) = fm_sum g m + g x"
  by (simp add: fm_sum_upd fmdrop_absent)

lemma fm_sum_same: "fmlookup m k = Some u \<Longrightarrow> g x = g u \<Longrightarrow> fm_sum g (fmupd k x m) = fm_sum g m"
  by (simp add: fm_sum_upd fm_sum_drop [of m k u])

lemma fm_sum_mono: "(\<And>x. g x \<le> h x) \<Longrightarrow> fm_sum g m \<le> fm_sum h m"
  unfolding fm_sum_def by (rule sum_mono) simp

definition ready_size :: "'l engine \<Rightarrow> nat" where
  "ready_size s = fm_sum length (en_ready s)"

lemma fair_loop_shrinks:
  "fair_loop v n s = (Some d, s') \<Longrightarrow> ready_size s' < ready_size s"
proof (induction n arbitrary: s)
  case (Suc n)
  obtain route routes where rr: "en_ready_routes s = route # routes"
    using Suc.prems by (cases "en_ready_routes s") auto
  let ?turn = "s\<lparr>en_ready_routes := routes @ [route]\<rparr>"
  have turn: "ready_size ?turn = ready_size s" by (simp add: ready_size_def)
  show ?case
  proof (cases "us_in_flight (usage_of s route) \<ge> rl_route_in_flight (ee_limits v) \<or>
      fmlookup (en_ready s) route = None")
    case True
    with Suc.prems rr have "fair_loop v n ?turn = (Some d, s')" by (auto split: if_splits)
    from Suc.IH [OF this] turn show ?thesis by simp
  next
    case False
    then obtain queue where q: "fmlookup (en_ready s) route = Some queue"
      and room: "\<not> us_in_flight (usage_of s route) \<ge> rl_route_in_flight (ee_limits v)" by auto
    define rest where "rest = dropWhile (\<lambda>d. \<not> startable s d) queue"
    let ?s' = "if tl rest = []
       then s\<lparr>en_ready_routes := routes, en_ready := fmdrop route (en_ready s)\<rparr>
       else s\<lparr>en_ready_routes := routes @ [route], en_ready := fmupd route (tl rest) (en_ready s)\<rparr>"
    have len: "length rest \<le> length queue" unfolding rest_def by (rule length_dropWhile_le)
    have size: "ready_size ?s' + length queue = ready_size s + length (tl rest)"
      using fm_sum_drop [OF q, of length] by (cases "tl rest") (simp_all add: ready_size_def fm_sum_upd)
    have step: "fair_loop v (Suc n) s = (case rest of [] \<Rightarrow> fair_loop v n ?s' | d # _ \<Rightarrow> (Some d, ?s'))"
      using rr q room unfolding rest_def by (simp add: Let_def)
    show ?thesis
    proof (cases rest)
      case Nil
      with step Suc.prems have "fair_loop v n ?s' = (Some d, s')" by simp
      from Suc.IH [OF this] size len Nil show ?thesis by simp
    next
      case (Cons e r)
      with step Suc.prems have "s' = ?s'" by simp
      with size len Cons show ?thesis by simp
    qed
  qed
qed simp

section \<open>Starting an attempt leaves the queues alone\<close>

definition queues :: "'l engine \<Rightarrow> (route_id, delivery_id list) fmap \<times> route_id list \<times> (egress_instant \<times> delivery_id) list" where
  "queues s = (en_ready s, en_ready_routes s, en_retries s)"

lemma read_clock_simps [simp]:
  "fst (read_clock v s) = ee_clock v (en_ticks s)" "snd (read_clock v s) = s\<lparr>en_ticks := en_ticks s + 1\<rparr>"
  by (simp_all add: read_clock_def)

lemma queues_frame [simp]:
  "queues (s\<lparr>en_ticks := t\<rparr>) = queues s" "queues (s\<lparr>en_log := l\<rparr>) = queues s"
  "queues (s\<lparr>en_degraded := b\<rparr>) = queues s" "queues (s\<lparr>en_active := a\<rparr>) = queues s"
  "queues (s\<lparr>en_calls := c\<rparr>) = queues s" "queues (s\<lparr>en_usage := u\<rparr>) = queues s"
  "queues (s\<lparr>en_global_in_flight := n\<rparr>) = queues s" "queues (s\<lparr>en_global_pending := n\<rparr>) = queues s"
  "queues (s\<lparr>en_global_bytes := n\<rparr>) = queues s" "queues (s\<lparr>en_call_in_flight := n\<rparr>) = queues s"
  "queues (s\<lparr>en_overrides := o'\<rparr>) = queues s" "queues (s\<lparr>en_sent := r\<rparr>) = queues s"
  "queues (s\<lparr>en_registry := g\<rparr>) = queues s"
  by (simp_all add: queues_def)

lemma queues_persist [simp]: "queues (snd (persist v p s)) = queues s"
  by (simp add: persist_def split: prod.split)

lemma queues_persistD: "persist v p s = (r, s') \<Longrightarrow> queues s' = queues s"
  using queues_persist [of v p s] by simp

lemma queues_matches [simp]: "queues (snd (persisted_terminal_matches v d out res s)) = queues s"
  by (simp add: persisted_terminal_matches_def split: prod.split)

lemma queues_override [simp]: "queues (insert_override v d out res s) = queues s"
  by (simp add: insert_override_def read_clock_def split: option.split)

lemma queues_lifecycle [simp]: "queues (with_lifecycle d lc s) = queues s"
  by (simp add: with_lifecycle_def split: option.split)

lemma queues_adjust [simp]: "queues (adjust_usage r f s) = queues s"
  by (simp add: adjust_usage_def split: option.split)

lemma queues_finish [simp]: "queues (finish_active d s) = queues s"
  by (simp add: finish_active_def Let_def split: option.split)

lemma queues_keep [simp]: "(\<And>s. queues (f s) = queues s) \<Longrightarrow> queues (keep_override v f b d out res s) = queues s"
  using queues_matches [of v d out res s]
  by (cases "persisted_terminal_matches v d out res s") (simp add: keep_override_def split: bool.split)

lemma queues_force [simp]: "queues (force_terminal v d out res s) = queues s"
  by (auto simp: force_terminal_def read_clock_def dest: queues_persistD split: prod.split)

lemma queues_persist_terminal [simp]: "queues (persist_terminal v d out res p s) = queues s"
  by (cases p) (auto simp: persist_terminal_def map_prod_def dest: queues_persistD split: prod.split)

lemma queues_apply [simp]: "queues (apply_terminal_event v d e s) = queues s"
  by (simp add: apply_terminal_event_def read_clock_def Let_def split: option.split prod.split delivery_action.split)

lemma queues_start [simp]: "queues (start_attempt v d s) = queues s"
  by (auto simp: start_attempt_def read_clock_def Let_def dest: queues_persistD
      split: option.split prod.split sum.split delivery_action.split)

function (sequential) dispatch_ready :: "'l engine_env \<Rightarrow> 'l engine \<Rightarrow> 'l engine" where
  "dispatch_ready v s =
     (if en_global_in_flight s < rl_global_in_flight (ee_limits v)
      then (case take_fair_ready v s of
              (None, s') \<Rightarrow> s'
            | (Some d, s') \<Rightarrow> dispatch_ready v (start_attempt v d s'))
      else s)"
  by pat_completeness auto
termination
proof (relation "measure (\<lambda>(v, s). ready_size s)")
  fix v :: "'l engine_env" and s :: "'l engine" and o' s' d
  assume "(o', s') = take_fair_ready v s" and "o' = Some d"
  then have "ready_size s' < ready_size s" by (metis fair_loop_shrinks take_fair_ready_def)
  moreover have "ready_size (start_attempt v d s') = ready_size s'"
    using queues_start [of v d s'] by (simp add: ready_size_def queues_def)
  ultimately show "((v, start_attempt v d s'), v, s) \<in> measure (\<lambda>(v, s). ready_size s)" by simp
qed simp

declare dispatch_ready.simps [simp del]

section \<open>Completions\<close>

text \<open>
  \<open>clear_in_flight\<close> and \<open>abort_in_flight\<close> differ in the call of \<open>abort\<close> on the handle that is taken, which
  is no part of the state; likewise for calls.
\<close>

definition clear_in_flight :: "delivery_id \<Rightarrow> 'l engine \<Rightarrow> bool \<times> 'l engine" where
  "clear_in_flight d s =
     (case fmlookup (en_active s) d of
        None \<Rightarrow> (False, s)
      | Some a \<Rightarrow>
          if \<not> ad_abort a then (False, s)
          else (True, adjust_usage (ap_route (ad_parts a)) (\<lambda>u. u\<lparr>us_in_flight := us_in_flight u - 1\<rparr>)
                  (s\<lparr>en_active := fmupd d (a\<lparr>ad_abort := False\<rparr>) (en_active s),
                     en_global_in_flight := en_global_in_flight s - 1\<rparr>)))"

definition clear_call_in_flight :: "delivery_id \<Rightarrow> 'l engine \<Rightarrow> bool \<times> 'l engine" where
  "clear_call_in_flight d s =
     (case fmlookup (en_calls s) d of
        None \<Rightarrow> (False, s)
      | Some a \<Rightarrow>
          if \<not> ad_abort a then (False, s)
          else (True, s\<lparr>en_calls := fmupd d (a\<lparr>ad_abort := False\<rparr>) (en_calls s),
                        en_call_in_flight := en_call_in_flight s - 1\<rparr>))"

fun disposition_event :: "attempt_disposition \<Rightarrow> delivery_event" where
  "disposition_event (DispDelivered result) = EvDelivered result"
| "disposition_event (DispRetryable failure) = EvRetryable failure"
| "disposition_event (DispFailed failure) = EvFailed failure"
| "disposition_event (DispFailedWithResult failure result) = EvFailedWithResult failure result"

definition complete_attempt ::
    "'l engine_env \<Rightarrow> delivery_id \<Rightarrow> attempt_completion \<Rightarrow> 'l engine \<Rightarrow> 'l engine" where
  "complete_attempt v d completed s =
     (case clear_in_flight d s of
        (False, s) \<Rightarrow> s
      | (True, s) \<Rightarrow>
          let (time, s) = read_clock v s in
          case Option.bind (fmlookup (en_active s) d)
                 (\<lambda>a. life_transition (ad_lifecycle a) time (disposition_event (cp_disposition completed))) of
            None \<Rightarrow> force_terminal v d internal_failure None s
          | Some (step, lc) \<Rightarrow>
              let s = with_lifecycle d lc s in
              (case sp_action step of
                 ActWait \<Rightarrow>
                   (case sp_next_deadline step of
                      None \<Rightarrow> s
                    | Some deadline \<Rightarrow> s\<lparr>en_retries := insort (deadline, d) (en_retries s)\<rparr>)
               | ActTerminal out res \<Rightarrow> persist_terminal v d out res (sp_persistence step) s
               | _ \<Rightarrow> force_terminal v d internal_failure None s))"

definition call_response ::
    "delivery_id \<Rightarrow> delivery_outcome \<Rightarrow> delivery_result_metadata option \<Rightarrow> bytes option
       \<Rightarrow> egress_runtime_error + call_result" where
  "call_response d out res raw =
     (case out of
        Delivered \<Rightarrow>
          (case (res, raw) of
             (Some m, Some json) \<Rightarrow> Ok \<lparr>cr_delivery = d, cr_metadata = m, cr_json = json\<rparr>
           | _ \<Rightarrow> Err (RtCallFailed DfInternal))
      | DeliveryFailed failure \<Rightarrow> Err (RtCallFailed failure)
      | LostOnShutdown \<Rightarrow> Err RtStopped
      | UnknownAfterCrash \<Rightarrow> Err RtStopped)"

definition complete_call ::
    "'l engine_env \<Rightarrow> delivery_id \<Rightarrow> attempt_completion \<Rightarrow> 'l engine \<Rightarrow> 'l engine" where
  "complete_call v d completed s =
     (case clear_call_in_flight d s of
        (False, s) \<Rightarrow> s
      | (True, s) \<Rightarrow>
          let (time, s) = read_clock v s in
          case Option.bind (fmlookup (en_calls s) d)
                 (\<lambda>a. life_transition (ad_lifecycle a) time (disposition_event (cp_disposition completed))) of
            None \<Rightarrow> force_call_terminal v d internal_failure None (Err (RtCallFailed DfInternal)) s
          | Some (step, lc) \<Rightarrow>
              let s = with_call_lifecycle d lc s in
              (case sp_action step of
                 ActTerminal out res \<Rightarrow>
                   finish_call d (call_response d out res (cp_result completed))
                     (persist_call_terminal v d out res (sp_persistence step) s)
               | _ \<Rightarrow> force_call_terminal v d internal_failure None (Err (RtCallFailed DfInternal)) s))"

text \<open>What \<open>join_next\<close> yields: a completion, a cancelled task, or one that panicked.\<close>

datatype joined = JoinOk delivery_id attempt_completion | JoinCancelled | JoinPanicked

definition handle_attempt_join :: "'l engine_env \<Rightarrow> joined \<Rightarrow> 'l engine \<Rightarrow> 'l engine" where
  "handle_attempt_join v j s =
     (case j of
        JoinOk d completed \<Rightarrow> complete_attempt v d completed s
      | JoinCancelled \<Rightarrow> s
      | JoinPanicked \<Rightarrow>
          fold (\<lambda>d s. apply_terminal_event v d (EvFailed DfInternal) (snd (clear_in_flight d s)))
            (filter (\<lambda>d. ad_abort (the (fmlookup (en_active s) d))) (fm_keys (en_active s))) s)"

definition handle_call_join :: "'l engine_env \<Rightarrow> joined \<Rightarrow> 'l engine \<Rightarrow> 'l engine" where
  "handle_call_join v j s =
     (case j of
        JoinOk d completed \<Rightarrow> complete_call v d completed s
      | JoinCancelled \<Rightarrow> s
      | JoinPanicked \<Rightarrow>
          fold (\<lambda>d s. force_call_terminal v d internal_failure None (Err (RtCallFailed DfInternal))
                        (snd (clear_call_in_flight d s)))
            (filter (\<lambda>d. ad_abort (the (fmlookup (en_calls s) d))) (fm_keys (en_calls s))) s)"

section \<open>Deadlines\<close>

fun retry_loop :: "egress_instant \<Rightarrow> (egress_instant \<times> delivery_id) list \<Rightarrow> 'l engine \<Rightarrow> 'l engine" where
  "retry_loop now [] s = s\<lparr>en_retries := []\<rparr>"
| "retry_loop now ((deadline, d) # rest) s =
     (if deadline \<le> now then
        retry_loop now rest
          (case fmlookup (en_active s) d of
             None \<Rightarrow> s
           | Some a \<Rightarrow>
               if life_next_deadline (ad_lifecycle a) = Some deadline
               then enqueue_ready (ap_route (ad_parts a)) d s else s)
      else s\<lparr>en_retries := (deadline, d) # rest\<rparr>)"

definition process_retry_deadlines :: "'l engine_env \<Rightarrow> 'l engine \<Rightarrow> 'l engine" where
  "process_retry_deadlines v s =
     (case read_clock v s of (time, s) \<Rightarrow> retry_loop (tt_monotonic time) (en_retries s) s)"

definition cancel_route :: "'l engine_env \<Rightarrow> route_id \<Rightarrow> 'l engine \<Rightarrow> 'l engine" where
  "cancel_route v route s =
     (let s = fold (\<lambda>d. apply_terminal_event v d EvCancel)
            (filter (\<lambda>d. ap_route (ad_parts (the (fmlookup (en_active s) d))) = route) (fm_keys (en_active s))) s
      in fold (\<lambda>d. apply_call_terminal_event v d EvCancel (Err (RtCallFailed DfCancelled)))
            (filter (\<lambda>d. ap_route (ad_parts (the (fmlookup (en_calls s) d))) = route) (fm_keys (en_calls s))) s)"

definition process_drain_deadlines :: "'l engine_env \<Rightarrow> 'l engine \<Rightarrow> 'l engine" where
  "process_drain_deadlines v s =
     (case read_clock v s of (time, s) \<Rightarrow>
        fold (cancel_route v)
          (filter (\<lambda>route. rd_deadline (the (fmlookup (en_drains s) route)) \<le> tt_monotonic time)
            (fm_keys (en_drains s))) s)"

definition expire_shutdown :: "'l engine_env \<Rightarrow> 'l engine \<Rightarrow> 'l engine" where
  "expire_shutdown v s =
     (let s = fold (\<lambda>d. apply_terminal_event v d EvShutdownDeadline) (fm_keys (en_active s)) s
      in fold (\<lambda>d. apply_call_terminal_event v d EvShutdownDeadline (Err RtStopped)) (fm_keys (en_calls s)) s)"

definition complete_drain :: "route_id \<Rightarrow> 'l engine \<Rightarrow> 'l engine" where
  "complete_drain route s =
     (case fmlookup (en_drains s) route of
        None \<Rightarrow> s
      | Some drain \<Rightarrow>
          send (rd_reply drain) (ReplyUnit (Ok ()))
            (s\<lparr>en_drains := fmdrop route (en_drains s),
               en_registry := (if rd_remove drain then route_unregister route (en_registry s) else en_registry s)\<rparr>))"

definition complete_empty_drains :: "'l engine \<Rightarrow> 'l engine" where
  "complete_empty_drains s =
     fold complete_drain (filter (\<lambda>route. usage_is_idle (usage_of s route)) (fm_keys (en_drains s))) s"

definition reject_drains_for_shutdown :: "'l engine \<Rightarrow> 'l engine" where
  "reject_drains_for_shutdown s =
     fold (\<lambda>route. send (rd_reply (the (fmlookup (en_drains s) route))) (ReplyUnit (Err RtStopped)))
       (fm_keys (en_drains s)) (s\<lparr>en_drains := fmempty\<rparr>)"

definition discard_stale_retries :: "'l engine \<Rightarrow> 'l engine" where
  "discard_stale_retries s =
     s\<lparr>en_retries := dropWhile
         (\<lambda>(deadline, d). \<not> (case fmlookup (en_active s) d of
             None \<Rightarrow> False | Some a \<Rightarrow> life_next_deadline (ad_lifecycle a) = Some deadline))
         (en_retries s)\<rparr>"

definition next_deadline :: "egress_instant option \<Rightarrow> 'l engine \<Rightarrow> egress_instant option" where
  "next_deadline shutdown s =
     (case map fst (take 1 (en_retries s))
             @ map (\<lambda>route. rd_deadline (the (fmlookup (en_drains s) route))) (fm_keys (en_drains s))
             @ (case shutdown of None \<Rightarrow> [] | Some t \<Rightarrow> [t]) of
        [] \<Rightarrow> None
      | t # ts \<Rightarrow> Some (foldl min t ts))"

section \<open>The event loop\<close>

fun command_reply :: "runtime_command \<Rightarrow> reply_handle" where
  "command_reply (CmdRegister _ h) = h"
| "command_reply (CmdEnable _ h) = h"
| "command_reply (CmdDrain _ _ h) = h"
| "command_reply (CmdRoutes h) = h"
| "command_reply (CmdEmit _ _ _ h) = h"
| "command_reply (CmdCall _ _ _ h) = h"
| "command_reply (CmdDelivery _ h) = h"

fun reject_command :: "runtime_command \<Rightarrow> 'l engine \<Rightarrow> 'l engine" where
  "reject_command (CmdRegister _ h) s = send h (ReplyUnit (Err RtStopped)) s"
| "reject_command (CmdEnable _ h) s = send h (ReplyUnit (Err RtStopped)) s"
| "reject_command (CmdDrain _ _ h) s = send h (ReplyUnit (Err RtStopped)) s"
| "reject_command (CmdRoutes h) s = send h (ReplyRoutes (Err RtStopped)) s"
| "reject_command (CmdEmit _ _ _ h) s = send h (ReplyReceipt (Err RtStopped)) s"
| "reject_command (CmdCall _ _ _ h) s = send h (ReplyCall (Err RtStopped)) s"
| "reject_command (CmdDelivery _ h) s = send h (ReplyDelivery (Err RtStopped)) s"

text \<open>
  The state of \<open>run\<close>: the engine and the shutdown deadline, which is set exactly when \<open>stopping\<close> is. The
  events are the branches of the \<open>select\<close>; a shutdown comes with the commands still in the channel.
\<close>

record 'l run_state =
  rn_engine :: "'l engine"
  rn_deadline :: "egress_instant option"

datatype loop_event =
    LoopShutdown bool "runtime_command list"
  | LoopCommand runtime_command
  | LoopClosed
  | LoopAttempt joined
  | LoopCall joined
  | LoopTimer

definition loop_top :: "'l engine_env \<Rightarrow> 'l engine \<Rightarrow> 'l engine" where
  "loop_top v s = discard_stale_retries (complete_empty_drains (dispatch_ready v s))"

definition loop_done :: "'l run_state \<Rightarrow> bool" where
  "loop_done r \<longleftrightarrow> rn_deadline r \<noteq> None \<and> en_active (rn_engine r) = fmempty \<and> en_calls (rn_engine r) = fmempty"

definition begin_shutdown :: "'l engine_env \<Rightarrow> runtime_command list \<Rightarrow> 'l engine \<Rightarrow> 'l run_state" where
  "begin_shutdown v cs s =
     (case read_clock v s of (time, s) \<Rightarrow>
        \<lparr>rn_engine = reject_drains_for_shutdown (fold reject_command cs s),
         rn_deadline = Some (instant_saturating_add (tt_monotonic time) (rl_drain_timeout (ee_limits v)))\<rparr>)"

text \<open>One branch of the \<open>select\<close>; \<open>None\<close> when its guard is false.\<close>

definition loop_select :: "'l engine_env \<Rightarrow> loop_event \<Rightarrow> 'l run_state \<Rightarrow> 'l run_state option" where
  "loop_select v e r =
     (let s = rn_engine r; stopping = rn_deadline r \<noteq> None in
      case e of
        LoopShutdown stop cs \<Rightarrow>
          if stopping then None else if stop then Some (begin_shutdown v cs s) else Some r
      | LoopCommand c \<Rightarrow> if stopping then None else Some (r\<lparr>rn_engine := handle_command v c s\<rparr>)
      | LoopClosed \<Rightarrow> if stopping then None else Some (begin_shutdown v [] s)
      | LoopAttempt j \<Rightarrow> Some (r\<lparr>rn_engine := handle_attempt_join v j s\<rparr>)
      | LoopCall j \<Rightarrow> Some (r\<lparr>rn_engine := handle_call_join v j s\<rparr>)
      | LoopTimer \<Rightarrow>
          if next_deadline (rn_deadline r) s = None then None
          else
            let s = process_drain_deadlines v (process_retry_deadlines v s) in
            Some (r\<lparr>rn_engine :=
              (case rn_deadline r of
                 None \<Rightarrow> s
               | Some deadline \<Rightarrow>
                   (case read_clock v s of (time, s) \<Rightarrow>
                      if tt_monotonic time \<ge> deadline then expire_shutdown v s else s))\<rparr>))"

text \<open>
  \<open>run\<close> over the events it meets: the state in which it waits for the next one, or has left the loop;
  \<open>None\<close> when an event could not occur.
\<close>

fun runtime_run :: "'l engine_env \<Rightarrow> loop_event list \<Rightarrow> 'l run_state \<Rightarrow> 'l run_state option" where
  "runtime_run v [] r = Some (r\<lparr>rn_engine := loop_top v (rn_engine r)\<rparr>)"
| "runtime_run v (e # es) r =
     (let r = r\<lparr>rn_engine := loop_top v (rn_engine r)\<rparr> in
      if loop_done r then None
      else case loop_select v e r of None \<Rightarrow> None | Some r \<Rightarrow> runtime_run v es r)"

text \<open>
  \<open>EgressRuntime::start\<close>, once the thread and its executor exist: a persistent log is recovered first.
\<close>

definition runtime_start :: "'l engine_env \<Rightarrow> route_registry \<Rightarrow> 'l \<Rightarrow> delivery_log_error + 'l run_state" where
  "runtime_start v reg l =
     (if dlog_durability (ee_log v) = Persistent then
        (case dlog_recover_unfinished (ee_log v) l (tt_unix_ms (ee_clock v 0)) of
           (Inl e, _) \<Rightarrow> Err e
         | (Inr _, l) \<Rightarrow> Ok \<lparr>rn_engine = (Engine_new reg l)\<lparr>en_ticks := 1\<rparr>, rn_deadline = None\<rparr>)
      else Ok \<lparr>rn_engine = Engine_new reg l, rn_deadline = None\<rparr>)"

end
