(* ===== verification/Egress_Books.thy ===== *)
theory Egress_Books
  imports Egress_Loop
begin

text \<open>
  The accounts of the egress engine: the counters and the usage of every route are the sums over the
  deliveries and calls that are active. The lemmas cover the few functions that touch them; everything
  else the engine does leaves these fields alone.
\<close>

section \<open>Sums\<close>

definition route_of :: "'a active_delivery_scheme \<Rightarrow> route_id" where
  "route_of a = ap_route (ad_parts a)"

definition bytes_of :: "'a active_delivery_scheme \<Rightarrow> nat" where
  "bytes_of a = length (ap_payload (ad_parts a))"

definition add_delivery :: "active_delivery \<Rightarrow> route_id \<Rightarrow> route_usage \<Rightarrow> route_usage" where
  "add_delivery a r u =
     (if route_of a = r
      then u\<lparr>us_pending := us_pending u + 1, us_bytes := us_bytes u + bytes_of a,
             us_in_flight := us_in_flight u + of_bool (ad_abort a)\<rparr>
      else u)"

definition add_call :: "active_call \<Rightarrow> route_id \<Rightarrow> route_usage \<Rightarrow> route_usage" where
  "add_call a r u = (if route_of a = r then u\<lparr>us_calls := us_calls u + 1\<rparr> else u)"

definition tally ::
    "(delivery_id, active_delivery) fmap \<Rightarrow> (delivery_id, active_call) fmap \<Rightarrow> route_id \<Rightarrow> route_usage" where
  "tally act calls r =
     \<lparr>us_pending = fm_sum (\<lambda>a. of_bool (route_of a = r)) act,
      us_bytes = fm_sum (\<lambda>a. if route_of a = r then bytes_of a else 0) act,
      us_in_flight = fm_sum (\<lambda>a. of_bool (route_of a = r \<and> ad_abort a)) act,
      us_calls = fm_sum (\<lambda>a. of_bool (route_of a = r)) calls\<rparr>"

lemma tally_upd: "tally (fmupd d a act) calls r = add_delivery a r (tally (fmdrop d act) calls r)"
  by (simp add: tally_def add_delivery_def fm_sum_upd)

lemma tally_drop:
  "fmlookup act d = Some a \<Longrightarrow> tally act calls r = add_delivery a r (tally (fmdrop d act) calls r)"
  by (simp add: tally_def add_delivery_def fm_sum_drop [of act d a])

lemma tally_call_upd: "tally act (fmupd d a calls) r = add_call a r (tally act (fmdrop d calls) r)"
  by (simp add: tally_def add_call_def fm_sum_upd)

lemma tally_call_drop:
  "fmlookup calls d = Some a \<Longrightarrow> tally act calls r = add_call a r (tally act (fmdrop d calls) r)"
  by (simp add: tally_def add_call_def fm_sum_drop [of calls d a])

lemma tally_empty [simp]: "tally fmempty fmempty r = usage_default"
  by (simp add: tally_def)

lemma fm_sum_zero: "fm_sum g m = 0 \<longleftrightarrow> (\<forall>k u. fmlookup m k = Some u \<longrightarrow> g u = 0)"
proof -
  have "fm_sum g m = 0 \<longleftrightarrow> (\<forall>k\<in>fset (fmdom m). g (the (fmlookup m k)) = 0)"
    by (simp only: fm_sum_def sum_eq_0_iff finite_fset)
  also have "\<dots> \<longleftrightarrow> (\<forall>k u. fmlookup m k = Some u \<longrightarrow> g u = 0)"
    by (metis fmdomE fmdomI option.sel)
  finally show ?thesis .
qed

lemma tally_idle: "usage_is_idle (tally act calls r) \<longleftrightarrow> tally act calls r = usage_default"
proof
  assume "usage_is_idle (tally act calls r)"
  then have z: "fm_sum (\<lambda>a. of_bool (route_of a = r)) act = 0"
    and i: "fm_sum (\<lambda>a. of_bool (route_of a = r \<and> ad_abort a)) act = 0"
    and c: "fm_sum (\<lambda>a. of_bool (route_of a = r)) calls = 0"
    by (simp_all add: usage_is_idle_def tally_def)
  from z have "fm_sum (\<lambda>a. if route_of a = r then bytes_of a else 0) act = 0"
    by (auto simp: fm_sum_zero)
  with z i c show "tally act calls r = usage_default" by (simp add: tally_def)
qed (simp add: usage_is_idle_def)

section \<open>The accounts\<close>

definition accounts :: "'l engine \<Rightarrow> bool" where
  "accounts s \<longleftrightarrow>
     en_global_pending s = fm_sum (\<lambda>_. 1) (en_active s) \<and>
     en_global_bytes s = fm_sum bytes_of (en_active s) \<and>
     en_global_in_flight s = fm_sum (\<lambda>a. of_bool (ad_abort a)) (en_active s) \<and>
     en_call_in_flight s = fm_sum (\<lambda>a. of_bool (ad_abort a)) (en_calls s) \<and>
     (\<forall>r. usage_of s r = tally (en_active s) (en_calls s) r) \<and>
     (\<forall>r u. fmlookup (en_usage s) r = Some u \<longrightarrow> \<not> usage_is_idle u)"

lemma accounts_new [simp]: "accounts (Engine_new reg l)"
  by (simp add: accounts_def Engine_new_def usage_of_def)

lemma usage_of_frame [simp]:
  "usage_of (s\<lparr>en_active := a\<rparr>) r = usage_of s r" "usage_of (s\<lparr>en_calls := c\<rparr>) r = usage_of s r"
  "usage_of (s\<lparr>en_log := l\<rparr>) r = usage_of s r" "usage_of (s\<lparr>en_ticks := t\<rparr>) r = usage_of s r"
  "usage_of (s\<lparr>en_degraded := b\<rparr>) r = usage_of s r" "usage_of (s\<lparr>en_overrides := ov\<rparr>) r = usage_of s r"
  "usage_of (s\<lparr>en_global_pending := n\<rparr>) r = usage_of s r" "usage_of (s\<lparr>en_global_bytes := n\<rparr>) r = usage_of s r"
  "usage_of (s\<lparr>en_global_in_flight := n\<rparr>) r = usage_of s r" "usage_of (s\<lparr>en_call_in_flight := n\<rparr>) r = usage_of s r"
  "usage_of (s\<lparr>en_ready := q\<rparr>) r = usage_of s r" "usage_of (s\<lparr>en_ready_routes := rs\<rparr>) r = usage_of s r"
  "usage_of (s\<lparr>en_retries := rt\<rparr>) r = usage_of s r" "usage_of (s\<lparr>en_sent := x\<rparr>) r = usage_of s r"
  "usage_of (s\<lparr>en_drains := y\<rparr>) r = usage_of s r" "usage_of (s\<lparr>en_registry := g\<rparr>) r = usage_of s r"
  by (simp_all add: usage_of_def)

lemma usage_of_upd [simp]:
  "usage_of (s\<lparr>en_usage := fmupd r u m\<rparr>) r' = (if r' = r then u else usage_of (s\<lparr>en_usage := m\<rparr>) r')"
  "usage_of (s\<lparr>en_usage := fmdrop r m\<rparr>) r' = (if r' = r then usage_default else usage_of (s\<lparr>en_usage := m\<rparr>) r')"
  "usage_of (s\<lparr>en_usage := en_usage s\<rparr>) r' = usage_of s r'"
  by (simp_all add: usage_of_def)

text \<open>Writing back a usage, or forgetting it when it is idle.\<close>

definition store_usage :: "route_id \<Rightarrow> route_usage \<Rightarrow> 'l engine \<Rightarrow> 'l engine" where
  "store_usage r u s =
     (if usage_is_idle u then s\<lparr>en_usage := fmdrop r (en_usage s)\<rparr> else s\<lparr>en_usage := fmupd r u (en_usage s)\<rparr>)"

lemma accounts_store:
  assumes "\<And>r'. r' \<noteq> r \<Longrightarrow> usage_of s r' = tally (en_active s) (en_calls s) r'"
    and "u = tally (en_active s) (en_calls s) r"
    and "\<And>r' u. fmlookup (en_usage s) r' = Some u \<Longrightarrow> r' \<noteq> r \<Longrightarrow> \<not> usage_is_idle u"
    and "en_global_pending s = fm_sum (\<lambda>_. 1) (en_active s)"
    and "en_global_bytes s = fm_sum bytes_of (en_active s)"
    and "en_global_in_flight s = fm_sum (\<lambda>a. of_bool (ad_abort a)) (en_active s)"
    and "en_call_in_flight s = fm_sum (\<lambda>a. of_bool (ad_abort a)) (en_calls s)"
  shows "accounts (store_usage r u s)"
proof (cases "usage_is_idle u")
  case True
  with assms(2) have "u = usage_default" by (simp add: tally_idle)
  with True assms show ?thesis by (auto simp: accounts_def store_usage_def)
next
  case False
  with assms show ?thesis by (auto simp: accounts_def store_usage_def)
qed

lemma accounts_frame [simp]:
  "accounts (s\<lparr>en_log := l\<rparr>) = accounts s" "accounts (s\<lparr>en_ticks := t\<rparr>) = accounts s"
  "accounts (s\<lparr>en_degraded := b\<rparr>) = accounts s" "accounts (s\<lparr>en_overrides := ov\<rparr>) = accounts s"
  "accounts (s\<lparr>en_ready := q\<rparr>) = accounts s" "accounts (s\<lparr>en_ready_routes := rs\<rparr>) = accounts s"
  "accounts (s\<lparr>en_retries := rt\<rparr>) = accounts s" "accounts (s\<lparr>en_sent := x\<rparr>) = accounts s"
  "accounts (s\<lparr>en_drains := y\<rparr>) = accounts s" "accounts (s\<lparr>en_registry := g\<rparr>) = accounts s"
  by (simp_all add: accounts_def)

lemma add_delivery_other: "route_of a \<noteq> r \<Longrightarrow> add_delivery a r u = u"
  by (simp add: add_delivery_def)

lemma add_delivery_own:
  "add_delivery a (route_of a) u = u\<lparr>us_pending := us_pending u + 1, us_bytes := us_bytes u + bytes_of a,
     us_in_flight := us_in_flight u + of_bool (ad_abort a)\<rparr>"
  by (simp add: add_delivery_def)

lemma accounts_delivery:
  assumes "accounts s" and "fmlookup (en_active s) d = Some a"
  defines "t \<equiv> tally (fmdrop d (en_active s)) (en_calls s)"
  shows "fmlookup (en_usage s) (route_of a) = Some (add_delivery a (route_of a) (t (route_of a)))"
    "\<And>r. usage_of s r = add_delivery a r (t r)"
    "en_global_pending s = fm_sum (\<lambda>_. 1) (fmdrop d (en_active s)) + 1"
    "en_global_bytes s = fm_sum bytes_of (fmdrop d (en_active s)) + bytes_of a"
    "en_global_in_flight s = fm_sum (\<lambda>a. of_bool (ad_abort a)) (fmdrop d (en_active s)) + of_bool (ad_abort a)"
proof -
  show u: "usage_of s r = add_delivery a r (t r)" for r
    using assms(1) tally_drop [OF assms(2), of "en_calls s" r] by (simp add: accounts_def t_def)
  show "fmlookup (en_usage s) (route_of a) = Some (add_delivery a (route_of a) (t (route_of a)))"
  proof (cases "fmlookup (en_usage s) (route_of a)")
    case None
    then have "us_pending (usage_of s (route_of a)) = 0" by (simp add: usage_of_def)
    then show ?thesis unfolding u by (simp add: add_delivery_own)
  qed (use u [of "route_of a"] in \<open>simp add: usage_of_def\<close>)
qed (use assms(1) in \<open>simp_all add: accounts_def fm_sum_drop [OF assms(2)]\<close>)

lemma accounts_call:
  assumes "accounts s" and "fmlookup (en_calls s) d = Some a"
  defines "t \<equiv> tally (en_active s) (fmdrop d (en_calls s))"
  shows "fmlookup (en_usage s) (route_of a) = Some (add_call a (route_of a) (t (route_of a)))"
    "\<And>r. usage_of s r = add_call a r (t r)"
    "en_call_in_flight s = fm_sum (\<lambda>a. of_bool (ad_abort a)) (fmdrop d (en_calls s)) + of_bool (ad_abort a)"
proof -
  show u: "usage_of s r = add_call a r (t r)" for r
    using assms(1) tally_call_drop [OF assms(2), of "en_active s" r] by (simp add: accounts_def t_def)
  show "fmlookup (en_usage s) (route_of a) = Some (add_call a (route_of a) (t (route_of a)))"
  proof (cases "fmlookup (en_usage s) (route_of a)")
    case None
    then have "us_calls (usage_of s (route_of a)) = 0" by (simp add: usage_of_def)
    then show ?thesis unfolding u by (simp add: add_call_def)
  qed (use u [of "route_of a"] in \<open>simp add: usage_of_def\<close>)
qed (use assms(1) in \<open>simp_all add: accounts_def fm_sum_drop [OF assms(2)]\<close>)

section \<open>Preservation\<close>

lemma finish_active_absent: "fmlookup (en_active s) d = None \<Longrightarrow> finish_active d s = s"
  by (simp add: finish_active_def)

lemma finish_active_eq:
  assumes "fmlookup (en_active s) d = Some a" and "fmlookup (en_usage s) (route_of a) = Some u"
  shows "finish_active d s =
    store_usage (route_of a)
      (u\<lparr>us_in_flight := us_in_flight u - of_bool (ad_abort a), us_pending := us_pending u - 1,
         us_bytes := us_bytes u - bytes_of a\<rparr>)
      (s\<lparr>en_active := fmdrop d (en_active s), en_global_in_flight := en_global_in_flight s - of_bool (ad_abort a),
         en_global_pending := en_global_pending s - 1, en_global_bytes := en_global_bytes s - bytes_of a\<rparr>)"
proof (cases "ad_abort a")
  case True
  with assms show ?thesis
    by (simp add: finish_active_def store_usage_def adjust_usage_def route_of_def bytes_of_def Let_def
        usage_is_idle_def fmdrop_fmupd_self)
next
  case False
  with assms show ?thesis
    by (simp add: finish_active_def store_usage_def route_of_def bytes_of_def Let_def usage_is_idle_def)
qed

lemma accounts_finish: "accounts s \<Longrightarrow> accounts (finish_active d s)"
proof (cases "fmlookup (en_active s) d")
  case (Some a)
  assume acc: "accounts s"
  note del = accounts_delivery [OF acc Some]
  show ?thesis
    unfolding finish_active_eq [OF Some del(1)]
  proof (rule accounts_store, goal_cases)
    case (1 r)
    with del(2) [of r] show ?case by (simp add: add_delivery_other)
  next
    case 2
    show ?case by (rule route_usage.equality) (simp_all add: add_delivery_own)
  qed (use acc del(3-5) in \<open>auto simp: accounts_def\<close>)
qed (simp add: finish_active_absent)

lemma finish_call_absent: "fmlookup (en_calls s) d = None \<Longrightarrow> finish_call d response s = s"
  by (simp add: finish_call_def)

lemma finish_call_eq:
  assumes "fmlookup (en_calls s) d = Some a" and "fmlookup (en_usage s) (route_of a) = Some u"
  shows "finish_call d response s =
    send (ac_reply a) (ReplyCall response)
      (store_usage (route_of a) (u\<lparr>us_calls := us_calls u - 1\<rparr>)
        (s\<lparr>en_calls := fmdrop d (en_calls s), en_call_in_flight := en_call_in_flight s - of_bool (ad_abort a)\<rparr>))"
  using assms by (cases "ad_abort a") (simp_all add: finish_call_def store_usage_def route_of_def Let_def)

lemma accounts_send [simp]: "accounts (send h r s) = accounts s"
  by (simp add: send_def)

lemma accounts_finish_call: "accounts s \<Longrightarrow> accounts (finish_call d response s)"
proof (cases "fmlookup (en_calls s) d")
  case (Some a)
  assume acc: "accounts s"
  note del = accounts_call [OF acc Some]
  show ?thesis
    unfolding finish_call_eq [OF Some del(1)] accounts_send
  proof (rule accounts_store, goal_cases)
    case (1 r)
    with del(2) [of r] show ?case by (simp add: add_call_def)
  next
    case 2
    show ?case by (rule route_usage.equality) (simp_all add: add_call_def)
  qed (use acc del(3) in \<open>auto simp: accounts_def\<close>)
qed (simp add: finish_call_absent)

text \<open>Replacing an entry by one with the same route, payload and handle.\<close>

lemma accounts_replace:
  assumes "accounts s" and "fmlookup (en_active s) d = Some a"
    and "ad_parts a' = ad_parts a" and "ad_abort a' = ad_abort a"
  shows "accounts (s\<lparr>en_active := fmupd d a' (en_active s)\<rparr>)"
proof -
  have eq: "route_of a' = route_of a" "bytes_of a' = bytes_of a"
    using assms(3) by (simp_all add: route_of_def bytes_of_def)
  then have "tally (fmupd d a' (en_active s)) (en_calls s) r = tally (en_active s) (en_calls s) r" for r
    using assms(4) by (simp add: tally_upd tally_drop [OF assms(2)] add_delivery_def)
  with assms(1,4) eq show ?thesis by (simp add: accounts_def fm_sum_same [OF assms(2)])
qed

lemma accounts_replace_call:
  assumes "accounts s" and "fmlookup (en_calls s) d = Some a"
    and "ad_parts a' = ad_parts a" and "ad_abort a' = ad_abort a"
  shows "accounts (s\<lparr>en_calls := fmupd d a' (en_calls s)\<rparr>)"
proof -
  have eq: "route_of a' = route_of a"
    using assms(3) by (simp_all add: route_of_def)
  then have "tally (en_active s) (fmupd d a' (en_calls s)) r = tally (en_active s) (en_calls s) r" for r
    by (simp add: tally_call_upd tally_call_drop [OF assms(2)] add_call_def)
  with assms(1,4) show ?thesis by (simp add: accounts_def fm_sum_same [OF assms(2)])
qed

lemma accounts_lifecycle: "accounts s \<Longrightarrow> accounts (with_lifecycle d lc s)"
  by (auto simp: with_lifecycle_def intro: accounts_replace split: option.split)

lemma accounts_call_lifecycle: "accounts s \<Longrightarrow> accounts (with_call_lifecycle d lc s)"
  by (auto simp: with_call_lifecycle_def intro: accounts_replace_call split: option.split)

lemma store_usage_busy: "\<not> usage_is_idle u \<Longrightarrow> s\<lparr>en_usage := fmupd r u (en_usage s)\<rparr> = store_usage r u s"
  by (simp add: store_usage_def)

lemma accounts_clear: "accounts s \<Longrightarrow> accounts (snd (clear_in_flight d s))"
proof (cases "fmlookup (en_active s) d")
  case (Some a)
  assume acc: "accounts s"
  note del = accounts_delivery [OF acc Some]
  show ?thesis
  proof (cases "ad_abort a")
    case True
    let ?u = "add_delivery a (route_of a) (tally (fmdrop d (en_active s)) (en_calls s) (route_of a))"
    let ?s = "s\<lparr>en_active := fmupd d (a\<lparr>ad_abort := False\<rparr>) (en_active s),
      en_global_in_flight := en_global_in_flight s - 1\<rparr>"
    have "snd (clear_in_flight d s) = store_usage (route_of a) (?u\<lparr>us_in_flight := us_in_flight ?u - 1\<rparr>) ?s"
      using Some True del(1) by (simp add: clear_in_flight_def adjust_usage_def route_of_def [symmetric]
          store_usage_def usage_is_idle_def add_delivery_own)
    moreover have "accounts (store_usage (route_of a) (?u\<lparr>us_in_flight := us_in_flight ?u - 1\<rparr>) ?s)"
    proof (rule accounts_store, goal_cases)
      case (1 r)
      with del(2) [of r] show ?case by (simp add: tally_upd add_delivery_def route_of_def)
    next
      case 2
      show ?case using True
        by (intro route_usage.equality) (simp_all add: tally_upd add_delivery_def route_of_def bytes_of_def)
    qed (use acc del(3-5) True in \<open>auto simp: accounts_def fm_sum_upd bytes_of_def\<close>)
    ultimately show ?thesis by simp
  qed (use Some acc in \<open>simp add: clear_in_flight_def\<close>)
qed (simp add: clear_in_flight_def)

lemma accounts_clear_call: "accounts s \<Longrightarrow> accounts (snd (clear_call_in_flight d s))"
proof (cases "fmlookup (en_calls s) d")
  case (Some a)
  assume acc: "accounts s"
  have "tally (en_active s) (fmupd d (a\<lparr>ad_abort := False\<rparr>) (en_calls s)) r = tally (en_active s) (en_calls s) r" for r
    by (simp add: tally_call_upd tally_call_drop [OF Some] add_call_def route_of_def)
  with acc fm_sum_drop [OF Some, of "\<lambda>a. of_bool (ad_abort a)"] Some show ?thesis
    by (auto simp: clear_call_in_flight_def accounts_def fm_sum_upd)
qed (simp add: clear_call_in_flight_def)

text \<open>What \<open>start_attempt\<close>, \<open>start_call\<close> and the two admissions do to the accounts.\<close>

definition mark_started :: "delivery_id \<Rightarrow> active_delivery \<Rightarrow> 'l engine \<Rightarrow> 'l engine" where
  "mark_started d a s =
     (let u = usage_of s (route_of a)
      in s\<lparr>en_active := fmupd d (a\<lparr>ad_abort := True\<rparr>) (en_active s),
           en_global_in_flight := en_global_in_flight s + 1,
           en_usage := fmupd (route_of a) (u\<lparr>us_in_flight := us_in_flight u + 1\<rparr>) (en_usage s)\<rparr>)"

lemma accounts_mark_started:
  assumes "accounts s" and "fmlookup (en_active s) d = Some a" and "\<not> ad_abort a"
  shows "accounts (mark_started d a s)"
proof -
  note del = accounts_delivery [OF assms(1,2)]
  let ?s = "s\<lparr>en_active := fmupd d (a\<lparr>ad_abort := True\<rparr>) (en_active s),
      en_global_in_flight := en_global_in_flight s + 1\<rparr>"
  let ?u = "usage_of s (route_of a)"
  have "mark_started d a s = store_usage (route_of a) (?u\<lparr>us_in_flight := us_in_flight ?u + 1\<rparr>) ?s"
    by (simp add: mark_started_def store_usage_def usage_is_idle_def Let_def)
  also have "accounts \<dots>"
  proof (rule accounts_store, goal_cases)
    case (1 r)
    with del(2) [of r] show ?case by (simp add: tally_upd add_delivery_def route_of_def)
  next
    case 2
    show ?case unfolding del(2) using assms(3)
      by (intro route_usage.equality) (simp_all add: tally_upd add_delivery_def route_of_def bytes_of_def)
  qed (use assms(1,3) del(3-5) in \<open>auto simp: accounts_def fm_sum_upd bytes_of_def\<close>)
  finally show ?thesis .
qed

definition add_active :: "delivery_id \<Rightarrow> active_delivery \<Rightarrow> 'l engine \<Rightarrow> 'l engine" where
  "add_active d a s =
     (let u = usage_of s (route_of a)
      in s\<lparr>en_active := fmupd d a (en_active s),
           en_global_pending := en_global_pending s + 1,
           en_global_bytes := en_global_bytes s + bytes_of a,
           en_usage := fmupd (route_of a) (u\<lparr>us_pending := us_pending u + 1, us_bytes := us_bytes u + bytes_of a\<rparr>)
             (en_usage s)\<rparr>)"

lemma accounts_add_active:
  assumes "accounts s" and "fmlookup (en_active s) d = None" and "\<not> ad_abort a"
  shows "accounts (add_active d a s)"
proof -
  let ?s = "s\<lparr>en_active := fmupd d a (en_active s), en_global_pending := en_global_pending s + 1,
      en_global_bytes := en_global_bytes s + bytes_of a\<rparr>"
  let ?u = "usage_of s (route_of a)"
  have "add_active d a s =
      store_usage (route_of a) (?u\<lparr>us_pending := us_pending ?u + 1, us_bytes := us_bytes ?u + bytes_of a\<rparr>) ?s"
    by (simp add: add_active_def store_usage_def usage_is_idle_def Let_def)
  also have "accounts \<dots>"
    by (rule accounts_store)
      (use assms in \<open>auto simp: accounts_def tally_upd add_delivery_def fmdrop_absent fm_sum_new\<close>)
  finally show ?thesis .
qed

definition add_call_entry :: "delivery_id \<Rightarrow> active_call \<Rightarrow> 'l engine \<Rightarrow> 'l engine" where
  "add_call_entry d a s =
     (let u = usage_of s (route_of a)
      in s\<lparr>en_calls := fmupd d a (en_calls s),
           en_usage := fmupd (route_of a) (u\<lparr>us_calls := us_calls u + 1\<rparr>) (en_usage s)\<rparr>)"

lemma accounts_add_call:
  assumes "accounts s" and "fmlookup (en_calls s) d = None" and "\<not> ad_abort a"
  shows "accounts (add_call_entry d a s)"
proof -
  let ?s = "s\<lparr>en_calls := fmupd d a (en_calls s)\<rparr>"
  let ?u = "usage_of s (route_of a)"
  have "add_call_entry d a s = store_usage (route_of a) (?u\<lparr>us_calls := us_calls ?u + 1\<rparr>) ?s"
    by (simp add: add_call_entry_def store_usage_def usage_is_idle_def Let_def)
  also have "accounts \<dots>"
    by (rule accounts_store)
      (use assms in \<open>auto simp: accounts_def tally_call_upd add_call_def fmdrop_absent fm_sum_new\<close>)
  finally show ?thesis .
qed

definition mark_call_started :: "delivery_id \<Rightarrow> active_call \<Rightarrow> 'l engine \<Rightarrow> 'l engine" where
  "mark_call_started d a s =
     s\<lparr>en_calls := fmupd d (a\<lparr>ad_abort := True\<rparr>) (en_calls s), en_call_in_flight := en_call_in_flight s + 1\<rparr>"

lemma accounts_mark_call_started:
  assumes "accounts s" and "fmlookup (en_calls s) d = Some a" and "\<not> ad_abort a"
  shows "accounts (mark_call_started d a s)"
proof -
  have "tally (en_active s) (fmupd d (a\<lparr>ad_abort := True\<rparr>) (en_calls s)) r = tally (en_active s) (en_calls s) r" for r
    by (simp add: tally_call_upd tally_call_drop [OF assms(2)] add_call_def route_of_def)
  with assms accounts_call(3) [OF assms(1,2)] show ?thesis
    by (simp add: mark_call_started_def accounts_def fm_sum_upd)
qed

end
