(* ===== verification/Egress_Settle.thy ===== *)
theory Egress_Settle
  imports Egress_Books
begin

text \<open>
  How the egress engine and the delivery log agree. The locale \<open>egress_host\<close> is an engine over any log that
  keeps \<open>delivery_log_contract\<close>. Whatever way a delivery ends, the log or the overrides end up with a
  terminal record of it, and nothing is said about any other delivery.
\<close>

section \<open>Agreement with the log\<close>

definition intent_of :: "delivery_id \<Rightarrow> 'a active_delivery_scheme \<Rightarrow> delivery_intent" where
  "intent_of d a = \<lparr>di_route = route_of a, di_delivery = d, di_accepted_at = ad_accepted_at a\<rparr>"

text \<open>The log has the delivery as pending, with the intent and the number of attempts of the engine.\<close>

definition tracked :: "(delivery_id \<rightharpoonup> delivery_record) \<Rightarrow> delivery_id \<Rightarrow> 'a active_delivery_scheme \<Rightarrow> bool" where
  "tracked m d a \<longleftrightarrow>
     lc_delivery (ad_lifecycle a) = d \<and>
     (\<exists>x. m d = Some x \<and> dr_state x = Pending \<and> dr_intent x = intent_of d a \<and>
          dr_attempts x = lc_attempts (ad_lifecycle a))"

definition logged :: "(delivery_id \<rightharpoonup> delivery_record) \<Rightarrow> 'l engine \<Rightarrow> bool" where
  "logged m s \<longleftrightarrow>
     (\<forall>d a. fmlookup (en_active s) d = Some a \<longrightarrow> tracked m d a) \<and>
     (\<forall>d a. fmlookup (en_calls s) d = Some a \<longrightarrow> tracked m d a) \<and>
     (\<forall>d. fmlookup (en_active s) d = None \<or> fmlookup (en_calls s) d = None) \<and>
     (\<forall>d. pending (m d) \<longrightarrow>
        fmlookup (en_active s) d \<noteq> None \<or> fmlookup (en_calls s) d \<noteq> None \<or> fmlookup (en_overrides s) d \<noteq> None) \<and>
     (\<forall>d x. fmlookup (en_overrides s) d = Some x \<longrightarrow>
        en_degraded s \<and> fmlookup (en_active s) d = None \<and> fmlookup (en_calls s) d = None \<and> is_terminal (dr_state x))"

section \<open>The records of one delivery\<close>

text \<open>
  \<open>touched\<close>: only the log's record of \<open>d\<close>, its override, the clock and the degraded flag changed.
\<close>

definition booked ::
    "('l \<Rightarrow> delivery_id \<rightharpoonup> delivery_record) \<Rightarrow> ('l \<Rightarrow> bool) \<Rightarrow> delivery_id \<Rightarrow> 'l engine
       \<Rightarrow> 'l \<Rightarrow> nat \<Rightarrow> bool \<Rightarrow> (delivery_id, delivery_record) fmap \<Rightarrow> bool" where
  "booked recs linv d s l t b ov \<longleftrightarrow>
     linv l \<and> en_ticks s \<le> t \<and> (en_degraded s \<longrightarrow> b) \<and> (\<forall>i. i \<noteq> d \<longrightarrow> recs l i = recs (en_log s) i) \<and>
     (ov = en_overrides s \<or> b \<and> (\<exists>x. is_terminal (dr_state x) \<and> ov = fmupd d x (en_overrides s)))"

definition touched ::
    "('l \<Rightarrow> delivery_id \<rightharpoonup> delivery_record) \<Rightarrow> ('l \<Rightarrow> bool) \<Rightarrow> delivery_id \<Rightarrow> 'l engine \<Rightarrow> 'l engine \<Rightarrow> bool" where
  "touched recs linv d s s' \<longleftrightarrow>
     (\<exists>l t b ov. s' = s\<lparr>en_log := l, en_ticks := t, en_degraded := b, en_overrides := ov\<rparr> \<and>
        booked recs linv d s l t b ov)"

definition settled ::
    "('l \<Rightarrow> delivery_id \<rightharpoonup> delivery_record) \<Rightarrow> ('l \<Rightarrow> bool) \<Rightarrow> delivery_id \<Rightarrow> 'l engine \<Rightarrow> 'l engine \<Rightarrow> bool" where
  "settled recs linv d s s' \<longleftrightarrow>
     touched recs linv d s s' \<and> (pending (recs (en_log s') d) \<longrightarrow> fmlookup (en_overrides s') d \<noteq> None)"

lemma touchedI:
  "booked recs linv d s l t b ov \<Longrightarrow>
     touched recs linv d s (s\<lparr>en_log := l, en_ticks := t, en_degraded := b, en_overrides := ov\<rparr>)"
  unfolding touched_def by blast

lemma touched_refl: "linv (en_log s) \<Longrightarrow> touched recs linv d s s"
  unfolding touched_def by (intro exI [of _ "en_log s"] exI [of _ "en_ticks s"] exI [of _ "en_degraded s"]
      exI [of _ "en_overrides s"]) (simp add: booked_def)

lemma fmupd_fmupd [simp]: "fmupd k x (fmupd k y m) = fmupd k x m"
  by (rule fmap_ext) simp

lemma touched_trans: "touched recs linv d s s' \<Longrightarrow> touched recs linv d s' s'' \<Longrightarrow> touched recs linv d s s''"
  unfolding touched_def
proof (elim exE conjE, goal_cases)
  case (1 l l' t t' b b' ov ov')
  then show ?case
    by (intro exI [of _ l'] exI [of _ t'] exI [of _ b'] exI [of _ ov']) (auto simp: booked_def)
qed

lemma touched_fields:
  assumes "touched recs linv d s s'"
  shows "en_active s' = en_active s" "en_calls s' = en_calls s" "linv (en_log s')" "en_usage s' = en_usage s"
    "queues s' = queues s" "en_sent s' = en_sent s" "en_drains s' = en_drains s" "en_ticks s \<le> en_ticks s'"
    "\<And>i. i \<noteq> d \<Longrightarrow> recs (en_log s') i = recs (en_log s) i" "en_degraded s \<Longrightarrow> en_degraded s'"
    "accounts s' = accounts s" "usage_of s' r = usage_of s r" "en_global_in_flight s' = en_global_in_flight s"
    "en_global_pending s' = en_global_pending s" "en_global_bytes s' = en_global_bytes s"
  using assms by (auto simp: touched_def booked_def)

lemma touched_overrides:
  assumes "touched recs linv d s s'" and "fmlookup (en_overrides s') i = Some x"
  shows "fmlookup (en_overrides s) i = Some x \<or> i = d \<and> en_degraded s' \<and> is_terminal (dr_state x)"
  using assms by (auto simp: touched_def booked_def split: if_splits)

lemma touched_keeps: "touched recs linv d s s' \<Longrightarrow> fmlookup (en_overrides s) i \<noteq> None \<Longrightarrow> fmlookup (en_overrides s') i \<noteq> None"
  by (auto simp: touched_def booked_def)

text \<open>The lifecycle of the entry of \<open>d\<close> plays no part in this, nor in its removal.\<close>

lemma with_lifecycle_fields [simp]:
  "en_log (with_lifecycle d lc s) = en_log s" "en_ticks (with_lifecycle d lc s) = en_ticks s"
  "en_degraded (with_lifecycle d lc s) = en_degraded s" "en_overrides (with_lifecycle d lc s) = en_overrides s"
  "en_calls (with_lifecycle d lc s) = en_calls s" "en_usage (with_lifecycle d lc s) = en_usage s"
  by (simp_all add: with_lifecycle_def split: option.split)

lemma with_call_lifecycle_fields [simp]:
  "en_log (with_call_lifecycle d lc s) = en_log s" "en_ticks (with_call_lifecycle d lc s) = en_ticks s"
  "en_degraded (with_call_lifecycle d lc s) = en_degraded s" "en_overrides (with_call_lifecycle d lc s) = en_overrides s"
  "en_active (with_call_lifecycle d lc s) = en_active s" "en_usage (with_call_lifecycle d lc s) = en_usage s"
  by (simp_all add: with_call_lifecycle_def split: option.split)

lemma booked_lifecycle [simp]:
  "booked recs linv d (with_lifecycle d' lc s) = booked recs linv d s"
  "booked recs linv d (with_call_lifecycle d' lc s) = booked recs linv d s"
  by (intro ext; simp add: booked_def)+

lemma finish_with_lifecycle: "finish_active d (with_lifecycle d lc s) = finish_active d s"
  by (simp add: finish_active_def with_lifecycle_def Let_def fmdrop_fmupd_self adjust_usage_def split: option.split)

lemma finish_call_with_lifecycle: "finish_call d r (with_call_lifecycle d lc s) = finish_call d r s"
  by (simp add: finish_call_def with_call_lifecycle_def Let_def fmdrop_fmupd_self send_def split: option.split)

lemma settled_lifecycle:
  assumes "settled recs linv d (with_lifecycle d lc s) s'"
  shows "\<exists>s''. settled recs linv d s s'' \<and> finish_active d s' = finish_active d s''"
proof -
  from assms obtain l t b ov
    where eq: "s' = (with_lifecycle d lc s)\<lparr>en_log := l, en_ticks := t, en_degraded := b, en_overrides := ov\<rparr>"
    and ch: "booked recs linv d (with_lifecycle d lc s) l t b ov"
    and over: "pending (recs (en_log s') d) \<longrightarrow> fmlookup (en_overrides s') d \<noteq> None"
    unfolding settled_def touched_def by blast
  let ?s = "s\<lparr>en_log := l, en_ticks := t, en_degraded := b, en_overrides := ov\<rparr>"
  have "s' = with_lifecycle d lc ?s" unfolding eq by (simp add: with_lifecycle_def split: option.split)
  moreover have "settled recs linv d s ?s"
    using touchedI [OF ch [unfolded booked_lifecycle]] over unfolding settled_def eq by simp
  ultimately show ?thesis using finish_with_lifecycle [of d lc ?s] by auto
qed

lemma settled_call_lifecycle:
  assumes "settled recs linv d (with_call_lifecycle d lc s) s'"
  shows "\<exists>s''. settled recs linv d s s'' \<and> finish_call d r s' = finish_call d r s''"
proof -
  from assms obtain l t b ov
    where eq: "s' = (with_call_lifecycle d lc s)\<lparr>en_log := l, en_ticks := t, en_degraded := b, en_overrides := ov\<rparr>"
    and ch: "booked recs linv d (with_call_lifecycle d lc s) l t b ov"
    and over: "pending (recs (en_log s') d) \<longrightarrow> fmlookup (en_overrides s') d \<noteq> None"
    unfolding settled_def touched_def by blast
  let ?s = "s\<lparr>en_log := l, en_ticks := t, en_degraded := b, en_overrides := ov\<rparr>"
  have "s' = with_call_lifecycle d lc ?s" unfolding eq by (simp add: with_call_lifecycle_def split: option.split)
  moreover have "settled recs linv d s ?s"
    using touchedI [OF ch [unfolded booked_lifecycle]] over unfolding settled_def eq by simp
  ultimately show ?thesis using finish_call_with_lifecycle [of d r lc ?s] by auto
qed

section \<open>Every way a delivery ends\<close>

definition result_ok :: "delivery_result_metadata option \<Rightarrow> bool" where
  "result_ok res \<longleftrightarrow> (case res of None \<Rightarrow> True | Some m \<Rightarrow> rm_bytes m \<le> u32_max)"

fun event_ok :: "delivery_event \<Rightarrow> bool" where
  "event_ok (EvDelivered res) = result_ok res"
| "event_ok (EvFailedWithResult f m) = result_ok (Some m)"
| "event_ok _ = True"

lemma result_ok_None [simp]: "result_ok None"
  by (simp add: result_ok_def)

text \<open>What a transition asks to persist is about its own delivery, and within the widths of the log.\<close>

lemma life_transition_terminal:
  assumes "life_transition lc time e = Some (step, lc')" and "sp_action step = ActTerminal out res"
    and "event_ok e"
  shows "sp_persistence step = Some (RecordOutcome (lc_delivery lc) out (tt_unix_ms time) res)" "result_ok res"
  using assms
  by (auto simp: life_transition_def life_drive_def life_start_attempt_def life_terminal_def Let_def
      split: if_splits delivery_event.splits life_state.splits)

locale egress_host = delivery_log_contract "ee_log v" inv recs usable_intent
  for v :: "'s engine_env" and inv :: "'s \<Rightarrow> bool" and recs :: "'s \<Rightarrow> delivery_id \<rightharpoonup> delivery_record"
    and usable_intent :: "delivery_intent \<Rightarrow> bool"
begin

lemma touched_tick: "inv (en_log s) \<Longrightarrow> touched recs inv d s (s\<lparr>en_ticks := en_ticks s + 1\<rparr>)"
  using touchedI [of recs inv d s "en_log s" "en_ticks s + 1" "en_degraded s" "en_overrides s"]
  by (simp add: booked_def)

lemma touched_degraded: "inv (en_log s) \<Longrightarrow> touched recs inv d s (s\<lparr>en_degraded := True\<rparr>)"
  using touchedI [of recs inv d s "en_log s" "en_ticks s" True "en_overrides s"]
  by (simp add: booked_def)

lemma touched_log:
  "inv l \<Longrightarrow> (\<And>i. i \<noteq> d \<Longrightarrow> recs l i = recs (en_log s) i) \<Longrightarrow> touched recs inv d s (s\<lparr>en_log := l\<rparr>)"
  using touchedI [of recs inv d s l "en_ticks s" "en_degraded s" "en_overrides s"]
  by (simp add: booked_def)

lemma persist_outcome:
  assumes "inv (en_log s)" and "result_ok res" and "persist v (RecordOutcome d out t res) s = (r, s')"
  shows "touched recs inv d s s' \<and> (is_ok r \<longrightarrow> \<not> pending (recs (en_log s') d))"
proof -
  obtain l where run: "dlog_record_outcome (ee_log v) (en_log s) d out t res = (r, l)" and s': "s' = s\<lparr>en_log := l\<rparr>"
    using assms(3) by (auto simp: persist_def split: prod.splits)
  have res: "res = Some m \<Longrightarrow> rm_bytes m \<le> u32_max" for m
    using assms(2) by (simp add: result_ok_def)
  have "inv l" using outcome_inv [OF assms(1), where d = d and out = out and t = t and res = res] res run by simp
  show ?thesis
  proof (cases r)
    case (Inl e)
    then have "recs l = recs (en_log s)" using outcome_err [OF assms(1)] run by blast
    with \<open>inv l\<close> Inl s' show ?thesis by (simp add: touched_log)
  next
    case (Inr u)
    from outcome_ok [OF assms(1) res run [unfolded Inr]] obtain x where
      "recs l = (recs (en_log s))(d \<mapsto> x\<lparr>dr_state := Terminal out, dr_updated_at := t, dr_result := res\<rparr>)"
      by blast
    with \<open>inv l\<close> s' show ?thesis by (simp add: touched_log)
  qed
qed

lemma touched_matches:
  assumes "inv (en_log s)" and "persisted_terminal_matches v d out res s = (m, s')"
  shows "touched recs inv d s s' \<and> (m \<longrightarrow> \<not> pending (recs (en_log s') d))"
proof -
  obtain r l where run: "dlog_delivery (ee_log v) (en_log s) d = (r, l)" and s': "s' = s\<lparr>en_log := l\<rparr>"
    and m: "m = (case r of Inr (Some x) \<Rightarrow> dr_state x = Terminal out \<and> dr_result x = res | _ \<Rightarrow> False)"
    using assms(2) by (auto simp: persisted_terminal_matches_def split: prod.splits)
  from delivery_frame [OF assms(1) run] have l: "inv l" "recs l = recs (en_log s)" by simp_all
  have "\<not> pending (recs l d)" if "m"
  proof -
    from that m obtain x where "r = Inr (Some x)" "dr_state x = Terminal out"
      by (auto split: sum.splits option.splits)
    with delivery_ok [OF assms(1) run [unfolded this(1)]] l show ?thesis by (metis delivery_state.distinct(1) option.case(2))
  qed
  with l s' show ?thesis by (simp add: touched_log)
qed

lemma settled_keep:
  assumes "inv (en_log s)" and "persisted \<longrightarrow> \<not> pending (recs (en_log s) d)"
    and ins: "\<And>s. inv (en_log s) \<Longrightarrow> en_degraded s \<Longrightarrow> P s \<Longrightarrow>
      touched recs inv d s (f s) \<and> fmlookup (en_overrides (f s)) d \<noteq> None"
    and P: "\<And>s'. touched recs inv d s s' \<Longrightarrow> P s'"
  shows "settled recs inv d s (keep_override v f persisted d out res s)"
proof (cases persisted)
  case True
  with assms(1,2) show ?thesis by (simp add: keep_override_def settled_def touched_refl)
next
  case False
  obtain m s1 where m: "persisted_terminal_matches v d out res s = (m, s1)" by fastforce
  note t1 = touched_matches [OF assms(1) m]
  show ?thesis
  proof (cases m)
    case True
    with False m t1 show ?thesis by (simp add: keep_override_def settled_def)
  next
    case unmatched: False
    let ?s = "s1\<lparr>en_degraded := True\<rparr>"
    have i1: "inv (en_log s1)" using t1 touched_fields(3) by blast
    have t2: "touched recs inv d s ?s" using t1 touched_degraded [OF i1] touched_trans by blast
    have "touched recs inv d ?s (f ?s) \<and> fmlookup (en_overrides (f ?s)) d \<noteq> None"
      using ins [of ?s] i1 P [OF t2] by simp
    with t2 False unmatched m show ?thesis
      using touched_trans [OF t2] by (auto simp: keep_override_def settled_def)
  qed
qed

lemma touched_override:
  "inv (en_log s) \<Longrightarrow> en_degraded s \<Longrightarrow> is_terminal (dr_state x) \<Longrightarrow>
     touched recs inv d s (s\<lparr>en_ticks := en_ticks s + 1, en_overrides := fmupd d x (en_overrides s)\<rparr>)"
proof -
  assume a: "inv (en_log s)" "en_degraded s" "is_terminal (dr_state x)"
  then have "booked recs inv d s (en_log s) (en_ticks s + 1) (en_degraded s) (fmupd d x (en_overrides s))"
    by (auto simp: booked_def)
  from touchedI [OF this] show ?thesis by simp
qed

lemma override_terminal [simp]: "dr_state (override_record a d out t res) = Terminal out"
  by (simp add: override_record_def DeliveryRecord_from_stored_parts_def)

lemma touched_insert:
  assumes "inv (en_log s)" and "en_degraded s" and "fmlookup (en_active s) d = Some a"
  shows "touched recs inv d s (insert_override v d out res s) \<and>
    fmlookup (en_overrides (insert_override v d out res s)) d \<noteq> None"
  using assms touched_override [OF assms(1,2)] by (simp add: insert_override_def read_clock_def)

lemma touched_call_insert:
  assumes "inv (en_log s)" and "en_degraded s" and "fmlookup (en_calls s) d = Some a"
  shows "touched recs inv d s (insert_call_override v d out res s) \<and>
    fmlookup (en_overrides (insert_call_override v d out res s)) d \<noteq> None"
  using assms touched_override [OF assms(1,2)] by (simp add: insert_call_override_def read_clock_def)

lemma settled_keep_active:
  assumes "inv (en_log s)" and "persisted \<longrightarrow> \<not> pending (recs (en_log s) d)" and "fmlookup (en_active s) d = Some a"
  shows "settled recs inv d s (keep_override v (insert_override v d out res) persisted d out res s)"
  by (rule settled_keep [OF assms(1,2), where P = "\<lambda>s. fmlookup (en_active s) d = Some a"])
    (use assms(3) in \<open>auto intro: touched_insert [THEN conjunct1] simp: touched_fields(1)
       dest: touched_insert [THEN conjunct2, rotated 2]\<close>)

lemma settled_keep_call:
  assumes "inv (en_log s)" and "persisted \<longrightarrow> \<not> pending (recs (en_log s) d)" and "fmlookup (en_calls s) d = Some a"
  shows "settled recs inv d s (keep_override v (insert_call_override v d out res) persisted d out res s)"
proof (rule settled_keep [OF assms(1,2), where P = "\<lambda>s. fmlookup (en_calls s) d = Some a"])
qed (use assms(3) touched_call_insert in \<open>auto simp: touched_fields(2)\<close>)

text \<open>
  \<open>ends\<close>: a function that ends delivery \<open>d\<close> settles its records and then removes it.
\<close>

lemma force_terminal_ends:
  assumes "inv (en_log s)" and "fmlookup (en_active s) d = Some a" and "result_ok res"
  shows "\<exists>s'. settled recs inv d s s' \<and> force_terminal v d out res s = finish_active d s'"
proof -
  let ?s = "s\<lparr>en_ticks := en_ticks s + 1\<rparr>"
  obtain r s1 where p: "persist v (RecordOutcome d out (tt_unix_ms (ee_clock v (en_ticks s))) res) ?s = (r, s1)"
    by fastforce
  have t1: "touched recs inv d s s1 \<and> (is_ok r \<longrightarrow> \<not> pending (recs (en_log s1) d))"
    using persist_outcome [OF _ assms(3) p] assms(1) touched_trans [OF touched_tick [OF assms(1)]] by simp
  have "settled recs inv d s1 (keep_override v (insert_override v d out res) (is_ok r) d out res s1)"
    using t1 assms(2) by (intro settled_keep_active [where a = a]) (simp_all add: touched_fields [OF t1 [THEN conjunct1]])
  with t1 p show ?thesis
    by (auto simp: force_terminal_def read_clock_def settled_def intro: touched_trans)
qed

lemma force_call_terminal_ends:
  assumes "inv (en_log s)" and "fmlookup (en_calls s) d = Some a" and "result_ok res"
  shows "\<exists>s'. settled recs inv d s s' \<and> force_call_terminal v d out res response s = finish_call d response s'"
proof -
  let ?s = "s\<lparr>en_ticks := en_ticks s + 1\<rparr>"
  obtain r s1 where p: "persist v (RecordOutcome d out (tt_unix_ms (ee_clock v (en_ticks s))) res) ?s = (r, s1)"
    by fastforce
  have t1: "touched recs inv d s s1 \<and> (is_ok r \<longrightarrow> \<not> pending (recs (en_log s1) d))"
    using persist_outcome [OF _ assms(3) p] assms(1) touched_trans [OF touched_tick [OF assms(1)]] by simp
  have "settled recs inv d s1 (keep_override v (insert_call_override v d out res) (is_ok r) d out res s1)"
    using t1 assms(2) by (intro settled_keep_call [where a = a]) (simp_all add: touched_fields [OF t1 [THEN conjunct1]])
  with t1 p show ?thesis
    by (auto simp: force_call_terminal_def read_clock_def settled_def intro: touched_trans)
qed

lemma persist_terminal_ends:
  assumes "inv (en_log s)" and "fmlookup (en_active s) d = Some a" and "result_ok res"
  shows "\<exists>s'. settled recs inv d s s' \<and>
    persist_terminal v d out res (Some (RecordOutcome d out t res)) s = finish_active d s'"
proof -
  obtain r s1 where p: "persist v (RecordOutcome d out t res) s = (r, s1)" by fastforce
  note t1 = persist_outcome [OF assms(1,3) p]
  have "settled recs inv d s1 (keep_override v (insert_override v d out res) (is_ok r) d out res s1)"
    using t1 assms(2) by (intro settled_keep_active [where a = a]) (simp_all add: touched_fields [OF t1 [THEN conjunct1]])
  with t1 p show ?thesis by (auto simp: persist_terminal_def settled_def intro: touched_trans)
qed

lemma persist_call_terminal_settles:
  assumes "inv (en_log s)" and "fmlookup (en_calls s) d = Some a" and "result_ok res"
  shows "settled recs inv d s (persist_call_terminal v d out res (Some (RecordOutcome d out t res)) s)"
proof -
  obtain r s1 where p: "persist v (RecordOutcome d out t res) s = (r, s1)" by fastforce
  note t1 = persist_outcome [OF assms(1,3) p]
  have "settled recs inv d s1 (keep_override v (insert_call_override v d out res) (is_ok r) d out res s1)"
    using t1 assms(2) by (intro settled_keep_call [where a = a]) (simp_all add: touched_fields [OF t1 [THEN conjunct1]])
  with t1 p show ?thesis by (auto simp: persist_call_terminal_def settled_def intro: touched_trans)
qed

text \<open>The common tail: settling after the lifecycle took a step, with or without a clock reading before.\<close>

lemma ends_after:
  assumes "touched recs inv d s s1"
    and "\<exists>s'. settled recs inv d (with_lifecycle d lc s1) s' \<and> f = finish_active d s'"
  shows "\<exists>s'. settled recs inv d s s' \<and> f = finish_active d s'"
proof -
  from assms(2) obtain s' where "settled recs inv d (with_lifecycle d lc s1) s'" "f = finish_active d s'" by blast
  with settled_lifecycle obtain s'' where "settled recs inv d s1 s''" "f = finish_active d s''" by metis
  with touched_trans [OF assms(1)] show ?thesis by (auto simp: settled_def)
qed

lemma call_ends_after:
  assumes "touched recs inv d s s1"
    and "\<exists>s'. settled recs inv d (with_call_lifecycle d lc s1) s' \<and> f = finish_call d response s'"
  shows "\<exists>s'. settled recs inv d s s' \<and> f = finish_call d response s'"
proof -
  from assms(2) obtain s' where "settled recs inv d (with_call_lifecycle d lc s1) s'" "f = finish_call d response s'"
    by blast
  with settled_call_lifecycle obtain s'' where "settled recs inv d s1 s''" "f = finish_call d response s''" by metis
  with touched_trans [OF assms(1)] show ?thesis by (auto simp: settled_def)
qed

lemma with_lifecycle_active [simp]:
  "fmlookup (en_active s) d = Some a \<Longrightarrow>
     en_active (with_lifecycle d lc s) = fmupd d (a\<lparr>ad_lifecycle := lc\<rparr>) (en_active s)"
  by (simp add: with_lifecycle_def)

lemma with_call_lifecycle_calls [simp]:
  "fmlookup (en_calls s) d = Some a \<Longrightarrow>
     en_calls (with_call_lifecycle d lc s) = fmupd d (a\<lparr>ad_lifecycle := lc\<rparr>) (en_calls s)"
  by (simp add: with_call_lifecycle_def)

lemma apply_terminal_ends:
  assumes "inv (en_log s)" and "fmlookup (en_active s) d = Some a" and "lc_delivery (ad_lifecycle a) = d"
    and "event_ok e"
  shows "\<exists>s'. settled recs inv d s s' \<and> apply_terminal_event v d e s = finish_active d s'"
proof -
  let ?s = "s\<lparr>en_ticks := en_ticks s + 1\<rparr>" and ?time = "ee_clock v (en_ticks s)"
  note tick = touched_tick [OF assms(1), of d]
  show ?thesis
  proof (cases "life_transition (ad_lifecycle a) ?time e")
    case None
    have "\<exists>s'. settled recs inv d ?s s' \<and> force_terminal v d internal_failure None ?s = finish_active d s'"
      using assms(1,2) by (intro force_terminal_ends) simp_all
    with None assms(2) touched_trans [OF tick] show ?thesis
      by (auto simp: apply_terminal_event_def read_clock_def settled_def)
  next
    case (Some p)
    obtain step lc where p: "p = (step, lc)" by fastforce
    show ?thesis
    proof (cases "\<exists>out res. sp_action step = ActTerminal out res")
      case True
      then obtain out res where act: "sp_action step = ActTerminal out res" by blast
      note tm = life_transition_terminal [OF Some [unfolded p] act assms(4)]
      have "\<exists>s'. settled recs inv d (with_lifecycle d lc ?s) s' \<and>
          persist_terminal v d out res (sp_persistence step) (with_lifecycle d lc ?s) = finish_active d s'"
        unfolding tm(1) assms(3) using assms(1,2) tm(2) by (intro persist_terminal_ends) simp_all
      from ends_after [OF tick this] Some p act assms(2) show ?thesis
        by (simp add: apply_terminal_event_def read_clock_def)
    next
      case False
      have "\<exists>s'. settled recs inv d (with_lifecycle d lc ?s) s' \<and>
          force_terminal v d internal_failure None (with_lifecycle d lc ?s) = finish_active d s'"
        using assms(1,2) by (intro force_terminal_ends) simp_all
      from ends_after [OF tick this] Some p False assms(2) show ?thesis
        by (cases "sp_action step") (auto simp: apply_terminal_event_def read_clock_def Let_def)
    qed
  qed
qed

lemma apply_call_terminal_ends:
  assumes "inv (en_log s)" and "fmlookup (en_calls s) d = Some a" and "lc_delivery (ad_lifecycle a) = d"
    and "event_ok e"
  shows "\<exists>s' r. settled recs inv d s s' \<and> apply_call_terminal_event v d e response s = finish_call d r s'"
proof -
  let ?s = "s\<lparr>en_ticks := en_ticks s + 1\<rparr>" and ?time = "ee_clock v (en_ticks s)"
  note tick = touched_tick [OF assms(1), of d]
  show ?thesis
  proof (cases "life_transition (ad_lifecycle a) ?time e")
    case None
    have "\<exists>s'. settled recs inv d ?s s' \<and> force_call_terminal v d internal_failure None (Err (RtCallFailed DfInternal)) ?s
        = finish_call d (Err (RtCallFailed DfInternal)) s'"
      using assms(1,2) by (intro force_call_terminal_ends) simp_all
    with None assms(2) touched_trans [OF tick] show ?thesis
      by (auto simp: apply_call_terminal_event_def read_clock_def settled_def)
  next
    case (Some p)
    obtain step lc where p: "p = (step, lc)" by fastforce
    show ?thesis
    proof (cases "\<exists>out res. sp_action step = ActTerminal out res")
      case True
      then obtain out res where act: "sp_action step = ActTerminal out res" by blast
      note tm = life_transition_terminal [OF Some [unfolded p] act assms(4)]
      have "settled recs inv d (with_call_lifecycle d lc ?s)
          (persist_call_terminal v d out res (sp_persistence step) (with_call_lifecycle d lc ?s))"
        unfolding tm(1) assms(3) using assms(1,2) tm(2) by (intro persist_call_terminal_settles) simp_all
      then have "\<exists>s'. settled recs inv d (with_call_lifecycle d lc ?s) s' \<and>
          finish_call d response (persist_call_terminal v d out res (sp_persistence step) (with_call_lifecycle d lc ?s))
            = finish_call d response s'" by blast
      from call_ends_after [OF tick this] Some p act assms(2) show ?thesis
        by (auto simp: apply_call_terminal_event_def read_clock_def)
    next
      case False
      have "\<exists>s'. settled recs inv d (with_call_lifecycle d lc ?s) s' \<and>
          force_call_terminal v d internal_failure None (Err (RtCallFailed DfInternal)) (with_call_lifecycle d lc ?s)
            = finish_call d (Err (RtCallFailed DfInternal)) s'"
        using assms(1,2) by (intro force_call_terminal_ends) simp_all
      from call_ends_after [OF tick this] Some p False assms(2) show ?thesis
        by (cases "sp_action step") (auto simp: apply_call_terminal_event_def read_clock_def Let_def)
    qed
  qed
qed

end

end
