(* ===== verification/Egress_Fair.thy ===== *)
theory Egress_Fair
  imports Egress_Settle
begin

text \<open>
  Fair dispatch: taking the next delivery never loses a delivery that could start, and it gives up only
  when every route that still has work is at its limit.
\<close>

definition queued :: "'l engine \<Rightarrow> route_id \<Rightarrow> delivery_id \<Rightarrow> bool" where
  "queued s r d \<longleftrightarrow> (\<exists>q. fmlookup (en_ready s) r = Some q \<and> d \<in> set q)"

definition queues_wf :: "'l engine \<Rightarrow> bool" where
  "queues_wf s \<longleftrightarrow>
     distinct (en_ready_routes s) \<and> (\<forall>r. r \<in> set (en_ready_routes s) \<longleftrightarrow> fmlookup (en_ready s) r \<noteq> None) \<and>
     (\<forall>r q. fmlookup (en_ready s) r = Some q \<longrightarrow> q \<noteq> [])"

definition route_full :: "'l engine_env \<Rightarrow> 'l engine \<Rightarrow> route_id \<Rightarrow> bool" where
  "route_full v s r \<longleftrightarrow> us_in_flight (usage_of s r) \<ge> rl_route_in_flight (ee_limits v)"

lemma queued_queues: "queues s' = queues s \<Longrightarrow> queued s' = queued s"
  by (intro ext) (simp add: queued_def queues_def)

lemma queues_wf_queues: "queues s' = queues s \<Longrightarrow> queues_wf s' = queues_wf s"
  by (simp add: queues_wf_def queues_def)

section \<open>One route\<close>

definition fair_turn :: "'l engine_env \<Rightarrow> 'l engine \<Rightarrow> delivery_id option \<times> 'l engine" where
  "fair_turn v s =
     (case en_ready_routes s of
        [] \<Rightarrow> (None, s)
      | route # routes \<Rightarrow>
          (case fmlookup (en_ready s) route of
             None \<Rightarrow> (None, s\<lparr>en_ready_routes := routes @ [route]\<rparr>)
           | Some queue \<Rightarrow>
               if route_full v s route then (None, s\<lparr>en_ready_routes := routes @ [route]\<rparr>)
               else
               let rest = dropWhile (\<lambda>d. \<not> startable s d) queue in
               ((case rest of [] \<Rightarrow> None | d # _ \<Rightarrow> Some d),
                (if tl rest = []
                 then s\<lparr>en_ready_routes := routes, en_ready := fmdrop route (en_ready s)\<rparr>
                 else s\<lparr>en_ready_routes := routes @ [route], en_ready := fmupd route (tl rest) (en_ready s)\<rparr>))))"

lemma fair_loop_Suc:
  "fair_loop v (Suc n) s = (case fair_turn v s of (None, s') \<Rightarrow> fair_loop v n s' | (Some d, s') \<Rightarrow> (Some d, s'))"
proof (cases "en_ready_routes s")
  case Nil
  then have "fair_loop v n s = (None, s)" by (cases n) simp_all
  with Nil show ?thesis by (simp add: fair_turn_def)
next
  case (Cons route routes)
  show ?thesis
  proof (cases "fmlookup (en_ready s) route")
    case None
    with Cons show ?thesis by (simp add: fair_turn_def)
  next
    case (Some queue)
    with Cons show ?thesis
      by (cases "dropWhile (\<lambda>d. \<not> startable s d) queue") (simp_all add: fair_turn_def route_full_def Let_def
          del: dropWhile_eq_Nil_conv)
  qed
qed

declare fair_loop.simps(2) [simp del]

text \<open>What is promised of a turn, and of any number of turns.\<close>

definition fair :: "'l engine_env \<Rightarrow> 'l engine \<Rightarrow> delivery_id option \<Rightarrow> 'l engine \<Rightarrow> bool" where
  "fair v s res s' \<longleftrightarrow>
     (\<exists>rd rr. s' = s\<lparr>en_ready := rd, en_ready_routes := rr\<rparr>) \<and> queues_wf s' \<and>
     (\<forall>r d. queued s r d \<longrightarrow> startable s d \<longrightarrow> queued s' r d \<or> res = Some d) \<and>
     (\<forall>r d. queued s' r d \<longrightarrow> queued s r d) \<and>
     (\<forall>d. res = Some d \<longrightarrow> startable s d \<and> (\<exists>r. queued s r d \<and> \<not> route_full v s r))"

lemma fair_refl: "queues_wf s \<Longrightarrow> fair v s None s"
proof -
  have "\<exists>rd rr. s = s\<lparr>en_ready := rd, en_ready_routes := rr\<rparr>"
    by (rule exI [of _ "en_ready s"], rule exI [of _ "en_ready_routes s"]) simp
  then show "queues_wf s \<Longrightarrow> fair v s None s" unfolding fair_def by simp
qed

lemma fair_trans:
  assumes "fair v s None s1" and "fair v s1 res s'"
  shows "fair v s res s'"
proof -
  from assms(1) obtain rd rr where s1: "s1 = s\<lparr>en_ready := rd, en_ready_routes := rr\<rparr>" unfolding fair_def by blast
  have same: "startable s1 d = startable s d" "route_full v s1 r = route_full v s r" for d r
    unfolding s1 by (simp_all add: startable_def route_full_def)
  from assms(2) obtain rd' rr' where "s' = s1\<lparr>en_ready := rd', en_ready_routes := rr'\<rparr>" unfolding fair_def by blast
  then have "\<exists>rd rr. s' = s\<lparr>en_ready := rd, en_ready_routes := rr\<rparr>" unfolding s1 by auto
  moreover have "queues_wf s'" using assms(2) unfolding fair_def by blast
  moreover have "queued s' r d \<or> res = Some d" if "queued s r d" "startable s d" for r d
    using that assms same unfolding fair_def by blast
  moreover have "queued s r d" if "queued s' r d" for r d
    using that assms unfolding fair_def by blast
  moreover have "startable s d \<and> (\<exists>r. queued s r d \<and> \<not> route_full v s r)" if "res = Some d" for d
    using that assms same unfolding fair_def by blast
  ultimately show ?thesis unfolding fair_def by blast
qed

lemma set_dropWhile_tl:
  "x \<in> set xs \<Longrightarrow> \<not> P x \<Longrightarrow> x \<in> set (tl (dropWhile P xs)) \<or> (\<exists>ys. dropWhile P xs = x # ys)"
  by (induction xs) auto

lemma fair_turn_full:
  assumes "queues_wf s" and "en_ready_routes s = route # routes" and "route_full v s route"
  shows "fair_turn v s = (None, s\<lparr>en_ready_routes := routes @ [route]\<rparr>)"
  using assms by (auto simp: fair_turn_def split: option.split)

lemma fair_turn_open:
  assumes "queues_wf s" and "en_ready_routes s = route # routes" and "\<not> route_full v s route"
  obtains queue where "fmlookup (en_ready s) route = Some queue"
    "fair_turn v s =
      (let rest = dropWhile (\<lambda>d. \<not> startable s d) queue in
       ((case rest of [] \<Rightarrow> None | d # _ \<Rightarrow> Some d),
        (if tl rest = []
         then s\<lparr>en_ready_routes := routes, en_ready := fmdrop route (en_ready s)\<rparr>
         else s\<lparr>en_ready_routes := routes @ [route], en_ready := fmupd route (tl rest) (en_ready s)\<rparr>)))"
proof -
  from assms(1,2) obtain queue where "fmlookup (en_ready s) route = Some queue"
    unfolding queues_wf_def by (metis list.set_intros(1) not_None_eq)
  with assms(2,3) show thesis by (intro that) (simp_all add: fair_turn_def)
qed

lemma fair_turn_fair:
  assumes "queues_wf s" and "fair_turn v s = (res, s')"
  shows "fair v s res s'"
proof (cases "en_ready_routes s")
  case Nil
  with assms fair_refl [OF assms(1)] show ?thesis by (simp add: fair_turn_def)
next
  case (Cons route routes)
  show ?thesis
  proof (cases "route_full v s route")
    case True
    with fair_turn_full [OF assms(1) Cons] assms(2) have eq: "res = None" "s' = s\<lparr>en_ready_routes := routes @ [route]\<rparr>"
      by simp_all
    have "\<exists>rd rr. s' = s\<lparr>en_ready := rd, en_ready_routes := rr\<rparr>"
      unfolding eq by (intro exI [of _ "en_ready s"] exI [of _ "routes @ [route]"]) simp
    moreover have "queues_wf s'" using assms(1) Cons unfolding eq by (auto simp: queues_wf_def)
    ultimately show ?thesis unfolding fair_def by (simp add: eq queued_def)
  next
    case False
    obtain queue where q: "fmlookup (en_ready s) route = Some queue"
      and turn: "fair_turn v s =
        (let rest = dropWhile (\<lambda>d. \<not> startable s d) queue in
         ((case rest of [] \<Rightarrow> None | d # _ \<Rightarrow> Some d),
          (if tl rest = []
           then s\<lparr>en_ready_routes := routes, en_ready := fmdrop route (en_ready s)\<rparr>
           else s\<lparr>en_ready_routes := routes @ [route], en_ready := fmupd route (tl rest) (en_ready s)\<rparr>)))"
      by (rule fair_turn_open [OF assms(1) Cons False])
    define rest where "rest = dropWhile (\<lambda>d. \<not> startable s d) queue"
    have res: "res = (case rest of [] \<Rightarrow> None | d # _ \<Rightarrow> Some d)"
      and s': "s' = (if tl rest = []
           then s\<lparr>en_ready_routes := routes, en_ready := fmdrop route (en_ready s)\<rparr>
           else s\<lparr>en_ready_routes := routes @ [route], en_ready := fmupd route (tl rest) (en_ready s)\<rparr>)"
      using turn assms(2) by (simp_all add: rest_def Let_def)
    have sub: "set rest \<subseteq> set queue" unfolding rest_def by (auto dest: set_dropWhileD)
    then have tlsub: "set (tl rest) \<subseteq> set queue" by (cases rest) auto
    have q': "queued s' r d \<longleftrightarrow> (if r = route then d \<in> set (tl rest) else queued s r d)" for r d
      unfolding s' queued_def by auto
    have keep: "d \<in> set (tl rest) \<or> res = Some d" if "d \<in> set queue" "startable s d" for d
      using set_dropWhile_tl [of d queue "\<lambda>d. \<not> startable s d"] that unfolding res rest_def by auto
    have "s' = s\<lparr>en_ready := if tl rest = [] then fmdrop route (en_ready s) else fmupd route (tl rest) (en_ready s),
        en_ready_routes := if tl rest = [] then routes else routes @ [route]\<rparr>" unfolding s' by simp
    then have "\<exists>rd rr. s' = s\<lparr>en_ready := rd, en_ready_routes := rr\<rparr>" by blast
    moreover have "queues_wf s'"
      using assms(1) Cons q unfolding s' queues_wf_def by auto
    moreover have "queued s' r d \<or> res = Some d" if "queued s r d" "startable s d" for r d
      using that keep [of d] q unfolding q' by (auto simp: queued_def)
    moreover have "queued s r d" if "queued s' r d" for r d
      using that tlsub q unfolding q' by (auto simp: queued_def split: if_splits)
    moreover have "startable s d \<and> (\<exists>r. queued s r d \<and> \<not> route_full v s r)" if "res = Some d" for d
    proof -
      from that obtain ys where ys: "rest = d # ys" unfolding res by (auto split: list.splits)
      then have "startable s d" unfolding rest_def by (simp add: dropWhile_eq_Cons_conv)
      moreover have "queued s route d" using q sub ys by (auto simp: queued_def)
      ultimately show ?thesis using False by blast
    qed
    ultimately show ?thesis unfolding fair_def by blast
  qed
qed

section \<open>All routes\<close>

lemma fair_loop_fair: "queues_wf s \<Longrightarrow> fair_loop v n s = (res, s') \<Longrightarrow> fair v s res s'"
proof (induction n arbitrary: s)
  case 0
  with fair_refl [OF 0(1)] show ?case by simp
next
  case (Suc n)
  obtain r1 s1 where turn: "fair_turn v s = (r1, s1)" by fastforce
  note f1 = fair_turn_fair [OF Suc.prems(1) turn]
  show ?case
  proof (cases r1)
    case None
    with Suc.prems(2) turn have "fair_loop v n s1 = (res, s')" by (simp add: fair_loop_Suc)
    moreover have "queues_wf s1" using f1 unfolding fair_def by blast
    ultimately have "fair v s1 res s'" by (rule Suc.IH [rotated])
    with f1 None show ?thesis by (auto intro: fair_trans)
  next
    case (Some d)
    with Suc.prems(2) turn f1 show ?thesis by (auto simp: fair_loop_Suc)
  qed
qed

text \<open>\<open>n\<close> turns over \<open>n\<close> routes: what is left was put back because it is full.\<close>

lemma fair_loop_exhausted:
  assumes "queues_wf s" and "en_ready_routes s = us @ ks" and "\<forall>r\<in>set ks. route_full v s r"
    and "fair_loop v (length us) s = (None, s')"
  shows "\<forall>r\<in>set (en_ready_routes s'). route_full v s' r"
  using assms
proof (induction us arbitrary: s ks)
  case Nil
  then show ?case by simp
next
  case (Cons route us)
  obtain r1 s1 where turn: "fair_turn v s = (r1, s1)" by fastforce
  note f1 = fair_turn_fair [OF Cons.prems(1) turn]
  with Cons.prems(4) turn have r1: "r1 = None" and rest: "fair_loop v (length us) s1 = (None, s')"
    by (cases r1; simp add: fair_loop_Suc)+
  from f1 have wf1: "queues_wf s1" and full: "route_full v s1 r = route_full v s r" for r
    by (auto simp: fair_def route_full_def)
  have rr: "en_ready_routes s = route # (us @ ks)" using Cons.prems(2) by simp
  show ?case
  proof (cases "route_full v s route")
    case True
    with fair_turn_full [OF Cons.prems(1) rr] turn have "en_ready_routes s1 = us @ (ks @ [route])" by auto
    from Cons.IH [OF wf1 this _ rest] True Cons.prems(3) full show ?thesis by auto
  next
    case False
    obtain queue where "fair_turn v s =
        (let rest = dropWhile (\<lambda>d. \<not> startable s d) queue in
         ((case rest of [] \<Rightarrow> None | d # _ \<Rightarrow> Some d),
          (if tl rest = []
           then s\<lparr>en_ready_routes := us @ ks, en_ready := fmdrop route (en_ready s)\<rparr>
           else s\<lparr>en_ready_routes := (us @ ks) @ [route], en_ready := fmupd route (tl rest) (en_ready s)\<rparr>)))"
      by (rule fair_turn_open [OF Cons.prems(1) rr False])
    with turn r1 have "en_ready_routes s1 = us @ ks"
      by (cases "dropWhile (\<lambda>d. \<not> startable s d) queue") (auto simp: Let_def simp del: dropWhile_eq_Nil_conv)
    from Cons.IH [OF wf1 this _ rest] Cons.prems(3) full show ?thesis by auto
  qed
qed

lemma take_fair_ready_fair: "queues_wf s \<Longrightarrow> take_fair_ready v s = (res, s') \<Longrightarrow> fair v s res s'"
  unfolding take_fair_ready_def by (rule fair_loop_fair)

lemma take_fair_ready_None:
  assumes "queues_wf s" and "take_fair_ready v s = (None, s')" and "queued s' r d"
  shows "route_full v s' r"
proof -
  have "\<forall>r\<in>set (en_ready_routes s'). route_full v s' r"
    using fair_loop_exhausted [of s "en_ready_routes s" "[]"] assms(1,2) by (simp add: take_fair_ready_def)
  moreover have "queues_wf s'" using take_fair_ready_fair [OF assms(1,2)] by (simp add: fair_def)
  ultimately show ?thesis using assms(3) by (auto simp: queued_def queues_wf_def)
qed

end
