(* ===== verification/Egress_Run.thy ===== *)
theory Egress_Run
  imports Egress_Fair
begin

text \<open>
  The invariant of the egress engine, and that one turn of its event loop keeps it: the accounts are exact
  and within the limits, the log and the engine agree, every active delivery is in flight, queued or waiting
  for its retry, and every command is answered at most once.
\<close>

section \<open>The invariant\<close>

definition steady_clock :: "'l engine_env \<Rightarrow> bool" where
  "steady_clock v \<longleftrightarrow> mono (\<lambda>k. tt_monotonic (ee_clock v k))"

definition placed :: "'l engine_env \<Rightarrow> 'l engine \<Rightarrow> delivery_id \<Rightarrow> active_delivery \<Rightarrow> bool" where
  "placed v s d a \<longleftrightarrow>
     (case lc_state (ad_lifecycle a) of
        LsReady \<Rightarrow> \<not> ad_abort a \<and> queued s (route_of a) d
      | LsInFlight \<Rightarrow> ad_abort a
      | LsWaitingRetry t \<Rightarrow> \<not> ad_abort a \<and>
          ((t, d) \<in> set (en_retries s) \<or> queued s (route_of a) d \<and> t \<le> tt_monotonic (ee_clock v (en_ticks s)))
      | LsTerminal \<Rightarrow> False)"

text \<open>The deliveries of \<open>X\<close> are the ones an operation has in its hands.\<close>

definition scheduled :: "'l engine_env \<Rightarrow> delivery_id set \<Rightarrow> 'l engine \<Rightarrow> bool" where
  "scheduled v X s \<longleftrightarrow>
     queues_wf s \<and> sorted (en_retries s) \<and>
     (\<forall>d a. fmlookup (en_active s) d = Some a \<longrightarrow> d \<notin> X \<longrightarrow> placed v s d a) \<and>
     (\<forall>d a. fmlookup (en_calls s) d = Some a \<longrightarrow> d \<notin> X \<longrightarrow> ad_abort a)"

definition within_limits :: "'l engine_env \<Rightarrow> 'l engine \<Rightarrow> bool" where
  "within_limits v s \<longleftrightarrow>
     en_global_pending s \<le> rl_global_pending_deliveries (ee_limits v) \<and>
     en_global_bytes s \<le> rl_global_pending_bytes (ee_limits v) \<and>
     en_global_in_flight s \<le> rl_global_in_flight (ee_limits v) \<and>
     fcard (fmdom (en_calls s)) \<le> rl_call_in_flight (ee_limits v) \<and>
     (\<forall>r. us_pending (usage_of s r) \<le> rl_route_pending_deliveries (ee_limits v) \<and>
          us_bytes (usage_of s r) \<le> rl_route_pending_bytes (ee_limits v))"

text \<open>
  With identifiers that are never used twice (\<open>E\<close> are those used so far), a queue has deliveries of its own
  route only, and then the limit of a route on attempts in flight holds as well.
\<close>

definition routed :: "'l engine_env \<Rightarrow> delivery_id set \<Rightarrow> 'l engine \<Rightarrow> bool" where
  "routed v E s \<longleftrightarrow>
     (\<forall>r d. queued s r d \<longrightarrow> d \<in> E \<and> (\<forall>a. fmlookup (en_active s) d = Some a \<longrightarrow> route_of a = r)) \<and>
     (\<forall>d a. fmlookup (en_active s) d = Some a \<longrightarrow> d \<in> E) \<and>
     (\<forall>r. us_in_flight (usage_of s r) \<le> rl_route_in_flight (ee_limits v))"

text \<open>\<open>H\<close> counts the commands received with each reply handle.\<close>

definition answers :: "'l engine \<Rightarrow> reply_handle \<Rightarrow> nat" where
  "answers s h = count_list (map fst (en_sent s)) h"

definition awaiting :: "'l engine \<Rightarrow> reply_handle \<Rightarrow> nat" where
  "awaiting s h =
     fm_sum (\<lambda>a. of_bool (ac_reply a = h)) (en_calls s) + fm_sum (\<lambda>x. of_bool (rd_reply x = h)) (en_drains s)"

definition answered :: "(reply_handle \<Rightarrow> nat) \<Rightarrow> 'l engine \<Rightarrow> bool" where
  "answered H s \<longleftrightarrow> (\<forall>h. answers s h + awaiting s h = H h)"

definition engine_inv ::
    "'l engine_env \<Rightarrow> ('l \<Rightarrow> bool) \<Rightarrow> ('l \<Rightarrow> delivery_id \<rightharpoonup> delivery_record) \<Rightarrow> bool \<Rightarrow> delivery_id set
       \<Rightarrow> delivery_id set \<Rightarrow> (reply_handle \<Rightarrow> nat) \<Rightarrow> 'l engine \<Rightarrow> bool" where
  "engine_inv v linv recs unique X E H s \<longleftrightarrow>
     steady_clock v \<and> linv (en_log s) \<and> accounts s \<and> within_limits v s \<and> logged (recs (en_log s)) s \<and> scheduled v X s \<and>
     (unique \<longrightarrow> routed v E s) \<and> answered H s"

lemma engine_inv_weaken: "engine_inv v linv recs u X E H s \<Longrightarrow> X \<subseteq> Y \<Longrightarrow> engine_inv v linv recs u Y E H s"
  unfolding engine_inv_def scheduled_def by blast

section \<open>Removing a delivery or a call\<close>

lemma queues_eqD:
  "queues s' = queues s \<Longrightarrow> en_ready s' = en_ready s \<and> en_ready_routes s' = en_ready_routes s \<and> en_retries s' = en_retries s"
  by (simp add: queues_def)

lemma adjust_usage_fields [simp]:
  "en_active (adjust_usage r f s) = en_active s" "en_calls (adjust_usage r f s) = en_calls s"
  "en_log (adjust_usage r f s) = en_log s" "en_ticks (adjust_usage r f s) = en_ticks s"
  "en_degraded (adjust_usage r f s) = en_degraded s" "en_overrides (adjust_usage r f s) = en_overrides s"
  "en_sent (adjust_usage r f s) = en_sent s" "en_drains (adjust_usage r f s) = en_drains s"
  "en_ready (adjust_usage r f s) = en_ready s" "en_retries (adjust_usage r f s) = en_retries s"
  "en_ready_routes (adjust_usage r f s) = en_ready_routes s" "en_registry (adjust_usage r f s) = en_registry s"
  "en_global_in_flight (adjust_usage r f s) = en_global_in_flight s" 
  "en_global_pending (adjust_usage r f s) = en_global_pending s"
  "en_global_bytes (adjust_usage r f s) = en_global_bytes s"
  by (simp_all add: adjust_usage_def split: option.split)

lemma finish_active_fields [simp]:
  "en_active (finish_active d s) = fmdrop d (en_active s)" "en_calls (finish_active d s) = en_calls s"
  "en_log (finish_active d s) = en_log s" "en_ticks (finish_active d s) = en_ticks s"
  "en_degraded (finish_active d s) = en_degraded s" "en_overrides (finish_active d s) = en_overrides s"
  "en_sent (finish_active d s) = en_sent s" "en_drains (finish_active d s) = en_drains s"
  "en_ready (finish_active d s) = en_ready s" "en_retries (finish_active d s) = en_retries s"
  "en_ready_routes (finish_active d s) = en_ready_routes s" "en_registry (finish_active d s) = en_registry s"
  by (cases "fmlookup (en_active s) d"; simp add: finish_active_def Let_def fmdrop_absent split: option.split)+

lemma queued_finish [simp]: "queued (finish_active d s) = queued s"
  by (intro ext) (simp add: queued_def)

lemma queues_wf_finish [simp]: "queues_wf (finish_active d s) = queues_wf s"
  by (simp add: queues_wf_def)

lemma finish_active_le:
  assumes "accounts s"
  shows "us_pending (usage_of (finish_active d s) r) \<le> us_pending (usage_of s r)"
    "us_bytes (usage_of (finish_active d s) r) \<le> us_bytes (usage_of s r)"
    "us_in_flight (usage_of (finish_active d s) r) \<le> us_in_flight (usage_of s r)"
    "en_global_pending (finish_active d s) \<le> en_global_pending s"
    "en_global_bytes (finish_active d s) \<le> en_global_bytes s"
    "en_global_in_flight (finish_active d s) \<le> en_global_in_flight s"
proof -
  have "us_pending (usage_of (finish_active d s) r) \<le> us_pending (usage_of s r) \<and>
    us_bytes (usage_of (finish_active d s) r) \<le> us_bytes (usage_of s r) \<and>
    us_in_flight (usage_of (finish_active d s) r) \<le> us_in_flight (usage_of s r) \<and>
    en_global_pending (finish_active d s) \<le> en_global_pending s \<and>
    en_global_bytes (finish_active d s) \<le> en_global_bytes s \<and>
    en_global_in_flight (finish_active d s) \<le> en_global_in_flight s"
  proof (cases "fmlookup (en_active s) d")
    case (Some a)
    note del = accounts_delivery [OF assms Some]
    from accounts_finish [OF assms, of d] have
      "usage_of (finish_active d s) r = tally (fmdrop d (en_active s)) (en_calls s) r"
      "en_global_pending (finish_active d s) = fm_sum (\<lambda>_. 1) (fmdrop d (en_active s))"
      "en_global_bytes (finish_active d s) = fm_sum bytes_of (fmdrop d (en_active s))"
      "en_global_in_flight (finish_active d s) = fm_sum (\<lambda>a. of_bool (ad_abort a)) (fmdrop d (en_active s))"
      by (simp_all add: accounts_def)
    with del(2-5) show ?thesis by (simp add: add_delivery_def)
  qed (simp add: finish_active_absent)
  then show "us_pending (usage_of (finish_active d s) r) \<le> us_pending (usage_of s r)"
    "us_bytes (usage_of (finish_active d s) r) \<le> us_bytes (usage_of s r)"
    "us_in_flight (usage_of (finish_active d s) r) \<le> us_in_flight (usage_of s r)"
    "en_global_pending (finish_active d s) \<le> en_global_pending s"
    "en_global_bytes (finish_active d s) \<le> en_global_bytes s"
    "en_global_in_flight (finish_active d s) \<le> en_global_in_flight s" by blast+
qed

lemma within_finish: "accounts s \<Longrightarrow> within_limits v s \<Longrightarrow> within_limits v (finish_active d s)"
  unfolding within_limits_def using finish_active_le [of s d] by (simp; meson order_trans)

lemma placed_later:
  assumes "placed v s d a" and "steady_clock v" and "queued s' = queued s" and "en_retries s' = en_retries s"
    and "en_ticks s \<le> en_ticks s'"
  shows "placed v s' d a"
proof -
  have "tt_monotonic (ee_clock v (en_ticks s)) \<le> tt_monotonic (ee_clock v (en_ticks s'))"
    using assms(2,5) by (simp add: steady_clock_def mono_def)
  with assms(1,3,4) show ?thesis by (auto simp: placed_def split: life_state.splits)
qed

lemma scheduled_touched:
  assumes "scheduled v X s" and "steady_clock v" and "touched recs linv d s s'"
  shows "scheduled v X s'"
proof -
  note t = touched_fields [OF assms(3)]
  have "queued s' = queued s" "queues_wf s' = queues_wf s" "en_retries s' = en_retries s"
    using queued_queues [OF t(5)] queues_wf_queues [OF t(5)] queues_eqD [OF t(5)] by simp_all
  with assms(1) placed_later [OF _ assms(2)] t(8) show ?thesis
    unfolding scheduled_def t(1,2) by metis
qed

lemma placed_finish [simp]: "placed v (finish_active d s) i a = placed v s i a"
  by (cases "lc_state (ad_lifecycle a)") (simp_all add: placed_def)

lemma scheduled_finish: "scheduled v (insert d X) s \<Longrightarrow> fmlookup (en_calls s) d = None \<Longrightarrow> scheduled v X (finish_active d s)"
  unfolding scheduled_def by simp (metis option.distinct(1))

lemma logged_disjoint:
  "logged m s \<Longrightarrow> fmlookup (en_active s) d \<noteq> None \<Longrightarrow> fmlookup (en_calls s) d = None"
  "logged m s \<Longrightarrow> fmlookup (en_calls s) d \<noteq> None \<Longrightarrow> fmlookup (en_active s) d = None"
  unfolding logged_def by metis+

lemma tracked_touched:
  "touched recs linv d s s' \<Longrightarrow> i \<noteq> d \<Longrightarrow> tracked (recs (en_log s)) i a \<Longrightarrow> tracked (recs (en_log s')) i a"
  using touched_fields(9) [of recs linv d s s' i] by (simp add: tracked_def)

lemma loggedI:
  assumes "\<And>d a. fmlookup (en_active s) d = Some a \<Longrightarrow> tracked m d a"
    and "\<And>d a. fmlookup (en_calls s) d = Some a \<Longrightarrow> tracked m d a"
    and "\<And>d. fmlookup (en_active s) d = None \<or> fmlookup (en_calls s) d = None"
    and "\<And>d. pending (m d) \<Longrightarrow>
      fmlookup (en_active s) d \<noteq> None \<or> fmlookup (en_calls s) d \<noteq> None \<or> fmlookup (en_overrides s) d \<noteq> None"
    and "\<And>d x. fmlookup (en_overrides s) d = Some x \<Longrightarrow>
      en_degraded s \<and> fmlookup (en_active s) d = None \<and> fmlookup (en_calls s) d = None \<and> is_terminal (dr_state x)"
  shows "logged m s"
  unfolding logged_def using assms by simp

lemma loggedD:
  assumes "logged m s"
  shows "\<And>d a. fmlookup (en_active s) d = Some a \<Longrightarrow> tracked m d a"
    "\<And>d a. fmlookup (en_calls s) d = Some a \<Longrightarrow> tracked m d a"
    "\<And>d. fmlookup (en_active s) d = None \<or> fmlookup (en_calls s) d = None"
    "\<And>d. pending (m d) \<Longrightarrow>
      fmlookup (en_active s) d \<noteq> None \<or> fmlookup (en_calls s) d \<noteq> None \<or> fmlookup (en_overrides s) d \<noteq> None"
    "\<And>d x. fmlookup (en_overrides s) d = Some x \<Longrightarrow>
      en_degraded s \<and> fmlookup (en_active s) d = None \<and> fmlookup (en_calls s) d = None \<and> is_terminal (dr_state x)"
  using assms unfolding logged_def by simp_all

lemma logged_touched:
  assumes "logged (recs (en_log s)) s" and "settled recs linv d s s'"
  shows "\<And>i. i \<noteq> d \<Longrightarrow> pending (recs (en_log s') i) \<Longrightarrow>
      fmlookup (en_active s) i \<noteq> None \<or> fmlookup (en_calls s) i \<noteq> None \<or> fmlookup (en_overrides s') i \<noteq> None"
    "pending (recs (en_log s') d) \<Longrightarrow> fmlookup (en_overrides s') d \<noteq> None"
    "\<And>i x. fmlookup (en_overrides s') i = Some x \<Longrightarrow> en_degraded s' \<and> is_terminal (dr_state x) \<and>
      (i = d \<or> fmlookup (en_active s) i = None \<and> fmlookup (en_calls s) i = None)"
proof -
  have t: "touched recs linv d s s'" using assms(2) by (simp add: settled_def)
  note f = touched_fields [OF t] touched_keeps [OF t] touched_overrides [OF t]
  show "fmlookup (en_active s) i \<noteq> None \<or> fmlookup (en_calls s) i \<noteq> None \<or> fmlookup (en_overrides s') i \<noteq> None"
    if "i \<noteq> d" "pending (recs (en_log s') i)" for i
    using that assms(1) f(9) f(16) unfolding logged_def by metis
  show "pending (recs (en_log s') d) \<Longrightarrow> fmlookup (en_overrides s') d \<noteq> None"
    using assms(2) unfolding settled_def by blast
  show "en_degraded s' \<and> is_terminal (dr_state x) \<and>
      (i = d \<or> fmlookup (en_active s) i = None \<and> fmlookup (en_calls s) i = None)"
    if "fmlookup (en_overrides s') i = Some x" for i x
    using f(17) [OF that] f(10) assms(1) unfolding logged_def by blast
qed

lemma logged_finish:
  assumes "logged (recs (en_log s)) s" and "settled recs linv d s s'" and "fmlookup (en_active s) d \<noteq> None"
  shows "logged (recs (en_log s')) (finish_active d s')"
proof -
  note f = logged_touched [OF assms(1,2)]
  have t: "en_active s' = en_active s" "en_calls s' = en_calls s"
    using assms(2) touched_fields(1,2) by (auto simp: settled_def)
  have touch: "touched recs linv d s s'" using assms(2) by (simp add: settled_def)
  have "fmlookup (en_calls s) d = None" using logged_disjoint(1) [OF assms(1,3)] .
  note free = this
  show ?thesis
  proof (rule loggedI, goal_cases)
    case (1 i a)
    then have "i \<noteq> d" "tracked (recs (en_log s)) i a" using loggedD(1) [OF assms(1)] t by (auto split: if_splits)
    with touch show ?case by (auto intro: tracked_touched)
  next
    case (2 i a)
    then have "i \<noteq> d" "tracked (recs (en_log s)) i a" using loggedD(2) [OF assms(1)] t free by auto
    with touch show ?case by (auto intro: tracked_touched)
  next
    case (3 i)
    with loggedD(3) [OF assms(1), of i] t show ?case by auto
  next
    case (4 i)
    with f(1) [of i] f(2) t show ?case by (cases "i = d") auto
  next
    case (5 i x)
    with f(3) [of i x] t free show ?case by auto
  qed
qed

lemma within_touched:
  assumes "touched recs linv d s s'"
  shows "within_limits v s' = within_limits v s"
  using queued_queues [OF touched_fields(5) [OF assms]]
  by (simp add: within_limits_def touched_fields(1,2,4,6,7,12-15) [OF assms])

lemma routed_touched:
  assumes "touched recs linv d s s'"
  shows "routed v E s' = routed v E s"
  using queued_queues [OF touched_fields(5) [OF assms]]
  by (simp add: routed_def touched_fields(1,2,4,6,7,12-15) [OF assms])

lemma answered_touched:
  assumes "touched recs linv d s s'"
  shows "answered H s' = answered H s"
  using queued_queues [OF touched_fields(5) [OF assms]]
  by (simp add: answered_def answers_def awaiting_def touched_fields(1,2,4,6,7,12-15) [OF assms])

lemma routed_finish: "accounts s \<Longrightarrow> routed v E s \<Longrightarrow> routed v E (finish_active d s)"
  unfolding routed_def using finish_active_le(3) [of s d] by (simp; meson order_trans)

lemma answered_finish [simp]: "answered H (finish_active d s) = answered H s"
  by (simp add: answered_def answers_def awaiting_def)

lemma inv_finish:
  assumes "engine_inv v linv recs u (insert d X) E H s" and "settled recs linv d s s'"
    and "fmlookup (en_active s) d = Some a"
  shows "engine_inv v linv recs u X E H (finish_active d s')"
proof -
  have t: "touched recs linv d s s'" using assms(2) by (simp add: settled_def)
  note e = assms(1) [unfolded engine_inv_def]
  have acc: "accounts s'" using e touched_fields(11) [OF t] by simp
  have "fmlookup (en_calls s') d = None"
    using logged_disjoint(1) [of "recs (en_log s)" s d] e assms(3) touched_fields(2) [OF t] by simp
  then have "scheduled v X (finish_active d s')"
    using e scheduled_touched [OF _ _ t] scheduled_finish by blast
  moreover have "logged (recs (en_log s')) (finish_active d s')" using e assms(2,3) logged_finish by fastforce
  moreover have "within_limits v (finish_active d s')" using e within_touched [OF t] within_finish [OF acc] by blast
  moreover have "u \<longrightarrow> routed v E (finish_active d s')" using e routed_touched [OF t] routed_finish [OF acc] by blast
  ultimately show ?thesis
    using e touched_fields(3) [OF t] accounts_finish [OF acc] answered_touched [OF t]
    by (simp add: engine_inv_def)
qed

text \<open>The same for a call, whose answer goes out with it.\<close>

lemma finish_call_fields [simp]:
  "en_calls (finish_call d r s) = fmdrop d (en_calls s)" "en_active (finish_call d r s) = en_active s"
  "en_log (finish_call d r s) = en_log s" "en_ticks (finish_call d r s) = en_ticks s"
  "en_degraded (finish_call d r s) = en_degraded s" "en_overrides (finish_call d r s) = en_overrides s"
  "en_drains (finish_call d r s) = en_drains s" "en_registry (finish_call d r s) = en_registry s"
  "en_ready (finish_call d r s) = en_ready s" "en_retries (finish_call d r s) = en_retries s"
  "en_ready_routes (finish_call d r s) = en_ready_routes s"
  "en_global_in_flight (finish_call d r s) = en_global_in_flight s"
  "en_global_pending (finish_call d r s) = en_global_pending s"
  "en_global_bytes (finish_call d r s) = en_global_bytes s"
  by (cases "fmlookup (en_calls s) d"; simp add: finish_call_def send_def Let_def fmdrop_absent split: option.split)+

lemma finish_call_sent:
  "fmlookup (en_calls s) d = Some a \<Longrightarrow> en_sent (finish_call d r s) = en_sent s @ [(ac_reply a, ReplyCall r)]"
  by (simp add: finish_call_def send_def Let_def split: option.split)

lemma queued_finish_call [simp]: "queued (finish_call d r s) = queued s"
  by (intro ext) (simp add: queued_def)

lemma queues_wf_finish_call [simp]: "queues_wf (finish_call d r s) = queues_wf s"
  by (simp add: queues_wf_def)

lemma placed_finish_call [simp]: "placed v (finish_call d r s) i a = placed v s i a"
  by (cases "lc_state (ad_lifecycle a)") (simp_all add: placed_def)

lemma usage_finish_call:
  assumes "accounts s"
  shows "us_pending (usage_of (finish_call d x s) r) = us_pending (usage_of s r)"
    "us_bytes (usage_of (finish_call d x s) r) = us_bytes (usage_of s r)"
    "us_in_flight (usage_of (finish_call d x s) r) = us_in_flight (usage_of s r)"
  using assms accounts_finish_call [OF assms, of d x] by (simp_all add: accounts_def tally_def)

lemma within_finish_call: "accounts s \<Longrightarrow> within_limits v s \<Longrightarrow> within_limits v (finish_call d x s)"
proof -
  have "fcard (fmdom (en_calls s) |-| {|d|}) \<le> fcard (fmdom (en_calls s))" by (rule fcard_mono) auto
  then show "accounts s \<Longrightarrow> within_limits v s \<Longrightarrow> within_limits v (finish_call d x s)"
    unfolding within_limits_def by (simp add: usage_finish_call)
qed

lemma routed_finish_call: "accounts s \<Longrightarrow> routed v E s \<Longrightarrow> routed v E (finish_call d x s)"
  by (simp add: routed_def usage_finish_call)

lemma scheduled_finish_call:
  "scheduled v (insert d X) s \<Longrightarrow> fmlookup (en_active s) d = None \<Longrightarrow> scheduled v X (finish_call d x s)"
  unfolding scheduled_def by simp (metis option.distinct(1))

lemma answered_finish_call: "fmlookup (en_calls s) d = Some a \<Longrightarrow> answered H s \<Longrightarrow> answered H (finish_call d x s)"
  unfolding answered_def
proof (rule allI)
  fix h
  assume a: "fmlookup (en_calls s) d = Some a" and "\<forall>h. answers s h + awaiting s h = H h"
  then have "answers s h + awaiting s h = H h" by blast
  with a fm_sum_drop [OF a, of "\<lambda>a. of_bool (ac_reply a = h)"]
  show "answers (finish_call d x s) h + awaiting (finish_call d x s) h = H h"
    by (cases "ac_reply a = h") (simp_all add: answers_def awaiting_def finish_call_sent)
qed

lemma logged_finish_call:
  assumes "logged (recs (en_log s)) s" and "settled recs linv d s s'" and "fmlookup (en_calls s) d \<noteq> None"
  shows "logged (recs (en_log s')) (finish_call d x s')"
proof -
  note f = logged_touched [OF assms(1,2)]
  have t: "en_active s' = en_active s" "en_calls s' = en_calls s"
    using assms(2) touched_fields(1,2) by (auto simp: settled_def)
  have touch: "touched recs linv d s s'" using assms(2) by (simp add: settled_def)
  note free = logged_disjoint(2) [OF assms(1,3)]
  show ?thesis
  proof (rule loggedI, goal_cases)
    case (1 i a)
    then have "i \<noteq> d" "tracked (recs (en_log s)) i a" using loggedD(1) [OF assms(1)] t free by auto
    with touch show ?case by (auto intro: tracked_touched)
  next
    case (2 i a)
    then have "i \<noteq> d" "tracked (recs (en_log s)) i a" using loggedD(2) [OF assms(1)] t by (auto split: if_splits)
    with touch show ?case by (auto intro: tracked_touched)
  next
    case (3 i)
    with loggedD(3) [OF assms(1), of i] t show ?case by auto
  next
    case (4 i)
    with f(1) [of i] f(2) t show ?case by (cases "i = d") auto
  next
    case (5 i x)
    with f(3) [of i x] t free show ?case by auto
  qed
qed

lemma inv_finish_call:
  assumes "engine_inv v linv recs u (insert d X) E H s" and "settled recs linv d s s'"
    and "fmlookup (en_calls s) d = Some a"
  shows "engine_inv v linv recs u X E H (finish_call d x s')"
proof -
  have t: "touched recs linv d s s'" using assms(2) by (simp add: settled_def)
  note e = assms(1) [unfolded engine_inv_def]
  have acc: "accounts s'" using e touched_fields(11) [OF t] by simp
  have call: "fmlookup (en_calls s') d = Some a" using assms(3) touched_fields(2) [OF t] by simp
  have "fmlookup (en_active s') d = None"
    using logged_disjoint(2) [of "recs (en_log s)" s d] e assms(3) touched_fields(1) [OF t] by simp
  then have "scheduled v X (finish_call d x s')"
    using e scheduled_touched [OF _ _ t] scheduled_finish_call by blast
  moreover have "logged (recs (en_log s')) (finish_call d x s')" using e assms(2,3) logged_finish_call by fastforce
  moreover have "within_limits v (finish_call d x s')" using e within_touched [OF t] within_finish_call [OF acc] by blast
  moreover have "u \<longrightarrow> routed v E (finish_call d x s')"
    using e routed_touched [OF t] routed_finish_call [OF acc] by blast
  moreover have "answered H (finish_call d x s')" using e answered_touched [OF t] answered_finish_call [OF call] by blast
  ultimately show ?thesis
    using e touched_fields(3) [OF t] accounts_finish_call [OF acc] by (simp add: engine_inv_def)
qed

section \<open>Changes of one entry\<close>

text \<open>Nothing but the clock, the flag, or the way the log represents its records changed.\<close>

lemma inv_quiet:
  assumes "engine_inv v linv recs u X E H s" and "touched recs linv d s s'"
    and "recs (en_log s') = recs (en_log s)" and "en_overrides s' = en_overrides s"
  shows "engine_inv v linv recs u X E H s'"
proof -
  note t = touched_fields [OF assms(2)]
  note e = assms(1) [unfolded engine_inv_def]
  have "logged (recs (en_log s')) s'"
    unfolding assms(3)
    by (rule loggedI; unfold t(1,2) assms(4)) (use e t(10) in \<open>auto dest: loggedD\<close>)
  with e t(3,11) scheduled_touched [OF _ _ assms(2)] within_touched [OF assms(2)] routed_touched [OF assms(2)]
    answered_touched [OF assms(2)]
  show ?thesis by (simp add: engine_inv_def)
qed

text \<open>A delivery that can be taken from its queue.\<close>

definition awaited :: "'l engine_env \<Rightarrow> 'l engine \<Rightarrow> delivery_id \<Rightarrow> active_delivery \<Rightarrow> bool" where
  "awaited v s d a \<longleftrightarrow> \<not> ad_abort a \<and>
     (lc_state (ad_lifecycle a) = LsReady \<or>
      (\<exists>t. lc_state (ad_lifecycle a) = LsWaitingRetry t \<and>
         ((t, d) \<in> set (en_retries s) \<or> t \<le> tt_monotonic (ee_clock v (en_ticks s)))))"

lemma placed_awaited: "placed v s d a \<Longrightarrow> \<not> ad_abort a \<Longrightarrow> awaited v s d a"
  by (auto simp: placed_def awaited_def split: life_state.splits)

lemma logged_update:
  assumes "logged (recs (en_log s)) s" and "fmlookup (en_active s) d = Some a"
    and "recs l = (recs (en_log s))(d \<mapsto> y)" and "dr_state y = Pending"
    and "tracked (recs l) d a'" and "en_active s' = fmupd d a' (en_active s)" and "en_calls s' = en_calls s"
    and "en_overrides s' = en_overrides s" and "en_degraded s' = en_degraded s"
  shows "logged (recs l) s'"
proof (rule loggedI, goal_cases)
  case (1 i b)
  with assms(3,5,6) loggedD(1) [OF assms(1), of i b] show ?case by (auto simp: tracked_def split: if_splits)
next
  case (2 i b)
  with assms(7) have c: "fmlookup (en_calls s) i = Some b" by simp
  with assms(2) logged_disjoint(1) [OF assms(1), of i] have "i \<noteq> d" by auto
  with loggedD(2) [OF assms(1) c] assms(3) show ?case by (simp add: tracked_def)
next
  case (3 i)
  with loggedD(3) [OF assms(1), of i] loggedD(3) [OF assms(1), of d] assms(2,6,7) show ?case by auto
next
  case (4 i)
  with loggedD(4) [OF assms(1), of i] assms(3,6-8) show ?case by (auto split: if_splits)
next
  case (5 i x)
  with loggedD(5) [OF assms(1), of i x] assms(2,6-9) show ?case by (cases "i = d") auto
qed

lemma mark_started_fields [simp]:
  "en_active (mark_started d a s) = fmupd d (a\<lparr>ad_abort := True\<rparr>) (en_active s)" "en_calls (mark_started d a s) = en_calls s"
  "en_log (mark_started d a s) = en_log s" "en_ticks (mark_started d a s) = en_ticks s"
  "en_degraded (mark_started d a s) = en_degraded s" "en_overrides (mark_started d a s) = en_overrides s"
  "en_sent (mark_started d a s) = en_sent s" "en_drains (mark_started d a s) = en_drains s"
  "en_ready (mark_started d a s) = en_ready s" "en_retries (mark_started d a s) = en_retries s"
  "en_ready_routes (mark_started d a s) = en_ready_routes s"
  "en_global_in_flight (mark_started d a s) = en_global_in_flight s + 1"
  "en_global_pending (mark_started d a s) = en_global_pending s"
  "en_global_bytes (mark_started d a s) = en_global_bytes s"
  "usage_of (mark_started d a s) r = (let u = usage_of s r in
     if r = route_of a then u\<lparr>us_in_flight := us_in_flight u + 1\<rparr> else u)"
  by (simp_all add: mark_started_def Let_def)

lemma with_lifecycle_frame [simp]:
  "en_sent (with_lifecycle d lc s) = en_sent s" "en_drains (with_lifecycle d lc s) = en_drains s"
  "en_ready (with_lifecycle d lc s) = en_ready s" "en_retries (with_lifecycle d lc s) = en_retries s"
  "en_ready_routes (with_lifecycle d lc s) = en_ready_routes s"
  "en_global_in_flight (with_lifecycle d lc s) = en_global_in_flight s"
  "en_global_pending (with_lifecycle d lc s) = en_global_pending s"
  "en_global_bytes (with_lifecycle d lc s) = en_global_bytes s"
  "usage_of (with_lifecycle d lc s) r = usage_of s r"
  by (simp_all add: with_lifecycle_def split: option.split)

lemma with_lifecycle_entry [simp]:
  "fmlookup (en_active s) d = Some a \<Longrightarrow>
     en_active (with_lifecycle d lc s) = fmupd d (a\<lparr>ad_lifecycle := lc\<rparr>) (en_active s)"
  by (simp add: with_lifecycle_def)

lemma placed_frame:
  "queued s' = queued s \<Longrightarrow> en_retries s' = en_retries s \<Longrightarrow> en_ticks s' = en_ticks s \<Longrightarrow> placed v s' d a = placed v s d a"
  by (cases "lc_state (ad_lifecycle a)") (simp_all add: placed_def)

lemma queued_ready: "en_ready s' = en_ready s \<Longrightarrow> queued s' = queued s"
  by (intro ext) (simp add: queued_def)

lemma queues_wf_ready:
  "en_ready s' = en_ready s \<Longrightarrow> en_ready_routes s' = en_ready_routes s \<Longrightarrow> queues_wf s' = queues_wf s"
  by (simp add: queues_wf_def)

text \<open>The schedule when the entry of \<open>d\<close> is the only one that changed.\<close>

lemma scheduled_entry:
  assumes "scheduled v (insert d X) s" and "en_ready s' = en_ready s" and "en_ready_routes s' = en_ready_routes s"
    and "en_retries s' = en_retries s" and "en_ticks s' = en_ticks s" and "en_calls s' = en_calls s"
    and "fmlookup (en_calls s) d = None" and "en_active s' = fmupd d a (en_active s)" and "placed v s' d a"
  shows "scheduled v X s'"
proof -
  have "placed v s' i b" if "fmlookup (en_active s') i = Some b" "i \<notin> X" for i b
  proof (cases "i = d")
    case False
    with that assms(1,8) have "placed v s i b" by (simp add: scheduled_def)
    with placed_frame [OF queued_ready [OF assms(2)] assms(4,5)] show ?thesis by simp
  qed (use that assms(8,9) in simp)
  moreover have "ad_abort b" if "fmlookup (en_calls s') i = Some b" "i \<notin> X" for i b
    using that assms(1,6,7) by (cases "i = d") (auto simp: scheduled_def)
  ultimately show ?thesis
    using assms(1,4) queues_wf_ready [OF assms(2,3)] unfolding scheduled_def by metis
qed

lemma inv_started:
  assumes "engine_inv v linv recs u (insert d X) E H s" and "fmlookup (en_active s) d = Some a"
    and "\<not> ad_abort a" and "lc_state lc = LsInFlight" and "linv l" and "recs l = (recs (en_log s))(d \<mapsto> y)"
    and "dr_state y = Pending" and "tracked (recs l) d (a\<lparr>ad_lifecycle := lc\<rparr>)"
    and "en_global_in_flight s < rl_global_in_flight (ee_limits v)"
    and "u \<Longrightarrow> \<not> route_full v s (route_of a)"
  shows "engine_inv v linv recs u X E H
    (mark_started d (a\<lparr>ad_lifecycle := lc\<rparr>) ((with_lifecycle d lc s)\<lparr>en_log := l\<rparr>))" (is "engine_inv _ _ _ _ _ _ _ ?s")
proof -
  note e = assms(1) [unfolded engine_inv_def]
  have act: "en_active ?s = fmupd d (a\<lparr>ad_lifecycle := lc, ad_abort := True\<rparr>) (en_active s)"
    using assms(2) by simp
  have "accounts ?s"
    using e assms(2,3) by (intro accounts_mark_started) (simp_all add: accounts_lifecycle)
  moreover have "within_limits v ?s" using e assms(9) by (simp add: within_limits_def Let_def)
  moreover have "logged (recs l) ?s"
    by (rule logged_update [where s = s, OF _ assms(2,6,7)])
      (use e assms(2,8) in \<open>simp_all add: tracked_def intent_of_def route_of_def\<close>)
  moreover have "scheduled v X ?s"
    by (rule scheduled_entry [where s = s and d = d, OF _ _ _ _ _ _ _ act])
      (use e assms(2,4) logged_disjoint(1) [of "recs (en_log s)" s d] in \<open>simp_all add: placed_def\<close>)
  moreover have "u \<longrightarrow> routed v E ?s"
  proof
    assume "u"
    then have r: "routed v E s" and room: "us_in_flight (usage_of s (route_of a)) < rl_route_in_flight (ee_limits v)"
      using e assms(10) by (simp_all add: route_full_def)
    have "queued ?s = queued s" by (rule queued_ready) simp
    with r room assms(2) show "routed v E ?s"
      unfolding routed_def act by (auto simp: Let_def route_of_def)
  qed
  moreover have "answered H ?s" using e by (simp add: answered_def answers_def awaiting_def)
  ultimately show ?thesis using e assms(5) by (simp add: engine_inv_def)
qed

lemma logged_entry:
  assumes "logged (recs (en_log s)) s" and "fmlookup (en_active s) d = Some a"
    and "tracked (recs (en_log s)) d a'" and "en_active s' = fmupd d a' (en_active s)" and "en_calls s' = en_calls s"
    and "en_overrides s' = en_overrides s" and "en_degraded s' = en_degraded s"
  shows "logged (recs (en_log s)) s'"
proof -
  from assms(3) obtain y where y: "recs (en_log s) d = Some y" "dr_state y = Pending" by (auto simp: tracked_def)
  then have "recs (en_log s) = (recs (en_log s))(d \<mapsto> y)" by (intro ext) simp
  from logged_update [where s = s and recs = recs and l = "en_log s", OF assms(1,2) this y(2) assms(3-7)] show ?thesis .
qed

lemma inv_rescheduled:
  assumes "engine_inv v linv recs u (insert d X) E H s" and "fmlookup (en_active s) d = Some a"
    and "\<not> ad_abort a" and "lc_state lc = LsWaitingRetry t" and "lc_delivery lc = lc_delivery (ad_lifecycle a)"
    and "lc_attempts lc = lc_attempts (ad_lifecycle a)"
  shows "engine_inv v linv recs u X E H
    ((with_lifecycle d lc s)\<lparr>en_retries := insort (t, d) (en_retries s)\<rparr>)" (is "engine_inv _ _ _ _ _ _ _ ?s")
proof -
  note e = assms(1) [unfolded engine_inv_def]
  let ?q = "s\<lparr>en_retries := insort (t, d) (en_retries s)\<rparr>"
  have act: "en_active ?s = fmupd d (a\<lparr>ad_lifecycle := lc\<rparr>) (en_active s)" using assms(2) by simp
  have "queued ?s = queued s" "queued ?q = queued s" by (rule queued_ready; simp)+
  note q = this
  have "scheduled v (insert d X) ?q"
  proof -
    have "placed v ?q i b" if "placed v s i b" for i b
      using that q by (cases "lc_state (ad_lifecycle b)") (auto simp: placed_def set_insort_key)
    with e show ?thesis
      using queues_wf_ready [of ?q s] unfolding scheduled_def by (simp add: sorted_insort)
  qed
  then have "scheduled v X ?s"
    by (rule scheduled_entry [where s' = ?s and a = "a\<lparr>ad_lifecycle := lc\<rparr>"])
      (use e assms(2-4) act logged_disjoint(1) [of "recs (en_log s)" s d] in \<open>simp_all add: placed_def set_insort_key\<close>)
  moreover have "logged (recs (en_log s)) ?s"
    by (rule logged_entry [where s = s, OF _ assms(2) _ act])
      (use e loggedD(1) [of _ s d a] assms in \<open>auto simp: tracked_def intent_of_def route_of_def\<close>)
  moreover have "accounts ?s" using e by (simp add: accounts_lifecycle)
  moreover have "within_limits v ?s" using e by (simp add: within_limits_def)
  moreover have "u \<longrightarrow> routed v E ?s"
    using e assms(2) q unfolding routed_def act by (auto simp: route_of_def)
  moreover have "answered H ?s" using e by (simp add: answered_def answers_def awaiting_def)
  ultimately show ?thesis using e by (simp add: engine_inv_def)
qed

lemma inv_placed:
  "engine_inv v linv recs u (insert d X) E H s \<Longrightarrow> fmlookup (en_active s) d = Some a \<Longrightarrow> placed v s d a \<Longrightarrow>
     engine_inv v linv recs u X E H s"
proof -
  assume e: "engine_inv v linv recs u (insert d X) E H s" and a: "fmlookup (en_active s) d = Some a" "placed v s d a"
  have "fmlookup (en_calls s) d = None"
    using logged_disjoint(1) [of "recs (en_log s)" s d] e a by (simp add: engine_inv_def)
  then have "scheduled v (insert d X) s \<longrightarrow> scheduled v X s"
    using a unfolding scheduled_def by (metis insert_iff option.distinct(1) option.inject)
  with e show ?thesis by (simp add: engine_inv_def)
qed

text \<open>Taking the abort handle of a delivery leaves it in the hands of the caller.\<close>

lemma clear_in_flight_True:
  "clear_in_flight d s = (True, s') \<Longrightarrow> \<exists>a. fmlookup (en_active s) d = Some a \<and> ad_abort a \<and>
     en_active s' = fmupd d (a\<lparr>ad_abort := False\<rparr>) (en_active s)"
  by (auto simp: clear_in_flight_def split: option.splits if_splits)

lemma clear_in_flight_False: "clear_in_flight d s = (False, s') \<Longrightarrow> s' = s"
  by (auto simp: clear_in_flight_def split: option.splits if_splits)

lemma clear_in_flight_fields:
  assumes "clear_in_flight d s = (b, s')"
  shows "en_calls s' = en_calls s" "en_log s' = en_log s" "en_ticks s' = en_ticks s" "en_degraded s' = en_degraded s"
    "en_overrides s' = en_overrides s" "en_sent s' = en_sent s" "en_drains s' = en_drains s" "en_ready s' = en_ready s"
    "en_retries s' = en_retries s" "en_ready_routes s' = en_ready_routes s" "en_global_pending s' = en_global_pending s"
    "en_global_bytes s' = en_global_bytes s" "en_global_in_flight s' \<le> en_global_in_flight s"
    "us_pending (usage_of s' r) = us_pending (usage_of s r)" "us_bytes (usage_of s' r) = us_bytes (usage_of s r)"
    "us_in_flight (usage_of s' r) \<le> us_in_flight (usage_of s r)"
  using assms by (auto simp: clear_in_flight_def adjust_usage_def usage_of_def split: option.splits if_splits)

lemma inv_clear:
  assumes "engine_inv v linv recs u X E H s" and "clear_in_flight d s = (True, s')"
  shows "engine_inv v linv recs u (insert d X) E H s'"
proof -
  note e = assms(1) [unfolded engine_inv_def]
  note f = clear_in_flight_fields [OF assms(2)]
  from clear_in_flight_True [OF assms(2)] obtain a where a: "fmlookup (en_active s) d = Some a" "ad_abort a"
    and act: "en_active s' = fmupd d (a\<lparr>ad_abort := False\<rparr>) (en_active s)" by blast
  have q: "queued s' = queued s" "queues_wf s' = queues_wf s" using queued_ready queues_wf_ready f by blast+
  have "scheduled v (insert d X) s'"
  proof -
    have "placed v s' i b = placed v s i b" for i b using placed_frame [OF q(1) f(9,3)] by simp
    with e q(2) show ?thesis unfolding scheduled_def f act by auto
  qed
  moreover have "logged (recs (en_log s')) s'"
    unfolding f(2) by (rule logged_entry [where s = s, OF _ a(1) _ act])
      (use e loggedD(1) [of _ s d a] a f in \<open>auto simp: tracked_def intent_of_def route_of_def\<close>)
  moreover have "within_limits v s'" using e f(13) order_trans [OF f(13)] by (simp add: within_limits_def f)
  moreover have "u \<longrightarrow> routed v E s'"
  proof
    assume u
    with e have r: "routed v E s" by simp
    have "us_in_flight (usage_of s' r) \<le> rl_route_in_flight (ee_limits v)" for r
      using r f(16) [of r] order_trans unfolding routed_def by blast
    moreover have "\<forall>i b. fmlookup (en_active s') i = Some b \<longrightarrow>
        (\<exists>b'. fmlookup (en_active s) i = Some b' \<and> route_of b = route_of b')"
      using a(1) act by (auto simp: route_of_def split: if_splits)
    ultimately show "routed v E s'" using r unfolding routed_def q by (metis option.inject)
  qed
  moreover have "accounts s'" using e accounts_clear [of s d] assms(2) by simp
  moreover have "answered H s'" using e by (simp add: answered_def answers_def awaiting_def f)
  ultimately show ?thesis using e f(2) by (simp add: engine_inv_def)
qed

end
