(* ===== verification/Egress_Calls.thy ===== *)
theory Egress_Calls
  imports Egress_Run
begin

text \<open>
  The invariant of the egress engine for its calls, which have no queue and no retries.
\<close>

lemma logged_call_update:
  assumes "logged (recs (en_log s)) s" and "fmlookup (en_calls s) d = Some a"
    and "recs l = (recs (en_log s))(d \<mapsto> y)" and "dr_state y = Pending"
    and "tracked (recs l) d a'" and "en_calls s' = fmupd d a' (en_calls s)" and "en_active s' = en_active s"
    and "en_overrides s' = en_overrides s" and "en_degraded s' = en_degraded s"
  shows "logged (recs l) s'"
proof (rule loggedI, goal_cases)
  case (1 i b)
  with assms(7) have c: "fmlookup (en_active s) i = Some b" by simp
  with assms(2) logged_disjoint(2) [OF assms(1), of i] have "i \<noteq> d" by auto
  with loggedD(1) [OF assms(1) c] assms(3) show ?case by (simp add: tracked_def)
next
  case (2 i b)
  with assms(3,5,6) loggedD(2) [OF assms(1), of i b] show ?case by (auto simp: tracked_def split: if_splits)
next
  case (3 i)
  with loggedD(3) [OF assms(1), of i] loggedD(3) [OF assms(1), of d] assms(2,6,7) show ?case by auto
next
  case (4 i)
  with loggedD(4) [OF assms(1), of i] assms(3,6-8) show ?case by (auto split: if_splits)
next
  case (5 i x)
  with loggedD(5) [OF assms(1), of i x] assms(2,6-9) show ?case by (cases "i = d") auto
qed

lemma logged_call_entry:
  assumes "logged (recs (en_log s)) s" and "fmlookup (en_calls s) d = Some a"
    and "tracked (recs (en_log s)) d a'" and "en_calls s' = fmupd d a' (en_calls s)" and "en_active s' = en_active s"
    and "en_overrides s' = en_overrides s" and "en_degraded s' = en_degraded s"
  shows "logged (recs (en_log s)) s'"
proof -
  from assms(3) obtain y where y: "recs (en_log s) d = Some y" "dr_state y = Pending" by (auto simp: tracked_def)
  then have "recs (en_log s) = (recs (en_log s))(d \<mapsto> y)" by (intro ext) simp
  from logged_call_update [where s = s and recs = recs and l = "en_log s", OF assms(1,2) this y(2) assms(3-7)]
  show ?thesis .
qed

lemma scheduled_call_entry:
  assumes "scheduled v (insert d X) s" and "en_ready s' = en_ready s" and "en_ready_routes s' = en_ready_routes s"
    and "en_retries s' = en_retries s" and "en_ticks s' = en_ticks s" and "en_active s' = en_active s"
    and "fmlookup (en_active s) d = None" and "en_calls s' = fmupd d a (en_calls s)" and "d \<notin> Y \<Longrightarrow> ad_abort a"
    and "X \<subseteq> Y"
  shows "scheduled v Y s'"
proof -
  have "placed v s' i b" if "fmlookup (en_active s') i = Some b" "i \<notin> Y" for i b
  proof -
    from that assms(6,7) have "i \<noteq> d" "fmlookup (en_active s) i = Some b" by auto
    with that(2) assms(1,10) have "placed v s i b" unfolding scheduled_def by blast
    with placed_frame [OF queued_ready [OF assms(2)] assms(4,5)] show ?thesis by simp
  qed
  moreover have "ad_abort b" if "fmlookup (en_calls s') i = Some b" "i \<notin> Y" for i b
  proof (cases "i = d")
    case False
    with that assms(8) have "fmlookup (en_calls s) i = Some b" by simp
    with False that(2) assms(1,10) show ?thesis unfolding scheduled_def by blast
  qed (use that assms(8,9) in simp)
  ultimately show ?thesis
    using assms(1,4) queues_wf_ready [OF assms(2,3)] unfolding scheduled_def by metis
qed

lemma with_call_lifecycle_frame [simp]:
  "en_sent (with_call_lifecycle d lc s) = en_sent s" "en_drains (with_call_lifecycle d lc s) = en_drains s"
  "en_ready (with_call_lifecycle d lc s) = en_ready s" "en_retries (with_call_lifecycle d lc s) = en_retries s"
  "en_ready_routes (with_call_lifecycle d lc s) = en_ready_routes s"
  "en_global_in_flight (with_call_lifecycle d lc s) = en_global_in_flight s"
  "en_global_pending (with_call_lifecycle d lc s) = en_global_pending s"
  "en_global_bytes (with_call_lifecycle d lc s) = en_global_bytes s"
  "usage_of (with_call_lifecycle d lc s) r = usage_of s r"
  by (simp_all add: with_call_lifecycle_def split: option.split)

lemma with_call_lifecycle_entry [simp]:
  "fmlookup (en_calls s) d = Some a \<Longrightarrow>
     en_calls (with_call_lifecycle d lc s) = fmupd d (a\<lparr>ad_lifecycle := lc\<rparr>) (en_calls s)"
  by (simp add: with_call_lifecycle_def)

lemma finsert_known: "fmlookup m d = Some a \<Longrightarrow> finsert d (fmdom m) = fmdom m"
  by (rule finsert_absorb) (rule fmdomI)

lemma answered_same:
  "en_sent s' = en_sent s \<Longrightarrow> en_drains s' = en_drains s \<Longrightarrow> fmlookup (en_calls s) d = Some a \<Longrightarrow>
     ac_reply a' = ac_reply a \<Longrightarrow> en_calls s' = fmupd d a' (en_calls s) \<Longrightarrow> answered H s' = answered H s"
  by (simp add: answered_def answers_def awaiting_def fm_sum_same)

lemma inv_call_started:
  assumes "engine_inv v linv recs u (insert d X) E H s" and "fmlookup (en_calls s) d = Some a"
    and "\<not> ad_abort a" and "linv l" and "recs l = (recs (en_log s))(d \<mapsto> y)"
    and "dr_state y = Pending" and "tracked (recs l) d (a\<lparr>ad_lifecycle := lc\<rparr>)"
  shows "engine_inv v linv recs u X E H
    (mark_call_started d (a\<lparr>ad_lifecycle := lc\<rparr>) ((with_call_lifecycle d lc s)\<lparr>en_log := l\<rparr>))"
    (is "engine_inv _ _ _ _ _ _ _ ?s")
proof -
  note e = assms(1) [unfolded engine_inv_def]
  have act: "en_calls ?s = fmupd d (a\<lparr>ad_lifecycle := lc, ad_abort := True\<rparr>) (en_calls s)"
    using assms(2) by (simp add: mark_call_started_def)
  have us: "usage_of ?s r = usage_of s r" for r by (simp add: mark_call_started_def)
  have "accounts ?s"
    using e assms(2,3) by (intro accounts_mark_call_started) (simp_all add: accounts_call_lifecycle)
  moreover have "within_limits v ?s"
    using e assms(2) unfolding within_limits_def us act by (simp add: mark_call_started_def finsert_known [OF assms(2)])
  moreover have "logged (recs l) ?s"
    by (rule logged_call_update [where s = s, OF _ assms(2,5,6) _ act])
      (use e assms(7) in \<open>simp_all add: tracked_def intent_of_def route_of_def mark_call_started_def\<close>)
  moreover have "scheduled v X ?s"
    by (rule scheduled_call_entry [where s = s and d = d and X = X, OF _ _ _ _ _ _ _ act])
      (use e assms(2) logged_disjoint(2) [of "recs (en_log s)" s d] in \<open>simp_all add: mark_call_started_def\<close>)
  moreover have "u \<longrightarrow> routed v E ?s"
  proof -
    have "queued ?s = queued s" by (rule queued_ready) (simp add: mark_call_started_def)
    then show ?thesis using e us unfolding routed_def by (simp add: mark_call_started_def)
  qed
  moreover have "answered H ?s"
    using e answered_same [where s' = ?s, OF _ _ assms(2) _ act] by (simp add: mark_call_started_def)
  ultimately show ?thesis using e assms(4) by (simp add: engine_inv_def mark_call_started_def)
qed

lemma clear_call_True:
  "clear_call_in_flight d s = (True, s') \<Longrightarrow> \<exists>a. fmlookup (en_calls s) d = Some a \<and> ad_abort a \<and>
     s' = s\<lparr>en_calls := fmupd d (a\<lparr>ad_abort := False\<rparr>) (en_calls s), en_call_in_flight := en_call_in_flight s - 1\<rparr>"
  by (auto simp: clear_call_in_flight_def split: option.splits if_splits)

lemma clear_call_False: "clear_call_in_flight d s = (False, s') \<Longrightarrow> s' = s"
  by (auto simp: clear_call_in_flight_def split: option.splits if_splits)

lemma inv_clear_call:
  assumes "engine_inv v linv recs u X E H s" and "clear_call_in_flight d s = (True, s')"
  shows "engine_inv v linv recs u (insert d X) E H s'"
proof -
  note e = assms(1) [unfolded engine_inv_def]
  from clear_call_True [OF assms(2)] obtain a where a: "fmlookup (en_calls s) d = Some a" "ad_abort a"
    and s': "s' = s\<lparr>en_calls := fmupd d (a\<lparr>ad_abort := False\<rparr>) (en_calls s), en_call_in_flight := en_call_in_flight s - 1\<rparr>"
    by blast
  have act: "en_calls s' = fmupd d (a\<lparr>ad_abort := False\<rparr>) (en_calls s)" by (simp add: s')
  have us: "usage_of s' r = usage_of s r" for r by (simp add: s')
  have sch: "scheduled v (insert d X) s" using e unfolding scheduled_def by blast
  have "scheduled v (insert d X) s'"
    by (rule scheduled_call_entry [OF sch _ _ _ _ _ _ act])
      (use e a logged_disjoint(2) [of "recs (en_log s)" s d] in \<open>auto simp: s'\<close>)
  moreover have "logged (recs (en_log s)) s'"
    by (rule logged_call_entry [where s = s, OF _ a(1) _ act])
      (use e loggedD(2) [of _ s d a] a in \<open>auto simp: tracked_def intent_of_def route_of_def s'\<close>)
  moreover have "within_limits v s'"
    using e unfolding within_limits_def us act by (simp add: s' finsert_known [OF a(1)])
  moreover have "u \<longrightarrow> routed v E s'"
  proof -
    have "queued s' = queued s" by (rule queued_ready) (simp add: s')
    then show ?thesis using e us unfolding routed_def by (simp add: s')
  qed
  moreover have "accounts s'" using e accounts_clear_call [of s d] assms(2) by simp
  moreover have "answered H s'" using e answered_same [where s' = s', OF _ _ a(1) _ act] by (simp add: s')
  ultimately show ?thesis using e by (simp add: engine_inv_def s')
qed

end
