(* ===== verification/Egress_Steps.thy ===== *)
theory Egress_Steps
  imports Egress_Calls
begin

text \<open>
  Starting and completing attempts and calls keeps the invariant, in the locale of an engine over any
  delivery log.
\<close>

lemma fmupd_known: "fmlookup m k = Some x \<Longrightarrow> fmupd k x m = m"
  by (rule fmap_ext) auto

lemma with_lifecycle_known:
  "fmlookup (en_active s) d = Some a \<Longrightarrow> with_lifecycle d (ad_lifecycle a) s = s"
  by (simp add: with_lifecycle_def fmupd_known)

lemma life_drive_start:
  assumes "awaited v s d a" and "\<nexists>t. lc_state (ad_lifecycle a) = LsWaitingRetry t \<and> tt_monotonic time < t"
  shows "life_transition (ad_lifecycle a) time EvDrive = Some (life_start_attempt (ad_lifecycle a) time)"
  using assms by (auto simp: life_transition_def life_drive_def awaited_def not_less)

lemma life_drive_wait:
  assumes "lc_state lc = LsWaitingRetry t" and "tt_monotonic time < t"
  shows "life_transition lc time EvDrive = Some (step_wait t, lc)"
  using assms by (simp add: life_transition_def life_drive_def)

text \<open>A completion leads to a retry or to the end.\<close>

lemma disposition_waits:
  assumes "life_transition lc time (disposition_event disp) = Some (step, lc')" and "sp_action step = ActWait"
  shows "\<exists>t. sp_next_deadline step = Some t \<and> lc_state lc' = LsWaitingRetry t \<and>
    lc_delivery lc' = lc_delivery lc \<and> lc_attempts lc' = lc_attempts lc"
  using assms
  by (cases disp) (auto simp: life_transition_def life_terminal_def Let_def split: if_splits)

definition disposition_ok :: "attempt_disposition \<Rightarrow> bool" where
  "disposition_ok disp = event_ok (disposition_event disp)"

context egress_host
begin

abbreviation einv :: "bool \<Rightarrow> delivery_id set \<Rightarrow> delivery_id set \<Rightarrow> (reply_handle \<Rightarrow> nat) \<Rightarrow> 's engine \<Rightarrow> bool" where
  "einv \<equiv> engine_inv v inv recs"

lemma einv_log: "einv u X E H s \<Longrightarrow> inv (en_log s)"
  by (simp add: engine_inv_def)

lemma einv_tracked: "einv u X E H s \<Longrightarrow> fmlookup (en_active s) d = Some a \<Longrightarrow> tracked (recs (en_log s)) d a"
  using loggedD(1) [of "recs (en_log s)" s d a] by (simp add: engine_inv_def)

lemma einv_call_tracked: "einv u X E H s \<Longrightarrow> fmlookup (en_calls s) d = Some a \<Longrightarrow> tracked (recs (en_log s)) d a"
  using loggedD(2) [of "recs (en_log s)" s d a] by (simp add: engine_inv_def)

lemma einv_tick: "einv u X E H s \<Longrightarrow> einv u X E H (s\<lparr>en_ticks := en_ticks s + 1\<rparr>)"
  by (rule inv_quiet [OF _ touched_tick]) (simp_all add: engine_inv_def)

lemma einv_apply_terminal:
  assumes "einv u (insert d X) E H s" and "fmlookup (en_active s) d = Some a" and "event_ok e"
  shows "einv u X E H (apply_terminal_event v d e s) \<and>
    en_active (apply_terminal_event v d e s) = fmdrop d (en_active s) \<and>
    en_calls (apply_terminal_event v d e s) = en_calls s \<and> en_ticks s \<le> en_ticks (apply_terminal_event v d e s)"
proof -
  from apply_terminal_ends [OF einv_log [OF assms(1)] assms(2) _ assms(3)] einv_tracked [OF assms(1,2)]
  obtain s' where s': "settled recs inv d s s'" "apply_terminal_event v d e s = finish_active d s'"
    by (auto simp: tracked_def)
  then have "touched recs inv d s s'" by (simp add: settled_def)
  from touched_fields(1,2,8) [OF this] inv_finish [OF assms(1) s'(1) assms(2)] s'(2) show ?thesis by simp
qed

lemma einv_apply_call_terminal:
  assumes "einv u (insert d X) E H s" and "fmlookup (en_calls s) d = Some a" and "event_ok e"
  shows "einv u X E H (apply_call_terminal_event v d e x s) \<and>
    en_calls (apply_call_terminal_event v d e x s) = fmdrop d (en_calls s) \<and>
    en_active (apply_call_terminal_event v d e x s) = en_active s \<and>
    en_ticks s \<le> en_ticks (apply_call_terminal_event v d e x s)"
proof -
  from apply_call_terminal_ends [OF einv_log [OF assms(1)] assms(2) _ assms(3)] einv_call_tracked [OF assms(1,2)]
  obtain s' r where s': "settled recs inv d s s'" "apply_call_terminal_event v d e x s = finish_call d r s'"
    unfolding tracked_def by blast
  then have "touched recs inv d s s'" by (simp add: settled_def)
  from touched_fields(1,2,8) [OF this] inv_finish_call [OF assms(1) s'(1) assms(2)] s'(2) show ?thesis by simp
qed

lemma einv_force_call:
  assumes "einv u (insert d X) E H s" and "fmlookup (en_calls s) d = Some a" and "result_ok res"
  shows "einv u X E H (force_call_terminal v d out res x s) \<and>
    en_calls (force_call_terminal v d out res x s) = fmdrop d (en_calls s) \<and>
    en_active (force_call_terminal v d out res x s) = en_active s"
proof -
  from force_call_terminal_ends [OF einv_log [OF assms(1)] assms(2,3)]
  obtain s' where s': "settled recs inv d s s'" "force_call_terminal v d out res x s = finish_call d x s'"
    by blast
  then have "touched recs inv d s s'" by (simp add: settled_def)
  from touched_fields(1,2) [OF this] inv_finish_call [OF assms(1) s'(1) assms(2)] s'(2) show ?thesis by simp
qed

section \<open>Starting an attempt\<close>

text \<open>What recording an attempt does, by its result.\<close>

lemma persist_attempt:
  assumes "inv (en_log s)" and "n \<le> u16_max" and "persist v (RecordAttempt d n t) s = (r, s')"
  obtains l where "s' = s\<lparr>en_log := l\<rparr>" "inv l" "\<not> is_ok r \<Longrightarrow> recs l = recs (en_log s)"
    "is_ok r \<Longrightarrow> \<exists>x. recs (en_log s) d = Some x \<and> dr_state x = Pending \<and>
       recs l = (recs (en_log s))(d \<mapsto> x\<lparr>dr_attempts := n, dr_updated_at := t\<rparr>)"
proof -
  obtain l where run: "dlog_record_attempt (ee_log v) (en_log s) d n t = (r, l)" and s': "s' = s\<lparr>en_log := l\<rparr>"
    using assms(3) by (auto simp: persist_def split: prod.splits)
  moreover have "inv l" using attempt_inv [OF assms(1,2), of d t] run by simp
  moreover have "recs l = recs (en_log s)" if "\<not> is_ok r"
    using attempt_err [OF assms(1)] run that by (cases r) auto
  moreover have "\<exists>x. recs (en_log s) d = Some x \<and> dr_state x = Pending \<and>
      recs l = (recs (en_log s))(d \<mapsto> x\<lparr>dr_attempts := n, dr_updated_at := t\<rparr>)" if "is_ok r"
    using attempt_ok [OF assms(1,2), of d t _ l] run that by (cases r) auto
  ultimately show thesis using that by blast
qed

lemma tracked_attempt:
  assumes "tracked (recs s) d a" and "recs s d = Some x" and "dr_state x = Pending"
    and "recs l = (recs s)(d \<mapsto> x\<lparr>dr_attempts := n, dr_updated_at := t\<rparr>)"
    and "lc_delivery lc = lc_delivery (ad_lifecycle a)" and "lc_attempts lc = n"
  shows "tracked (recs l) d (a\<lparr>ad_lifecycle := lc\<rparr>)"
  using assms by (simp add: tracked_def intent_of_def route_of_def)

lemma einv_start_attempt:
  assumes e: "einv u (insert d X) E H s" and a: "fmlookup (en_active s) d = Some a" and aw: "awaited v s d a"
    and room: "en_global_in_flight s < rl_global_in_flight (ee_limits v)"
    and route: "u \<Longrightarrow> \<not> route_full v s (route_of a)"
  shows "einv u X E H (start_attempt v d s)"
proof -
  let ?s = "s\<lparr>en_ticks := en_ticks s + 1\<rparr>" and ?time = "ee_clock v (en_ticks s)" and ?lc = "ad_lifecycle a"
  note e1 = einv_tick [OF e] and li = einv_log [OF e] and tr = einv_tracked [OF e a]
  show ?thesis
  proof (cases "\<exists>t. lc_state ?lc = LsWaitingRetry t \<and> tt_monotonic ?time < t")
    case True
    then obtain t where t: "lc_state ?lc = LsWaitingRetry t" "tt_monotonic ?time < t" by blast
    then have "start_attempt v d s = ?s"
      using a life_drive_wait [OF t] with_lifecycle_known [of ?s d a] by (simp add: start_attempt_def read_clock_def)
    moreover have "placed v ?s d a" using aw t by (auto simp: awaited_def placed_def)
    ultimately show ?thesis using inv_placed [OF e1] a by simp
  next
    case False
    define n where "n = min u16_max (lc_attempts ?lc + 1)"
    define lc where "lc = ?lc\<lparr>lc_attempts := n, lc_state := LsInFlight\<rparr>"
    obtain r s2 where p: "persist v (RecordAttempt d n (tt_unix_ms ?time)) (with_lifecycle d lc ?s) = (r, s2)"
      by fastforce
    have drive: "life_transition ?lc ?time EvDrive = Some
        (\<lparr>sp_persistence = Some (RecordAttempt d n (tt_unix_ms ?time)), sp_action = ActStartAttempt n,
          sp_next_deadline = None\<rparr>, lc)"
      using life_drive_start [OF aw False] tr by (simp add: life_start_attempt_def Let_def n_def lc_def tracked_def)
    obtain l where s2: "s2 = (with_lifecycle d lc ?s)\<lparr>en_log := l\<rparr>" and l: "inv l"
      and bad: "\<not> is_ok r \<Longrightarrow> recs l = recs (en_log s)"
      and good: "is_ok r \<Longrightarrow> \<exists>x. recs (en_log s) d = Some x \<and> dr_state x = Pending \<and>
         recs l = (recs (en_log s))(d \<mapsto> x\<lparr>dr_attempts := n, dr_updated_at := tt_unix_ms ?time\<rparr>)"
      by (rule persist_attempt [OF _ _ p]) (use li in \<open>simp_all add: n_def\<close>)
    show ?thesis
    proof (cases r)
      case (Inl x)
      let ?s3 = "s\<lparr>en_log := l, en_ticks := en_ticks s + 1, en_degraded := True\<rparr>"
      have t3: "touched recs inv d s ?s3"
        using touchedI [of recs inv d s l "en_ticks s + 1" True "en_overrides s"] l bad Inl by (simp add: booked_def)
      have s3: "s2\<lparr>en_degraded := True\<rparr> = with_lifecycle d lc ?s3"
        unfolding s2 by (simp add: with_lifecycle_def split: option.split)
      have "\<exists>s'. settled recs inv d (with_lifecycle d lc ?s3) s' \<and>
          apply_terminal_event v d (EvFailed DfInternal) (with_lifecycle d lc ?s3) = finish_active d s'"
        using l a tr by (intro apply_terminal_ends [where a = "a\<lparr>ad_lifecycle := lc\<rparr>"]) (simp_all add: lc_def tracked_def)
      from ends_after [OF t3 this] obtain s' where s': "settled recs inv d s s'"
        "apply_terminal_event v d (EvFailed DfInternal) (with_lifecycle d lc ?s3) = finish_active d s'" by blast
      have "start_attempt v d s = apply_terminal_event v d (EvFailed DfInternal) (s2\<lparr>en_degraded := True\<rparr>)"
        using a drive p Inl by (simp add: start_attempt_def read_clock_def)
      then show ?thesis unfolding s3 s'(2) using inv_finish [OF e s'(1) a] by simp
    next
      case (Inr x)
      from good Inr obtain y where y: "recs (en_log s) d = Some y" "dr_state y = Pending"
        "recs l = (recs (en_log s))(d \<mapsto> y\<lparr>dr_attempts := n, dr_updated_at := tt_unix_ms ?time\<rparr>)" by auto
      have "tracked (recs l) d (a\<lparr>ad_lifecycle := lc\<rparr>)"
        by (rule tracked_attempt [OF tr y]) (simp_all add: lc_def)
      then have "einv u X E H (mark_started d (a\<lparr>ad_lifecycle := lc\<rparr>) ((with_lifecycle d lc ?s)\<lparr>en_log := l\<rparr>))"
        using a aw y l room route
        by (intro inv_started [OF e1, where y = "y\<lparr>dr_attempts := n, dr_updated_at := tt_unix_ms ?time\<rparr>"]) (simp_all add: lc_def awaited_def route_full_def)
      moreover have "start_attempt v d s = mark_started d (a\<lparr>ad_lifecycle := lc\<rparr>) s2"
        using a drive p Inr s2 by (simp add: start_attempt_def read_clock_def mark_started_def route_of_def Let_def)
      ultimately show ?thesis by (simp add: s2)
    qed
  qed
qed

lemma einv_start_call:
  assumes e: "einv u (insert d X) E H s" and a: "fmlookup (en_calls s) d = Some a" and "\<not> ad_abort a"
    and "lc_state (ad_lifecycle a) = LsReady"
  shows "einv u X E H (start_call v d s)"
proof -
  let ?s = "s\<lparr>en_ticks := en_ticks s + 1\<rparr>" and ?time = "ee_clock v (en_ticks s)" and ?lc = "ad_lifecycle a"
  note e1 = einv_tick [OF e] and li = einv_log [OF e] and tr = einv_call_tracked [OF e a]
  define n where "n = min u16_max (lc_attempts ?lc + 1)"
  define lc where "lc = ?lc\<lparr>lc_attempts := n, lc_state := LsInFlight\<rparr>"
  obtain r s2 where p: "persist v (RecordAttempt d n (tt_unix_ms ?time)) (with_call_lifecycle d lc ?s) = (r, s2)"
    by fastforce
  have drive: "life_transition ?lc ?time EvDrive = Some
      (\<lparr>sp_persistence = Some (RecordAttempt d n (tt_unix_ms ?time)), sp_action = ActStartAttempt n,
        sp_next_deadline = None\<rparr>, lc)"
    using assms(4) tr
    by (simp add: life_transition_def life_drive_def life_start_attempt_def Let_def n_def lc_def tracked_def)
  obtain l where s2: "s2 = (with_call_lifecycle d lc ?s)\<lparr>en_log := l\<rparr>" and l: "inv l"
    and bad: "\<not> is_ok r \<Longrightarrow> recs l = recs (en_log s)"
    and good: "is_ok r \<Longrightarrow> \<exists>x. recs (en_log s) d = Some x \<and> dr_state x = Pending \<and>
       recs l = (recs (en_log s))(d \<mapsto> x\<lparr>dr_attempts := n, dr_updated_at := tt_unix_ms ?time\<rparr>)"
    by (rule persist_attempt [OF _ _ p]) (use li in \<open>simp_all add: n_def\<close>)
  show ?thesis
  proof (cases r)
    case (Inl x)
    let ?s3 = "s\<lparr>en_log := l, en_ticks := en_ticks s + 1, en_degraded := True\<rparr>" and ?f = "Err (RtDeliveryLog DlUnavailable)"
    have t3: "touched recs inv d s ?s3"
      using touchedI [of recs inv d s l "en_ticks s + 1" True "en_overrides s"] l bad Inl by (simp add: booked_def)
    have s3: "s2\<lparr>en_degraded := True\<rparr> = with_call_lifecycle d lc ?s3"
      unfolding s2 by (simp add: with_call_lifecycle_def split: option.split)
    have "\<exists>s'. settled recs inv d (with_call_lifecycle d lc ?s3) s' \<and>
        force_call_terminal v d internal_failure None ?f (with_call_lifecycle d lc ?s3) = finish_call d ?f s'"
      using l a by (intro force_call_terminal_ends) simp_all
    from call_ends_after [OF t3 this] obtain s' where s': "settled recs inv d s s'"
      "force_call_terminal v d internal_failure None ?f (with_call_lifecycle d lc ?s3) = finish_call d ?f s'" by blast
    have "start_call v d s = force_call_terminal v d internal_failure None ?f (s2\<lparr>en_degraded := True\<rparr>)"
      using a drive p Inl by (simp add: start_call_def read_clock_def)
    then show ?thesis unfolding s3 s'(2) using inv_finish_call [OF e s'(1) a] by simp
  next
    case (Inr x)
    from good Inr obtain y where y: "recs (en_log s) d = Some y" "dr_state y = Pending"
      "recs l = (recs (en_log s))(d \<mapsto> y\<lparr>dr_attempts := n, dr_updated_at := tt_unix_ms ?time\<rparr>)" by auto
    have "tracked (recs l) d (a\<lparr>ad_lifecycle := lc\<rparr>)"
      by (rule tracked_attempt [OF tr y]) (simp_all add: lc_def)
    then have "einv u X E H
        (mark_call_started d (a\<lparr>ad_lifecycle := lc\<rparr>) ((with_call_lifecycle d lc ?s)\<lparr>en_log := l\<rparr>))"
      using a assms(3) y l by (intro inv_call_started [OF e1, where y = "y\<lparr>dr_attempts := n, dr_updated_at := tt_unix_ms ?time\<rparr>"]) simp_all
    moreover have "start_call v d s = mark_call_started d (a\<lparr>ad_lifecycle := lc\<rparr>) s2"
      using a drive p Inr s2 by (simp add: start_call_def read_clock_def mark_call_started_def Let_def)
    ultimately show ?thesis by (simp add: s2)
  qed
qed

section \<open>Completions\<close>

lemma einv_settle:
  assumes "einv u (insert d X) E H s" and "fmlookup (en_active s) d = Some a"
    and "\<exists>s'. settled recs inv d (with_lifecycle d lc s) s' \<and> f = finish_active d s'"
  shows "einv u X E H f"
proof -
  from ends_after [OF touched_refl [where linv = inv and s = s, OF einv_log [OF assms(1)]] assms(3)]
  obtain s' where "settled recs inv d s s'" "f = finish_active d s'" by blast
  with inv_finish [OF assms(1) _ assms(2)] show ?thesis by simp
qed

lemma einv_call_settle:
  assumes "einv u (insert d X) E H s" and "fmlookup (en_calls s) d = Some a"
    and "\<exists>s'. settled recs inv d (with_call_lifecycle d lc s) s' \<and> f = finish_call d x s'"
  shows "einv u X E H f"
proof -
  from call_ends_after [OF touched_refl [where linv = inv and s = s, OF einv_log [OF assms(1)]] assms(3)]
  obtain s' where "settled recs inv d s s'" "f = finish_call d x s'" by blast
  with inv_finish_call [OF assms(1) _ assms(2)] show ?thesis by simp
qed

lemma einv_complete_attempt:
  assumes e: "einv u X E H s" and ok: "disposition_ok (cp_disposition c)"
  shows "einv u X E H (complete_attempt v d c s)"
proof -
  obtain b s1 where clear: "clear_in_flight d s = (b, s1)" by fastforce
  show ?thesis
  proof (cases b)
    case False
    with clear e clear_in_flight_False [of d s s1] show ?thesis by (simp add: complete_attempt_def)
  next
    case True
    then have clear: "clear_in_flight d s = (True, s1)" using clear by simp
    let ?s = "s1\<lparr>en_ticks := en_ticks s1 + 1\<rparr>" and ?time = "ee_clock v (en_ticks s1)"
    obtain a where a: "fmlookup (en_active ?s) d = Some a" "\<not> ad_abort a"
      using clear_in_flight_True [OF clear] by auto
    note e1 = einv_tick [OF inv_clear [OF e clear]]
    note li = einv_log [OF e1] and tr = einv_tracked [OF e1 a(1)]
    let ?next = "life_transition (ad_lifecycle a) ?time (disposition_event (cp_disposition c))"
    have run: "complete_attempt v d c s = (case ?next of
        None \<Rightarrow> force_terminal v d internal_failure None ?s
      | Some (step, lc) \<Rightarrow>
          (case sp_action step of
             ActWait \<Rightarrow> (case sp_next_deadline step of
                 None \<Rightarrow> with_lifecycle d lc ?s
               | Some t \<Rightarrow> (with_lifecycle d lc ?s)\<lparr>en_retries := insort (t, d) (en_retries ?s)\<rparr>)
           | ActTerminal out res \<Rightarrow> persist_terminal v d out res (sp_persistence step) (with_lifecycle d lc ?s)
           | _ \<Rightarrow> force_terminal v d internal_failure None (with_lifecycle d lc ?s)))"
      using clear a(1) by (simp add: complete_attempt_def read_clock_def Let_def split: option.split delivery_action.split)
    show ?thesis
    proof (cases ?next)
      case None
      have "\<exists>s'. settled recs inv d (with_lifecycle d (ad_lifecycle a) ?s) s' \<and>
          force_terminal v d internal_failure None ?s = finish_active d s'"
        using force_terminal_ends [OF li a(1), of None internal_failure] with_lifecycle_known [OF a(1)] by simp
      from einv_settle [OF e1 a(1) this] None run show ?thesis by simp
    next
      case (Some p)
      obtain step lc where p: "p = (step, lc)" by fastforce
      have forced: "einv u X E H (force_terminal v d internal_failure None (with_lifecycle d lc ?s))"
        by (rule einv_settle [OF e1 a(1), where lc = lc], rule force_terminal_ends) (use li a(1) in simp_all)
      show ?thesis
      proof (cases "sp_action step")
        case ActWait
        from disposition_waits [OF Some [unfolded p] ActWait] obtain t where
          t: "sp_next_deadline step = Some t" "lc_state lc = LsWaitingRetry t"
            "lc_delivery lc = lc_delivery (ad_lifecycle a)" "lc_attempts lc = lc_attempts (ad_lifecycle a)" by blast
        from inv_rescheduled [OF e1 a t(2-4)] run Some p ActWait t(1) show ?thesis by simp
      next
        case (ActTerminal out res)
        note tm = life_transition_terminal [OF Some [unfolded p] ActTerminal ok [unfolded disposition_ok_def]]
        have "\<exists>s'. settled recs inv d (with_lifecycle d lc ?s) s' \<and>
            persist_terminal v d out res (sp_persistence step) (with_lifecycle d lc ?s) = finish_active d s'"
          using li a(1) tr tm by (simp add: tracked_def) (rule persist_terminal_ends; simp)
        from einv_settle [OF e1 a(1) this] run Some p ActTerminal show ?thesis by simp
      qed (use forced run Some p in simp_all)
    qed
  qed
qed

lemma einv_complete_call:
  assumes e: "einv u X E H s" and ok: "disposition_ok (cp_disposition c)"
  shows "einv u X E H (complete_call v d c s)"
proof -
  obtain b s1 where clear: "clear_call_in_flight d s = (b, s1)" by fastforce
  show ?thesis
  proof (cases b)
    case False
    with clear e clear_call_False [of d s s1] show ?thesis by (simp add: complete_call_def)
  next
    case True
    then have clear: "clear_call_in_flight d s = (True, s1)" using clear by simp
    let ?s = "s1\<lparr>en_ticks := en_ticks s1 + 1\<rparr>" and ?time = "ee_clock v (en_ticks s1)"
    obtain a where a: "fmlookup (en_calls ?s) d = Some a"
      using clear_call_True [OF clear] by auto
    note e1 = einv_tick [OF inv_clear_call [OF e clear]]
    note li = einv_log [OF e1] and tr = einv_call_tracked [OF e1 a(1)]
    let ?next = "life_transition (ad_lifecycle a) ?time (disposition_event (cp_disposition c))"
    let ?f = "Err (RtCallFailed DfInternal)"
    have run: "complete_call v d c s = (case ?next of
        None \<Rightarrow> force_call_terminal v d internal_failure None ?f ?s
      | Some (step, lc) \<Rightarrow>
          (case sp_action step of
             ActTerminal out res \<Rightarrow>
               finish_call d (call_response d out res (cp_result c))
                 (persist_call_terminal v d out res (sp_persistence step) (with_call_lifecycle d lc ?s))
           | _ \<Rightarrow> force_call_terminal v d internal_failure None ?f (with_call_lifecycle d lc ?s)))"
      using clear a(1) by (simp add: complete_call_def read_clock_def Let_def split: option.split delivery_action.split)
    show ?thesis
    proof (cases ?next)
      case None
      with einv_force_call [OF e1 a] run show ?thesis by simp
    next
      case (Some p)
      obtain step lc where p: "p = (step, lc)" by fastforce
      have forced: "einv u X E H (force_call_terminal v d internal_failure None ?f (with_call_lifecycle d lc ?s))"
        by (rule einv_call_settle [OF e1 a, where lc = lc], rule force_call_terminal_ends) (use li a(1) in simp_all)
      show ?thesis
      proof (cases "sp_action step")
        case (ActTerminal out res)
        note tm = life_transition_terminal [OF Some [unfolded p] ActTerminal ok [unfolded disposition_ok_def]]
        have "settled recs inv d (with_call_lifecycle d lc ?s)
            (persist_call_terminal v d out res (sp_persistence step) (with_call_lifecycle d lc ?s))"
          using li a(1) tr tm by (simp add: tracked_def) (rule persist_call_terminal_settles; simp)
        then have "einv u X E H (finish_call d (call_response d out res (cp_result c))
            (persist_call_terminal v d out res (sp_persistence step) (with_call_lifecycle d lc ?s)))"
          by (intro einv_call_settle [OF e1 a]) blast
        with run Some p ActTerminal show ?thesis by simp
      qed (use forced run Some p in simp_all)
    qed
  qed
qed

end

end
