(* ===== verification/Egress_Turn.thy ===== *)
theory Egress_Turn
  imports Egress_Steps
begin

text \<open>
  The rest of a turn of the event loop: queues, deadlines, drains and answers.
\<close>

section \<open>Queues\<close>

lemma queued_enqueue: "queued (enqueue_ready r d s) r' d' \<longleftrightarrow> queued s r' d' \<or> r' = r \<and> d' = d"
  by (cases "fmlookup (en_ready s) r") (auto simp: queued_def enqueue_ready_def Let_def)

lemma queues_wf_enqueue: "queues_wf s \<Longrightarrow> queues_wf (enqueue_ready r d s)"
  by (auto simp: queues_wf_def enqueue_ready_def Let_def split: option.split)

lemma enqueue_fields [simp]:
  "en_active (enqueue_ready r d s) = en_active s" "en_calls (enqueue_ready r d s) = en_calls s"
  "en_log (enqueue_ready r d s) = en_log s" "en_ticks (enqueue_ready r d s) = en_ticks s"
  "en_degraded (enqueue_ready r d s) = en_degraded s" "en_overrides (enqueue_ready r d s) = en_overrides s"
  "en_sent (enqueue_ready r d s) = en_sent s" "en_drains (enqueue_ready r d s) = en_drains s"
  "en_retries (enqueue_ready r d s) = en_retries s" "en_usage (enqueue_ready r d s) = en_usage s"
  "en_global_in_flight (enqueue_ready r d s) = en_global_in_flight s"
  "en_global_pending (enqueue_ready r d s) = en_global_pending s"
  "en_global_bytes (enqueue_ready r d s) = en_global_bytes s"
  "usage_of (enqueue_ready r d s) x = usage_of s x" "accounts (enqueue_ready r d s) = accounts s"
  by (simp_all add: enqueue_ready_def Let_def)

lemma placed_mono:
  assumes "placed v s d a" and "\<And>r. queued s r d \<Longrightarrow> queued s' r d" and "en_ticks s' = en_ticks s"
    and "\<And>t. lc_state (ad_lifecycle a) = LsWaitingRetry t \<Longrightarrow> (t, d) \<in> set (en_retries s) \<Longrightarrow>
      (t, d) \<in> set (en_retries s') \<or> queued s' (route_of a) d \<and> t \<le> tt_monotonic (ee_clock v (en_ticks s))"
  shows "placed v s' d a"
  using assms by (cases "lc_state (ad_lifecycle a)") (auto simp: placed_def)

lemma logged_frame:
  "en_active s' = en_active s \<Longrightarrow> en_calls s' = en_calls s \<Longrightarrow> en_overrides s' = en_overrides s \<Longrightarrow>
     en_degraded s' = en_degraded s \<Longrightarrow> logged m s' = logged m s"
  by (simp add: logged_def)

lemma within_frame:
  "en_global_pending s' = en_global_pending s \<Longrightarrow> en_global_bytes s' = en_global_bytes s \<Longrightarrow>
     en_global_in_flight s' = en_global_in_flight s \<Longrightarrow> en_calls s' = en_calls s \<Longrightarrow> en_usage s' = en_usage s \<Longrightarrow>
     within_limits v s' = within_limits v s"
  by (simp add: within_limits_def usage_of_def)

lemma inv_enqueue:
  assumes "engine_inv v linv recs u X E H s" and "fmlookup (en_active s) d = Some a"
  shows "engine_inv v linv recs u X E H (enqueue_ready (route_of a) d s)" (is "engine_inv _ _ _ _ _ _ _ ?s")
proof -
  note e = assms(1) [unfolded engine_inv_def]
  have "placed v ?s i b" if "placed v s i b" for i b
    by (rule placed_mono [OF that]) (simp_all add: queued_enqueue)
  then have "scheduled v X ?s" using e unfolding scheduled_def by (simp add: queues_wf_enqueue)
  moreover have "u \<longrightarrow> routed v E ?s"
    using e assms(2) unfolding routed_def by (auto simp: queued_enqueue)
  ultimately show ?thesis
    using e logged_frame [of ?s s] within_frame [of ?s s]
    by (simp add: engine_inv_def answered_def answers_def awaiting_def)
qed

text \<open>Dropping retries that no delivery depends on.\<close>

lemma inv_retries:
  assumes "engine_inv v linv recs u X E H s" and "sorted rs"
    and "\<And>t d a. (t, d) \<in> set (en_retries s) \<Longrightarrow> (t, d) \<notin> set rs \<Longrightarrow> fmlookup (en_active s) d = Some a \<Longrightarrow>
      lc_state (ad_lifecycle a) = LsWaitingRetry t \<Longrightarrow>
      queued s (route_of a) d \<and> t \<le> tt_monotonic (ee_clock v (en_ticks s))"
  shows "engine_inv v linv recs u X E H (s\<lparr>en_retries := rs\<rparr>)" (is "engine_inv _ _ _ _ _ _ _ ?s")
proof -
  note e = assms(1) [unfolded engine_inv_def]
  have q: "queued ?s = queued s" by (rule queued_ready) simp
  have "placed v ?s i b" if "placed v s i b" "fmlookup (en_active s) i = Some b" for i b
    by (rule placed_mono [OF that(1)]) (use assms(3) [of _ i b] that(2) q in auto)
  then have "scheduled v X ?s"
    using e assms(2) queues_wf_ready [of ?s s] unfolding scheduled_def by simp
  moreover have "u \<longrightarrow> routed v E ?s" using e unfolding routed_def q by simp
  ultimately show ?thesis
    using e logged_frame [of ?s s] within_frame [of ?s s]
    by (simp add: engine_inv_def answered_def answers_def awaiting_def)
qed

lemma inv_discard: "engine_inv v linv recs u X E H s \<Longrightarrow> engine_inv v linv recs u X E H (discard_stale_retries s)"
proof -
  assume e: "engine_inv v linv recs u X E H s"
  let ?P = "\<lambda>(deadline, d). \<not> (case fmlookup (en_active s) d of
             None \<Rightarrow> False | Some a \<Rightarrow> life_next_deadline (ad_lifecycle a) = Some deadline)"
  have sorted: "sorted (en_retries s)" using e by (simp add: engine_inv_def scheduled_def)
  have "x \<in> set (dropWhile ?P xs)" if "x \<in> set xs" "\<not> ?P x" for x xs
    using that by (induction xs) auto
  note keep = this
  show ?thesis
    unfolding discard_stale_retries_def
  proof (rule inv_retries [OF e sorted_dropWhile [OF sorted]])
    fix t d a
    assume a: "(t, d) \<in> set (en_retries s)" "(t, d) \<notin> set (dropWhile ?P (en_retries s))"
      "fmlookup (en_active s) d = Some a" "lc_state (ad_lifecycle a) = LsWaitingRetry t"
    then have "\<not> ?P (t, d)" by (simp add: life_next_deadline_def)
    with keep [OF a(1)] a(2) show "queued s (route_of a) d \<and> t \<le> tt_monotonic (ee_clock v (en_ticks s))" by blast
  qed
qed

lemma inv_retry_loop:
  assumes "engine_inv v linv recs u X E H (s\<lparr>en_retries := rs\<rparr>)"
    and "now \<le> tt_monotonic (ee_clock v (en_ticks s))"
  shows "engine_inv v linv recs u X E H (retry_loop now rs s)"
  using assms
proof (induction now rs s rule: retry_loop.induct)
  case (2 now t d rest s)
  show ?case
  proof (cases "t \<le> now")
    case True
    let ?s0 = "s\<lparr>en_retries := (t, d) # rest\<rparr>"
    let ?s1 = "case fmlookup (en_active s) d of None \<Rightarrow> s
      | Some a \<Rightarrow> if life_next_deadline (ad_lifecycle a) = Some t
                   then enqueue_ready (ap_route (ad_parts a)) d s else s"
    let ?s2 = "?s1\<lparr>en_retries := (t, d) # rest\<rparr>"
    have sorted: "sorted rest" using "2.prems"(1) by (simp add: engine_inv_def scheduled_def)
    have ticks: "en_ticks ?s1 = en_ticks s" by (simp split: option.split)
    have "engine_inv v linv recs u X E H ?s2"
    proof (cases "fmlookup (en_active s) d")
      case (Some a)
      show ?thesis
      proof (cases "life_next_deadline (ad_lifecycle a) = Some t")
        case True
        have "enqueue_ready (route_of a) d ?s0 = (enqueue_ready (route_of a) d s)\<lparr>en_retries := (t, d) # rest\<rparr>"
          by (simp add: enqueue_ready_def Let_def)
        with inv_enqueue [OF "2.prems"(1), of d a] Some True show ?thesis by (simp add: route_of_def)
      qed (use "2.prems"(1) Some in simp)
    qed (use "2.prems"(1) in simp)
    then have "engine_inv v linv recs u X E H (?s2\<lparr>en_retries := rest\<rparr>)"
    proof (rule inv_retries [OF _ sorted])
      fix t' d' a
      assume a: "(t', d') \<in> set (en_retries ?s2)" "(t', d') \<notin> set rest" "fmlookup (en_active ?s2) d' = Some a"
        "lc_state (ad_lifecycle a) = LsWaitingRetry t'"
      then have eq: "t' = t" "d' = d" by auto
      have act: "en_active ?s2 = en_active s" by (simp split: option.split)
      with a eq have "?s1 = enqueue_ready (route_of a) d s" by (simp add: life_next_deadline_def route_of_def)
      then have "queued ?s2 (route_of a) d'"
        using queued_ready [of ?s2 ?s1] eq by (simp add: queued_enqueue)
      with eq True "2.prems"(2) ticks show "queued ?s2 (route_of a) d' \<and> t' \<le> tt_monotonic (ee_clock v (en_ticks ?s2))"
        by simp
    qed
    then have "engine_inv v linv recs u X E H (?s1\<lparr>en_retries := rest\<rparr>)" by simp
    from "2.IH" [OF True this] "2.prems"(2) True ticks show ?thesis by simp
  qed (use "2.prems" in simp)
qed simp

section \<open>Answers\<close>

lemma inv_answers:
  assumes "engine_inv v linv recs u X E H s" and "s' = s\<lparr>en_sent := x, en_drains := y, en_registry := g\<rparr>"
    and "answered H' s'"
  shows "engine_inv v linv recs u X E H' s'"
proof -
  note e = assms(1) [unfolded engine_inv_def]
  have q: "queued s' = queued s" "queues_wf s' = queues_wf s"
    unfolding assms(2) by (rule queued_ready, simp) (rule queues_wf_ready; simp)
  have "placed v s' i b = placed v s i b" for i b
    by (rule placed_frame [OF q(1)]) (simp_all add: assms(2))
  then have "scheduled v X s'" using e q unfolding scheduled_def by (simp add: assms(2))
  moreover have "u \<longrightarrow> routed v E s'" using e unfolding routed_def q by (simp add: assms(2))
  ultimately show ?thesis
    using e assms(3) logged_frame [of s' s] within_frame [of s' s] by (simp add: engine_inv_def assms(2))
qed

definition received :: "reply_handle \<Rightarrow> (reply_handle \<Rightarrow> nat) \<Rightarrow> reply_handle \<Rightarrow> nat" where
  "received h H = (\<lambda>h'. H h' + of_bool (h' = h))"

lemma answered_send: "answered H s \<Longrightarrow> answered (received h H) (send h r s)"
  by (simp add: answered_def answers_def awaiting_def send_def received_def)

lemma inv_send:
  "engine_inv v linv recs u X E H s \<Longrightarrow> engine_inv v linv recs u X E (received h H) (send h r s)"
  by (rule inv_answers [where x = "en_sent s @ [(h, r)]" and y = "en_drains s" and g = "en_registry s"])
    (auto simp: send_def [of h r s] engine_inv_def intro: answered_send [unfolded send_def])

lemma inv_registry: "engine_inv v linv recs u X E H s \<Longrightarrow> engine_inv v linv recs u X E H (s\<lparr>en_registry := g\<rparr>)"
  by (rule inv_answers [where x = "en_sent s" and y = "en_drains s" and g = g])
    (auto simp: engine_inv_def answered_def answers_def awaiting_def)

lemma inv_complete_drain:
  assumes "engine_inv v linv recs u X E H s"
  shows "engine_inv v linv recs u X E H (complete_drain r s)"
proof (cases "fmlookup (en_drains s) r")
  case None
  with assms show ?thesis by (simp add: complete_drain_def)
next
  case (Some x)
  have "answered H (complete_drain r s)"
    unfolding answered_def
  proof
    fix h
    have "answers s h + awaiting s h = H h" using assms by (simp add: engine_inv_def answered_def)
    with fm_sum_drop [OF Some, of "\<lambda>x. of_bool (rd_reply x = h)"] Some
    show "answers (complete_drain r s) h + awaiting (complete_drain r s) h = H h"
      by (cases "rd_reply x = h") (simp_all add: complete_drain_def send_def answers_def awaiting_def)
  qed
  then show ?thesis
    by (rule inv_answers [OF assms, rotated, where x = "en_sent s @ [(rd_reply x, ReplyUnit (Ok ()))]"
          and y = "fmdrop r (en_drains s)"
          and g = "if rd_remove x then route_unregister r (en_registry s) else en_registry s"])
      (use Some in \<open>simp add: complete_drain_def send_def\<close>)
qed

lemma inv_fold: "I s \<Longrightarrow> (\<And>x s. x \<in> set xs \<Longrightarrow> I s \<Longrightarrow> I (f x s)) \<Longrightarrow> I (fold f xs s)"
  by (induction xs arbitrary: s) auto

lemma inv_complete_empty_drains:
  "engine_inv v linv recs u X E H s \<Longrightarrow> engine_inv v linv recs u X E H (complete_empty_drains s)"
  unfolding complete_empty_drains_def by (rule inv_fold) (auto intro: inv_complete_drain)

text \<open>At shutdown every drain is answered.\<close>

lemma set_fm_keys [simp]: "set (fm_keys m) = fset (fmdom m)"
  by (simp add: sorted_list_of_fset.rep_eq)

lemma distinct_fm_keys [simp]: "distinct (fm_keys m)"
  by (simp add: sorted_list_of_fset.rep_eq)

lemma fm_sum_keys: "fm_sum g m = (\<Sum>k\<leftarrow>fm_keys m. g (the (fmlookup m k)))"
  by (simp add: fm_sum_def sum_list_distinct_conv_sum_set)

lemma count_list_sum: "count_list xs h = (\<Sum>x\<leftarrow>xs. of_bool (x = h))"
  by (induction xs) auto

lemma fold_send:
  "fold (\<lambda>k. send (f k) (g k)) ks s = s\<lparr>en_sent := en_sent s @ map (\<lambda>k. (f k, g k)) ks\<rparr>"
  by (induction ks arbitrary: s) (simp_all add: send_def)

lemma reject_drains_eq:
  "reject_drains_for_shutdown s = s\<lparr>en_drains := fmempty, en_sent := en_sent s @
     map (\<lambda>r. (rd_reply (the (fmlookup (en_drains s) r)), ReplyUnit (Err RtStopped))) (fm_keys (en_drains s))\<rparr>"
  unfolding reject_drains_for_shutdown_def by (simp add: fold_send)

lemma inv_reject_drains:
  assumes "engine_inv v linv recs u X E H s"
  shows "engine_inv v linv recs u X E H (reject_drains_for_shutdown s)"
proof -
  have "answered H (reject_drains_for_shutdown s)"
    using assms unfolding answered_def engine_inv_def
    by (simp add: reject_drains_eq answers_def awaiting_def fm_sum_keys [of _ "en_drains s"] count_list_sum o_def
        add.assoc add.commute add.left_commute)
  then show ?thesis
    by (rule inv_answers [OF assms, rotated, where g = "en_registry s" and y = fmempty and
          x = "en_sent s @ map (\<lambda>r. (rd_reply (the (fmlookup (en_drains s) r)), ReplyUnit (Err RtStopped)))
            (fm_keys (en_drains s))"]) (simp add: reject_drains_eq)
qed

lemma inv_reject_command:
  "engine_inv v linv recs u X E H s \<Longrightarrow>
     engine_inv v linv recs u X E (received (command_reply c) H) (reject_command c s)"
  by (cases c) (simp_all add: inv_send)

end
