(* ===== verification/Egress_Commands.thy ===== *)
theory Egress_Commands
  imports Egress_Turn
begin

text \<open>
  Every command keeps the invariant and is answered, at once or later, exactly once.
\<close>

section \<open>Admitting an entry\<close>

lemma tracked_pending: "tracked m d a \<Longrightarrow> pending (m d)"
  by (auto simp: tracked_def)

lemma tracked_purged: "tracked m d a \<Longrightarrow> purged m m' \<Longrightarrow> tracked m' d a"
  unfolding tracked_def purged_def by (metis is_terminal.simps(2) option.inject)

lemma logged_purged:
  assumes "logged m s" and "purged m m'"
  shows "logged m' s"
proof (rule loggedI, goal_cases)
  case (1 i b)
  then show ?case using loggedD(1) [OF assms(1)] tracked_purged [OF _ assms(2)] by metis
next
  case (2 i b)
  then show ?case using loggedD(2) [OF assms(1)] tracked_purged [OF _ assms(2)] by metis
next
  case (3 i)
  then show ?case using loggedD(3) [OF assms(1), of i] by simp
next
  case (4 i)
  then show ?case using loggedD(4) [OF assms(1), of i] purged_pending [OF assms(2), of i] by simp
next
  case (5 i x)
  then show ?case using loggedD(5) [OF assms(1), of i x] purged_pending [OF assms(2), of i] by simp
qed

lemma logged_free:
  assumes "logged m s" and "\<not> pending (m d)"
  shows "fmlookup (en_active s) d = None" "fmlookup (en_calls s) d = None"
  using assms loggedD(1,2) [OF assms(1), of d] tracked_pending [of m d]
  by (metis not_None_eq)+

lemma inv_log:
  assumes "engine_inv v linv recs u X E H s" and "linv l" and "purged (recs (en_log s)) (recs l)"
  shows "engine_inv v linv recs u X E H (s\<lparr>en_log := l\<rparr>)" (is "engine_inv _ _ _ _ _ _ _ ?s")
proof -
  note e = assms(1) [unfolded engine_inv_def]
  have q: "queued ?s = queued s" "queues_wf ?s = queues_wf s"
    by (rule queued_ready, simp) (rule queues_wf_ready; simp)
  have "placed v ?s i b = placed v s i b" for i b by (rule placed_frame [OF q(1)]) simp_all
  then have "scheduled v X ?s" using e q unfolding scheduled_def by simp
  moreover have "u \<longrightarrow> routed v E ?s" using e unfolding routed_def q by simp
  moreover have "logged (recs l) ?s"
    using e logged_purged [OF _ assms(3), of s] logged_frame [of ?s s] by simp
  ultimately show ?thesis
    using e assms(2) within_frame [of ?s s] by (simp add: engine_inv_def answered_def answers_def awaiting_def)
qed

lemma inv_emitted: "engine_inv v linv recs u X E H s \<Longrightarrow> E \<subseteq> E' \<Longrightarrow> engine_inv v linv recs u X E' H s"
  unfolding engine_inv_def routed_def by blast

text \<open>A log that accepted the intent of \<open>d\<close>.\<close>

definition accepted ::
    "(delivery_id \<rightharpoonup> delivery_record) \<Rightarrow> delivery_id \<Rightarrow> delivery_intent \<Rightarrow> (delivery_id \<rightharpoonup> delivery_record) \<Rightarrow> bool" where
  "accepted m d i m' \<longleftrightarrow> (\<exists>p. purged m p \<and> p d = None \<and> m' = p(d \<mapsto> fresh_record i))"

lemma accepted_free: "accepted m d i m' \<Longrightarrow> \<not> pending (m d)"
proof -
  assume "accepted m d i m'"
  then obtain p where "purged m p" "p d = None" by (auto simp: accepted_def)
  then show ?thesis using purged_pending [of m p d] by simp
qed

lemma accepted_other:
  "accepted m d i m' \<Longrightarrow> j \<noteq> d \<Longrightarrow> tracked m j a \<Longrightarrow> tracked m' j a"
  "accepted m d i m' \<Longrightarrow> j \<noteq> d \<Longrightarrow> pending (m' j) \<Longrightarrow> pending (m j)"
proof -
  assume "accepted m d i m'" "j \<noteq> d"
  then obtain p where p: "purged m p" "m' j = p j" by (auto simp: accepted_def)
  show "tracked m j a \<Longrightarrow> tracked m' j a" using tracked_purged [OF _ p(1), of j a] p(2) unfolding tracked_def by metis
  show "pending (m' j) \<Longrightarrow> pending (m j)" using purged_pending [OF p(1), of j] p(2) by simp
qed

lemma accepted_tracked:
  "accepted m d (intent_of d a) m' \<Longrightarrow> lc_delivery (ad_lifecycle a) = d \<Longrightarrow> lc_attempts (ad_lifecycle a) = 0 \<Longrightarrow>
     tracked m' d a"
  by (auto simp: accepted_def tracked_def fresh_record_def DeliveryRecord_from_stored_parts_def)

lemma logged_no_overrides: "logged m s \<Longrightarrow> \<not> en_degraded s \<Longrightarrow> fmlookup (en_overrides s) d = None"
  using loggedD(5) [of m s d] by (cases "fmlookup (en_overrides s) d") auto

lemma add_active_fields [simp]:
  "en_active (add_active d a s) = fmupd d a (en_active s)" "en_calls (add_active d a s) = en_calls s"
  "en_log (add_active d a s) = en_log s" "en_ticks (add_active d a s) = en_ticks s"
  "en_degraded (add_active d a s) = en_degraded s" "en_overrides (add_active d a s) = en_overrides s"
  "en_sent (add_active d a s) = en_sent s" "en_drains (add_active d a s) = en_drains s"
  "en_ready (add_active d a s) = en_ready s" "en_retries (add_active d a s) = en_retries s"
  "en_ready_routes (add_active d a s) = en_ready_routes s"
  "en_global_in_flight (add_active d a s) = en_global_in_flight s"
  "en_global_pending (add_active d a s) = en_global_pending s + 1"
  "en_global_bytes (add_active d a s) = en_global_bytes s + bytes_of a"
  "usage_of (add_active d a s) r = (let u = usage_of s r in
     if r = route_of a then u\<lparr>us_pending := us_pending u + 1, us_bytes := us_bytes u + bytes_of a\<rparr> else u)"
  by (simp_all add: add_active_def Let_def)

lemma inv_admitted:
  assumes "engine_inv v linv recs u X E H s" and "linv l" and "accepted (recs (en_log s)) d (intent_of d a) (recs l)"
    and "\<not> en_degraded s" and "\<not> ad_abort a" and "lc_state (ad_lifecycle a) = LsReady"
    and "lc_delivery (ad_lifecycle a) = d" and "lc_attempts (ad_lifecycle a) = 0"
    and "en_global_pending s < rl_global_pending_deliveries (ee_limits v)"
    and "us_pending (usage_of s (route_of a)) < rl_route_pending_deliveries (ee_limits v)"
    and "en_global_bytes s + bytes_of a \<le> rl_global_pending_bytes (ee_limits v)"
    and "us_bytes (usage_of s (route_of a)) + bytes_of a \<le> rl_route_pending_bytes (ee_limits v)"
    and "u \<Longrightarrow> d \<notin> E"
  shows "engine_inv v linv recs u X (insert d E) H (enqueue_ready (route_of a) d (add_active d a (s\<lparr>en_log := l\<rparr>)))"
proof -
  note e = assms(1) [unfolded engine_inv_def]
  let ?s = "add_active d a (s\<lparr>en_log := l\<rparr>)"
  have lg: "logged (recs (en_log s)) s" using e by simp
  note free = logged_free [OF lg accepted_free [OF assms(3)]]
  have q: "queued ?s = queued s" "queues_wf ?s = queues_wf s"
    by (rule queued_ready, simp) (rule queues_wf_ready; simp)
  have p: "placed v ?s i b = placed v s i b" for i b by (rule placed_frame [OF q(1)]) simp_all
  have "logged (recs l) ?s"
  proof (rule loggedI, goal_cases)
    case (1 i b)
    with accepted_tracked [OF assms(3,7,8)] accepted_other(1) [OF assms(3), of i b] loggedD(1) [OF lg, of i b]
    show ?case by (auto split: if_splits)
  next
    case (2 i b)
    with accepted_other(1) [OF assms(3), of i b] loggedD(2) [OF lg, of i b] free show ?case by (cases "i = d") auto
  next
    case (3 i)
    with loggedD(3) [OF lg, of i] free show ?case by auto
  next
    case (4 i)
    with accepted_other(2) [OF assms(3), of i] loggedD(4) [OF lg, of i] show ?case by (cases "i = d") auto
  next
    case (5 i x)
    with logged_no_overrides [OF lg assms(4), of i] show ?case by simp
  qed
  moreover have "accounts ?s" using e free(1) assms(5) by (intro accounts_add_active) simp_all
  moreover have "within_limits v ?s" using e assms(9-12) by (simp add: within_limits_def Let_def)
  moreover have "scheduled v (insert d X) ?s" using e q p unfolding scheduled_def by simp
  moreover have "u \<longrightarrow> routed v (insert d E) ?s"
    using e assms(13) unfolding routed_def q by (auto simp: Let_def)
  ultimately have "engine_inv v linv recs u (insert d X) (insert d E) H ?s"
    using e assms(2) by (simp add: engine_inv_def answered_def answers_def awaiting_def)
  then have "engine_inv v linv recs u (insert d X) (insert d E) H (enqueue_ready (route_of a) d ?s)"
    by (rule inv_enqueue) simp
  then show ?thesis
    by (rule inv_placed [where a = a]) (simp_all add: placed_def assms(5,6) queued_enqueue)
qed

lemma add_call_fields [simp]:
  "en_calls (add_call_entry d a s) = fmupd d a (en_calls s)" "en_active (add_call_entry d a s) = en_active s"
  "en_log (add_call_entry d a s) = en_log s" "en_ticks (add_call_entry d a s) = en_ticks s"
  "en_degraded (add_call_entry d a s) = en_degraded s" "en_overrides (add_call_entry d a s) = en_overrides s"
  "en_sent (add_call_entry d a s) = en_sent s" "en_drains (add_call_entry d a s) = en_drains s"
  "en_ready (add_call_entry d a s) = en_ready s" "en_retries (add_call_entry d a s) = en_retries s"
  "en_ready_routes (add_call_entry d a s) = en_ready_routes s"
  "en_global_in_flight (add_call_entry d a s) = en_global_in_flight s"
  "en_global_pending (add_call_entry d a s) = en_global_pending s"
  "en_global_bytes (add_call_entry d a s) = en_global_bytes s"
  "usage_of (add_call_entry d a s) r = (let u = usage_of s r in
     if r = route_of a then u\<lparr>us_calls := us_calls u + 1\<rparr> else u)"
  by (simp_all add: add_call_entry_def Let_def)

lemma inv_call_admitted:
  assumes "engine_inv v linv recs u X E H s" and "linv l" and "accepted (recs (en_log s)) d (intent_of d a) (recs l)"
    and "\<not> en_degraded s" and "\<not> ad_abort a" and "lc_delivery (ad_lifecycle a) = d"
    and "lc_attempts (ad_lifecycle a) = 0" and "fcard (fmdom (en_calls s)) < rl_call_in_flight (ee_limits v)"
  shows "engine_inv v linv recs u (insert d X) E (received (ac_reply a) H) (add_call_entry d a (s\<lparr>en_log := l\<rparr>))"
    (is "engine_inv _ _ _ _ _ _ _ ?s")
proof -
  note e = assms(1) [unfolded engine_inv_def]
  have lg: "logged (recs (en_log s)) s" using e by simp
  note free = logged_free [OF lg accepted_free [OF assms(3)]]
  have q: "queued ?s = queued s" "queues_wf ?s = queues_wf s"
    by (rule queued_ready, simp) (rule queues_wf_ready; simp)
  have p: "placed v ?s i b = placed v s i b" for i b by (rule placed_frame [OF q(1)]) simp_all
  have "logged (recs l) ?s"
  proof (rule loggedI, goal_cases)
    case (1 i b)
    with accepted_other(1) [OF assms(3), of i b] loggedD(1) [OF lg, of i b] free show ?case by (cases "i = d") auto
  next
    case (2 i b)
    with accepted_tracked [OF assms(3,6,7)] accepted_other(1) [OF assms(3), of i b] loggedD(2) [OF lg, of i b]
    show ?case by (auto split: if_splits)
  next
    case (3 i)
    with loggedD(3) [OF lg, of i] free show ?case by auto
  next
    case (4 i)
    with accepted_other(2) [OF assms(3), of i] loggedD(4) [OF lg, of i] show ?case by (cases "i = d") auto
  next
    case (5 i x)
    with logged_no_overrides [OF lg assms(4), of i] show ?case by simp
  qed
  moreover have "accounts ?s" using e free(2) assms(5) by (intro accounts_add_call) simp_all
  moreover have "within_limits v ?s"
    using e assms(8) free(2) by (auto simp: within_limits_def Let_def fcard_finsert_if)
  moreover have "scheduled v (insert d X) ?s" using e q p unfolding scheduled_def by simp
  moreover have "u \<longrightarrow> routed v E ?s" using e unfolding routed_def q by (simp add: Let_def)
  moreover have "answered (received (ac_reply a) H) ?s"
    using e by (simp add: answered_def answers_def awaiting_def received_def fm_sum_new [OF free(2)] eq_commute)
  ultimately show ?thesis using e assms(2) by (simp add: engine_inv_def)
qed

section \<open>Commands\<close>

fun command_emits :: "runtime_command \<Rightarrow> delivery_id set" where
  "command_emits (CmdEmit _ d _ _) = {d}"
| "command_emits _ = {}"

definition command_ok :: "(delivery_intent \<Rightarrow> bool) \<Rightarrow> runtime_command \<Rightarrow> bool" where
  "command_ok usable c \<longleftrightarrow>
     (case c of
        CmdEmit r d _ _ \<Rightarrow> \<forall>t. usable \<lparr>di_route = r, di_delivery = d, di_accepted_at = t\<rparr>
      | CmdCall r d _ _ \<Rightarrow> \<forall>t. usable \<lparr>di_route = r, di_delivery = d, di_accepted_at = t\<rparr>
      | _ \<Rightarrow> True)"

lemma route_admit_parts:
  "route_admit parse r d payload m now reg = (Inr parts, reg') \<Longrightarrow> ap_route parts = r \<and> ap_delivery parts = d"
  by (auto simp: route_admit_def Let_def split: option.splits if_splits sum.splits)

lemma lifecycle_new [simp]:
  "lc_state (DeliveryLifecycle_new r d p) = LsReady" "lc_delivery (DeliveryLifecycle_new r d p) = d"
  "lc_attempts (DeliveryLifecycle_new r d p) = 0"
  by (simp_all add: DeliveryLifecycle_new_def)

context egress_host
begin

lemma persist_insert:
  assumes "inv (en_log s)" and "usable_intent i" and "persist v (InsertIntent i) s = (r, s')"
  obtains l where "s' = s\<lparr>en_log := l\<rparr>" "inv l" "\<not> is_ok r \<Longrightarrow> purged (recs (en_log s)) (recs l)"
    "is_ok r \<Longrightarrow> accepted (recs (en_log s)) (di_delivery i) i (recs l)"
proof -
  obtain l where run: "dlog_insert_intent (ee_log v) (en_log s) i = (r, l)" and s': "s' = s\<lparr>en_log := l\<rparr>"
    using assms(3) by (auto simp: persist_def split: prod.splits)
  moreover have "inv l" using insert_inv [OF assms(1,2)] run by simp
  moreover have "purged (recs (en_log s)) (recs l)" if "\<not> is_ok r"
    using insert_err [OF assms(1,2)] run that by (cases r) auto
  moreover have "accepted (recs (en_log s)) (di_delivery i) i (recs l)" if "is_ok r"
    using insert_ok [OF assms(1,2), of _ l] run that by (cases r) (auto simp: accepted_def)
  ultimately show thesis using that by blast
qed

lemma einv_admit_emit:
  assumes e: "einv u X E H s" and us: "\<And>t. usable_intent \<lparr>di_route = route, di_delivery = d, di_accepted_at = t\<rparr>"
    and fresh: "u \<Longrightarrow> d \<notin> E"
  shows "einv u X (insert d E) H (snd (admit_emit v route d payload s))"
proof (cases "en_degraded s")
  case True
  with inv_emitted [OF e] show ?thesis by (auto simp: admit_emit_def)
next
  case nd: False
  let ?time = "ee_clock v (en_ticks s)"
  obtain r reg where adm: "route_admit (ee_parse v) route d payload ModeEmit (tt_monotonic ?time) (en_registry s) = (r, reg)"
    by fastforce
  define s1 where "s1 = s\<lparr>en_ticks := en_ticks s + 1, en_registry := reg\<rparr>"
  have e1: "einv u X E H s1" using inv_registry [OF einv_tick [OF e], of reg] by (simp add: s1_def)
  note e1' = inv_emitted [OF e1 subset_insertI [of E d]]
  show ?thesis
  proof (cases r)
    case (Inl x)
    with adm nd e1' show ?thesis by (simp add: admit_emit_def read_clock_def s1_def)
  next
    case (Inr parts)
    note parts = route_admit_parts [OF adm [unfolded Inr]]
    let ?i = "admitted_intent parts (tt_unix_ms ?time)"
    let ?a = "\<lparr>ad_accepted_at = tt_unix_ms ?time, ad_parts = parts,
      ad_lifecycle = DeliveryLifecycle_new route d (ap_retry parts), ad_abort = False\<rparr>"
    have i: "?i = intent_of d ?a" "usable_intent ?i" "di_delivery ?i = d"
      using us parts by (simp_all add: admitted_intent_def intent_of_def route_of_def)
    have ra: "route_of ?a = route" using parts by (simp add: route_of_def)
    obtain q s2 where p: "persist v (InsertIntent ?i) s1 = (q, s2)" by fastforce
    obtain l where s2: "s2 = s1\<lparr>en_log := l\<rparr>" and l: "inv l"
      and bad: "\<not> is_ok q \<Longrightarrow> purged (recs (en_log s1)) (recs l)"
      and good: "is_ok q \<Longrightarrow> accepted (recs (en_log s1)) d ?i (recs l)"
      using persist_insert [OF einv_log [OF e1] i(2) p] unfolding i(3) by metis
    have run: "snd (admit_emit v route d payload s) = (case check_pending_capacity v route (bytes_of ?a) s1 of
        Inl e \<Rightarrow> s1 | Inr _ \<Rightarrow> (case q of Inl e \<Rightarrow> s2 | Inr _ \<Rightarrow> enqueue_ready route d (add_active d ?a s2)))"
      using adm Inr nd p parts
      by (simp add: admit_emit_def read_clock_def s1_def bytes_of_def add_active_def route_of_def Let_def split: sum.split)
    show ?thesis
    proof (cases "check_pending_capacity v route (bytes_of ?a) s1")
      case (Inl x)
      with run e1' show ?thesis by simp
    next
      case cap: (Inr x)
      show ?thesis
      proof (cases q)
        case (Inl x)
        with run cap inv_log [OF e1' l] bad s2 show ?thesis by simp
      next
        case (Inr x)
        have "einv u X (insert d E) H (enqueue_ready (route_of ?a) d (add_active d ?a (s1\<lparr>en_log := l\<rparr>)))"
          using l good Inr nd cap fresh
          by (intro inv_admitted [OF e1])
            (simp_all add: i(1) ra check_pending_capacity_def Let_def split: if_splits, simp_all add: s1_def)
        with run cap Inr s2 ra show ?thesis by simp
      qed
    qed
  qed
qed

lemma einv_admit_call:
  assumes e: "einv u X E H s" and us: "\<And>t. usable_intent \<lparr>di_route = route, di_delivery = d, di_accepted_at = t\<rparr>"
    and X: "d \<notin> X"
  shows "einv u X E (received reply H) (Egress_Engine.admit_call v route d payload reply s)"
proof -
  let ?time = "ee_clock v (en_ticks s)"
  have sent: "einv u X E (received reply H) (Egress_Engine.admit_call v route d payload reply s)"
    if "prepare_call v route d payload reply s = (Inl x, s')" "einv u X E H s'" for x s'
    using that inv_send by (simp add: Egress_Engine.admit_call_def)
  show ?thesis
  proof (cases "en_degraded s \<or> \<not> is_ok (validate_call_route (en_registry s) route) \<or>
      fcard (fmdom (en_calls s)) \<ge> rl_call_in_flight (ee_limits v)")
    case True
    then have "\<exists>x. prepare_call v route d payload reply s = (Inl x, s)"
      by (cases "validate_call_route (en_registry s) route") (auto simp: prepare_call_def)
    with sent [OF _ e] show ?thesis by blast
  next
    case go: False
    obtain r reg where adm: "route_admit (ee_parse v) route d payload ModeCall (tt_monotonic ?time) (en_registry s) = (r, reg)"
      by fastforce
    define s1 where "s1 = s\<lparr>en_ticks := en_ticks s + 1, en_registry := reg\<rparr>"
    have e1: "einv u X E H s1" using inv_registry [OF einv_tick [OF e], of reg] by (simp add: s1_def)
    obtain z where z: "validate_call_route (en_registry s) route = Inr z"
      using go by (cases "validate_call_route (en_registry s) route") auto
    show ?thesis
    proof (cases r)
      case (Inl x)
      with adm go z have "prepare_call v route d payload reply s = (Inl (RtAdmission x), s1)"
        by (simp add: prepare_call_def read_clock_def s1_def)
      from sent [OF this e1] show ?thesis .
    next
      case (Inr parts)
      note parts = route_admit_parts [OF adm [unfolded Inr]]
      let ?i = "admitted_intent parts (tt_unix_ms ?time)"
      let ?a = "\<lparr>ad_accepted_at = tt_unix_ms ?time, ad_parts = parts,
        ad_lifecycle = DeliveryLifecycle_new route d (ap_retry parts), ad_abort = False, ac_reply = reply\<rparr>"
      have i: "?i = intent_of d ?a" "usable_intent ?i" "di_delivery ?i = d"
        using us parts by (simp_all add: admitted_intent_def intent_of_def route_of_def)
      obtain q s2 where p: "persist v (InsertIntent ?i) s1 = (q, s2)" by fastforce
      obtain l where s2: "s2 = s1\<lparr>en_log := l\<rparr>" and l: "inv l"
        and bad: "\<not> is_ok q \<Longrightarrow> purged (recs (en_log s1)) (recs l)"
        and good: "is_ok q \<Longrightarrow> accepted (recs (en_log s1)) d ?i (recs l)"
        using persist_insert [OF einv_log [OF e1] i(2) p] unfolding i(3) by metis
      have run: "prepare_call v route d payload reply s = (case q of
          Inl e \<Rightarrow> (Inl (RtDeliveryLog e), s2) | Inr _ \<Rightarrow> (Inr (), start_call v d (add_call_entry d ?a s2)))"
        using adm Inr go z p parts
        by (simp add: prepare_call_def read_clock_def s1_def add_call_entry_def route_of_def Let_def split: sum.split)
      show ?thesis
      proof (cases q)
        case (Inl x)
        with sent [of "RtDeliveryLog x" s2] run inv_log [OF e1 l] bad s2 show ?thesis by simp
      next
        case (Inr x)
        have "einv u (insert d X) E (received (ac_reply ?a) H) (add_call_entry d ?a (s1\<lparr>en_log := l\<rparr>))"
          using l good Inr go by (intro inv_call_admitted [OF e1]) (simp_all add: i(1), simp_all add: s1_def)
        then have "einv u X E (received reply H) (start_call v d (add_call_entry d ?a s2))"
          by (intro einv_start_call [where a = ?a]) (simp_all add: s2)
        with run Inr show ?thesis by (simp add: Egress_Engine.admit_call_def)
      qed
    qed
  qed
qed

lemma einv_delivery_status: "einv u X E H s \<Longrightarrow> einv u X E H (snd (delivery_status v d s))"
proof -
  assume e: "einv u X E H s"
  obtain r l where run: "dlog_delivery (ee_log v) (en_log s) d = (r, l)" by fastforce
  with delivery_frame [OF einv_log [OF e] run] have "einv u X E H (s\<lparr>en_log := l\<rparr>)"
    by (intro inv_log [OF e]) (simp_all add: purged_def)
  with run e show ?thesis by (simp add: delivery_status_def split: option.split)
qed

lemma einv_begin_drain:
  assumes e: "einv u X E H s"
  shows "einv u X E (received h H) (begin_drain v route remove h s)"
proof (cases "fmlookup (en_drains s) route")
  case (Some x)
  with inv_send [OF e] show ?thesis by (simp add: begin_drain_def)
next
  case None
  obtain r reg where set: "route_set_enabled route False (en_registry s) = (r, reg)" by fastforce
  note e1 = inv_registry [OF e, of reg]
  let ?s = "s\<lparr>en_registry := reg, en_ticks := en_ticks s + 1\<rparr>"
  let ?x = "\<lparr>rd_deadline = instant_saturating_add (tt_monotonic (ee_clock v (en_ticks s))) (rl_drain_timeout (ee_limits v)),
    rd_remove = remove, rd_reply = h\<rparr>"
  have e2: "einv u X E H ?s" using einv_tick [OF e1] by simp
  then have "answered (received h H) (?s\<lparr>en_drains := fmupd route ?x (en_drains s)\<rparr>)"
    using None by (simp add: engine_inv_def answered_def answers_def awaiting_def received_def fm_sum_new eq_commute)
  then have "einv u X E (received h H) (?s\<lparr>en_drains := fmupd route ?x (en_drains s)\<rparr>)"
    by (rule inv_answers [OF e2, rotated, where x = "en_sent s" and g = reg
          and y = "fmupd route ?x (en_drains s)"]) simp
  then show ?thesis
    using None set inv_send [OF e1] inv_send [OF inv_registry [OF e1]]
    by (simp add: begin_drain_def read_clock_def Let_def split: sum.split)
qed

lemma einv_handle_command:
  assumes e: "einv u {} E H s" and ok: "command_ok usable_intent c" and fresh: "u \<Longrightarrow> command_emits c \<inter> E = {}"
  shows "einv u {} (command_emits c \<union> E) (received (command_reply c) H) (handle_command v c s)"
proof (cases c)
  case (CmdEmit r d payload h)
  with einv_admit_emit [OF e, of r d payload] ok fresh have "einv u {} (insert d E) H (snd (admit_emit v r d payload s))"
    by (simp add: command_ok_def)
  from inv_send [OF this] CmdEmit show ?thesis
    by (cases "admit_emit v r d payload s") (simp add: handle_command_def)
next
  case (CmdCall r d payload h)
  with einv_admit_call [OF e, of r d h payload] ok show ?thesis by (simp add: handle_command_def command_ok_def)
next
  case (CmdDelivery d h)
  with inv_send [OF einv_delivery_status [OF e, of d]] show ?thesis
    by (cases "delivery_status v d s") (simp add: handle_command_def)
qed (use e einv_begin_drain [OF e] inv_send [OF e] inv_send [OF inv_registry [OF e]] in \<open>simp_all add: handle_command_def split: prod.split\<close>)

end

end
