(* ===== verification/Egress_Dispatch.thy ===== *)
theory Egress_Dispatch
  imports Egress_Commands
begin

text \<open>
  Dispatch, deadlines and failed tasks keep the invariant; the shutdown deadline leaves nothing behind.
\<close>

section \<open>Ending a list of entries\<close>

lemma fold_ends:
  assumes "\<And>d s. I s \<Longrightarrow> fmlookup (f s) d \<noteq> None \<Longrightarrow> I (g d s) \<and> f (g d s) = fmdrop d (f s)"
    and "distinct ds" and "\<forall>d\<in>set ds. fmlookup (f s) d \<noteq> None" and "I s"
  shows "I (fold g ds s) \<and> (\<forall>i. fmlookup (f (fold g ds s)) i = (if i \<in> set ds then None else fmlookup (f s) i))"
  using assms(2-4)
proof (induction ds arbitrary: s)
  case (Cons d ds)
  with assms(1) [of s d] have s: "I (g d s)" "f (g d s) = fmdrop d (f s)" by auto
  have "\<forall>i\<in>set ds. fmlookup (f (g d s)) i \<noteq> None" using Cons.prems(1,2) s(2) by auto
  from Cons.IH [OF _ this s(1)] Cons.prems(1) s(2) show ?case by auto
qed simp

lemma known_key: "fmlookup m k \<noteq> None \<longleftrightarrow> k \<in> set (fm_keys m)"
  by (simp add: fmlookup_dom_iff)

text \<open>\<open>take_fair_ready\<close> takes the delivery into the hands of the dispatcher.\<close>

lemma inv_taken:
  assumes "engine_inv v linv recs u {} E H s" and "fair v s res s'"
  shows "engine_inv v linv recs u (case res of None \<Rightarrow> {} | Some d \<Rightarrow> {d}) E H s'"
proof -
  note e = assms(1) [unfolded engine_inv_def] and f = assms(2) [unfolded fair_def]
  from f obtain rd rr where s': "s' = s\<lparr>en_ready := rd, en_ready_routes := rr\<rparr>" by blast
  then have same: "en_active s' = en_active s" "en_calls s' = en_calls s" "en_retries s' = en_retries s"
    "en_ticks s' = en_ticks s" "\<And>r. usage_of s' r = usage_of s r" by simp_all
  have wf: "queues_wf s'" and keep: "\<And>r d. queued s r d \<Longrightarrow> startable s d \<Longrightarrow> queued s' r d \<or> res = Some d"
    and old: "\<And>r d. queued s' r d \<Longrightarrow> queued s r d" using f by simp_all
  have p: "placed v s' i b" if b: "fmlookup (en_active s) i = Some b" "res \<noteq> Some i" for i b
  proof (cases "ad_abort b")
    case True
    moreover have "placed v s i b" using e b(1) by (simp add: scheduled_def)
    ultimately show ?thesis by (cases "lc_state (ad_lifecycle b)") (simp_all add: placed_def)
  next
    case False
    with b(1) have "startable s i" by (simp add: startable_def)
    with keep b(2) have "queued s' r i" if "queued s r i" for r using that by metis
    moreover have "placed v s i b" using e b(1) by (simp add: scheduled_def)
    ultimately show ?thesis by (intro placed_mono [of v s i b s']) (simp_all add: same)
  qed
  have "sorted (en_retries s')" using e by (simp add: scheduled_def same)
  then have "scheduled v (case res of None \<Rightarrow> {} | Some d \<Rightarrow> {d}) s'"
    using e wf p unfolding scheduled_def same by (cases res) simp_all
  moreover have "routed v E s'" if u using that e old unfolding routed_def same by metis
  ultimately show ?thesis
    using e logged_frame [of s' s] within_frame [of s' s]
    by (simp add: engine_inv_def s' answered_def answers_def awaiting_def)
qed

definition dispatched :: "'l engine_env \<Rightarrow> 'l engine \<Rightarrow> bool" where
  "dispatched v s \<longleftrightarrow>
     rl_global_in_flight (ee_limits v) \<le> en_global_in_flight s \<or> (\<forall>r d. queued s r d \<longrightarrow> route_full v s r)"

context egress_host
begin

lemma einv_dispatch_any:
  "w = v \<Longrightarrow> einv u {} E H s \<Longrightarrow> einv u {} E H (dispatch_ready w s) \<and> dispatched w (dispatch_ready w s)"
proof (induction w s rule: dispatch_ready.induct)
  case (1 w s)
  note w = "1.prems"(1) and e = "1.prems"(2)
  have wf: "queues_wf s" using e by (simp add: engine_inv_def scheduled_def)
  obtain res s' where t: "take_fair_ready v s = (res, s')" by fastforce
  note fair = take_fair_ready_fair [OF wf t] and e' = inv_taken [OF e take_fair_ready_fair [OF wf t]]
  have "einv u {} E H (dispatch_ready v s) \<and> dispatched v (dispatch_ready v s)"
  proof (cases "en_global_in_flight s < rl_global_in_flight (ee_limits v)")
    case False
    then have "dispatch_ready v s = s" by (simp add: dispatch_ready.simps [of v s])
    with e False show ?thesis by (simp add: dispatched_def)
  next
    case room: True
    show ?thesis
    proof (cases res)
      case None
      then have "dispatch_ready v s = s'" using t room by (simp add: dispatch_ready.simps [of v s])
      with e' None take_fair_ready_None [OF wf] t show ?thesis by (auto simp: dispatched_def)
    next
      case (Some d)
      from fair Some obtain rd rr r where s': "s' = s\<lparr>en_ready := rd, en_ready_routes := rr\<rparr>"
        and d: "startable s d" "queued s r d" "\<not> route_full v s r" by (auto simp: fair_def)
      from d(1) obtain a where a: "fmlookup (en_active s) d = Some a" "\<not> ad_abort a"
        by (auto simp: startable_def split: option.splits)
      have "placed v s d a" using e a by (simp add: engine_inv_def scheduled_def)
      from placed_awaited [OF this a(2)] have aw: "awaited v s' d a" by (simp add: awaited_def s')
      have "\<not> route_full v s' (route_of a)" if u
        using that e a(1) d(2,3) by (auto simp: engine_inv_def routed_def route_full_def s')
      with e' Some a(1) aw room have "einv u {} E H (start_attempt v d s')"
        by (intro einv_start_attempt [where a = a]) (simp_all add: s')
      with "1.IH" [of res s' d] room t Some w show ?thesis
        by (simp add: dispatch_ready.simps [of v s])
    qed
  qed
  with w show ?case by simp
qed

lemma einv_dispatch:
  assumes "einv u {} E H s"
  shows "einv u {} E H (dispatch_ready v s)" "dispatched v (dispatch_ready v s)"
  using einv_dispatch_any [OF refl assms] by simp_all

lemma einv_apply_active:
  assumes "einv u {} E H s" and "event_ok e" and "fmlookup (en_active s) d \<noteq> None"
  shows "einv u {} E H (apply_terminal_event v d e s)"
    "en_active (apply_terminal_event v d e s) = fmdrop d (en_active s)"
    "en_calls (apply_terminal_event v d e s) = en_calls s" "en_ticks s \<le> en_ticks (apply_terminal_event v d e s)"
  using einv_apply_terminal [OF engine_inv_weaken [OF assms(1), of "{d}"] _ assms(2)] assms(3) by auto

lemma einv_apply_call:
  assumes "einv u {} E H s" and "event_ok e" and "fmlookup (en_calls s) d \<noteq> None"
  shows "einv u {} E H (apply_call_terminal_event v d e x s)"
    "en_calls (apply_call_terminal_event v d e x s) = fmdrop d (en_calls s)"
    "en_active (apply_call_terminal_event v d e x s) = en_active s"
    "en_ticks s \<le> en_ticks (apply_call_terminal_event v d e x s)"
  using einv_apply_call_terminal [OF engine_inv_weaken [OF assms(1), of "{d}"] _ assms(2)] assms(3) by auto

lemma einv_end_active:
  assumes "einv u {} E H s" and "event_ok e" and "distinct ds" and "\<forall>d\<in>set ds. fmlookup (en_active s) d \<noteq> None"
  shows "einv u {} E H (fold (\<lambda>d. apply_terminal_event v d e) ds s)"
    "en_calls (fold (\<lambda>d. apply_terminal_event v d e) ds s) = en_calls s"
    "fmlookup (en_active (fold (\<lambda>d. apply_terminal_event v d e) ds s)) i =
       (if i \<in> set ds then None else fmlookup (en_active s) i)"
    "en_ticks s \<le> en_ticks (fold (\<lambda>d. apply_terminal_event v d e) ds s)"
proof -
  let ?I = "\<lambda>x. einv u {} E H x \<and> en_calls x = en_calls s \<and> en_ticks s \<le> en_ticks x" and ?g = "\<lambda>d. apply_terminal_event v d e"
  have "?I (?g d x) \<and> en_active (?g d x) = fmdrop d (en_active x)" if "?I x" "fmlookup (en_active x) d \<noteq> None" for d x
    using einv_apply_active [OF conjunct1 [OF that(1)] assms(2) that(2)] that(1) by simp
  note * = fold_ends [where I = ?I and f = en_active, OF this assms(3,4)]
  show "einv u {} E H (fold ?g ds s)" "en_calls (fold ?g ds s) = en_calls s"
    "fmlookup (en_active (fold ?g ds s)) i = (if i \<in> set ds then None else fmlookup (en_active s) i)"
    "en_ticks s \<le> en_ticks (fold ?g ds s)" using * assms(1) by blast+
qed

lemma einv_end_calls:
  assumes "einv u {} E H s" and "event_ok e" and "distinct ds" and "\<forall>d\<in>set ds. fmlookup (en_calls s) d \<noteq> None"
  shows "einv u {} E H (fold (\<lambda>d. apply_call_terminal_event v d e x) ds s)"
    "en_active (fold (\<lambda>d. apply_call_terminal_event v d e x) ds s) = en_active s"
    "fmlookup (en_calls (fold (\<lambda>d. apply_call_terminal_event v d e x) ds s)) i =
       (if i \<in> set ds then None else fmlookup (en_calls s) i)"
    "en_ticks s \<le> en_ticks (fold (\<lambda>d. apply_call_terminal_event v d e x) ds s)"
proof -
  let ?I = "\<lambda>y. einv u {} E H y \<and> en_active y = en_active s \<and> en_ticks s \<le> en_ticks y" and ?g = "\<lambda>d. apply_call_terminal_event v d e x"
  have "?I (?g d y) \<and> en_calls (?g d y) = fmdrop d (en_calls y)" if "?I y" "fmlookup (en_calls y) d \<noteq> None" for d y
    using einv_apply_call [OF conjunct1 [OF that(1)] assms(2) that(2), of x] that(1) by simp
  note * = fold_ends [where I = ?I and f = en_calls, OF this assms(3,4)]
  show "einv u {} E H (fold ?g ds s)" "en_active (fold ?g ds s) = en_active s"
    "fmlookup (en_calls (fold ?g ds s)) i = (if i \<in> set ds then None else fmlookup (en_calls s) i)"
    "en_ticks s \<le> en_ticks (fold ?g ds s)" using * assms(1) by blast+
qed

lemma einv_cancel_route:
  assumes "einv u {} E H s"
  shows "einv u {} E H (cancel_route v route s)" "en_ticks s \<le> en_ticks (cancel_route v route s)"
proof -
  let ?ds = "filter (\<lambda>d. ap_route (ad_parts (the (fmlookup (en_active s) d))) = route) (fm_keys (en_active s))"
  let ?s = "fold (\<lambda>d. apply_terminal_event v d EvCancel) ?ds s"
  let ?cs = "filter (\<lambda>d. ap_route (ad_parts (the (fmlookup (en_calls ?s) d))) = route) (fm_keys (en_calls ?s))"
  have ok: "event_ok EvCancel" by simp
  have ds: "distinct ?ds" "\<forall>d\<in>set ?ds. fmlookup (en_active s) d \<noteq> None" by (auto simp: known_key)
  note a = einv_end_active [OF assms ok ds]
  have cs: "distinct ?cs" "\<forall>d\<in>set ?cs. fmlookup (en_calls ?s) d \<noteq> None" by (auto simp: known_key)
  note c = einv_end_calls [OF a(1) ok cs, of "Err (RtCallFailed DfCancelled)"]
  show "einv u {} E H (cancel_route v route s)" unfolding cancel_route_def Let_def by (rule c(1))
  show "en_ticks s \<le> en_ticks (cancel_route v route s)"
    unfolding cancel_route_def Let_def by (rule le_trans [OF a(4) c(4)])
qed

lemma einv_drain_deadlines:
  assumes "einv u {} E H s"
  shows "einv u {} E H (process_drain_deadlines v s)" "en_ticks s \<le> en_ticks (process_drain_deadlines v s)"
proof -
  have "einv u {} E H (cancel_route v r x) \<and> en_ticks s \<le> en_ticks (cancel_route v r x)"
    if "einv u {} E H x \<and> en_ticks s \<le> en_ticks x" for r x
    using einv_cancel_route [OF conjunct1 [OF that], of r] that by simp
  from inv_fold [where I = "\<lambda>x. einv u {} E H x \<and> en_ticks s \<le> en_ticks x" and f = "cancel_route v", OF _ this] einv_tick [OF assms]
  show "einv u {} E H (process_drain_deadlines v s)" "en_ticks s \<le> en_ticks (process_drain_deadlines v s)"
    by (simp_all add: process_drain_deadlines_def read_clock_def)
qed

lemma einv_expire:
  assumes "einv u {} E H s"
  shows "einv u {} E H (expire_shutdown v s)" "en_active (expire_shutdown v s) = fmempty"
    "en_calls (expire_shutdown v s) = fmempty"
proof -
  let ?s = "fold (\<lambda>d. apply_terminal_event v d EvShutdownDeadline) (fm_keys (en_active s)) s"
  have ok: "event_ok EvShutdownDeadline" by simp
  have all: "\<forall>d\<in>set (fm_keys m). fmlookup m d \<noteq> None" for m :: "(delivery_id, 'b) fmap" by (auto simp: known_key)
  note a = einv_end_active [OF assms ok distinct_fm_keys all]
  note c = einv_end_calls [OF a(1) ok distinct_fm_keys all]
  show "einv u {} E H (expire_shutdown v s)" unfolding expire_shutdown_def Let_def by (rule c(1))
  show "en_active (expire_shutdown v s) = fmempty"
    unfolding expire_shutdown_def Let_def c(2)
    by (rule fmap_ext) (use a(3) known_key [of "en_active s"] in auto)
  show "en_calls (expire_shutdown v s) = fmempty"
    unfolding expire_shutdown_def Let_def
    by (rule fmap_ext) (use c(3) known_key [of "en_calls ?s"] in auto)
qed

lemma ticks_retry_loop [simp]: "en_ticks (retry_loop now rs s) = en_ticks s"
  by (induction now rs s rule: retry_loop.induct) (simp_all split: option.split)

lemma einv_retry_deadlines: "einv u {} E H s \<Longrightarrow> einv u {} E H (process_retry_deadlines v s)"
proof -
  assume e: "einv u {} E H s"
  let ?s = "s\<lparr>en_ticks := en_ticks s + 1\<rparr>"
  have "steady_clock v" using e by (simp add: engine_inv_def)
  then have "tt_monotonic (ee_clock v (en_ticks s)) \<le> tt_monotonic (ee_clock v (en_ticks ?s))"
    by (simp add: steady_clock_def mono_def)
  from inv_retry_loop [OF _ this, where rs = "en_retries s"] einv_tick [OF e] show ?thesis
    by (simp add: process_retry_deadlines_def read_clock_def)
qed

section \<open>Tasks that ended\<close>

lemma einv_panicked:
  assumes "einv u {} E H s" and "fmlookup (en_active s) d \<noteq> None"
  shows "einv u {} E H (apply_terminal_event v d (EvFailed DfInternal) (snd (clear_in_flight d s)))"
    "en_active (apply_terminal_event v d (EvFailed DfInternal) (snd (clear_in_flight d s))) = fmdrop d (en_active s)"
proof -
  obtain b s' where c: "clear_in_flight d s = (b, s')" by fastforce
  have e: "einv u {d} E H s'"
    using c inv_clear [OF assms(1), of d s'] clear_in_flight_False [of d s s'] engine_inv_weaken [OF assms(1), of "{d}"]
    by (cases b) auto
  have a: "fmlookup (en_active s') d \<noteq> None" "fmdrop d (en_active s') = fmdrop d (en_active s)"
    using c assms(2) clear_in_flight_True [of d s s'] clear_in_flight_False [of d s s']
    by (cases b; auto simp: fmdrop_fmupd_self)+
  then obtain x where "fmlookup (en_active s') d = Some x" by blast
  from einv_apply_terminal [OF e this] a(2) c
  show "einv u {} E H (apply_terminal_event v d (EvFailed DfInternal) (snd (clear_in_flight d s)))"
    "en_active (apply_terminal_event v d (EvFailed DfInternal) (snd (clear_in_flight d s))) = fmdrop d (en_active s)"
    by simp_all
qed

lemma einv_call_panicked:
  assumes "einv u {} E H s" and "fmlookup (en_calls s) d \<noteq> None"
  shows "einv u {} E H (force_call_terminal v d internal_failure None x (snd (clear_call_in_flight d s)))"
    "en_calls (force_call_terminal v d internal_failure None x (snd (clear_call_in_flight d s))) = fmdrop d (en_calls s)"
proof -
  obtain b s' where c: "clear_call_in_flight d s = (b, s')" by fastforce
  have e: "einv u {d} E H s'"
    using c inv_clear_call [OF assms(1), of d s'] clear_call_False [of d s s'] engine_inv_weaken [OF assms(1), of "{d}"]
    by (cases b) auto
  have a: "fmlookup (en_calls s') d \<noteq> None" "fmdrop d (en_calls s') = fmdrop d (en_calls s)"
    using c assms(2) clear_call_True [of d s s'] clear_call_False [of d s s']
    by (cases b; auto simp: fmdrop_fmupd_self)+
  then obtain y where "fmlookup (en_calls s') d = Some y" by blast
  from einv_force_call [OF e this] a(2) c
  show "einv u {} E H (force_call_terminal v d internal_failure None x (snd (clear_call_in_flight d s)))"
    "en_calls (force_call_terminal v d internal_failure None x (snd (clear_call_in_flight d s))) = fmdrop d (en_calls s)"
    by simp_all
qed

lemma einv_attempt_join:
  assumes "einv u {} E H s" and "\<And>d c. j = JoinOk d c \<Longrightarrow> disposition_ok (cp_disposition c)"
  shows "einv u {} E H (handle_attempt_join v j s)"
proof (cases j)
  case JoinPanicked
  let ?ds = "filter (\<lambda>d. ad_abort (the (fmlookup (en_active s) d))) (fm_keys (en_active s))"
  have "distinct ?ds" "\<forall>d\<in>set ?ds. fmlookup (en_active s) d \<noteq> None" by (auto simp: known_key)
  from fold_ends [where I = "einv u {} E H" and f = en_active
      and g = "\<lambda>d s. apply_terminal_event v d (EvFailed DfInternal) (snd (clear_in_flight d s))", OF _ this assms(1)]
    einv_panicked JoinPanicked show ?thesis by (simp add: handle_attempt_join_def)
qed (use assms einv_complete_attempt in \<open>simp_all add: handle_attempt_join_def\<close>)

lemma einv_call_join:
  assumes "einv u {} E H s" and "\<And>d c. j = JoinOk d c \<Longrightarrow> disposition_ok (cp_disposition c)"
  shows "einv u {} E H (handle_call_join v j s)"
proof (cases j)
  case JoinPanicked
  let ?ds = "filter (\<lambda>d. ad_abort (the (fmlookup (en_calls s) d))) (fm_keys (en_calls s))"
  have "distinct ?ds" "\<forall>d\<in>set ?ds. fmlookup (en_calls s) d \<noteq> None" by (auto simp: known_key)
  from fold_ends [where I = "einv u {} E H" and f = en_calls
      and g = "\<lambda>d s. force_call_terminal v d internal_failure None (Err (RtCallFailed DfInternal))
         (snd (clear_call_in_flight d s))", OF _ this assms(1)]
    einv_call_panicked JoinPanicked show ?thesis by (simp add: handle_call_join_def)
qed (use assms einv_complete_call in \<open>simp_all add: handle_call_join_def\<close>)

end

end
