(* ===== verification/Egress_Life.thy ===== *)
theory Egress_Life
  imports Egress_Dispatch
begin

text \<open>
  The life of the engine: from the start, through any events, to the end of a shutdown.
\<close>

section \<open>Drains change by commands and by their own completion only\<close>

lemma drains_persist [simp]: "en_drains (snd (persist v p s)) = en_drains s"
  by (simp add: persist_def split: prod.split)

lemma drains_persistD: "persist v p s = (r, s') \<Longrightarrow> en_drains s' = en_drains s"
  using drains_persist [of v p s] by simp

lemma drains_matches [simp]: "en_drains (snd (persisted_terminal_matches v d out res s)) = en_drains s"
  by (simp add: persisted_terminal_matches_def split: prod.split)

lemma drains_override [simp]:
  "en_drains (insert_override v d out res s) = en_drains s"
  "en_drains (insert_call_override v d out res s) = en_drains s"
  by (simp_all add: insert_override_def insert_call_override_def read_clock_def split: option.split)

lemma drains_keep [simp]:
  "(\<And>s. en_drains (f s) = en_drains s) \<Longrightarrow> en_drains (keep_override v f b d out res s) = en_drains s"
  using drains_matches [of v d out res s]
  by (cases "persisted_terminal_matches v d out res s") (simp add: keep_override_def split: bool.split)

lemma drains_force [simp]:
  "en_drains (force_terminal v d out res s) = en_drains s"
  "en_drains (force_call_terminal v d out res x s) = en_drains s"
  by (auto simp: force_terminal_def force_call_terminal_def read_clock_def dest: drains_persistD split: prod.split)

lemma drains_persist_terminal [simp]:
  "en_drains (persist_terminal v d out res p s) = en_drains s"
  "en_drains (persist_call_terminal v d out res p s) = en_drains s"
  by (cases p; auto simp: persist_terminal_def persist_call_terminal_def map_prod_def dest: drains_persistD
      split: prod.split)+

lemma drains_clear [simp]:
  "en_drains (snd (clear_in_flight d s)) = en_drains s" "en_drains (snd (clear_call_in_flight d s)) = en_drains s"
  by (simp_all add: clear_in_flight_def clear_call_in_flight_def split: option.split)

lemma drains_clearD:
  "clear_in_flight d s = (b, s') \<Longrightarrow> en_drains s' = en_drains s"
  "clear_call_in_flight d s = (b, s') \<Longrightarrow> en_drains s' = en_drains s"
  using drains_clear [of d s] by simp_all

lemma drains_apply [simp]:
  "en_drains (apply_terminal_event v d e s) = en_drains s"
  "en_drains (apply_call_terminal_event v d e x s) = en_drains s"
  by (simp_all add: apply_terminal_event_def apply_call_terminal_event_def read_clock_def Let_def
      split: option.split prod.split delivery_action.split)

lemma drains_start [simp]: "en_drains (start_attempt v d s) = en_drains s"
  by (auto simp: start_attempt_def read_clock_def Let_def dest: drains_persistD
      split: option.split prod.split sum.split delivery_action.split)

lemma drains_complete [simp]:
  "en_drains (complete_attempt v d c s) = en_drains s" "en_drains (complete_call v d c s) = en_drains s"
  by (auto simp: complete_attempt_def complete_call_def read_clock_def Let_def dest: drains_clearD
      split: option.split prod.split delivery_action.split bool.split)

lemma drains_fold: "(\<And>x s. en_drains (f x s) = en_drains s) \<Longrightarrow> en_drains (fold f xs s) = en_drains s"
  by (induction xs arbitrary: s) simp_all

lemma drains_join [simp]:
  "en_drains (handle_attempt_join v j s) = en_drains s" "en_drains (handle_call_join v j s) = en_drains s"
  by (cases j; simp add: handle_attempt_join_def handle_call_join_def drains_fold)+

lemma drains_cancel [simp]: "en_drains (cancel_route v r s) = en_drains s"
  by (simp add: cancel_route_def Let_def drains_fold)

lemma drains_retry_loop [simp]: "en_drains (retry_loop now rs s) = en_drains s"
  by (induction now rs s rule: retry_loop.induct) (simp_all split: option.split)

lemma drains_deadlines [simp]:
  "en_drains (process_retry_deadlines v s) = en_drains s" "en_drains (process_drain_deadlines v s) = en_drains s"
  "en_drains (expire_shutdown v s) = en_drains s"
  by (simp_all add: process_retry_deadlines_def process_drain_deadlines_def expire_shutdown_def read_clock_def Let_def
      drains_fold)

lemma fair_loop_drains: "fair_loop v n s = (res, s') \<Longrightarrow> en_drains s' = en_drains s"
  by (induction n arbitrary: s) (auto simp: fair_loop.simps Let_def split: list.splits option.splits if_splits)

lemma drains_dispatch [simp]: "en_drains (dispatch_ready v s) = en_drains s"
proof (induction v s rule: dispatch_ready.induct)
  case (1 v s)
  obtain res s' where t: "take_fair_ready v s = (res, s')" by fastforce
  then have "en_drains s' = en_drains s" by (simp add: take_fair_ready_def fair_loop_drains)
  with "1.IH" t show ?case by (cases res) (simp_all add: dispatch_ready.simps [of v s])
qed

lemma drains_top: "en_drains s = fmempty \<Longrightarrow> en_drains (loop_top v s) = fmempty"
  by (simp add: loop_top_def complete_empty_drains_def discard_stale_retries_def sorted_list_of_fset.rep_eq)

section \<open>The clock goes on\<close>

lemma ticks_persistD: "persist v p s = (r, s') \<Longrightarrow> en_ticks s' = en_ticks s"
  by (auto simp: persist_def split: prod.splits)

lemma ticks_override: "en_ticks s \<le> en_ticks (insert_override v d out res s)"
  by (simp add: insert_override_def read_clock_def split: option.split)

lemma ticks_keep:
  assumes "\<And>s. en_ticks s \<le> en_ticks (f s)"
  shows "en_ticks s \<le> en_ticks (keep_override v f b d out res s)"
proof -
  obtain m s' where m: "persisted_terminal_matches v d out res s = (m, s')" by fastforce
  then have "en_ticks s' = en_ticks s" by (auto simp: persisted_terminal_matches_def split: prod.splits)
  with m assms [of "s'\<lparr>en_degraded := True\<rparr>"] show ?thesis by (cases m) (simp_all add: keep_override_def)
qed

lemma ticks_force: "en_ticks s \<le> en_ticks (force_terminal v d out res s)"
proof -
  let ?s = "s\<lparr>en_ticks := en_ticks s + 1\<rparr>"
  obtain r s' where p: "persist v (RecordOutcome d out (tt_unix_ms (ee_clock v (en_ticks s))) res) ?s = (r, s')"
    by fastforce
  from ticks_persistD [OF p] ticks_keep [where f = "insert_override v d out res" and s = s', OF ticks_override] p
  show ?thesis by (fastforce simp: force_terminal_def read_clock_def dest: Suc_leD)
qed

lemma ticks_persist_terminal: "en_ticks s \<le> en_ticks (persist_terminal v d out res p s)"
proof (cases p)
  case None
  then show ?thesis using ticks_keep [OF ticks_override] by (simp add: persist_terminal_def)
next
  case (Some a)
  obtain r s' where p: "persist v a s = (r, s')" by fastforce
  from ticks_persistD [OF p] ticks_keep [where f = "insert_override v d out res" and s = s', OF ticks_override] p Some
  show ?thesis by (simp add: persist_terminal_def)
qed

lemma ticks_lifecycle [simp]: "en_ticks (with_lifecycle d lc s) = en_ticks s"
  by (simp add: with_lifecycle_def split: option.split)

lemma ticks_apply: "en_ticks s \<le> en_ticks (apply_terminal_event v d e s)"
proof -
  have "en_ticks s \<le> en_ticks (force_terminal v d out res x)" "en_ticks s \<le> en_ticks (persist_terminal v d out res p x)"
    if "en_ticks s \<le> en_ticks x" for out res p x
    using that ticks_force ticks_persist_terminal order_trans by blast+
  then show ?thesis
    by (auto simp: apply_terminal_event_def read_clock_def Let_def split: option.split prod.split delivery_action.split)
qed

lemma ticks_start: "en_ticks s \<le> en_ticks (start_attempt v d s)"
proof -
  have ends: "en_ticks s \<le> en_ticks (force_terminal v d out res x)" "en_ticks s \<le> en_ticks (apply_terminal_event v d e x)"
    if "en_ticks s \<le> en_ticks x" for out res e x
    using that ticks_force ticks_apply order_trans by blast+
  then show ?thesis
    by (auto simp: start_attempt_def read_clock_def Let_def dest!: ticks_persistD
        split: option.split prod.split sum.split delivery_action.split intro!: ends)
qed

lemma ticks_dispatch: "en_ticks s \<le> en_ticks (dispatch_ready v s)"
proof (induction v s rule: dispatch_ready.induct)
  case (1 v s)
  obtain res s' where t: "take_fair_ready v s = (res, s')" by fastforce
  have "fair_loop v n x = (o', y) \<Longrightarrow> en_ticks y = en_ticks x" for n x o' y
    by (induction n arbitrary: x) (auto simp: fair_loop.simps Let_def split: list.splits option.splits if_splits)
  with t have "en_ticks s' = en_ticks s" by (auto simp: take_fair_ready_def)
  with "1.IH" t ticks_start [of s' v "the res"] show ?case
    by (cases res) (auto simp: dispatch_ready.simps [of v s] dest: order_trans)
qed

lemma ticks_top: "en_ticks s \<le> en_ticks (loop_top v s)"
proof -
  have "en_ticks (complete_empty_drains x) = en_ticks x" for x :: "'a engine"
    unfolding complete_empty_drains_def
    by (rule inv_fold) (simp_all add: complete_drain_def send_def split: option.split)
  then show ?thesis using ticks_dispatch [of s v] by (simp add: loop_top_def discard_stale_retries_def)
qed

section \<open>What an event brings\<close>

fun event_handles :: "loop_event \<Rightarrow> reply_handle list" where
  "event_handles (LoopShutdown stop cs) = (if stop then map command_reply cs else [])"
| "event_handles (LoopCommand c) = [command_reply c]"
| "event_handles _ = []"

fun event_emits :: "loop_event \<Rightarrow> delivery_id list" where
  "event_emits (LoopCommand (CmdEmit _ d _ _)) = [d]"
| "event_emits _ = []"

fun event_valid :: "(delivery_intent \<Rightarrow> bool) \<Rightarrow> loop_event \<Rightarrow> bool" where
  "event_valid usable (LoopCommand c) = command_ok usable c"
| "event_valid usable (LoopAttempt (JoinOk _ c)) = disposition_ok (cp_disposition c)"
| "event_valid usable (LoopCall (JoinOk _ c)) = disposition_ok (cp_disposition c)"
| "event_valid usable _ = True"

definition counted :: "reply_handle list \<Rightarrow> (reply_handle \<Rightarrow> nat) \<Rightarrow> reply_handle \<Rightarrow> nat" where
  "counted hs H = (\<lambda>h. H h + count_list hs h)"

lemma counted_simps [simp]:
  "counted [] H = H" "counted (h # hs) H = counted hs (received h H)" "counted (hs @ hs') H = counted hs' (counted hs H)"
  by (auto simp: counted_def received_def)

lemma command_emits_set: "set (event_emits (LoopCommand c)) = command_emits c"
  by (cases c) simp_all

lemma inv_reject_commands:
  "engine_inv v linv recs u X E H s \<Longrightarrow>
     engine_inv v linv recs u X E (counted (map command_reply cs) H) (fold reject_command cs s)"
  by (induction cs arbitrary: H s) (simp_all add: inv_reject_command)

section \<open>Waiting\<close>

lemma dispatched_frame:
  "dispatched v s \<Longrightarrow> queued s' = queued s \<Longrightarrow> en_global_in_flight s' = en_global_in_flight s \<Longrightarrow>
     (\<And>r. usage_of s' r = usage_of s r) \<Longrightarrow> dispatched v s'"
  by (simp add: dispatched_def route_full_def)

lemma complete_drain_fields [simp]:
  "en_ready (complete_drain r s) = en_ready s" "en_usage (complete_drain r s) = en_usage s"
  "en_global_in_flight (complete_drain r s) = en_global_in_flight s" "en_active (complete_drain r s) = en_active s"
  "en_calls (complete_drain r s) = en_calls s"
  by (simp_all add: complete_drain_def send_def split: option.split)

lemma complete_drains_fields [simp]:
  "en_ready (complete_empty_drains s) = en_ready s" "en_usage (complete_empty_drains s) = en_usage s"
  "en_global_in_flight (complete_empty_drains s) = en_global_in_flight s"
  "en_active (complete_empty_drains s) = en_active s" "en_calls (complete_empty_drains s) = en_calls s"
  unfolding complete_empty_drains_def by (rule inv_fold; simp)+

lemma discard_fields [simp]:
  "en_ready (discard_stale_retries s) = en_ready s" "en_usage (discard_stale_retries s) = en_usage s"
  "en_global_in_flight (discard_stale_retries s) = en_global_in_flight s"
  "en_active (discard_stale_retries s) = en_active s" "en_calls (discard_stale_retries s) = en_calls s"
  by (simp_all add: discard_stale_retries_def)

lemma dispatched_top: "dispatched v (dispatch_ready v s) \<Longrightarrow> dispatched v (loop_top v s)"
  by (rule dispatched_frame) (auto simp: loop_top_def usage_of_def intro: queued_ready)

lemma foldl_min_le: "foldl min (t :: 'a :: linorder) ts \<le> t"
proof (induction ts arbitrary: t)
  case (Cons a ts)
  from Cons [of "min t a"] show ?case by simp
qed simp

lemma next_deadline_le:
  assumes "sorted (en_retries s)" and "(t, d) \<in> set (en_retries s)"
  shows "\<exists>t'. next_deadline x s = Some t' \<and> t' \<le> t"
proof (cases "en_retries s")
  case (Cons y ys)
  then have "fst y \<le> t" using assms by (cases y) (auto simp: less_eq_prod_def)
  moreover have "\<exists>ts. next_deadline x s = Some (foldl min (fst y) ts)" by (simp add: next_deadline_def Cons del: foldl_append) blast
  ultimately show ?thesis using foldl_min_le [of "fst y"] order_trans by blast
qed (use assms in simp)

definition attended :: "'l engine_env \<Rightarrow> 'l run_state \<Rightarrow> delivery_id \<Rightarrow> active_delivery \<Rightarrow> bool" where
  "attended v r d a \<longleftrightarrow>
     ad_abort a \<or>
     (\<exists>t t'. lc_state (ad_lifecycle a) = LsWaitingRetry t \<and>
        next_deadline (rn_deadline r) (rn_engine r) = Some t' \<and> t' \<le> t) \<or>
     rl_global_in_flight (ee_limits v) \<le> en_global_in_flight (rn_engine r) \<or>
     rl_route_in_flight (ee_limits v) \<le> us_in_flight (usage_of (rn_engine r) (route_of a))"

lemma inv_attended:
  assumes "engine_inv v linv recs u {} E H (rn_engine r)" and "dispatched v (rn_engine r)"
    and "fmlookup (en_active (rn_engine r)) d = Some a"
  shows "attended v r d a"
proof -
  have s: "sorted (en_retries (rn_engine r))" "placed v (rn_engine r) d a"
    using assms(1,3) by (simp_all add: engine_inv_def scheduled_def)
  show ?thesis
  proof (cases "lc_state (ad_lifecycle a)")
    case (LsWaitingRetry t)
    with s next_deadline_le [OF s(1), of t d "rn_deadline r"] assms(2) show ?thesis
      by (auto simp: placed_def attended_def dispatched_def route_full_def)
  qed (use s(2) assms(2) in \<open>auto simp: placed_def attended_def dispatched_def route_full_def\<close>)
qed

section \<open>Runs\<close>

text \<open>The states in which a runtime that was started on a log waits after some events.\<close>

definition egress_reach ::
    "'l engine_env \<Rightarrow> route_registry \<Rightarrow> 'l \<Rightarrow> loop_event list \<Rightarrow> 'l run_state \<Rightarrow> bool" where
  "egress_reach v reg l es r \<longleftrightarrow> (\<exists>r0. runtime_start v reg l = Ok r0 \<and> runtime_run v es r0 = Some r)"

definition stopped_clean :: "'l run_state \<Rightarrow> bool" where
  "stopped_clean r \<longleftrightarrow> (rn_deadline r \<noteq> None \<longrightarrow> en_drains (rn_engine r) = fmempty)"

lemma runtime_run_snoc:
  "runtime_run v (es @ [e]) r =
     Option.bind (runtime_run v es r) (\<lambda>r. if loop_done r then None else
       map_option (\<lambda>r. r\<lparr>rn_engine := loop_top v (rn_engine r)\<rparr>) (loop_select v e r))"
  by (induction es arbitrary: r) (simp_all add: Let_def split: option.split)

lemma select_clean:
  assumes "stopped_clean r" and "loop_select v e r = Some r'"
  shows "stopped_clean r'"
  using assms
  by (auto simp: stopped_clean_def loop_select_def begin_shutdown_def reject_drains_eq read_clock_def Let_def
      split: loop_event.splits if_splits option.splits)

lemma top_clean: "stopped_clean r \<Longrightarrow> stopped_clean (r\<lparr>rn_engine := loop_top v (rn_engine r)\<rparr>)"
  by (auto simp: stopped_clean_def drains_top)

lemma dispatch_empty:
  assumes "queues_wf s" and "en_active s = fmempty"
  shows "en_active (loop_top v s) = fmempty" "en_calls (loop_top v s) = en_calls s"
proof -
  obtain res s' where t: "take_fair_ready v s = (res, s')" by fastforce
  note f = take_fair_ready_fair [OF assms(1) t, unfolded fair_def]
  then have "res = None" using assms(2) by (cases res) (auto simp: startable_def)
  moreover have "en_active s' = en_active s" "en_calls s' = en_calls s" using f by auto
  ultimately have "en_active (dispatch_ready v s) = fmempty" "en_calls (dispatch_ready v s) = en_calls s"
    using t assms(2) by (simp_all add: dispatch_ready.simps [of v s])
  then show "en_active (loop_top v s) = fmempty" "en_calls (loop_top v s) = en_calls s"
    by (simp_all add: loop_top_def)
qed

context egress_host
begin

lemma einv_top:
  assumes "einv u {} E H s"
  shows "einv u {} E H (loop_top v s)" "dispatched v (loop_top v s)"
  using einv_dispatch [OF assms] dispatched_top
  by (auto simp: loop_top_def intro!: inv_discard inv_complete_empty_drains)

lemma einv_shutdown:
  "einv u {} E H s \<Longrightarrow> einv u {} E (counted (map command_reply cs) H) (rn_engine (begin_shutdown v cs s))"
  by (simp add: begin_shutdown_def read_clock_def inv_reject_drains inv_reject_commands einv_tick [simplified])

lemma einv_timer:
  assumes "einv u {} E H s"
  shows "einv u {} E H (process_drain_deadlines v (process_retry_deadlines v s))"
    "en_ticks s \<le> en_ticks (process_drain_deadlines v (process_retry_deadlines v s))"
  using einv_drain_deadlines [OF einv_retry_deadlines [OF assms]]
  by (simp_all add: process_retry_deadlines_def read_clock_def)

lemma einv_select:
  assumes e: "einv u {} E H (rn_engine r)" and ok: "event_valid usable_intent ev"
    and fresh: "u \<Longrightarrow> set (event_emits ev) \<inter> E = {}" and run: "loop_select v ev r = Some r'"
  shows "einv u {} (set (event_emits ev) \<union> E) (counted (event_handles ev) H) (rn_engine r')"
proof (cases ev)
  case (LoopCommand c)
  with einv_handle_command [OF e, of c] ok fresh run show ?thesis
    by (auto simp: loop_select_def command_emits_set simp del: event_emits.simps split: if_splits)
next
  case (LoopShutdown stop cs)
  with einv_shutdown [OF e, of cs] e run show ?thesis by (auto simp: loop_select_def split: if_splits)
next
  case LoopClosed
  with einv_shutdown [OF e, of "[]"] e run show ?thesis by (auto simp: loop_select_def split: if_splits)
next
  case (LoopAttempt j)
  with einv_attempt_join [OF e, of j] ok run show ?thesis by (cases j) (auto simp: loop_select_def)
next
  case (LoopCall j)
  with einv_call_join [OF e, of j] ok run show ?thesis by (cases j) (auto simp: loop_select_def)
next
  case LoopTimer
  note t = einv_timer(1) [OF e]
  with einv_tick [OF t] einv_expire(1) [OF einv_tick [OF t]] run LoopTimer show ?thesis
    by (auto simp: loop_select_def read_clock_def Let_def split: if_splits option.splits)
qed

lemma einv_run:
  assumes "einv u {} E H (rn_engine r)" and "stopped_clean r" and "list_all (event_valid usable_intent) es"
    and "u \<Longrightarrow> distinct (concat (map event_emits es)) \<and> set (concat (map event_emits es)) \<inter> E = {}"
    and "runtime_run v es r = Some r'"
  shows "(\<exists>E'. einv u {} E' (counted (concat (map event_handles es)) H) (rn_engine r')) \<and>
    dispatched v (rn_engine r') \<and> stopped_clean r'"
  using assms
proof (induction es arbitrary: E H r)
  case Nil
  then show ?case using einv_top [OF Nil(1)] top_clean [OF Nil(2), of v] by auto
next
  case (Cons ev es)
  let ?r = "r\<lparr>rn_engine := loop_top v (rn_engine r)\<rparr>"
  from Cons.prems(5) obtain r1 where sel: "loop_select v ev ?r = Some r1" and rest: "runtime_run v es r1 = Some r'"
    by (auto simp: Let_def split: if_splits option.splits)
  have e: "einv u {} E H (rn_engine ?r)" using einv_top(1) [OF Cons.prems(1)] by simp
  have e1: "einv u {} (set (event_emits ev) \<union> E) (counted (event_handles ev) H) (rn_engine r1)"
    using Cons.prems(3,4) by (intro einv_select [OF e _ _ sel]) auto
  have "distinct (concat (map event_emits es)) \<and>
      set (concat (map event_emits es)) \<inter> (set (event_emits ev) \<union> E) = {}" if u
    using Cons.prems(4) [OF that] by auto
  from Cons.IH [OF e1 select_clean [OF top_clean [OF Cons.prems(2)] sel] _ this rest] Cons.prems(3)
  show ?case by simp
qed

lemma einv_start:
  assumes "steady_clock v" and "inv l" and "runtime_start v reg l = Inr r" and "\<And>d. \<not> pending (recs (en_log (rn_engine r)) d)"
  shows "einv u {} {} (\<lambda>_. 0) (rn_engine r)" "stopped_clean r"
proof -
  have "rn_engine r = (Engine_new reg (en_log (rn_engine r)))\<lparr>en_ticks := en_ticks (rn_engine r)\<rparr> \<and>
      inv (en_log (rn_engine r)) \<and> rn_deadline r = None"
    using assms(2,3) recover_inv [OF assms(2), of "tt_unix_ms (ee_clock v 0)"]
    by (auto simp: runtime_start_def Engine_new_def split: if_splits prod.splits sum.splits)
  then obtain k where s: "rn_engine r = (Engine_new reg (en_log (rn_engine r)))\<lparr>en_ticks := k\<rparr>"
    and l: "inv (en_log (rn_engine r))" and "rn_deadline r = None" by blast
  then show "stopped_clean r" by (simp add: stopped_clean_def)
  have "en_active (rn_engine r) = fmempty" "en_calls (rn_engine r) = fmempty" "en_overrides (rn_engine r) = fmempty"
    "accounts (rn_engine r)" "within_limits v (rn_engine r)" "scheduled v {} (rn_engine r)" "routed v {} (rn_engine r)"
    "answered (\<lambda>_. 0) (rn_engine r)"
    by (subst s, simp add: Engine_new_def accounts_def within_limits_def scheduled_def queues_wf_def routed_def queued_def
        usage_of_def answered_def answers_def awaiting_def fcard_fempty)+
  moreover from this have "logged (recs (en_log (rn_engine r))) (rn_engine r)"
    by (intro loggedI) (use assms(4) in simp_all)
  ultimately show "einv u {} {} (\<lambda>_. 0) (rn_engine r)" using assms(1) l by (simp add: engine_inv_def)
qed

lemma reach_inv:
  assumes "steady_clock v" and "inv l" and "egress_reach v reg l es r" and "list_all (event_valid usable_intent) es"
    and "\<And>r0 d. runtime_start v reg l = Inr r0 \<Longrightarrow> \<not> pending (recs (en_log (rn_engine r0)) d)"
  shows "\<exists>E. einv (distinct (concat (map event_emits es))) {} E (count_list (concat (map event_handles es))) (rn_engine r)"
    "dispatched v (rn_engine r)" "stopped_clean r"
proof -
  obtain r0 where r0: "runtime_start v reg l = Inr r0" "runtime_run v es r0 = Some r"
    using assms(3) by (auto simp: egress_reach_def)
  have none: "\<And>d. \<not> pending (recs (en_log (rn_engine r0)) d)" using assms(5) [OF r0(1)] by blast
  have zero: "counted hs (\<lambda>_. 0) = count_list hs" for hs by (simp add: counted_def fun_eq_iff)
  note start = einv_start [OF assms(1,2) r0(1) none]
  show "\<exists>E. einv (distinct (concat (map event_emits es))) {} E (count_list (concat (map event_handles es))) (rn_engine r)"
    "dispatched v (rn_engine r)" "stopped_clean r"
    using einv_run [OF start(1,2) assms(4) _ r0(2), of "distinct (concat (map event_emits es))"]
    unfolding zero by auto
qed

lemma run_ends:
  assumes e: "einv u {} E H (rn_engine r)" and "rn_deadline r = Some t"
    and "t \<le> tt_monotonic (ee_clock v (en_ticks (rn_engine r)))"
  shows "\<exists>r'. loop_select v LoopTimer r = Some r' \<and> loop_done (r'\<lparr>rn_engine := loop_top v (rn_engine r')\<rparr>)"
proof -
  let ?s = "process_drain_deadlines v (process_retry_deadlines v (rn_engine r))"
  have "steady_clock v" using e by (simp add: engine_inv_def)
  then have "tt_monotonic (ee_clock v (en_ticks (rn_engine r))) \<le> tt_monotonic (ee_clock v (en_ticks ?s))"
    using einv_timer(2) [OF e] by (simp add: steady_clock_def mono_def)
  with assms(3) have "t \<le> tt_monotonic (ee_clock v (en_ticks ?s))" by simp
  moreover have "next_deadline (rn_deadline r) (rn_engine r) \<noteq> None"
    using assms(2) by (auto simp: next_deadline_def split: list.split)
  ultimately have sel: "loop_select v LoopTimer r =
      Some (r\<lparr>rn_engine := expire_shutdown v (?s\<lparr>en_ticks := en_ticks ?s + 1\<rparr>)\<rparr>)"
    using assms(2) by (simp add: loop_select_def read_clock_def Let_def)
  note x = einv_expire [OF einv_tick [OF einv_timer(1) [OF e]]]
  have "queues_wf (expire_shutdown v (?s\<lparr>en_ticks := en_ticks ?s + 1\<rparr>))"
    using x(1) by (simp add: engine_inv_def scheduled_def)
  from dispatch_empty [OF this x(2)] x(3) sel assms(2) show ?thesis by (auto simp: loop_done_def)
qed

end

text \<open>What the invariant says once the loop has ended.\<close>

lemma inv_ended:
  assumes "engine_inv v linv recs u X E H (rn_engine r)" and "stopped_clean r" and "loop_done r"
  shows "answers (rn_engine r) h = H h"
    "pending (recs (en_log (rn_engine r)) d) \<Longrightarrow> \<exists>x. fmlookup (en_overrides (rn_engine r)) d = Some x \<and>
       is_terminal (dr_state x) \<and> en_degraded (rn_engine r)"
proof -
  note e = assms(1) [unfolded engine_inv_def]
  have "awaiting (rn_engine r) h = 0"
    using assms(2,3) by (auto simp: awaiting_def loop_done_def stopped_clean_def)
  then show "answers (rn_engine r) h = H h" using e unfolding answered_def by (metis add.right_neutral)
  assume "pending (recs (en_log (rn_engine r)) d)"
  with e assms(3) loggedD(4,5) [of "recs (en_log (rn_engine r))" "rn_engine r" d]
  show "\<exists>x. fmlookup (en_overrides (rn_engine r)) d = Some x \<and> is_terminal (dr_state x) \<and> en_degraded (rn_engine r)"
    by (auto simp: loop_done_def)
qed

section \<open>What the invariant says\<close>

definition entries :: "('k, 'v) fmap \<Rightarrow> ('v \<Rightarrow> bool) \<Rightarrow> 'k set" where
  "entries m P = {k. \<exists>x. fmlookup m k = Some x \<and> P x}"

lemma entries_dom: "entries m P = {k \<in> fset (fmdom m). P (the (fmlookup m k))}"
  by (auto simp: entries_def fmlookup_dom_iff)

lemma fm_sum_entries: "fm_sum (\<lambda>x. if P x then g x else 0) m = (\<Sum>k\<in>entries m P. g (the (fmlookup m k)))"
  unfolding fm_sum_def entries_dom by (rule sum.inter_filter [symmetric]) simp

lemma fm_sum_card: "fm_sum (\<lambda>x. of_bool (P x)) m = card (entries m P)"
  using fm_sum_entries [of P "\<lambda>_. 1" m] by (simp add: of_bool_def)

lemma fm_sum_all: "fm_sum (\<lambda>_. 1) m = card (entries m (\<lambda>_. True))"
  using fm_sum_card [of "\<lambda>_. True" m] by simp

lemma fcard_entries: "fcard (fmdom m) = card (entries m (\<lambda>_. True))"
proof -
  have "fset (fmdom m) = entries m (\<lambda>_. True)" by (auto simp: entries_def fmlookup_dom_iff)
  then show ?thesis by (simp add: fcard.rep_eq)
qed

lemma accounts_exact:
  assumes "accounts s"
  shows "en_global_pending s = card (entries (en_active s) (\<lambda>_. True))"
    "en_global_bytes s = (\<Sum>d\<in>entries (en_active s) (\<lambda>_. True). bytes_of (the (fmlookup (en_active s) d)))"
    "en_global_in_flight s = card (entries (en_active s) ad_abort)"
    "us_pending (usage_of s route) = card (entries (en_active s) (\<lambda>a. route_of a = route))"
    "us_bytes (usage_of s route) =
       (\<Sum>d\<in>entries (en_active s) (\<lambda>a. route_of a = route). bytes_of (the (fmlookup (en_active s) d)))"
    "us_in_flight (usage_of s route) = card (entries (en_active s) (\<lambda>a. route_of a = route \<and> ad_abort a))"
    "us_calls (usage_of s route) = card (entries (en_calls s) (\<lambda>a. route_of a = route))"
  using assms fm_sum_entries [of "\<lambda>_. True" bytes_of "en_active s"] unfolding accounts_def
  by (simp_all add: fm_sum_card fm_sum_all [simplified] fm_sum_entries tally_def)

end
