(* ===== verification/Host_Egress.thy ===== *)
theory Host_Egress
  imports Egress_Life Memory_Log Host_Delivery
begin

text \<open>
  Egress delivery as a host runs it: the retry schedule of one delivery, and the runtime over the
  process-local and over the persistent delivery log. The locale \<open>egress_host\<close> is interpreted on both.
\<close>

section \<open>The retry schedule\<close>

text \<open>A lifecycle through the events it meets; a refused event leaves it as it is.\<close>

fun life_run :: "delivery_lifecycle \<Rightarrow> (transition_time \<times> delivery_event) list \<Rightarrow> delivery_lifecycle" where
  "life_run lc [] = lc"
| "life_run lc ((time, event) # rest) =
     life_run (case life_transition lc time event of None \<Rightarrow> lc | Some (step, lc') \<Rightarrow> lc') rest"

definition life_ok :: "retry_policy \<Rightarrow> delivery_lifecycle \<Rightarrow> bool" where
  "life_ok p lc \<longleftrightarrow> lc_retry lc = p \<and>
     (case lc_state lc of
        LsReady \<Rightarrow> lc_attempts lc = 0
      | LsInFlight \<Rightarrow> 1 \<le> lc_attempts lc \<and> lc_attempts lc \<le> rp_retries p + 1
      | LsWaitingRetry _ \<Rightarrow> 1 \<le> lc_attempts lc \<and> lc_attempts lc \<le> rp_retries p
      | LsTerminal \<Rightarrow> lc_attempts lc \<le> rp_retries p + 1)"

lemma life_ok_bounds: "life_ok p lc \<Longrightarrow> lc_attempts lc \<le> rp_retries p + 1"
  by (auto simp: life_ok_def split: life_state.splits)

lemma life_ok_terminal: "lc_retry lc = p \<Longrightarrow> lc_attempts lc \<le> rp_retries p + 1 \<Longrightarrow> life_ok p (lc\<lparr>lc_state := LsTerminal\<rparr>)"
  by (simp add: life_ok_def)

lemma life_ok_transition:
  assumes "life_ok p lc" and "rp_retries p \<le> 16" and "life_transition lc time e = Some (step, lc')"
  shows "life_ok p lc'"
proof (cases e)
  case EvDrive
  with assms show ?thesis
    by (cases "lc_state lc")
      (auto simp: life_transition_def life_drive_def life_start_attempt_def life_ok_def u16_max_def Let_def
        split: if_splits)
next
  case (EvRetryable f)
  with assms show ?thesis
    by (cases "lc_state lc")
      (auto simp: life_transition_def life_terminal_def life_ok_def Let_def split: if_splits)
qed (use assms life_ok_bounds [OF assms(1)] in
    \<open>auto simp: life_transition_def life_terminal_def life_ok_def split: if_splits\<close>)

lemma life_ok_run: "life_ok p lc \<Longrightarrow> rp_retries p \<le> 16 \<Longrightarrow> life_ok p (life_run lc evs)"
proof (induction evs arbitrary: lc)
  case (Cons x evs)
  obtain time e where x: "x = (time, e)" by fastforce
  show ?case
  proof (cases "life_transition lc time e")
    case (Some y)
    with Cons.IH [OF life_ok_transition [OF Cons.prems(1,2)] Cons.prems(2)] x show ?thesis by (cases y) simp
  qed (use Cons x in simp)
qed simp

lemma retryable_waits:
  assumes "life_ok p lc" and "life_transition lc time (EvRetryable f) = Some (step, lc')" and "sp_action step = ActWait"
  shows "1 \<le> lc_attempts lc" "lc_attempts lc \<le> rp_retries p"
    "sp_next_deadline step = Some (instant_saturating_add (tt_monotonic time) (retry_delay lc (lc_attempts lc)))"
    "lc_state lc' = LsWaitingRetry (instant_saturating_add (tt_monotonic time) (retry_delay lc (lc_attempts lc)))"
  using assms
  by (auto simp: life_transition_def life_terminal_def life_ok_def Let_def split: if_splits)

lemma instant_add_mono: "a \<le> b \<Longrightarrow> instant_saturating_add t a \<le> instant_saturating_add t b"
  by (simp add: instant_saturating_add_def min.coboundedI2)

text \<open>C37 (bounds): the retry schedule of a delivery. Whatever events it meets, a delivery makes at most one attempt
  more than its policy has retries. When an attempt fails in a way that may be retried, either the delivery
  ends or the next attempt waits: at least four fifths and at most six fifths of the exponential step of its
  policy, and never longer than the cap of the policy.\<close>

theorem retry_schedule:
  assumes "RetryPolicy_new retries base cap = Ok p"
    and "life_run (DeliveryLifecycle_new route d p) evs = lc" and "min (base * 2 ^ (lc_attempts lc - 1)) cap = e"
  shows "lc_attempts lc \<le> retries + 1 \<and>
    (\<forall>time f step lc'. life_transition lc time (EvRetryable f) = Some (step, lc') \<and> sp_action step = ActWait \<longrightarrow>
       (\<exists>deadline. sp_next_deadline step = Some deadline \<and> lc_state lc' = LsWaitingRetry deadline \<and>
          instant_saturating_add (tt_monotonic time) (e * 4 div 5) \<le> deadline \<and>
          deadline \<le> instant_saturating_add (tt_monotonic time) (min cap (e * 6 div 5))))"
proof -
  have p: "p = \<lparr>rp_retries = retries, rp_base = base, rp_cap = cap\<rparr>" and r: "retries \<le> 16"
    using assms(1) by (auto simp: RetryPolicy_new_def split: if_splits)
  have "life_ok p (DeliveryLifecycle_new route d p)" by (simp add: life_ok_def DeliveryLifecycle_new_def)
  then have ok: "life_ok p lc" unfolding assms(2) [symmetric] using r p by (intro life_ok_run) simp_all
  then have policy: "RetryPolicy_new retries base cap = Ok (lc_retry lc)" using assms(1) by (simp add: life_ok_def)
  have "\<exists>deadline. sp_next_deadline step = Some deadline \<and> lc_state lc' = LsWaitingRetry deadline \<and>
      instant_saturating_add (tt_monotonic time) (e * 4 div 5) \<le> deadline \<and>
      deadline \<le> instant_saturating_add (tt_monotonic time) (min cap (e * 6 div 5))"
    if "life_transition lc time (EvRetryable f) = Some (step, lc')" "sp_action step = ActWait" for time f step lc'
  proof -
    note w = retryable_waits [OF ok that]
    then have n: "1 \<le> lc_attempts lc" "lc_attempts lc \<le> 17" using r p by simp_all
    from retry_delay_bounds [OF policy n, unfolded assms(3)] w(3,4) show ?thesis
      using instant_add_mono by metis
  qed
  with life_ok_bounds [OF ok] p show ?thesis by auto
qed

theorem retry_schedule_witness:
  "\<exists>p. RetryPolicy_new 3 (from_secs 1) (from_secs 60) = Ok p \<and>
     (let time = \<lparr>tt_monotonic = from_secs 7, tt_unix_ms = 9\<rparr>;
          lc = life_run (DeliveryLifecycle_new (lit ''r'') (lit ''d'') p) [(time, EvDrive)]
      in lc_attempts lc = 1 \<and>
         (\<exists>step lc' deadline. life_transition lc time (EvRetryable RfTransportUnavailable) = Some (step, lc') \<and>
            sp_next_deadline step = Some deadline \<and> from_secs 7 + 800000000 \<le> deadline \<and>
            deadline \<le> from_secs 7 + 1200000000))"
proof -
  let ?p = "\<lparr>rp_retries = 3, rp_base = from_secs 1, rp_cap = from_secs 60\<rparr>"
  let ?time = "\<lparr>tt_monotonic = from_secs 7, tt_unix_ms = 9\<rparr>"
  let ?lc = "life_run (DeliveryLifecycle_new (lit ''r'') (lit ''d'') ?p) [(?time, EvDrive)]"
  have p: "RetryPolicy_new 3 (from_secs 1) (from_secs 60) = Ok ?p"
    by (simp add: RetryPolicy_new_def from_secs_def)
  have one: "lc_attempts ?lc = 1"
    by (simp add: DeliveryLifecycle_new_def life_transition_def life_drive_def life_start_attempt_def u16_max_def)
  obtain step lc' where run: "life_transition ?lc ?time (EvRetryable RfTransportUnavailable) = Some (step, lc')"
      "sp_action step = ActWait"
    by (simp add: DeliveryLifecycle_new_def life_transition_def life_drive_def life_start_attempt_def u16_max_def
        Let_def)
  obtain deadline where d: "sp_next_deadline step = Some deadline"
    "instant_saturating_add (tt_monotonic ?time)
       (min (from_secs 1 * 2 ^ (lc_attempts ?lc - 1)) (from_secs 60) * 4 div 5) \<le> deadline"
    "deadline \<le> instant_saturating_add (tt_monotonic ?time)
       (min (from_secs 60) (min (from_secs 1 * 2 ^ (lc_attempts ?lc - 1)) (from_secs 60) * 6 div 5))"
    using retry_schedule [OF p refl refl, THEN conjunct2, rule_format, OF conjI [OF run]] by blast
  have "from_secs 7 + 800000000 \<le> deadline" "deadline \<le> from_secs 7 + 1200000000"
    using d(2,3) unfolding one by (simp_all add: instant_saturating_add_def from_secs_def duration_max_def)
  with p one run d(1) show ?thesis unfolding Let_def by blast
qed

section \<open>The runtime over the logs of the host\<close>

interpretation memory_egress: egress_host "v\<lparr>ee_log := memory_delivery_log\<rparr>" memory_log_inv memory_recs "\<lambda>_. True" for v
  unfolding egress_host_def using memory_log.delivery_log_contract_axioms by simp

interpretation sql_egress: egress_host "v\<lparr>ee_log := sql_delivery_log limits\<rparr>" "sql_delivery_inv limits"
  sql_del_recs valid_intent for v limits
  unfolding egress_host_def using sql_log.delivery_log_contract_axioms by simp

lemma memory_start_plain:
  assumes "runtime_start (v\<lparr>ee_log := memory_delivery_log\<rparr>) reg (InMemoryDeliveryLog_new n) = Inr r"
  shows "\<not> pending (memory_recs (en_log (rn_engine r)) d)"
  using assms
  by (auto simp: runtime_start_def memory_delivery_log_def Engine_new_def memory_recs_def InMemoryDeliveryLog_new_def)

lemma sql_start_plain:
  assumes "sql_delivery_inv limits c" and "runtime_start (v\<lparr>ee_log := sql_delivery_log limits\<rparr>) reg c = Inr r"
  shows "\<not> pending (sql_del_recs (en_log (rn_engine r)) d)"
proof -
  obtain n c' where "sql_recover_unfinished c (tt_unix_ms (ee_clock v 0)) = (Inr n, c')" "en_log (rn_engine r) = c'"
    using assms(2)
    by (auto simp: runtime_start_def Engine_new_def sql_delivery_log_def split: prod.splits sum.splits)
  with sql_recover_result(2) [OF assms(1)] show ?thesis by metis
qed

section \<open>Properties of the runtime\<close>

text \<open>C39 (invariant): the accounts of the egress engine over the process-local log are exact and within their
  limits whenever it waits, whatever commands, completions, panics, timers and shutdown it met, given that the
  monotonic clock does not go back and lengths of results fit the 32-bit field they have in the code. The number and the bytes of the pending deliveries, the attempts in flight and the calls, in total and per
  route, are those of the deliveries and calls it holds, and pending deliveries, their bytes, attempts in
  flight and calls never exceed the configured limits. The limit of a route on attempts in flight holds as
  well when no identifier is emitted twice.\<close>

theorem egress_limits:
  assumes "steady_clock v" and "ee_log v = memory_delivery_log" and "InMemoryDeliveryLogLimit_new n = Ok limit"
    and "egress_reach v reg (InMemoryDeliveryLog_new limit) es r" and "list_all (event_valid (\<lambda>_. True)) es"
    and "rn_engine r = s"
  shows "en_global_pending s = card (entries (en_active s) (\<lambda>_. True)) \<and>
    en_global_pending s \<le> rl_global_pending_deliveries (ee_limits v) \<and>
    en_global_bytes s = (\<Sum>d\<in>entries (en_active s) (\<lambda>_. True). bytes_of (the (fmlookup (en_active s) d))) \<and>
    en_global_bytes s \<le> rl_global_pending_bytes (ee_limits v) \<and>
    en_global_in_flight s = card (entries (en_active s) ad_abort) \<and>
    en_global_in_flight s \<le> rl_global_in_flight (ee_limits v) \<and>
    card (entries (en_calls s) (\<lambda>_. True)) \<le> rl_call_in_flight (ee_limits v) \<and>
    (\<forall>route.
       us_pending (usage_of s route) = card (entries (en_active s) (\<lambda>a. route_of a = route)) \<and>
       us_pending (usage_of s route) \<le> rl_route_pending_deliveries (ee_limits v) \<and>
       us_bytes (usage_of s route) =
         (\<Sum>d\<in>entries (en_active s) (\<lambda>a. route_of a = route). bytes_of (the (fmlookup (en_active s) d))) \<and>
       us_bytes (usage_of s route) \<le> rl_route_pending_bytes (ee_limits v) \<and>
       us_in_flight (usage_of s route) = card (entries (en_active s) (\<lambda>a. route_of a = route \<and> ad_abort a)) \<and>
       us_calls (usage_of s route) = card (entries (en_calls s) (\<lambda>a. route_of a = route))) \<and>
    (distinct (concat (map event_emits es)) \<longrightarrow>
       (\<forall>route. us_in_flight (usage_of s route) \<le> rl_route_in_flight (ee_limits v)))"
proof -
  have v: "v\<lparr>ee_log := memory_delivery_log\<rparr> = v" using assms(2) by simp
  obtain E where e: "engine_inv v memory_log_inv memory_recs (distinct (concat (map event_emits es))) {} E
      (count_list (concat (map event_handles es))) s"
    using memory_egress.reach_inv(1) [where v = v, unfolded v, OF assms(1) memory_log_inv_new [OF assms(3)] assms(4,5)]
      memory_start_plain [of v reg limit, unfolded v] assms(6) by blast
  then have "accounts s" by (simp add: engine_inv_def)
  note acc = accounts_exact [OF this]
  have lim: "within_limits v s" and rt: "distinct (concat (map event_emits es)) \<longrightarrow> routed v E s"
    using e by (simp_all add: engine_inv_def)
  show ?thesis
    using lim rt acc unfolding within_limits_def routed_def fcard_entries by blast
qed

text \<open>C38 (liveness): no accepted delivery is forgotten, given a monotonic clock and commands with valid
  identifiers. Whenever the runtime over the persistent log waits, also after failures of the database, the log has a delivery as pending and no overriding result is kept for it
  exactly when the engine holds it, as a delivery or as a call and never as both. Every call held is in
  flight. Every delivery held is attended to: it is in flight, or it waits for a retry that the timer will
  not miss, or the attempts in flight of the runtime or of its route are at their limit, so that the end of
  one of them will make room. While the log has not failed, no overriding results exist.\<close>

theorem egress_no_delivery_lost:
  assumes "steady_clock v" and "ee_log v = sql_delivery_log limits" and "sql_delivery_inv limits c"
    and "egress_reach v reg c es r" and "list_all (event_valid valid_intent) es" and "rn_engine r = s"
  shows "(\<forall>d. pending (sql_del_recs (en_log s) d) \<and> fmlookup (en_overrides s) d = None \<longleftrightarrow>
      (fmlookup (en_active s) d = None) \<noteq> (fmlookup (en_calls s) d = None)) \<and>
    (\<forall>d a. fmlookup (en_calls s) d = Some a \<longrightarrow> ad_abort a) \<and>
    (\<forall>d a. fmlookup (en_active s) d = Some a \<longrightarrow> attended v r d a) \<and>
    (\<not> en_degraded s \<longrightarrow> en_overrides s = fmempty)"
proof -
  have v: "v\<lparr>ee_log := sql_delivery_log limits\<rparr> = v" using assms(2) by simp
  note reach = sql_egress.reach_inv [where v = v and limits = limits, unfolded v, OF assms(1,3-5)]
  note plain = sql_start_plain [of limits c v reg, unfolded v, OF assms(3)]
  obtain E where e: "engine_inv v (sql_delivery_inv limits) sql_del_recs (distinct (concat (map event_emits es))) {} E
      (count_list (concat (map event_handles es))) (rn_engine r)"
    using reach(1) plain by blast
  have att: "attended v r d a" if "fmlookup (en_active s) d = Some a" for d a
    using inv_attended [OF e reach(2)] plain that assms(6) by blast
  have lg: "logged (sql_del_recs (en_log s)) s" and calls: "\<And>d a. fmlookup (en_calls s) d = Some a \<Longrightarrow> ad_abort a"
    using e assms(6) by (auto simp: engine_inv_def scheduled_def)
  have "pending (sql_del_recs (en_log s) d) \<and> fmlookup (en_overrides s) d = None \<longleftrightarrow>
      (fmlookup (en_active s) d = None) \<noteq> (fmlookup (en_calls s) d = None)" for d
    using loggedD [OF lg, of d] tracked_pending [of "sql_del_recs (en_log s)" d]
    by (cases "fmlookup (en_active s) d"; cases "fmlookup (en_calls s) d"; cases "fmlookup (en_overrides s) d") auto
  moreover have "en_overrides s = fmempty" if "\<not> en_degraded s"
    using logged_no_overrides [OF lg that] by (intro fmap_ext) simp
  ultimately show ?thesis using att calls by blast
qed

text \<open>C40 (liveness): shutdown ends, given a monotonic clock and commands with valid identifiers. Once the
  runtime over the persistent log is stopping and the clock has passed the shutdown deadline, the loop is over, at once or after the next turn of its timer. Then every command
  ever received has been answered exactly once, those that were refused included, and no delivery is left
  pending: the log has its outcome, or the log failed and the engine keeps the outcome.\<close>

theorem egress_shutdown:
  assumes "steady_clock v" and "ee_log v = sql_delivery_log limits" and "sql_delivery_inv limits c"
    and "egress_reach v reg c es r" and "list_all (event_valid valid_intent) es"
    and "rn_deadline r = Some t" and "t \<le> tt_monotonic (ee_clock v (en_ticks (rn_engine r)))"
  shows "\<exists>r'. (if loop_done r then r' = r else egress_reach v reg c (es @ [LoopTimer]) r') \<and> loop_done r' \<and>
    (\<forall>h. answers (rn_engine r') h = count_list (concat (map event_handles es)) h) \<and>
    (\<forall>d. pending (sql_del_recs (en_log (rn_engine r')) d) \<longrightarrow> en_degraded (rn_engine r') \<and>
       (\<exists>x. fmlookup (en_overrides (rn_engine r')) d = Some x \<and> is_terminal (dr_state x)))"
proof -
  have v: "v\<lparr>ee_log := sql_delivery_log limits\<rparr> = v" using assms(2) by simp
  note plain = sql_start_plain [of limits c v reg, unfolded v, OF assms(3)]
  note reach = sql_egress.reach_inv [where v = v and limits = limits, unfolded v, OF assms(1,3) _ _ plain]
  have ended: "(\<forall>h. answers (rn_engine r') h = count_list (concat (map event_handles es)) h) \<and>
      (\<forall>d. pending (sql_del_recs (en_log (rn_engine r')) d) \<longrightarrow> en_degraded (rn_engine r') \<and>
         (\<exists>x. fmlookup (en_overrides (rn_engine r')) d = Some x \<and> is_terminal (dr_state x)))"
    if h: "egress_reach v reg c es' r'" "list_all (event_valid valid_intent) es'" "loop_done r'"
      "concat (map event_handles es') = concat (map event_handles es)" for es' r'
  proof -
    obtain E where "engine_inv v (sql_delivery_inv limits) sql_del_recs (distinct (concat (map event_emits es'))) {} E
      (count_list (concat (map event_handles es))) (rn_engine r')"
      using reach(1) [OF h(1,2)] h(4) by auto
    note inv_ended [OF this reach(3) [OF h(1,2)] h(3)]
    then show ?thesis by blast
  qed
  show ?thesis
  proof (cases "loop_done r")
    case True
    with ended [OF assms(4,5)] show ?thesis by auto
  next
    case False
    obtain E where e: "engine_inv v (sql_delivery_inv limits) sql_del_recs (distinct (concat (map event_emits es))) {} E
      (count_list (concat (map event_handles es))) (rn_engine r)"
      using reach(1) [OF assms(4,5)] by blast
    obtain r1 where r1: "loop_select v LoopTimer r = Some r1" "loop_done (r1\<lparr>rn_engine := loop_top v (rn_engine r1)\<rparr>)"
      using sql_egress.run_ends [where v = v and limits = limits, unfolded v, OF e assms(6,7)] by blast
    have "egress_reach v reg c (es @ [LoopTimer]) (r1\<lparr>rn_engine := loop_top v (rn_engine r1)\<rparr>)"
      using assms(4) False r1(1) by (auto simp: egress_reach_def runtime_run_snoc)
    with ended [OF this] assms(5) r1(2) False show ?thesis by auto
  qed
qed

section \<open>Concrete runs\<close>

text \<open>A registered route, an emitted event, and a clock that moves a second with every reading.\<close>

definition emit_route :: egress_route where
  "emit_route = \<lparr>er_id = lit ''r'', er_enabled = True, er_payload = \<lparr>pc_fields = fmempty, pc_limit = 64\<rparr>,
     er_timeout = from_secs 5, er_retry = \<lparr>rp_retries = 3, rp_base = from_secs 1, rp_cap = from_secs 60\<rparr>,
     er_admission = \<lparr>al_refill_per_second = 1, al_capacity = 8\<rparr>,
     er_kind = \<lparr>dk_name = lit ''http'', dk_target_summary = [], dk_supports_call = False,
       dk_permits_automatic_retry = True, dk_max_payload_bytes = 1024, dk_validate_payload = (\<lambda>_ _. Ok ())\<rparr>\<rparr>"

definition egress_env :: "'l delivery_log \<Rightarrow> 'l engine_env" where
  "egress_env l =
     \<lparr>ee_limits = \<lparr>rl_global_pending_deliveries = 16, rl_route_pending_deliveries = 16,
        rl_global_pending_bytes = 1048576, rl_route_pending_bytes = 65536, rl_global_in_flight = 1,
        rl_route_in_flight = 1, rl_call_in_flight = 1, rl_drain_timeout = from_secs 1\<rparr>,
      ee_log = l, ee_parse = (\<lambda>_. Some (JObject [])),
      ee_clock = (\<lambda>k. \<lparr>tt_monotonic = from_secs k, tt_unix_ms = k\<rparr>)\<rparr>"

definition egress_registry :: route_registry where
  "egress_registry = RouteRegistry_new 4 \<lparr>al_refill_per_second = 1, al_capacity = 8\<rparr>"

definition egress_commands :: "loop_event list" where
  "egress_commands = [LoopCommand (CmdRegister emit_route 1), LoopCommand (CmdEmit (lit ''r'') (lit ''d'') [] 2)]"

lemma egress_env_steady: "steady_clock (egress_env l)"
  by (simp add: steady_clock_def mono_def egress_env_def from_secs_def)

lemma egress_commands_simps [simp]:
  "concat (map event_handles egress_commands) = [1, 2]" "concat (map event_emits egress_commands) = [lit ''d'']"
  by (simp_all add: egress_commands_def)

lemma egress_commands_valid: "list_all (event_valid valid_intent) egress_commands"
    "list_all (event_valid (\<lambda>_. True)) egress_commands"
  by (simp_all add: egress_commands_def command_ok_def valid_intent_def valid_identifier_def lit_def of_char_def
      is_allowed_def is_ascii_alphanumeric_def)

text \<open>The engine a run starts from, with the clock read \<open>k\<close> times.\<close>

abbreviation egress_fresh :: "'l \<Rightarrow> nat \<Rightarrow> 'l engine" where
  "egress_fresh l k \<equiv> (Engine_new egress_registry l)\<lparr>en_ticks := k\<rparr>"

text \<open>The record that the emitted event asks the log for.\<close>

abbreviation egress_intent :: "nat \<Rightarrow> delivery_intent" where
  "egress_intent k \<equiv> \<lparr>di_route = lit ''r'', di_delivery = lit ''d'', di_accepted_at = k\<rparr>"

lemma dispatch_idle: "en_ready_routes s = [] \<Longrightarrow> dispatch_ready v s = s"
  by (simp add: dispatch_ready.simps [of v s] take_fair_ready_def)

lemma dispatch_one:
  "en_global_in_flight s < rl_global_in_flight (ee_limits v) \<Longrightarrow> take_fair_ready v s = (Some d, s') \<Longrightarrow>
     dispatch_ready v s = dispatch_ready v (start_attempt v d s')"
  by (simp add: dispatch_ready.simps [of v s])

lemma top_idle:
  "en_ready_routes s = [] \<Longrightarrow> en_drains s = fmempty \<Longrightarrow> en_retries s = [] \<Longrightarrow> loop_top v s = s"
  by (simp add: loop_top_def dispatch_idle complete_empty_drains_def discard_stale_retries_def sorted_list_of_fset.rep_eq)

lemma egress_registered:
  obtains reg where "route_register emit_route egress_registry = (Ok (), reg)"
    and "handle_command (egress_env L) (CmdRegister emit_route 1) (egress_fresh l k) =
      (egress_fresh l k)\<lparr>en_registry := reg, en_sent := [(1, ReplyUnit (Ok ()))]\<rparr>"
  by (simp add: handle_command_def route_register_def egress_registry_def RouteRegistry_new_def emit_route_def
      send_def Engine_new_def fcard_fempty)

lemma egress_admitted:
  assumes "route_register emit_route egress_registry = (Ok (), reg)"
  shows "\<exists>parts reg'. route_admit (\<lambda>_. Some (JObject [])) (lit ''r'') (lit ''d'') [] ModeEmit now reg = (Ok parts, reg') \<and>
    ap_payload parts = [] \<and> ap_route parts = lit ''r'' \<and> ap_delivery parts = lit ''d''"
  using assms
  by (auto simp: route_register_def egress_registry_def RouteRegistry_new_def emit_route_def fcard_fempty
      route_admit_def payload_validate_def sorted_list_of_fset.rep_eq TokenBucket_new_def bucket_refill_def
      has_token_def TOKEN_UNITS_def u128_max_def Let_def ok_or_def)

text \<open>An engine that holds one delivery, ready on its own route.\<close>

definition one_ready :: "delivery_id \<Rightarrow> route_id \<Rightarrow> 'l engine \<Rightarrow> bool" where
  "one_ready d r s \<longleftrightarrow>
     (\<exists>a. en_active s = fmupd d a fmempty \<and> \<not> ad_abort a \<and> lc_state (ad_lifecycle a) = LsReady \<and>
        lc_delivery (ad_lifecycle a) = d \<and> lc_attempts (ad_lifecycle a) = 0 \<and> ap_route (ad_parts a) = r) \<and>
     en_ready s = fmupd r [d] fmempty \<and> en_ready_routes s = [r] \<and> en_retries s = [] \<and> en_drains s = fmempty \<and>
     en_global_in_flight s = 0 \<and> us_in_flight (usage_of s r) = 0"

lemma egress_emitted:
  assumes "route_register emit_route egress_registry = (Ok (), reg)"
    and "dlog_insert_intent L l (egress_intent k) = (Ok (), l1)"
    and "s = handle_command (egress_env L) (CmdEmit (lit ''r'') (lit ''d'') [] 2)
      ((egress_fresh l k)\<lparr>en_registry := reg, en_sent := x\<rparr>)"
  shows "one_ready (lit ''d'') (lit ''r'') s" and "en_log s = l1" and "en_ticks s = k + 1"
proof -
  obtain parts reg' where "ap_payload parts = []" "ap_route parts = lit ''r''" "ap_delivery parts = lit ''d''"
    "route_admit (\<lambda>_. Some (JObject [])) (lit ''r'') (lit ''d'') [] ModeEmit (from_secs k) reg = (Ok parts, reg')"
    using egress_admitted [OF assms(1)] by blast
  note emit = this assms(2) handle_command_def admit_emit_def Engine_new_def read_clock_def egress_env_def Let_def
    check_pending_capacity_def usage_of_def persist_def admitted_intent_def enqueue_ready_def send_def
    DeliveryLifecycle_new_def one_ready_def
  show "one_ready (lit ''d'') (lit ''r'') s"
    unfolding assms(3) by (simp add: emit) (rule exI, rule conjI [OF refl], simp add: emit)
  show "en_log s = l1" "en_ticks s = k + 1" unfolding assms(3) by (simp_all add: emit)
qed

lemma egress_attempted:
  assumes "one_ready d r s" and "dlog_record_attempt L (en_log s) d 1 (en_ticks s) = (Ok (), l2)"
  shows "en_global_in_flight (loop_top (egress_env L) s) = 1"
    and "fmlookup (en_active (loop_top (egress_env L) s)) d \<noteq> None"
proof -
  let ?v = "egress_env L" and ?s = "s\<lparr>en_ready_routes := [], en_ready := fmdrop r (en_ready s)\<rparr>"
  obtain a where a: "en_active s = fmupd d a fmempty" "\<not> ad_abort a" "lc_state (ad_lifecycle a) = LsReady"
    "lc_delivery (ad_lifecycle a) = d" "lc_attempts (ad_lifecycle a) = 0" "ap_route (ad_parts a) = r"
    "en_ready s = fmupd r [d] fmempty" "en_ready_routes s = [r]" "en_retries s = []" "en_drains s = fmempty"
    "en_global_in_flight s = 0" "us_in_flight (usage_of s r) = 0"
    using assms(1) unfolding one_ready_def by (elim exE conjE)
  have take: "take_fair_ready ?v s = (Some d, ?s)"
    using a by (simp add: take_fair_ready_def fair_loop.simps Let_def startable_def egress_env_def)
  have start: "en_global_in_flight (start_attempt ?v d ?s) = 1 \<and> fmlookup (en_active (start_attempt ?v d ?s)) d \<noteq> None"
    using a assms(2) by (simp add: start_attempt_def read_clock_def life_transition_def life_drive_def
        life_start_attempt_def Let_def u16_max_def persist_def with_lifecycle_def egress_env_def)
  have "dispatch_ready ?v s = start_attempt ?v d ?s"
    using dispatch_one [OF _ take] a start dispatch_idle [of "start_attempt ?v d ?s" ?v] queues_start [of ?v d ?s]
    by (simp add: egress_env_def queues_def)
  with start show "en_global_in_flight (loop_top ?v s) = 1" "fmlookup (en_active (loop_top ?v s)) d \<noteq> None"
    by (simp_all add: loop_top_def)
qed

text \<open>After both commands the event is in flight.\<close>

lemma egress_commands_reach:
  assumes start: "runtime_start (egress_env L) egress_registry l0 = Ok \<lparr>rn_engine = egress_fresh l k, rn_deadline = None\<rparr>"
    and ins: "dlog_insert_intent L l (egress_intent k) = (Ok (), l1)"
    and att: "dlog_record_attempt L l1 (lit ''d'') 1 (k + 1) = (Ok (), l2)"
  obtains r where "egress_reach (egress_env L) egress_registry l0 egress_commands r" and "rn_deadline r = None"
    and "en_global_in_flight (rn_engine r) = 1" and "fmlookup (en_active (rn_engine r)) (lit ''d'') \<noteq> None"
proof -
  let ?v = "egress_env L"
  obtain reg where reg: "route_register emit_route egress_registry = (Ok (), reg)"
    and h: "handle_command ?v (CmdRegister emit_route 1) (egress_fresh l k) =
      (egress_fresh l k)\<lparr>en_registry := reg, en_sent := [(1, ReplyUnit (Ok ()))]\<rparr>"
    by (rule egress_registered)
  let ?s1 = "(egress_fresh l k)\<lparr>en_registry := reg, en_sent := [(1, ReplyUnit (Ok ()))]\<rparr>"
  let ?s2 = "handle_command ?v (CmdEmit (lit ''r'') (lit ''d'') [] 2) ?s1"
  have idle: "loop_top ?v (egress_fresh l k) = egress_fresh l k" "loop_top ?v ?s1 = ?s1"
    by (rule top_idle; simp add: Engine_new_def)+
  have run: "runtime_run ?v egress_commands \<lparr>rn_engine = egress_fresh l k, rn_deadline = None\<rparr> =
      Some \<lparr>rn_engine = loop_top ?v ?s2, rn_deadline = None\<rparr>"
    by (simp add: egress_commands_def loop_done_def loop_select_def h idle del: One_nat_def)
  note s2 = egress_emitted [OF reg ins refl, of "[(1, ReplyUnit (Ok ()))]"]
  have "dlog_record_attempt L (en_log ?s2) (lit ''d'') 1 (en_ticks ?s2) = (Ok (), l2)" using att s2(2,3) by simp
  note busy = egress_attempted [OF s2(1) this]
  show thesis
    by (rule that [of "\<lparr>rn_engine = loop_top ?v ?s2, rn_deadline = None\<rparr>"])
      (use start run busy in \<open>auto simp: egress_reach_def\<close>)
qed

lemma memory_commands_reach:
  obtains r where "egress_reach (egress_env memory_delivery_log) egress_registry (InMemoryDeliveryLog_new 64) egress_commands r"
    and "en_global_in_flight (rn_engine r) = 1" and "fmlookup (en_active (rn_engine r)) (lit ''d'') \<noteq> None"
proof -
  let ?L = memory_delivery_log and ?l = "InMemoryDeliveryLog_new 64"
  have "runtime_start (egress_env ?L) egress_registry ?l = Ok \<lparr>rn_engine = egress_fresh ?l 0, rn_deadline = None\<rparr>"
    by (simp add: runtime_start_def egress_env_def memory_delivery_log_def Engine_new_def)
  moreover have "\<exists>l1 l2. dlog_insert_intent ?L ?l (egress_intent 0) = (Ok (), l1) \<and>
      dlog_record_attempt ?L l1 (lit ''d'') 1 (0 + 1) = (Ok (), l2)"
    by (simp add: memory_delivery_log_def memory_insert_intent_def memory_record_attempt_def InMemoryDeliveryLog_new_def
        make_room.simps ml_len_def fcard_fempty DeliveryRecord_from_stored_parts_def)
  ultimately show thesis using that by (metis egress_commands_reach)
qed

lemma sql_commands_reach:
  obtains r where "egress_reach (egress_env (sql_delivery_log log_limits)) egress_registry log_conn egress_commands r"
    and "rn_deadline r = None" and "en_global_in_flight (rn_engine r) = 1"
    and "fmlookup (en_active (rn_engine r)) (lit ''d'') \<noteq> None"
proof -
  let ?L = "sql_delivery_log log_limits"
  have "\<exists>n. sql_recover_unfinished log_conn 0 = (Ok n, log_conn)"
    by (simp add: sql_recover_unfinished_def encoded_time_cases i64_max_def log_conn_def empty_database_def
        update_delivery_rows_def update_rows_def update_data_def)
  then have "runtime_start (egress_env ?L) egress_registry log_conn =
      Ok \<lparr>rn_engine = egress_fresh log_conn 1, rn_deadline = None\<rparr>"
    by (auto simp: runtime_start_def egress_env_def sql_delivery_log_def)
  moreover have "\<exists>l1 l2. dlog_insert_intent ?L log_conn (egress_intent 1) = (Ok (), l1) \<and>
      dlog_record_attempt ?L l1 (lit ''d'') 1 (1 + 1) = (Ok (), l2)"
    by (simp add: sql_delivery_log_def sql_insert_intent_def sql_record_attempt_def encoded_time_cases i64_max_def
        i64_min_def log_conn_def i64_try_from_def in_i64_def as_millis_def PersistentDeliveryLogLimits_default_def
        from_secs_def saturating_sub_i64_def saturating_add_i64_def sql_insert_intent_body_def sql_insert_checked_def
        delete_delivery_rows_def empty_database_def usage_read_def usage_insert_def usage_check_def
        checked_mul_i64_def tbl_def insert_delivery_row_def delivery_row_check_def update_delivery_rows_def
        update_rows_def count_rows_def commit_def transaction_def update_data_def
        PERSISTENT_DELIVERY_RECORD_CHARGE_BYTES_def delivery_transition_def Let_def)
  ultimately show thesis using that by (metis egress_commands_reach)
qed

theorem egress_limits_witness:
  "\<exists>r. egress_reach (egress_env memory_delivery_log) egress_registry (InMemoryDeliveryLog_new 64) egress_commands r \<and>
     en_global_in_flight (rn_engine r) = 1 \<and> lit ''d'' \<in> entries (en_active (rn_engine r)) (\<lambda>_. True) \<and>
     card (entries (en_active (rn_engine r)) ad_abort) = 1 \<and>
     (\<forall>route. us_in_flight (usage_of (rn_engine r) route) \<le> 1)"
proof -
  let ?v = "egress_env memory_delivery_log"
  obtain r where r: "egress_reach ?v egress_registry (InMemoryDeliveryLog_new 64) egress_commands r"
    "en_global_in_flight (rn_engine r) = 1" "fmlookup (en_active (rn_engine r)) (lit ''d'') \<noteq> None"
    by (rule memory_commands_reach)
  have "ee_log ?v = memory_delivery_log" "InMemoryDeliveryLogLimit_new 64 = Ok 64"
    by (simp_all add: egress_env_def InMemoryDeliveryLogLimit_new_def MIN_IN_MEMORY_LOG_ENTRIES_def MAX_IN_MEMORY_LOG_ENTRIES_def)
  from egress_limits [OF egress_env_steady this r(1) egress_commands_valid(2) refl] r show ?thesis
    by (auto simp: egress_env_def entries_def)
qed

theorem egress_no_delivery_lost_witness:
  "\<exists>r a. egress_reach (egress_env (sql_delivery_log log_limits)) egress_registry log_conn egress_commands r \<and>
     fmlookup (en_active (rn_engine r)) (lit ''d'') = Some a \<and> attended (egress_env (sql_delivery_log log_limits)) r (lit ''d'') a \<and>
     (pending (sql_del_recs (en_log (rn_engine r)) (lit ''d'')) \<and> fmlookup (en_overrides (rn_engine r)) (lit ''d'') = None \<longleftrightarrow>
        fmlookup (en_calls (rn_engine r)) (lit ''d'') = None)"
proof -
  let ?v = "egress_env (sql_delivery_log log_limits)"
  obtain r where r: "egress_reach ?v egress_registry log_conn egress_commands r"
    "fmlookup (en_active (rn_engine r)) (lit ''d'') \<noteq> None"
    by (rule sql_commands_reach)
  then obtain a where a: "fmlookup (en_active (rn_engine r)) (lit ''d'') = Some a" by blast
  have "ee_log ?v = sql_delivery_log log_limits" by (simp add: egress_env_def)
  note lost = egress_no_delivery_lost [OF egress_env_steady this log_conn_inv r(1) egress_commands_valid(1) refl]
  have "attended ?v r (lit ''d'') a" using lost a by blast
  with spec [OF conjunct1 [OF lost], of "lit ''d''"] r(1) a show ?thesis
    by (intro exI [of _ r] exI [of _ a]) simp
qed

lemma egress_closing:
  fixes l :: "'l delivery_log"
  assumes "runtime_run (egress_env l) es r0 = Some r1" and "rn_deadline r1 = None"
  shows "\<exists>r t. runtime_run (egress_env l) (es @ [LoopClosed]) r0 = Some r \<and> rn_deadline r = Some t \<and>
    t \<le> tt_monotonic (ee_clock (egress_env l) (en_ticks (rn_engine r)))"
proof -
  let ?v = "egress_env l" and ?s = "rn_engine r1"
  let ?b = "begin_shutdown ?v [] ?s"
  let ?r = "?b\<lparr>rn_engine := loop_top ?v (rn_engine ?b)\<rparr>"
  have run: "runtime_run ?v (es @ [LoopClosed]) r0 = Some ?r"
    using assms by (simp add: runtime_run_snoc loop_done_def loop_select_def)
  have ticks: "en_ticks ?s + 1 \<le> en_ticks (rn_engine ?r)"
    using ticks_top [of "rn_engine ?b" ?v] by (simp add: begin_shutdown_def read_clock_def reject_drains_eq)
  have "rn_deadline ?r = Some (instant_saturating_add (from_secs (en_ticks ?s)) (from_secs 1))"
    by (simp add: begin_shutdown_def read_clock_def egress_env_def)
  moreover have "instant_saturating_add (from_secs (en_ticks ?s)) (from_secs 1) \<le> from_secs (en_ticks ?s + 1)"
    by (simp add: instant_saturating_add_def from_secs_def)
  moreover have "from_secs (en_ticks ?s + 1) \<le> from_secs (en_ticks (rn_engine ?r))"
    using ticks by (simp add: from_secs_def)
  ultimately show ?thesis using run by (auto simp: egress_env_def intro: order_trans)
qed

theorem egress_shutdown_witness:
  "\<exists>es r'. egress_reach (egress_env (sql_delivery_log log_limits)) egress_registry log_conn (egress_commands @ LoopClosed # es) r' \<and>
     loop_done r' \<and> answers (rn_engine r') 1 = 1 \<and> answers (rn_engine r') 2 = 1 \<and> answers (rn_engine r') 3 = 0"
proof -
  let ?v = "egress_env (sql_delivery_log log_limits)" and ?es = "egress_commands @ [LoopClosed]"
  obtain r0 r1 where r1: "runtime_start ?v egress_registry log_conn = Ok r0"
    "runtime_run ?v egress_commands r0 = Some r1" "rn_deadline r1 = None"
    using sql_commands_reach unfolding egress_reach_def by metis
  obtain r t where r: "runtime_run ?v ?es r0 = Some r" "rn_deadline r = Some t"
    "t \<le> tt_monotonic (ee_clock ?v (en_ticks (rn_engine r)))"
    using egress_closing [OF r1(2,3)] by blast
  have reach: "egress_reach ?v egress_registry log_conn ?es r" using r1(1) r(1) by (auto simp: egress_reach_def)
  have log: "ee_log ?v = sql_delivery_log log_limits" by (simp add: egress_env_def)
  have "list_all (event_valid valid_intent) ?es" using egress_commands_valid(1) by simp
  from egress_shutdown [OF egress_env_steady log log_conn_inv reach this r(2,3)] obtain r' where
    r': "if loop_done r then r' = r else egress_reach ?v egress_registry log_conn (?es @ [LoopTimer]) r'" "loop_done r'"
    "\<forall>h. answers (rn_engine r') h = count_list (concat (map event_handles ?es)) h"
    by blast
  have "\<exists>es. egress_reach ?v egress_registry log_conn (egress_commands @ LoopClosed # es) r'"
    using r'(1) reach by (cases "loop_done r") auto
  with r'(2,3) show ?thesis by (auto intro!: exI [of _ r'])
qed

end
