(* ===== verification/Spec2Isabelle.thy ===== *)
theory Spec2Isabelle
  imports Host_Dispatch Host_Auth Host_Delivery Host_Dedup Host_Limits Host_Transport Host_Webhook
    Host_Egress
begin

text \<open>
  \<^bold>\<open>Bondry: a local capability host.\<close> A host process registers capabilities; clients with bearer
  tokens, MCP and REST adapters and signed webhooks invoke them; outgoing events are delivered over a
  checked transport. This development models the parts of the repository that decide something and
  proves what makes each of them correct, alone and composed. Source files are named relative to
  \<open>src/crates/\<close>.

  \<^bold>\<open>Conventions\<close> (\<open>Prelude\<close>, \<open>Rust_Text\<close>). A \<open>String\<close> is a list of code points, bytes are 8-bit
  words, \<open>i64\<close> is an integer with its range written out, unsigned integers are naturals with checked,
  saturating or wrapping operations as the source has them, a \<open>Duration\<close> or \<open>Instant\<close> is a number of
  nanoseconds. A \<open>Result\<close> is a sum with \<open>Err\<close> and \<open>Ok\<close>. Mutable state is passed explicitly. Clocks,
  random bytes, HMAC, SHA-256, JSON parsing and schema validators are parameters; what a property needs of
  them is one of its hypotheses.

  \<^bold>\<open>Core\<close> (\<open>contract/bondry-core\<close>). \<open>Identifiers\<close> and \<open>Core_Model\<close> hold identifiers, principals,
  capability descriptors, the registry and audit events; \<open>Core_Policy\<close> the grant policy and its locale
  \<open>grant_authority\<close>; \<open>Core_Dispatch\<close> the dispatcher, cut at the point where it awaits a handler, and the
  step relation that interleaves any number of invocations with cancellation and administration.
  \<open>Host_Dispatch\<close> states for the SQL-backed host that nothing happens without a grant, an accepted input
  and a start event in the log, which events each result leaves, that interleaving keeps the log well
  bracketed, that queries return what was recorded, and that discovery lists what was registered and
  granted.

  \<^bold>\<open>Authentication\<close> (\<open>contract/bondry-auth\<close>). \<open>Auth_Model\<close> has tokens, digests and records,
  \<open>Auth_Store\<close> the store trait as a locale, \<open>Auth_Manager\<close> every operation of the manager with its retry
  loops. \<open>Host_Auth\<close>: authentication is exact, a revoked token stays revoked, rotation is atomic,
  issued secrets authenticate, the store invariant is kept.

  \<^bold>\<open>Encrypted store\<close> (\<open>store/bondry-store-sqlcipher\<close>). \<open>Sql_Database\<close> models tables as row lists with
  their constraints, and a connection as data plus a plan saying which of its next calls fail; a
  transaction that does not commit leaves the data alone. \<open>Sql_Auth\<close>, \<open>Sql_Grants\<close>, \<open>Sql_Audit\<close>,
  \<open>Sql_Usage\<close>, \<open>Sql_Delivery\<close>, \<open>Sql_Dedup\<close> and \<open>Dedup_Scan\<close> have the statements of the source one by
  one and interpret the contracts; \<open>Codec_Instance\<close> gives text codecs.

  \<^bold>\<open>Delivery log and deduplication\<close> (\<open>contract/bondry-delivery-store\<close>, the log of
  \<open>engine/bondry-egress-runtime\<close>). \<open>Delivery_Model\<close> and \<open>Dedup_Model\<close> state the contracts as locales over
  abstract maps and event sequences; \<open>Memory_Log\<close> is the process-local log. \<open>Host_Delivery\<close> and
  \<open>Host_Dedup\<close>: a delivery ends once, recovery is complete, a webhook identity is claimed at most once,
  uncertain dispatches stay until resolved, and what each operation returns on every branch. The scan over
  unknown records is a \<open>partial_function\<close>; that it returns is proved.

  \<^bold>\<open>Rate limits\<close> (\<open>engine/bondry-http-server/src/rate_limit.rs\<close>,
  \<open>proto/bondry-webhook-ingress/src/limiter.rs\<close>). \<open>Rate_Limit\<close> and \<open>Host_Limits\<close>: both sliding windows
  decide as a limiter that never forgets, the HTTP one from a window after the earliest instant its
  platform can represent, the webhook one when the first request carries a time above zero; that neither
  limits anything before that is proved as well.

  \<^bold>\<open>Transport policy\<close> (\<open>contract/bondry-transport\<close>). \<open>Transport_Policy\<close> and \<open>Host_Transport\<close>:
  endpoints, address classes and the connection policy; cleartext goes to local peers only, and outside two
  IPv6 blocks that the code files against its documentation the byte comparisons equal the table of address
  blocks.

  \<^bold>\<open>Webhooks\<close> (\<open>contract/bondry-secrets\<close>, \<open>proto/bondry-webhook-verify\<close>,
  \<open>proto/bondry-webhook-ingress\<close>). \<open>Secrets_Model\<close> signs and verifies, \<open>Webhook_Verify\<close> has the four
  verifiers behind the locale \<open>webhook_verifier_contract\<close>, \<open>Webhook_Payload\<close> the charge and mapping of
  bodies, \<open>Webhook_Route\<close> routes, replay guards and \<open>prepare\<close>/\<open>complete\<close>, \<open>Webhook_System\<close> the step
  relation of many deliveries with crashes and operators, and the locale \<open>webhook_host\<close>.
  \<open>Host_Signatures\<close> and \<open>Host_Webhook\<close>: what is accepted, that signatures are unambiguous and replay is
  bounded, what a constructed route guarantees, how claims end, and that a handler starts at most once
  per delivery end to end on routes that keep replay state for good.

  \<^bold>\<open>Egress\<close> (\<open>egress/bondry-egress\<close>, \<open>engine/bondry-egress-runtime\<close>). \<open>Egress_Model\<close> has limits and the
  lifecycle of a delivery with its retry delays, \<open>Egress_Route\<close> payload contracts and the route registry
  with its token buckets, \<open>Egress_Engine\<close> the state of the engine and every function that admits, starts,
  persists and ends deliveries and calls, \<open>Egress_Loop\<close> fair dispatch, completions, deadlines, drains,
  shutdown and the event loop. \<open>Egress_Books\<close> (accounts), \<open>Egress_Settle\<close> (agreement with the log, and the
  locale \<open>egress_host\<close> of an engine over any log that keeps its contract) and \<open>Egress_Fair\<close> (queues) make up
  the invariant of \<open>Egress_Run\<close>; \<open>Egress_Calls\<close>, \<open>Egress_Steps\<close>, \<open>Egress_Turn\<close>, \<open>Egress_Commands\<close> and
  \<open>Egress_Dispatch\<close> show that everything the engine does keeps it, \<open>Egress_Life\<close> that it holds from start to
  shutdown. \<open>Host_Egress\<close> interprets the locale on both logs: how often and how soon a delivery is retried,
  that the accounts are exact and within the limits, that no accepted delivery is forgotten, and that
  shutdown ends with every command answered and no delivery left pending.

  \<^bold>\<open>Bounds and fuel.\<close> No operation of the model uses fuel: loops are structural recursion, functions with
  a termination measure, or \<open>partial_function (option)\<close> with a proof that they return. Numeric limits are
  those of the source.

  \<^bold>\<open>Not modelled.\<close> Sockets, TLS and HTTP clients and servers (\<open>bondry-transport-net\<close>, most of
  \<open>bondry-http-server\<close>) are asynchronous I/O over third-party crates. The C ABI layers under \<open>ffi/\<close>
  marshal pointers. Schema creation, migration and keying of the database are calls into SQLCipher; the
  constraints they declare are part of the tables here. The MCP and REST adapters translate JSON values
  of a third-party library. The Unix credential store is file-system I/O. Zeroization, constant-time
  comparison beyond its result, and memory safety are outside HOL.
\<close>

end
